(* ===== verification/Prelude.thy ===== *)
theory Prelude
  imports Main "HOL-Library.Word" "HOL-Library.AList"
begin

text \<open>
  Shared vocabulary of the development.

  \<^item> Rust's fixed-width integers are \<open>'w word\<close>s; the signed types are words of the same
    width read with \<open>sint\<close>. \<open>usize\<close> is \<open>nat\<close>, with the 64-bit bound \<open>usize_max\<close> written
    out where the source checks for overflow.
  \<^item> \<open>Result<T, E>\<close> is the sum type \<open>'e + 'a\<close> (\<open>Inl\<close> the error); the operator \<open>?\<close> is \<open>rbind\<close>.
  \<^item> \<open>HashMap\<close> is an association list with distinct keys, so that iteration is executable
    and every iteration order is covered; \<open>BTreeMap\<close> is an association list with strictly
    increasing keys, the order the standard library iterates in.
  \<^item> \<open>token_machine\<close> is the contract of every component that hands out revocable tokens
    (arena handles, ownership epochs, routing epochs): a spent token is never live again.
\<close>

unbundle bit_operations_syntax

named_theorems result_simps \<open>unfolding rules of the result monad\<close>
named_theorems byte_simps \<open>lengths and round trips of integer byte encodings\<close>
named_theorems reads_intros \<open>introduction rules for reader specifications\<close>

type_synonym u8 = "8 word"
type_synonym u16 = "16 word"
type_synonym u32 = "32 word"
type_synonym u64 = "64 word"
type_synonym i8 = "8 word"
type_synonym i16 = "16 word"
type_synonym i32 = "32 word"
type_synonym i64 = "64 word"
type_synonym f32 = "32 word"
type_synonym f64 = "64 word"
type_synonym bytes = "8 word list"

section \<open>Results\<close>

definition rbind :: "'e + 'a \<Rightarrow> ('a \<Rightarrow> 'e + 'b) \<Rightarrow> 'e + 'b" where
  "rbind m f = (case m of Inl e \<Rightarrow> Inl e | Inr x \<Rightarrow> f x)"

definition ok_or :: "'a option \<Rightarrow> 'e \<Rightarrow> 'e + 'a" where
  "ok_or m e = (case m of None \<Rightarrow> Inl e | Some x \<Rightarrow> Inr x)"

definition map_err :: "('e \<Rightarrow> 'f) \<Rightarrow> 'e + 'a \<Rightarrow> 'f + 'a" where
  "map_err f m = (case m of Inl e \<Rightarrow> Inl (f e) | Inr x \<Rightarrow> Inr x)"

definition map_ok :: "('a \<Rightarrow> 'b) \<Rightarrow> 'e + 'a \<Rightarrow> 'e + 'b" where
  "map_ok f m = (case m of Inl e \<Rightarrow> Inl e | Inr x \<Rightarrow> Inr (f x))"

definition ensure :: "bool \<Rightarrow> 'e \<Rightarrow> 'e + unit" where
  "ensure b e = (if b then Inr () else Inl e)"

text \<open>A \<open>for\<close> loop whose body may return early with an error.\<close>

fun for_each :: "('a \<Rightarrow> 's \<Rightarrow> 'e + 's) \<Rightarrow> 'a list \<Rightarrow> 's \<Rightarrow> 'e + 's" where
  "for_each f [] s = Inr s"
| "for_each f (x # xs) s = rbind (f x s) (for_each f xs)"

text \<open>\<open>iter().map(f).collect::<Result<Vec<_>, _>>()\<close>.\<close>

fun collect_results :: "('a \<Rightarrow> 'e + 'b) \<Rightarrow> 'a list \<Rightarrow> 'e + 'b list" where
  "collect_results f [] = Inr []"
| "collect_results f (x # xs) =
     rbind (f x) (\<lambda>y. rbind (collect_results f xs) (\<lambda>ys. Inr (y # ys)))"

lemma rbind_simps [simp, result_simps]:
  "rbind (Inl e) f = Inl e"
  "rbind (Inr x) f = f x"
  by (simp_all add: rbind_def)

lemma rbind_Inr_iff [result_simps]:
  "rbind m f = Inr y \<longleftrightarrow> (\<exists>x. m = Inr x \<and> f x = Inr y)"
  by (cases m) simp_all

lemma rbind_Inl_iff [result_simps]:
  "rbind m f = Inl e \<longleftrightarrow> m = Inl e \<or> (\<exists>x. m = Inr x \<and> f x = Inl e)"
  by (cases m) auto

lemma rbindE:
  assumes "rbind m f = Inr y"
  obtains x where "m = Inr x" and "f x = Inr y"
  using assms by (auto simp: rbind_Inr_iff)

lemma rbind_assoc: "rbind (rbind m f) g = rbind m (\<lambda>x. rbind (f x) g)"
  by (cases m) simp_all

lemma rbind_cong [fundef_cong]:
  "m = m' \<Longrightarrow> (\<And>x. m' = Inr x \<Longrightarrow> f x = f' x) \<Longrightarrow> rbind m f = rbind m' f'"
  by (cases m') simp_all

lemma ok_or_simps [simp, result_simps]:
  "ok_or None e = Inl e"
  "ok_or (Some x) e = Inr x"
  by (simp_all add: ok_or_def)

lemma ok_or_Inr_iff [result_simps]: "ok_or m e = Inr x \<longleftrightarrow> m = Some x"
  by (cases m) simp_all

lemma ok_or_Inl_iff [result_simps]: "ok_or m e = Inl e' \<longleftrightarrow> m = None \<and> e' = e"
  by (cases m) auto

lemma map_err_simps [simp, result_simps]:
  "map_err f (Inl e) = Inl (f e)"
  "map_err f (Inr x) = Inr x"
  by (simp_all add: map_err_def)

lemma map_err_Inr_iff [result_simps]: "map_err f m = Inr x \<longleftrightarrow> m = Inr x"
  by (cases m) simp_all

lemma map_ok_simps [simp, result_simps]:
  "map_ok f (Inl e) = Inl e"
  "map_ok f (Inr x) = Inr (f x)"
  by (simp_all add: map_ok_def)

lemma map_ok_Inr_iff [result_simps]: "map_ok f m = Inr y \<longleftrightarrow> (\<exists>x. m = Inr x \<and> y = f x)"
  by (cases m) auto

lemma ensure_simps [simp, result_simps]:
  "ensure True e = Inr ()"
  "ensure False e = Inl e"
  by (simp_all add: ensure_def)

lemma ensure_Inr_iff [result_simps]: "ensure b e = Inr u \<longleftrightarrow> b"
  by (simp add: ensure_def)

lemma ensure_Inl_iff [result_simps]: "ensure b e = Inl e' \<longleftrightarrow> \<not> b \<and> e' = e"
  by (auto simp: ensure_def)

lemma isl_iff: "isl m \<longleftrightarrow> (\<forall>y. m \<noteq> Inr y)"
  by (cases m) auto

lemma for_each_append:
  "for_each f (xs @ ys) s = rbind (for_each f xs s) (for_each f ys)"
  by (induction xs arbitrary: s) (simp_all add: rbind_assoc cong: rbind_cong)

lemma for_each_invariant:
  assumes "for_each f xs s = Inr t" and "P s"
    and "\<And>x s t. x \<in> set xs \<Longrightarrow> P s \<Longrightarrow> f x s = Inr t \<Longrightarrow> P t"
  shows "P t"
  using assms by (induction xs arbitrary: s) (auto simp: rbind_Inr_iff)

lemma collect_results_Inr_iff:
  "collect_results f xs = Inr ys \<longleftrightarrow> list_all2 (\<lambda>x y. f x = Inr y) xs ys"
proof (induction xs arbitrary: ys)
  case Nil
  then show ?case by auto
next
  case (Cons x xs)
  then show ?case by (cases ys) (auto simp: rbind_Inr_iff)
qed

lemma collect_results_length: "collect_results f xs = Inr ys \<Longrightarrow> length ys = length xs"
  by (auto simp: collect_results_Inr_iff dest: list_all2_lengthD)

lemma ex_list_iff: "(\<exists>xs. P xs) \<longleftrightarrow> P [] \<or> (\<exists>x xs. P (x # xs))"
  by (metis neq_Nil_conv)

section \<open>Checked, saturating and Euclidean integer operations\<close>

definition usize_max :: nat where
  "usize_max = 2 ^ 64 - 1"

definition usize_checked_add :: "nat \<Rightarrow> nat \<Rightarrow> nat option" where
  "usize_checked_add a b = (if a + b \<le> usize_max then Some (a + b) else None)"

definition usize_checked_mul :: "nat \<Rightarrow> nat \<Rightarrow> nat option" where
  "usize_checked_mul a b = (if a * b \<le> usize_max then Some (a * b) else None)"

definition checked_add :: "'w::len word \<Rightarrow> 'w word \<Rightarrow> 'w word option" where
  "checked_add a b = (if unat a + unat b < 2 ^ LENGTH('w) then Some (a + b) else None)"

definition saturating_add :: "'w::len word \<Rightarrow> 'w word \<Rightarrow> 'w word" where
  "saturating_add a b = (case checked_add a b of Some c \<Rightarrow> c | None \<Rightarrow> - 1)"

definition saturating_sub :: "'w::len word \<Rightarrow> 'w word \<Rightarrow> 'w word" where
  "saturating_sub a b = (if b \<le> a then a - b else 0)"

text \<open>Clamping to the range of a signed type of width \<open>'w\<close>.\<close>

definition sclamp :: "int \<Rightarrow> 'w::len word" where
  "sclamp k = word_of_int (max (- (2 ^ (LENGTH('w) - 1))) (min (2 ^ (LENGTH('w) - 1) - 1) k))"

definition i32_saturating_add :: "i32 \<Rightarrow> i32 \<Rightarrow> i32" where
  "i32_saturating_add a b = sclamp (sint a + sint b)"

definition i32_saturating_sub :: "i32 \<Rightarrow> i32 \<Rightarrow> i32" where
  "i32_saturating_sub a b = sclamp (sint a - sint b)"

text \<open>\<open>i32::div_euclid\<close> and \<open>i32::rem_euclid\<close> for a positive divisor (floor division).\<close>

definition i32_div_euclid :: "i32 \<Rightarrow> int \<Rightarrow> i32" where
  "i32_div_euclid a d = word_of_int (sint a div d)"

definition i32_rem_euclid :: "i32 \<Rightarrow> int \<Rightarrow> nat" where
  "i32_rem_euclid a d = nat (sint a mod d)"

lemma checked_add_Some_iff:
  "checked_add a b = Some c \<longleftrightarrow> unat (a :: 'w::len word) + unat b < 2 ^ LENGTH('w) \<and> c = a + b"
  by (auto simp: checked_add_def)

lemma checked_add_unat: "checked_add a b = Some c \<Longrightarrow> unat c = unat a + unat b"
  by (auto simp: checked_add_def unat_word_ariths split: if_splits)

lemma checked_add_None_iff:
  "checked_add a b = None \<longleftrightarrow> 2 ^ LENGTH('w) \<le> unat (a :: 'w::len word) + unat b"
  by (auto simp: checked_add_def)

lemma checked_add_1_less:
  fixes a :: "'w::len word"
  assumes "checked_add a 1 = Some b"
  shows "a < b"
proof (cases "LENGTH('w) = 0")
  case True
  then show ?thesis by simp
next
  case False
  then have "unat (1 :: 'w word) = 1" by simp
  with checked_add_unat [OF assms] show ?thesis
    by (simp add: word_less_nat_alt)
qed

lemma checked_add_1_None:
  fixes a :: "'w::len word"
  shows "checked_add a 1 = None \<longleftrightarrow> a = - 1"
proof -
  have "unat (1 :: 'w word) = 1" by simp
  moreover have "unat (- 1 :: 'w word) = 2 ^ LENGTH('w) - 1"
    by (simp add: unsigned_minus_1_eq_mask mask_eq_exp_minus_1)
  moreover have "unat a + 1 \<le> 2 ^ LENGTH('w)"
    by (simp add: Suc_le_eq unsigned_less)
  ultimately have "(2 ^ LENGTH('w) \<le> unat a + unat (1 :: 'w word)) = (unat a = unat (- 1 :: 'w word))"
    by linarith
  then show ?thesis by (simp add: checked_add_None_iff word_unat_eq_iff)
qed

lemma usize_checked_add_Some_iff [result_simps]:
  "usize_checked_add a b = Some c \<longleftrightarrow> a + b \<le> usize_max \<and> c = a + b"
  by (auto simp: usize_checked_add_def)

lemma usize_checked_mul_Some_iff [result_simps]:
  "usize_checked_mul a b = Some c \<longleftrightarrow> a * b \<le> usize_max \<and> c = a * b"
  by (auto simp: usize_checked_mul_def)

section \<open>Hash maps and ordered maps\<close>

text \<open>
  The operations a client of \<open>HashMap\<close> and \<open>BTreeMap\<close> uses, as a contract: \<open>get\<close>,
  \<open>insert\<close>, \<open>remove\<close>, and the well-formedness that the standard library's types guarantee.
\<close>

locale dictionary =
  fixes get :: "'m \<Rightarrow> 'k \<Rightarrow> 'v option"
    and put :: "'k \<Rightarrow> 'v \<Rightarrow> 'm \<Rightarrow> 'm"
    and del :: "'k \<Rightarrow> 'm \<Rightarrow> 'm"
    and wf :: "'m \<Rightarrow> bool"
  assumes get_put: "wf m \<Longrightarrow> get (put k v m) = (get m)(k \<mapsto> v)"
    and get_del: "wf m \<Longrightarrow> get (del k m) = (get m)(k := None)"
    and wf_put: "wf m \<Longrightarrow> wf (put k v m)"
    and wf_del: "wf m \<Longrightarrow> wf (del k m)"
begin

lemma wf_fold_put: "wf m \<Longrightarrow> wf (fold (\<lambda>(k, v). put k v) kvs m)"
  by (induction kvs arbitrary: m) (auto intro: wf_put)

lemma get_fold_put:
  "wf m \<Longrightarrow> get (fold (\<lambda>(k, v). put k v) kvs m) = get m ++ map_of (rev kvs)"
proof (induction kvs arbitrary: m)
  case Nil
  then show ?case by simp
next
  case (Cons kv kvs)
  obtain k v where kv: "kv = (k, v)" by (cases kv)
  from Cons.prems have "wf (put k v m)" by (rule wf_put)
  then have "get (fold (\<lambda>(k, v). put k v) kvs (put k v m)) = (get m)(k \<mapsto> v) ++ map_of (rev kvs)"
    by (simp only: Cons.IH get_put [OF Cons.prems])
  then show ?case by (simp add: kv map_add_def fun_eq_iff split: option.splits)
qed

lemma get_del_put: "wf m \<Longrightarrow> get m k = None \<Longrightarrow> get (del k (put k v m)) = get m"
  by (simp add: get_put get_del wf_put fun_upd_idem)

end

abbreviation hm_get :: "('k \<times> 'v) list \<Rightarrow> 'k \<Rightarrow> 'v option" where
  "hm_get \<equiv> map_of"

abbreviation hm_insert :: "'k \<Rightarrow> 'v \<Rightarrow> ('k \<times> 'v) list \<Rightarrow> ('k \<times> 'v) list" where
  "hm_insert \<equiv> AList.update"

abbreviation hm_remove :: "'k \<Rightarrow> ('k \<times> 'v) list \<Rightarrow> ('k \<times> 'v) list" where
  "hm_remove \<equiv> AList.delete"

definition hm_wf :: "('k \<times> 'v) list \<Rightarrow> bool" where
  "hm_wf m \<longleftrightarrow> distinct (map fst m)"

fun bt_insert :: "'k::linorder \<Rightarrow> 'v \<Rightarrow> ('k \<times> 'v) list \<Rightarrow> ('k \<times> 'v) list" where
  "bt_insert k v [] = [(k, v)]"
| "bt_insert k v ((k', v') # m) =
     (if k < k' then (k, v) # (k', v') # m
      else if k = k' then (k, v) # m
      else (k', v') # bt_insert k v m)"

fun bt_remove :: "'k::linorder \<Rightarrow> ('k \<times> 'v) list \<Rightarrow> ('k \<times> 'v) list" where
  "bt_remove k [] = []"
| "bt_remove k ((k', v') # m) = (if k = k' then m else (k', v') # bt_remove k m)"

definition bt_wf :: "('k::linorder \<times> 'v) list \<Rightarrow> bool" where
  "bt_wf m \<longleftrightarrow> sorted_wrt (<) (map fst m)"

lemma hm_wf_Nil [simp]: "hm_wf []"
  by (simp add: hm_wf_def)

lemma bt_wf_Nil [simp]: "bt_wf []"
  by (simp add: bt_wf_def)

interpretation hm: dictionary hm_get hm_insert hm_remove hm_wf
proof
  fix m :: "('k \<times> 'v) list" and k :: 'k and v :: 'v
  show "map_of (AList.update k v m) = (map_of m)(k \<mapsto> v)" by (rule update_conv')
  show "map_of (AList.delete k m) = (map_of m)(k := None)" by (rule delete_conv')
  show "hm_wf m \<Longrightarrow> hm_wf (AList.update k v m)"
    by (simp add: hm_wf_def distinct_update)
  show "hm_wf m \<Longrightarrow> hm_wf (AList.delete k m)"
    by (simp add: hm_wf_def distinct_delete)
qed

lemma fst_set_bt_insert: "fst ` set (bt_insert k v m) = insert k (fst ` set m)"
  by (induction k v m rule: bt_insert.induct) auto

lemma set_bt_remove_subset: "set (bt_remove k m) \<subseteq> set m"
  by (induction k m rule: bt_remove.induct) auto

lemma bt_wf_insert: "bt_wf m \<Longrightarrow> bt_wf (bt_insert k v m)"
proof (induction k v m rule: bt_insert.induct)
  case (1 k v)
  then show ?case by (simp add: bt_wf_def)
next
  case (2 k v k' v' m)
  then have m: "bt_wf m" and lt: "\<forall>x \<in> fst ` set m. k' < x"
    by (auto simp: bt_wf_def)
  consider "k < k'" | "k = k'" | "k' < k" by (rule linorder_cases)
  then show ?case
  proof cases
    case 3
    with "2.IH" m have "bt_wf (bt_insert k v m)" by simp
    moreover from 3 lt have "\<forall>x \<in> fst ` set (bt_insert k v m). k' < x"
      by (simp add: fst_set_bt_insert)
    ultimately show ?thesis using 3 by (auto simp: bt_wf_def)
  qed (use m lt in \<open>auto simp: bt_wf_def\<close>)
qed

lemma bt_wf_remove: "bt_wf m \<Longrightarrow> bt_wf (bt_remove k m)"
proof (induction k m rule: bt_remove.induct)
  case (1 k)
  then show ?case by simp
next
  case (2 k k' v' m)
  then have "bt_wf m" and "\<forall>x \<in> set m. k' < fst x"
    by (auto simp: bt_wf_def)
  with 2 set_bt_remove_subset [of k m] show ?case
    by (auto simp: bt_wf_def)
qed

interpretation bt: dictionary map_of bt_insert bt_remove bt_wf
proof
  fix m :: "('k::linorder \<times> 'v) list" and k :: 'k and v :: 'v
  show "map_of (bt_insert k v m) = (map_of m)(k \<mapsto> v)"
    by (induction k v m rule: bt_insert.induct) (auto simp: fun_eq_iff)
  show "bt_wf m \<Longrightarrow> map_of (bt_remove k m) = (map_of m)(k := None)"
  proof (induction k m rule: bt_remove.induct)
    case (1 k)
    then show ?case by simp
  next
    case (2 k k' v' m)
    then have "bt_wf m" and "k' \<notin> fst ` set m" by (auto simp: bt_wf_def)
    then have "map_of m k' = None" by (simp add: map_of_eq_None_iff)
    with 2 \<open>bt_wf m\<close> show ?case by (auto simp: fun_eq_iff)
  qed
  show "bt_wf m \<Longrightarrow> bt_wf (bt_insert k v m)" by (rule bt_wf_insert)
  show "bt_wf m \<Longrightarrow> bt_wf (bt_remove k m)" by (rule bt_wf_remove)
qed

lemma bt_insert_last:
  "\<forall>x \<in> fst ` set m. x < k \<Longrightarrow> bt_insert k v m = m @ [(k, v)]"
  by (induction k v m rule: bt_insert.induct) auto

section \<open>Machines that revoke tokens\<close>

text \<open>
  \<open>spent s t\<close> says that the token \<open>t\<close> has been revoked in \<open>s\<close>. A provider shows that a step
  never un-spends a token and that a spent token is not live; the client then knows that
  no later history revalidates it.
\<close>

locale invariant_machine =
  fixes step :: "'s \<Rightarrow> 's \<Rightarrow> bool"
    and inv :: "'s \<Rightarrow> bool"
  assumes inv_step: "inv s \<Longrightarrow> step s t \<Longrightarrow> inv t"
begin

lemma inv_steps: "step\<^sup>*\<^sup>* s t \<Longrightarrow> inv s \<Longrightarrow> inv t"
  by (induction rule: rtranclp_induct) (auto intro: inv_step)

end

locale token_machine = invariant_machine step inv
  for step :: "'s \<Rightarrow> 's \<Rightarrow> bool" and inv :: "'s \<Rightarrow> bool" +
  fixes live :: "'s \<Rightarrow> 't \<Rightarrow> bool"
    and spent :: "'s \<Rightarrow> 't \<Rightarrow> bool"
  assumes spent_step: "inv s \<Longrightarrow> step s t \<Longrightarrow> spent s x \<Longrightarrow> spent t x"
    and spent_not_live: "inv s \<Longrightarrow> spent s x \<Longrightarrow> \<not> live s x"
begin

lemma spent_steps: "step\<^sup>*\<^sup>* s t \<Longrightarrow> inv s \<Longrightarrow> spent s x \<Longrightarrow> spent t x"
  by (induction rule: rtranclp_induct) (auto intro: spent_step inv_steps)

lemma spent_never_live: "step\<^sup>*\<^sup>* s t \<Longrightarrow> inv s \<Longrightarrow> spent s x \<Longrightarrow> \<not> live t x"
  using spent_not_live [OF inv_steps spent_steps] by blast

end

lemma sint_of_i32:
  assumes "- (2 ^ 31) \<le> k" "k < 2 ^ 31"
  shows "sint (word_of_int k :: i32) = k"
  using assms by (simp add: signed_of_int signed_take_bit_int_eq_self)

section \<open>Row-major windows\<close>

text \<open>A pair of loops that writes every element of a fresh array once, in row order.\<close>

definition raster :: "nat \<Rightarrow> nat \<Rightarrow> (nat \<Rightarrow> nat \<Rightarrow> 'a) \<Rightarrow> 'a list" where
  "raster width height f = concat (map (\<lambda>dz. map (\<lambda>dx. f dx dz) [0..<width]) [0..<height])"

lemma raster_0 [simp]: "raster w 0 f = []"
  by (simp add: raster_def)

lemma raster_Suc: "raster w (Suc h) f = raster w h f @ map (\<lambda>dx. f dx h) [0..<w]"
  by (simp add: raster_def)

lemma length_raster [simp]: "length (raster w h f) = w * h"
  by (induction h) (simp_all add: raster_Suc)

lemma nth_raster: "dx < w \<Longrightarrow> dz < h \<Longrightarrow> raster w h f ! (dx + dz * w) = f dx dz"
proof (induction h)
  case (Suc h)
  show ?case
  proof (cases "dz < h")
    case True
    then have "dx + dz * w < w * h"
      using Suc.prems(1) by (metis add.commute add_less_cancel_right le_less_trans less_le_trans mult.commute mult_Suc mult_le_mono1 Suc_leI not_less add_less_mono1)
    then show ?thesis using Suc True by (simp add: raster_Suc nth_append)
  next
    case False
    then have "dz = h" using Suc.prems(2) by simp
    then show ?thesis using Suc.prems(1) by (simp add: raster_Suc nth_append mult.commute)
  qed
qed simp

lemma window_index: "i < w * h \<Longrightarrow> i mod w < w \<and> i div w < h \<and> i = i mod w + i div w * w" for i w h :: nat
  by (cases "w = 0") (auto simp: less_mult_imp_div_less mult.commute)

lemma raster_eqI:
  assumes "length xs = w * h" and "\<And>dx dz. dx < w \<Longrightarrow> dz < h \<Longrightarrow> xs ! (dx + dz * w) = f dx dz"
  shows "xs = raster w h f"
proof (rule nth_equalityI)
  fix i
  assume "i < length xs"
  then have "i mod w < w" "i div w < h" "i = i mod w + i div w * w" using window_index [of i w h] assms(1) by auto
  then show "xs ! i = raster w h f ! i" using assms(2) nth_raster by metis
qed (use assms in simp)

lemma set_raster: "v \<in> set (raster w h f) \<Longrightarrow> \<exists>dx dz. dx < w \<and> dz < h \<and> v = f dx dz"
  by (force simp: raster_def)

lemma raster_cong: "(\<And>dx dz. dx < w \<Longrightarrow> dz < h \<Longrightarrow> f dx dz = g dx dz) \<Longrightarrow> raster w h f = raster w h g"
  by (rule raster_eqI) (simp_all add: nth_raster)

lemma map_enumerate_raster:
  "map (\<lambda>(index, v). f (index mod w) (index div w) v) (enumerate 0 (raster w h g)) = raster w h (\<lambda>dx dz. f dx dz (g dx dz))"
proof (rule raster_eqI)
  fix dx dz
  assume d: "dx < w" "dz < h"
  then have "dx + dz * w < w * h"
    by (metis add.commute add_less_cancel_right less_le_trans mult.commute mult_Suc mult_le_mono1 Suc_leI)
  then show "map (\<lambda>(index, v). f (index mod w) (index div w) v) (enumerate 0 (raster w h g)) ! (dx + dz * w) = f dx dz (g dx dz)"
    using d by (simp add: nth_enumerate_eq nth_raster)
qed simp

lemma index_inj: "a < w \<Longrightarrow> b < w \<Longrightarrow> a + c * w = b + d * w \<longleftrightarrow> a = b \<and> c = d" for a b c d w :: nat
proof
  assume "a < w" "b < w" "a + c * w = b + d * w"
  then have "(a + c * w) mod w = (b + d * w) mod w" "(a + c * w) div w = (b + d * w) div w" by simp_all
  then show "a = b \<and> c = d" using \<open>a < w\<close> \<open>b < w\<close> by simp
qed simp

lemma index_bound: "a < w \<Longrightarrow> c < h \<Longrightarrow> a + c * w < w * h" for a c w h :: nat
  by (metis add.commute add_less_cancel_right less_le_trans mult.commute mult_Suc mult_le_mono1 Suc_leI)

lemma zip_raster: "zip (raster w h f) (raster w h g) = raster w h (\<lambda>dx dz. (f dx dz, g dx dz))"
  by (rule raster_eqI) (simp_all add: index_bound nth_raster)

lemma map_raster: "map k (raster w h f) = raster w h (\<lambda>dx dz. k (f dx dz))"
  by (rule raster_eqI) (simp_all add: index_bound nth_raster)

end
