(* ===== verification/Binary.thy ===== *)
theory Binary
  imports Prelude
begin

text \<open>
  Byte-level reading and writing: \<open>native/wire/src/binary.rs\<close> with the error and limit types of
  \<open>native/wire/src/error.rs\<close> and \<open>limits.rs\<close>, and the parts of the Rust standard library they
  rest on (\<open>to_be_bytes\<close>, \<open>from_le_bytes\<close>, UTF-8 validation).

  A \<open>String\<close> is the list of its bytes, valid UTF-8 by construction. An \<open>f32\<close> or \<open>f64\<close> is its
  bit pattern. A reading method is a function of the reader that returns the value with the
  advanced reader; \<open>rd_bind\<close> is the sequencing that \<open>?\<close> performs. The contract of a decoder is
  \<open>wire_codec\<close>: it returns \<open>v\<close> exactly on the encoding of \<open>v\<close>, and consumes exactly that.
\<close>

section \<open>Integers as bytes\<close>

definition to_le_bytes :: "'w::len word \<Rightarrow> bytes" where
  "to_le_bytes w = map (\<lambda>i. ucast (drop_bit (8 * i) w)) [0..<LENGTH('w) div 8]"

primrec from_le_bytes :: "bytes \<Rightarrow> 'w::len word" where
  "from_le_bytes [] = 0"
| "from_le_bytes (b # bs) = push_bit 8 (from_le_bytes bs) OR ucast b"

definition to_be_bytes :: "'w::len word \<Rightarrow> bytes" where
  "to_be_bytes w = rev (to_le_bytes w)"

definition from_be_bytes :: "bytes \<Rightarrow> 'w::len word" where
  "from_be_bytes bs = from_le_bytes (rev bs)"

lemma length_to_le_bytes [simp, byte_simps]: "length (to_le_bytes (w :: 'w::len word)) = LENGTH('w) div 8"
  by (simp add: to_le_bytes_def)

lemma length_to_be_bytes [simp, byte_simps]: "length (to_be_bytes (w :: 'w::len word)) = LENGTH('w) div 8"
  by (simp add: to_be_bytes_def)

lemma bit_from_le_bytes:
  "bit (from_le_bytes bs :: 'w::len word) n \<longleftrightarrow>
   n < LENGTH('w) \<and> n div 8 < length bs \<and> bit (bs ! (n div 8)) (n mod 8)"
proof (induction bs arbitrary: n)
  case Nil
  then show ?case by simp
next
  case (Cons b bs)
  show ?case
  proof (cases "n < 8")
    case True
    then show ?thesis
      by (auto simp: bit_or_iff bit_push_bit_iff bit_ucast_iff bit_imp_le_length)
  next
    case False
    then have d: "n div 8 = Suc ((n - 8) div 8)" and m: "n mod 8 = (n - 8) mod 8"
      by (simp_all add: le_div_geq le_mod_geq not_less)
    from False have "\<not> bit b n" using bit_imp_le_length [of b n] by auto
    with False show ?thesis
      using Cons.IH [of "n - 8"]
      by (auto simp: bit_or_iff bit_push_bit_iff bit_ucast_iff d m)
  qed
qed

lemma from_to_le_bytes [simp, byte_simps]:
  fixes w :: "'w::len word"
  assumes "8 dvd LENGTH('w)"
  shows "from_le_bytes (to_le_bytes w) = w"
proof (rule bit_word_eqI)
  fix n
  assume n: "n < LENGTH('w)"
  with assms have "n div 8 < LENGTH('w) div 8" by (auto simp: dvd_def)
  then show "bit (from_le_bytes (to_le_bytes w) :: 'w word) n = bit w n"
    using n by (simp add: bit_from_le_bytes to_le_bytes_def bit_ucast_iff bit_drop_bit_eq)
qed

lemma to_from_le_bytes [byte_simps]:
  assumes "8 dvd LENGTH('w)" and "length bs = LENGTH('w) div 8"
  shows "to_le_bytes (from_le_bytes bs :: 'w::len word) = bs"
proof (rule nth_equalityI)
  show "length (to_le_bytes (from_le_bytes bs :: 'w word)) = length bs" using assms by simp
  fix i
  assume "i < length (to_le_bytes (from_le_bytes bs :: 'w word))"
  then have i: "i < LENGTH('w) div 8" by simp
  then have bound: "8 * i + 8 \<le> LENGTH('w)" by linarith
  show "to_le_bytes (from_le_bytes bs :: 'w word) ! i = bs ! i"
  proof (rule bit_word_eqI)
    fix n
    assume "n < LENGTH(8)"
    then have n: "n < 8" by simp
    then have "(8 * i + n) div 8 = i" and "(8 * i + n) mod 8 = n" by simp_all
    with i n bound assms(2) show "bit (to_le_bytes (from_le_bytes bs :: 'w word) ! i) n = bit (bs ! i) n"
      by (simp add: to_le_bytes_def bit_ucast_iff bit_drop_bit_eq bit_from_le_bytes)
  qed
qed

lemma from_to_be_bytes [simp, byte_simps]:
  "8 dvd LENGTH('w) \<Longrightarrow> from_be_bytes (to_be_bytes w) = (w :: 'w::len word)"
  by (simp add: from_be_bytes_def to_be_bytes_def)

lemma to_from_be_bytes [byte_simps]:
  "8 dvd LENGTH('w) \<Longrightarrow> length bs = LENGTH('w) div 8 \<Longrightarrow> to_be_bytes (from_be_bytes bs :: 'w::len word) = bs"
  by (simp add: from_be_bytes_def to_be_bytes_def to_from_le_bytes)

lemma to_le_bytes_8 [simp]: "to_le_bytes (b :: u8) = [b]"
  by (simp add: to_le_bytes_def)

section \<open>UTF-8\<close>

definition utf8_cont :: "u8 \<Rightarrow> bool" where
  "utf8_cont b \<longleftrightarrow> 0x80 \<le> b \<and> b \<le> 0xBF"

fun utf8_second :: "u8 \<Rightarrow> u8 \<Rightarrow> bool" where
  "utf8_second a b =
     (if a = 0xE0 then 0xA0 \<le> b \<and> b \<le> 0xBF
      else if a = 0xED then 0x80 \<le> b \<and> b \<le> 0x9F
      else if a = 0xF0 then 0x90 \<le> b \<and> b \<le> 0xBF
      else if a = 0xF4 then 0x80 \<le> b \<and> b \<le> 0x8F
      else utf8_cont b)"

text \<open>The well-formed byte sequences, as \<open>core::str::from_utf8\<close> accepts them.\<close>

fun valid_utf8 :: "bytes \<Rightarrow> bool" where
  "valid_utf8 [] = True"
| "valid_utf8 (a # r) =
     (if a < 0x80 then valid_utf8 r
      else if 0xC2 \<le> a \<and> a \<le> 0xDF then
        (case r of b # r' \<Rightarrow> utf8_cont b \<and> valid_utf8 r' | _ \<Rightarrow> False)
      else if 0xE0 \<le> a \<and> a \<le> 0xEF then
        (case r of b # c # r' \<Rightarrow> utf8_second a b \<and> utf8_cont c \<and> valid_utf8 r' | _ \<Rightarrow> False)
      else if 0xF0 \<le> a \<and> a \<le> 0xF4 then
        (case r of b # c # d # r' \<Rightarrow> utf8_second a b \<and> utf8_cont c \<and> utf8_cont d \<and> valid_utf8 r' | _ \<Rightarrow> False)
      else False)"

section \<open>Errors and limits\<close>

datatype LimitKind =
    Limit_Frame | LoginCompressed | BatchCompressed | BatchDecompressed | InnerPacket
  | InnerPacketCount | LoginDecompressed | NbtBytes | NbtDepth | NbtCollection | NbtString

datatype CodecError =
    UnexpectedEof (eof_needed: nat) (eof_remaining: nat)
  | InvalidGameMarker u8
  | NegativeLength string i32
  | LengthOutOfRange string nat nat
  | LimitExceeded LimitKind nat nat
  | InvalidChunkPlaneLength string nat nat
  | InvalidChunkExtraDataKey u32
  | TrailingBytes nat
  | EmptyPacket
  | UnsupportedPacket u8
  | UnsupportedProtocol i32 i32
  | InvalidUtf8
  | InvalidNbtTag u8
  | InvalidNbtList nat
  | NbtListTypeMismatch u8 u8
  | InvalidFixedTargetValue string u64 u64
  | InvalidFixedByte string u8 u8
  | Compression string

definition LOGIN_MAX_DECOMPRESSED_BYTES :: nat where
  "LOGIN_MAX_DECOMPRESSED_BYTES = 2 * 1024 * 1024"

record CodecLimits =
  max_frame_bytes :: nat
  max_login_compressed_bytes :: nat
  max_batch_compressed_bytes :: nat
  max_batch_decompressed_bytes :: nat
  max_inner_packet_bytes :: nat
  max_inner_packets :: nat

definition CodecLimits_new :: "nat \<Rightarrow> nat \<Rightarrow> nat \<Rightarrow> nat \<Rightarrow> nat \<Rightarrow> nat \<Rightarrow> CodecLimits" where
  "CodecLimits_new fb lc bc bd ip ic =
     \<lparr>max_frame_bytes = fb, max_login_compressed_bytes = lc, max_batch_compressed_bytes = bc,
      max_batch_decompressed_bytes = bd, max_inner_packet_bytes = ip, max_inner_packets = ic\<rparr>"

section \<open>Reader\<close>

record Reader =
  input :: bytes
  offset :: nat

type_synonym 'a reading = "Reader \<Rightarrow> CodecError + 'a \<times> Reader"

definition rd_ok :: "'a \<Rightarrow> 'a reading" where
  "rd_ok x r = Inr (x, r)"

definition rd_err :: "CodecError \<Rightarrow> 'a reading" where
  "rd_err e r = Inl e"

definition rd_bind :: "'a reading \<Rightarrow> ('a \<Rightarrow> 'b reading) \<Rightarrow> 'b reading" where
  "rd_bind p f r = rbind (p r) (\<lambda>(x, r'). f x r')"

text \<open>Running a computation that does not touch the reader.\<close>

definition rd_lift :: "CodecError + 'a \<Rightarrow> 'a reading" where
  "rd_lift m r = map_ok (\<lambda>x. (x, r)) m"

definition Reader_new :: "bytes \<Rightarrow> Reader" where
  "Reader_new bs = \<lparr>input = bs, offset = 0\<rparr>"

definition remaining :: "Reader \<Rightarrow> nat" where
  "remaining r = length (input r) - offset r"

definition read_exact :: "nat \<Rightarrow> bytes reading" where
  "read_exact n r =
     (if remaining r < n then Inl (UnexpectedEof n (remaining r))
      else Inr (take n (drop (offset r) (input r)), r\<lparr>offset := offset r + n\<rparr>))"

definition read_array :: "nat \<Rightarrow> bytes reading" where
  "read_array n = rd_bind (read_exact n) rd_ok"

definition read_u8 :: "u8 reading" where
  "read_u8 = rd_bind (read_exact 1) (\<lambda>bs. rd_ok (bs ! 0))"

definition read_i8 :: "i8 reading" where
  "read_i8 = rd_bind read_u8 (\<lambda>b. rd_ok (from_le_bytes [b]))"

definition read_u16_be :: "u16 reading" where
  "read_u16_be = rd_bind (read_array 2) (\<lambda>bs. rd_ok (from_be_bytes bs))"

definition read_u16_le :: "u16 reading" where
  "read_u16_le = rd_bind (read_array 2) (\<lambda>bs. rd_ok (from_le_bytes bs))"

definition read_i16_le :: "i16 reading" where
  "read_i16_le = rd_bind (read_array 2) (\<lambda>bs. rd_ok (from_le_bytes bs))"

definition read_u32_be :: "u32 reading" where
  "read_u32_be = rd_bind (read_array 4) (\<lambda>bs. rd_ok (from_be_bytes bs))"

definition read_i32_be :: "i32 reading" where
  "read_i32_be = rd_bind (read_array 4) (\<lambda>bs. rd_ok (from_be_bytes bs))"

definition read_i64_be :: "i64 reading" where
  "read_i64_be = rd_bind (read_array 8) (\<lambda>bs. rd_ok (from_be_bytes bs))"

definition read_f32_be :: "f32 reading" where
  "read_f32_be = rd_bind (read_array 4) (\<lambda>bs. rd_ok (from_be_bytes bs))"

definition read_i32_le :: "i32 reading" where
  "read_i32_le = rd_bind (read_array 4) (\<lambda>bs. rd_ok (from_le_bytes bs))"

definition read_i64_le :: "i64 reading" where
  "read_i64_le = rd_bind (read_array 8) (\<lambda>bs. rd_ok (from_le_bytes bs))"

definition read_f32_le :: "f32 reading" where
  "read_f32_le = rd_bind (read_array 4) (\<lambda>bs. rd_ok (from_le_bytes bs))"

definition read_f64_le :: "f64 reading" where
  "read_f64_le = rd_bind (read_array 8) (\<lambda>bs. rd_ok (from_le_bytes bs))"

definition string_from_utf8 :: "bytes \<Rightarrow> CodecError + bytes" where
  "string_from_utf8 bs = (if valid_utf8 bs then Inr bs else Inl InvalidUtf8)"

definition read_string_u16 :: "bytes reading" where
  "read_string_u16 =
     rd_bind read_u16_be (\<lambda>len.
     rd_bind (read_exact (unat len)) (\<lambda>bs.
     rd_lift (string_from_utf8 bs)))"

definition finish :: "Reader \<Rightarrow> CodecError + unit" where
  "finish r = (if remaining r = 0 then Inr () else Inl (TrailingBytes (remaining r)))"

section \<open>Writer\<close>

record Writer =
  written :: bytes

definition Writer_new :: Writer where
  "Writer_new = \<lparr>written = []\<rparr>"

definition Writer_len :: "Writer \<Rightarrow> nat" where
  "Writer_len w = length (written w)"

definition Writer_with_capacity :: "nat \<Rightarrow> Writer" where
  "Writer_with_capacity n = \<lparr>written = []\<rparr>"

definition put_bytes :: "bytes \<Rightarrow> Writer \<Rightarrow> Writer" where
  "put_bytes bs w = w\<lparr>written := written w @ bs\<rparr>"

definition put_u8 :: "u8 \<Rightarrow> Writer \<Rightarrow> Writer" where
  "put_u8 v w = w\<lparr>written := written w @ [v]\<rparr>"

definition put_i8 :: "i8 \<Rightarrow> Writer \<Rightarrow> Writer" where
  "put_i8 v w = w\<lparr>written := written w @ to_le_bytes v\<rparr>"

definition put_u16_be :: "u16 \<Rightarrow> Writer \<Rightarrow> Writer" where
  "put_u16_be v w = w\<lparr>written := written w @ to_be_bytes v\<rparr>"

definition put_u16_le :: "u16 \<Rightarrow> Writer \<Rightarrow> Writer" where
  "put_u16_le v w = w\<lparr>written := written w @ to_le_bytes v\<rparr>"

definition put_i16_le :: "i16 \<Rightarrow> Writer \<Rightarrow> Writer" where
  "put_i16_le v w = w\<lparr>written := written w @ to_le_bytes v\<rparr>"

definition put_u32_be :: "u32 \<Rightarrow> Writer \<Rightarrow> Writer" where
  "put_u32_be v w = w\<lparr>written := written w @ to_be_bytes v\<rparr>"

definition put_i32_be :: "i32 \<Rightarrow> Writer \<Rightarrow> Writer" where
  "put_i32_be v w = w\<lparr>written := written w @ to_be_bytes v\<rparr>"

definition put_i64_be :: "i64 \<Rightarrow> Writer \<Rightarrow> Writer" where
  "put_i64_be v w = w\<lparr>written := written w @ to_be_bytes v\<rparr>"

definition put_f32_be :: "f32 \<Rightarrow> Writer \<Rightarrow> Writer" where
  "put_f32_be v w = w\<lparr>written := written w @ to_be_bytes v\<rparr>"

definition put_i32_le :: "i32 \<Rightarrow> Writer \<Rightarrow> Writer" where
  "put_i32_le v w = w\<lparr>written := written w @ to_le_bytes v\<rparr>"

definition put_i64_le :: "i64 \<Rightarrow> Writer \<Rightarrow> Writer" where
  "put_i64_le v w = w\<lparr>written := written w @ to_le_bytes v\<rparr>"

definition put_f32_le :: "f32 \<Rightarrow> Writer \<Rightarrow> Writer" where
  "put_f32_le v w = w\<lparr>written := written w @ to_le_bytes v\<rparr>"

definition put_f64_le :: "f64 \<Rightarrow> Writer \<Rightarrow> Writer" where
  "put_f64_le v w = w\<lparr>written := written w @ to_le_bytes v\<rparr>"

definition put_string_u16 :: "string \<Rightarrow> bytes \<Rightarrow> Writer \<Rightarrow> CodecError + Writer" where
  "put_string_u16 field v w =
     (if length v \<le> 65535
      then Inr (put_bytes v (put_u16_be (of_nat (length v)) w))
      else Inl (LengthOutOfRange field (length v) 65535))"

definition into_vec :: "Writer \<Rightarrow> bytes" where
  "into_vec w = written w"

section \<open>Consumption of input\<close>

definition rest :: "Reader \<Rightarrow> bytes" where
  "rest r = drop (offset r) (input r)"

text \<open>\<open>eats r bs r'\<close>: the unread input of \<open>r\<close> starts with \<open>bs\<close> and \<open>r'\<close> stands just behind it.\<close>

definition eats :: "Reader \<Rightarrow> bytes \<Rightarrow> Reader \<Rightarrow> bool" where
  "eats r bs r' \<longleftrightarrow> take (length bs) (rest r) = bs \<and> r' = r\<lparr>offset := offset r + length bs\<rparr>"

lemma remaining_rest: "remaining r = length (rest r)"
  by (simp add: remaining_def rest_def)

lemma eats_Nil [simp]: "eats r [] r' \<longleftrightarrow> r' = r"
  by (auto simp: eats_def)

lemma rest_advance [simp]: "rest (r\<lparr>offset := offset r + n\<rparr>) = drop n (rest r)"
  by (simp add: rest_def add.commute)

lemma take_prefix_iff: "take (length bs) l = bs \<longleftrightarrow> (\<exists>xs. l = bs @ xs)"
  by (metis append_eq_conv_conj append_take_drop_id)

lemma eats_append_iff: "eats r (a @ b) r' \<longleftrightarrow> (\<exists>m. eats r a m \<and> eats m b r')"
proof -
  have "take (length (a @ b)) (rest r) = a @ b \<longleftrightarrow>
      take (length a) (rest r) = a \<and> take (length b) (drop (length a) (rest r)) = b"
    unfolding take_prefix_iff by auto
  moreover have "r\<lparr>offset := offset r + length (a @ b)\<rparr>
      = (r\<lparr>offset := offset r + length a\<rparr>)\<lparr>offset := offset r + length a + length b\<rparr>"
    by (simp add: add.assoc)
  ultimately show ?thesis unfolding eats_def by (simp del: length_append)
qed

lemma eats_Cons_iff: "eats r (x # y # b) r' \<longleftrightarrow> (\<exists>m. eats r [x] m \<and> eats m (y # b) r')"
  using eats_append_iff [of r "[x]" "y # b" r'] by simp

lemma eats_Cons_append_iff: "eats r (x # a @ b) r' \<longleftrightarrow> (\<exists>m. eats r [x] m \<and> eats m (a @ b) r')"
  using eats_append_iff [of r "[x]" "a @ b" r'] by simp

lemma eats_trans: "eats r a m \<Longrightarrow> eats m b r' \<Longrightarrow> eats r (a @ b) r'"
  by (auto simp: eats_append_iff)

lemma eats_rest: "eats r bs r' \<Longrightarrow> rest r = bs @ rest r' \<and> input r' = input r"
  by (auto simp: eats_def) (metis append_take_drop_id)

lemma eatsI: "rest r = bs @ xs \<Longrightarrow> eats r bs (r\<lparr>offset := offset r + length bs\<rparr>)"
  by (simp add: eats_def)

lemma eats_det: "eats r a m \<Longrightarrow> eats r b m' \<Longrightarrow> length a = length b \<Longrightarrow> a = b \<and> m = m'"
  by (auto simp: eats_def)

lemma finish_Inr_iff: "finish r = Inr u \<longleftrightarrow> rest r = []"
  by (simp add: finish_def remaining_rest)

lemma rest_Reader_new [simp]: "rest (Reader_new bs) = bs"
  by (simp add: rest_def Reader_new_def)

lemma eats_all_iff: "(\<exists>m. eats (Reader_new bs) a m \<and> rest m = []) \<longleftrightarrow> bs = a"
  using eatsI [of "Reader_new bs" a "[]"] by (auto dest: eats_rest)

section \<open>The contract of a decoder\<close>

text \<open>
  \<open>read\<close> returns \<open>v\<close> exactly when \<open>v\<close> is in the domain of the encoding and the unread input
  starts with \<open>enc v\<close>; it then stands behind those bytes.
\<close>

locale wire_codec =
  fixes read :: "'a reading"
    and enc :: "'a \<Rightarrow> bytes"
    and dom :: "'a \<Rightarrow> bool"
  assumes read_iff: "read r = Inr (v, r') \<longleftrightarrow> dom v \<and> eats r (enc v) r'"
begin

lemma read_enc: "dom v \<Longrightarrow> rest r = enc v @ xs \<Longrightarrow>
    read r = Inr (v, r\<lparr>offset := offset r + length (enc v)\<rparr>)"
  by (simp add: read_iff eatsI)

lemma read_all_iff:
  "rbind (read (Reader_new bs)) (\<lambda>(v, r). rbind (finish r) (\<lambda>_. Inr v)) = Inr v \<longleftrightarrow> dom v \<and> bs = enc v"
  using eats_all_iff [of bs "enc v"]
  by (auto simp: result_simps read_iff finish_Inr_iff split: prod.splits)

lemma enc_prefix_free:
  assumes "dom v" and "dom w" and "enc v @ xs = enc w @ ys"
  shows "v = w \<and> xs = ys"
proof -
  have "rest (Reader_new (enc v @ xs)) = enc v @ xs" by simp
  then have "read (Reader_new (enc v @ xs)) = Inr (v, (Reader_new (enc v @ xs))\<lparr>offset := offset (Reader_new (enc v @ xs)) + length (enc v)\<rparr>)"
    by (rule read_enc [OF assms(1)])
  moreover have "rest (Reader_new (enc v @ xs)) = enc w @ ys" using assms(3) by simp
  then have "read (Reader_new (enc v @ xs)) = Inr (w, (Reader_new (enc v @ xs))\<lparr>offset := offset (Reader_new (enc v @ xs)) + length (enc w)\<rparr>)"
    by (rule read_enc [OF assms(2)])
  ultimately show ?thesis using assms(3) by auto
qed

lemma enc_inj: "dom v \<Longrightarrow> dom w \<Longrightarrow> enc v = enc w \<Longrightarrow> v = w"
  using enc_prefix_free [of v w "[]" "[]"] by simp

end

named_theorems read_iffs \<open>exact success conditions of reading operations\<close>

lemma rd_bind_Inr_iff [read_iffs]:
  "rd_bind p f r = Inr (y, r') \<longleftrightarrow> (\<exists>x m. p r = Inr (x, m) \<and> f x m = Inr (y, r'))"
  by (auto simp: rd_bind_def result_simps)

lemma rd_ok_Inr_iff [read_iffs]: "rd_ok x r = Inr (y, r') \<longleftrightarrow> y = x \<and> r' = r"
  by (auto simp: rd_ok_def)

lemma rd_err_Inr_iff [read_iffs]: "rd_err e r = Inr p \<longleftrightarrow> False"
  by (simp add: rd_err_def)

lemma rd_lift_Inr_iff [read_iffs]: "rd_lift m r = Inr (y, r') \<longleftrightarrow> m = Inr y \<and> r' = r"
  by (auto simp: rd_lift_def result_simps)

lemma rd_bind_cong [fundef_cong]:
  "r = s \<Longrightarrow> p s = q s \<Longrightarrow> (\<And>x m. q s = Inr (x, m) \<Longrightarrow> f x m = g x m) \<Longrightarrow> rd_bind p f r = rd_bind q g s"
  by (auto simp: rd_bind_def intro!: rbind_cong)

lemma read_exact_iff [read_iffs]:
  "read_exact n r = Inr (bs, r') \<longleftrightarrow> length bs = n \<and> eats r bs r'"
  by (auto simp: read_exact_def eats_def remaining_rest rest_def)

lemma read_array_iff [read_iffs]:
  "read_array n r = Inr (bs, r') \<longleftrightarrow> length bs = n \<and> eats r bs r'"
  by (auto simp: read_array_def read_iffs)

interpretation rx: wire_codec "read_exact n" "\<lambda>bs. bs" "\<lambda>bs. length bs = n" for n
  by unfold_locales (rule read_exact_iff)

lemma read_be_iff:
  assumes "8 dvd LENGTH('w)" and "n = LENGTH('w) div 8"
  shows "rd_bind (read_array n) (\<lambda>bs. rd_ok (from_be_bytes bs :: 'w::len word)) r = Inr (v, r')
     \<longleftrightarrow> eats r (to_be_bytes v) r'"
  using assms to_from_be_bytes [OF assms(1)] by (auto simp: read_iffs intro!: exI [of _ "to_be_bytes v"])

lemma read_le_iff:
  assumes "8 dvd LENGTH('w)" and "n = LENGTH('w) div 8"
  shows "rd_bind (read_array n) (\<lambda>bs. rd_ok (from_le_bytes bs :: 'w::len word)) r = Inr (v, r')
     \<longleftrightarrow> eats r (to_le_bytes v) r'"
  using assms to_from_le_bytes [OF assms(1)] by (auto simp: read_iffs intro!: exI [of _ "to_le_bytes v"])

lemma read_u8_iff [read_iffs]: "read_u8 r = Inr (v, r') \<longleftrightarrow> eats r [v] r'"
  by (auto simp: read_u8_def read_iffs length_Suc_conv)

lemma read_i8_iff [read_iffs]: "read_i8 r = Inr (v, r') \<longleftrightarrow> eats r [v] r'"
  by (auto simp: read_i8_def read_iffs)

lemma read_int_iffs [read_iffs]:
  "read_u16_be r = Inr (u16, r') \<longleftrightarrow> eats r (to_be_bytes u16) r'"
  "read_u16_le r = Inr (u16, r') \<longleftrightarrow> eats r (to_le_bytes u16) r'"
  "read_i16_le r = Inr (u16, r') \<longleftrightarrow> eats r (to_le_bytes u16) r'"
  "read_u32_be r = Inr (u32, r') \<longleftrightarrow> eats r (to_be_bytes u32) r'"
  "read_i32_be r = Inr (u32, r') \<longleftrightarrow> eats r (to_be_bytes u32) r'"
  "read_i64_be r = Inr (u64, r') \<longleftrightarrow> eats r (to_be_bytes u64) r'"
  "read_f32_be r = Inr (u32, r') \<longleftrightarrow> eats r (to_be_bytes u32) r'"
  "read_i32_le r = Inr (u32, r') \<longleftrightarrow> eats r (to_le_bytes u32) r'"
  "read_i64_le r = Inr (u64, r') \<longleftrightarrow> eats r (to_le_bytes u64) r'"
  "read_f32_le r = Inr (u32, r') \<longleftrightarrow> eats r (to_le_bytes u32) r'"
  "read_f64_le r = Inr (u64, r') \<longleftrightarrow> eats r (to_le_bytes u64) r'"
  unfolding read_u16_be_def read_u16_le_def read_i16_le_def read_u32_be_def read_i32_be_def
    read_i64_be_def read_f32_be_def read_i32_le_def read_i64_le_def read_f32_le_def read_f64_le_def
  by (intro read_be_iff read_le_iff; simp)+

text \<open>The bytes of a string field: a 16-bit big-endian length, then the UTF-8 bytes.\<close>

definition string_u16 :: "bytes \<Rightarrow> bytes" where
  "string_u16 v = to_be_bytes (of_nat (length v) :: u16) @ v"

definition string_u16_ok :: "bytes \<Rightarrow> bool" where
  "string_u16_ok v \<longleftrightarrow> length v \<le> 65535 \<and> valid_utf8 v"

lemma unat_of_nat_u16 [simp]: "n \<le> 65535 \<Longrightarrow> unat (of_nat n :: u16) = n"
  by (simp add: unat_of_nat)

lemma unat_u16_bound: "unat (x :: u16) \<le> 65535"
  using unsigned_less [of x, where 'a = nat] by simp

lemma read_string_u16_iff [read_iffs]:
  "read_string_u16 r = Inr (v, r') \<longleftrightarrow> string_u16_ok v \<and> eats r (string_u16 v) r'"
  using unat_u16_bound
  by (fastforce simp: read_string_u16_def read_iffs string_from_utf8_def string_u16_def string_u16_ok_def eats_append_iff
      split: if_splits)

interpretation ru8: wire_codec read_u8 "\<lambda>v. [v]" "\<lambda>_. True"
  by unfold_locales (simp add: read_iffs)

interpretation rstr: wire_codec read_string_u16 string_u16 string_u16_ok
  by unfold_locales (rule read_string_u16_iff)

section \<open>Writers append\<close>

named_theorems put_simps \<open>what writing operations append\<close>

lemma put_written [put_simps]:
  "written (put_bytes bs w) = written w @ bs"
  "written (put_u8 b w) = written w @ [b]"
  "written (put_i8 b w) = written w @ [b]"
  "written (put_u16_be u16 w) = written w @ to_be_bytes u16"
  "written (put_u16_le u16 w) = written w @ to_le_bytes u16"
  "written (put_i16_le u16 w) = written w @ to_le_bytes u16"
  "written (put_u32_be u32 w) = written w @ to_be_bytes u32"
  "written (put_i32_be u32 w) = written w @ to_be_bytes u32"
  "written (put_i64_be u64 w) = written w @ to_be_bytes u64"
  "written (put_f32_be u32 w) = written w @ to_be_bytes u32"
  "written (put_i32_le u32 w) = written w @ to_le_bytes u32"
  "written (put_i64_le u64 w) = written w @ to_le_bytes u64"
  "written (put_f32_le u32 w) = written w @ to_le_bytes u32"
  "written (put_f64_le u64 w) = written w @ to_le_bytes u64"
  "written Writer_new = []"
  "written (Writer_with_capacity n) = []"
  by (simp_all add: put_bytes_def put_u8_def put_i8_def put_u16_be_def put_u16_le_def put_i16_le_def
      put_u32_be_def put_i32_be_def put_i64_be_def put_f32_be_def put_i32_le_def put_i64_le_def
      put_f32_le_def put_f64_le_def Writer_new_def Writer_with_capacity_def)

lemma put_string_u16_Inr_iff [put_simps]:
  "put_string_u16 field v w = Inr w' \<longleftrightarrow> length v \<le> 65535 \<and> w' = w\<lparr>written := written w @ string_u16 v\<rparr>"
  by (auto simp: put_string_u16_def put_bytes_def put_u16_be_def string_u16_def)

lemma into_vec_written [simp]: "into_vec w = written w"
  by (simp add: into_vec_def)

end
