(* ===== verification/Framing.thy ===== *)
theory Framing
  imports Binary
begin

text \<open>
  Game frames and Batch packets: \<open>native/wire/src/frame.rs\<close> and \<open>batch.rs\<close>.

  The zlib codec is the crate \<open>flate2\<close>, outside the repository. \<open>deflate\<close> stands for writing a
  buffer to a \<open>ZlibEncoder\<close> and finishing it, \<open>inflate z n\<close> for reading a \<open>ZlibDecoder\<close> over
  \<open>z\<close>, limited by \<open>take(n)\<close>, to its end; both return an error text or bytes. \<open>zlib_law\<close> is what the
  code relies on: the decoder restores what the encoder was given, cut at \<open>n\<close> bytes.
\<close>

section \<open>Definitions\<close>

type_synonym deflater = "bytes \<Rightarrow> string + bytes"
type_synonym inflater = "bytes \<Rightarrow> nat \<Rightarrow> string + bytes"

definition zlib_law :: "deflater \<Rightarrow> inflater \<Rightarrow> bool" where
  "zlib_law deflate inflate \<longleftrightarrow>
     (\<forall>x z n. deflate x = Inr z \<longrightarrow> inflate z n = Inr (take n x)) \<and>
     (\<forall>z n y. inflate z n = Inr y \<longrightarrow> length y \<le> n)"

definition GAME_MARKER :: u8 where
  "GAME_MARKER = 0xfe"

record RawPacket =
  packet_id :: u8
  packet_body :: bytes

definition RawPacket_new :: "u8 \<Rightarrow> bytes \<Rightarrow> RawPacket" where
  "RawPacket_new i body = \<lparr>packet_id = i, packet_body = body\<rparr>"

definition from_packet_bytes :: "bytes \<Rightarrow> CodecError + RawPacket" where
  "from_packet_bytes bs = (case bs of [] \<Rightarrow> Inl EmptyPacket | i # body \<Rightarrow> Inr (RawPacket_new i body))"

definition encoded_len :: "RawPacket \<Rightarrow> nat" where
  "encoded_len p = 1 + length (packet_body p)"

definition write_packet_bytes :: "RawPacket \<Rightarrow> bytes \<Rightarrow> bytes" where
  "write_packet_bytes p out = out @ [packet_id p] @ packet_body p"

definition check_limit :: "LimitKind \<Rightarrow> nat \<Rightarrow> nat \<Rightarrow> CodecError + unit" where
  "check_limit kind actual limit = (if actual > limit then Inl (LimitExceeded kind limit actual) else Inr ())"

definition decode_game_frame :: "bytes \<Rightarrow> CodecLimits \<Rightarrow> CodecError + RawPacket" where
  "decode_game_frame inp limits =
     rbind (check_limit Limit_Frame (length inp) (max_frame_bytes limits)) (\<lambda>_.
     case inp of
       [] \<Rightarrow> Inl (UnexpectedEof 1 0)
     | marker # packet \<Rightarrow>
         if marker \<noteq> GAME_MARKER then Inl (InvalidGameMarker marker)
         else from_packet_bytes packet)"

definition encode_game_frame :: "RawPacket \<Rightarrow> CodecLimits \<Rightarrow> CodecError + bytes" where
  "encode_game_frame p limits =
     rbind (ok_or (usize_checked_add 1 (encoded_len p))
              (LengthOutOfRange ''game frame'' usize_max (max_frame_bytes limits))) (\<lambda>len.
     rbind (check_limit Limit_Frame len (max_frame_bytes limits)) (\<lambda>_.
     Inr (write_packet_bytes p [GAME_MARKER])))"

definition compress_zlib :: "deflater \<Rightarrow> bytes \<Rightarrow> CodecError + bytes" where
  "compress_zlib deflate inp = map_err Compression (deflate inp)"

definition decompress_zlib_limited :: "inflater \<Rightarrow> bytes \<Rightarrow> nat \<Rightarrow> LimitKind \<Rightarrow> CodecError + bytes" where
  "decompress_zlib_limited inflate inp limit kind =
     (let read_limit = min (limit + 1) usize_max
      in rbind (map_err Compression (inflate inp read_limit)) (\<lambda>out.
         rbind (check_limit kind (length out) limit) (\<lambda>_.
         Inr out)))"

record BatchPacket =
  batch_packets :: "RawPacket list"

lemma eats_remaining: "eats r bs r' \<Longrightarrow> remaining r = length bs + remaining r'"
  by (auto simp: remaining_rest dest: eats_rest)

text \<open>The \<open>while inner.remaining() > 0\<close> loop of \<open>decode_body\<close>.\<close>

function decode_inner :: "CodecLimits \<Rightarrow> RawPacket list \<Rightarrow> Reader \<Rightarrow> CodecError + RawPacket list" where
  "decode_inner limits packets inner =
     (if remaining inner = 0 then Inr packets
      else
        rbind (check_limit InnerPacketCount (length packets + 1) (max_inner_packets limits)) (\<lambda>_.
        rbind (read_u32_be inner) (\<lambda>(len, inner).
        if unat len = 0 then Inl EmptyPacket
        else
          rbind (check_limit InnerPacket (unat len) (max_inner_packet_bytes limits)) (\<lambda>_.
          rbind (read_exact (unat len) inner) (\<lambda>(bs, inner).
          rbind (from_packet_bytes bs) (\<lambda>p.
          decode_inner limits (packets @ [p]) inner))))))"
  by pat_completeness auto
termination
  by (relation "measure (\<lambda>(_, _, r). remaining r)")
    (auto simp: read_iffs dest!: eats_remaining)

definition decode_body :: "inflater \<Rightarrow> bytes \<Rightarrow> CodecLimits \<Rightarrow> CodecError + BatchPacket" where
  "decode_body inflate body limits =
     rbind (read_u32_be (Reader_new body)) (\<lambda>(compressed_len, r).
     rbind (check_limit BatchCompressed (unat compressed_len) (max_batch_compressed_bytes limits)) (\<lambda>_.
     rbind (read_exact (unat compressed_len) r) (\<lambda>(compressed, r).
     rbind (finish r) (\<lambda>_.
     rbind (decompress_zlib_limited inflate compressed (max_batch_decompressed_bytes limits) BatchDecompressed)
       (\<lambda>decompressed.
     rbind (decode_inner limits [] (Reader_new decompressed)) (\<lambda>packets.
     Inr \<lparr>batch_packets = packets\<rparr>))))))"

definition encode_inner :: "CodecLimits \<Rightarrow> RawPacket \<Rightarrow> bytes \<Rightarrow> CodecError + bytes" where
  "encode_inner limits p uncompressed =
     (let packet_len = encoded_len p
      in rbind (check_limit InnerPacket packet_len (max_inner_packet_bytes limits)) (\<lambda>_.
         rbind (ensure (packet_len < 2 ^ 32)
                  (LengthOutOfRange ''batch inner packet length'' packet_len (2 ^ 32 - 1))) (\<lambda>_.
         let uncompressed = write_packet_bytes p (uncompressed @ to_be_bytes (of_nat packet_len :: u32))
         in rbind (check_limit BatchDecompressed (length uncompressed) (max_batch_decompressed_bytes limits)) (\<lambda>_.
            Inr uncompressed))))"

definition encode_body :: "deflater \<Rightarrow> BatchPacket \<Rightarrow> CodecLimits \<Rightarrow> CodecError + bytes" where
  "encode_body deflate batch limits =
     rbind (check_limit InnerPacketCount (length (batch_packets batch)) (max_inner_packets limits)) (\<lambda>_.
     rbind (for_each (encode_inner limits) (batch_packets batch) []) (\<lambda>uncompressed.
     rbind (compress_zlib deflate uncompressed) (\<lambda>compressed.
     rbind (check_limit BatchCompressed (length compressed) (max_batch_compressed_bytes limits)) (\<lambda>_.
     rbind (ensure (length compressed < 2 ^ 32)
              (LengthOutOfRange ''batch compressed length'' (length compressed) (2 ^ 32 - 1))) (\<lambda>_.
     Inr (into_vec (put_bytes compressed (put_u32_be (of_nat (length compressed))
            (Writer_with_capacity (4 + length compressed)))))))))) "

text \<open>The framing of the inner packets: each is preceded by its 32-bit big-endian length.\<close>

definition packet_bytes :: "RawPacket \<Rightarrow> bytes" where
  "packet_bytes p = packet_id p # packet_body p"

definition inner_frame :: "RawPacket \<Rightarrow> bytes" where
  "inner_frame p = to_be_bytes (of_nat (encoded_len p) :: u32) @ packet_bytes p"

definition inner_ok :: "CodecLimits \<Rightarrow> RawPacket \<Rightarrow> bool" where
  "inner_ok limits p \<longleftrightarrow> encoded_len p \<le> max_inner_packet_bytes limits \<and> encoded_len p < 2 ^ 32"

definition batch_ok :: "CodecLimits \<Rightarrow> RawPacket list \<Rightarrow> bool" where
  "batch_ok limits ps \<longleftrightarrow> length ps \<le> max_inner_packets limits \<and> list_all (inner_ok limits) ps
     \<and> length (concat (map inner_frame ps)) \<le> max_batch_decompressed_bytes limits"

section \<open>Frames\<close>

lemma check_limit_Inr_iff [result_simps]: "check_limit k a l = Inr u \<longleftrightarrow> a \<le> l"
  by (auto simp: check_limit_def)

lemma from_packet_bytes_Inr_iff: "from_packet_bytes bs = Inr p \<longleftrightarrow> bs = packet_bytes p"
  by (cases p) (auto simp: from_packet_bytes_def packet_bytes_def RawPacket_new_def split: list.splits)

lemma length_packet_bytes [simp]: "length (packet_bytes p) = encoded_len p"
  by (simp add: packet_bytes_def encoded_len_def)

lemma decode_game_frame_Inr_iff:
  "decode_game_frame inp limits = Inr p \<longleftrightarrow>
   inp = GAME_MARKER # packet_bytes p \<and> length inp \<le> max_frame_bytes limits"
  by (auto simp: decode_game_frame_def result_simps from_packet_bytes_Inr_iff split: list.splits)

lemma encode_game_frame_Inr_iff:
  "encode_game_frame p limits = Inr out \<longleftrightarrow>
   out = GAME_MARKER # packet_bytes p \<and> length out \<le> max_frame_bytes limits \<and> length out \<le> usize_max"
  by (auto simp: encode_game_frame_def result_simps write_packet_bytes_def packet_bytes_def encoded_len_def)

section \<open>Batches\<close>

lemma encode_inner_Inr_iff:
  "encode_inner limits p u = Inr u' \<longleftrightarrow> inner_ok limits p \<and> u' = u @ inner_frame p
     \<and> length u' \<le> max_batch_decompressed_bytes limits"
  by (auto simp: encode_inner_def Let_def result_simps inner_ok_def inner_frame_def write_packet_bytes_def
      packet_bytes_def)

lemma encode_inners_Inr_iff:
  "length u \<le> max_batch_decompressed_bytes limits \<Longrightarrow>
   for_each (encode_inner limits) ps u = Inr u' \<longleftrightarrow>
   list_all (inner_ok limits) ps \<and> u' = u @ concat (map inner_frame ps)
     \<and> length u' \<le> max_batch_decompressed_bytes limits"
  by (induction ps arbitrary: u) (auto simp: result_simps encode_inner_Inr_iff)

lemma unat_of_nat_u32 [simp]: "n < 2 ^ 32 \<Longrightarrow> unat (of_nat n :: u32) = n"
  by (simp add: unat_of_nat)

lemma unat_u32_less: "unat (x :: u32) < 2 ^ 32"
  using unsigned_less [of x, where 'a = nat] by simp

lemma encoded_len_pos [simp]: "0 < encoded_len p"
  by (simp add: encoded_len_def)

declare decode_inner.simps [simp del]

text \<open>One round of the loop reads exactly one framed packet.\<close>

lemma decode_inner_round:
  assumes "remaining r \<noteq> 0"
  shows "decode_inner limits ps r = Inr qs \<longleftrightarrow>
    length ps < max_inner_packets limits
    \<and> (\<exists>p r'. inner_ok limits p \<and> eats r (inner_frame p) r' \<and> decode_inner limits (ps @ [p]) r' = Inr qs)"
    (is "?l = ?r")
proof
  assume ?l
  then have "rbind (check_limit InnerPacketCount (length ps + 1) (max_inner_packets limits)) (\<lambda>_.
        rbind (read_u32_be r) (\<lambda>(len, inner).
        if unat len = 0 then Inl EmptyPacket
        else
          rbind (check_limit InnerPacket (unat len) (max_inner_packet_bytes limits)) (\<lambda>_.
          rbind (read_exact (unat len) inner) (\<lambda>(bs, inner).
          rbind (from_packet_bytes bs) (\<lambda>p.
          decode_inner limits (ps @ [p]) inner))))) = Inr qs"
    using assms by (simp add: decode_inner.simps [of limits ps r])
  then obtain len m p r' where *: "length ps < max_inner_packets limits"
      "eats r (to_be_bytes (len :: u32)) m" "unat len \<le> max_inner_packet_bytes limits"
      "encoded_len p = unat len" "eats m (packet_bytes p) r'"
      "decode_inner limits (ps @ [p]) r' = Inr qs"
    by (auto simp: result_simps read_iffs from_packet_bytes_Inr_iff split: if_splits prod.splits)
  then have "inner_ok limits p" and "eats r (inner_frame p) r'"
    using unat_u32_less [of len] by (auto simp: inner_ok_def inner_frame_def intro: eats_trans)
  with * show ?r by blast
next
  assume ?r
  then obtain p m r' where *: "length ps < max_inner_packets limits" "inner_ok limits p"
      "eats r (to_be_bytes (of_nat (encoded_len p) :: u32)) m" "eats m (packet_bytes p) r'"
      "decode_inner limits (ps @ [p]) r' = Inr qs"
    by (auto simp: inner_frame_def eats_append_iff)
  then have "read_u32_be r = Inr (of_nat (encoded_len p), m)"
    and "read_exact (encoded_len p) m = Inr (packet_bytes p, r')"
    by (auto simp: read_iffs)
  with * assms encoded_len_pos [of p] show ?l
    by (subst decode_inner.simps)
      (auto simp: check_limit_def inner_ok_def from_packet_bytes_Inr_iff [THEN iffD2, OF refl])
qed

lemma decode_inner_done: "remaining r = 0 \<Longrightarrow> decode_inner limits ps r = Inr qs \<longleftrightarrow> qs = ps"
  by (subst decode_inner.simps) auto

lemma inner_frame_nonempty [simp]: "inner_frame p \<noteq> []"
  by (simp add: inner_frame_def packet_bytes_def)

lemma decode_inner_sound:
  "decode_inner limits ps r = Inr qs \<Longrightarrow> length ps \<le> max_inner_packets limits \<Longrightarrow>
   \<exists>new. qs = ps @ new \<and> rest r = concat (map inner_frame new) \<and> list_all (inner_ok limits) new
     \<and> length qs \<le> max_inner_packets limits"
proof (induction "remaining r" arbitrary: ps r rule: less_induct)
  case less
  show ?case
  proof (cases "remaining r = 0")
    case True
    with less.prems show ?thesis by (simp add: decode_inner_done remaining_rest)
  next
    case False
    from less.prems(1) obtain p r' where p: "length ps < max_inner_packets limits" "inner_ok limits p"
        "eats r (inner_frame p) r'" "decode_inner limits (ps @ [p]) r' = Inr qs"
      by (auto simp: decode_inner_round [OF False])
    then have "remaining r' < remaining r" by (simp add: eats_remaining [OF p(3)])
    with less.hyps [of r' "ps @ [p]"] p obtain new where "qs = ps @ [p] @ new"
        "rest r' = concat (map inner_frame new)" "list_all (inner_ok limits) new"
        "length qs \<le> max_inner_packets limits"
      by auto
    with p(2) eats_rest [OF p(3)] show ?thesis by (intro exI [of _ "p # new"]) simp
  qed
qed

lemma decode_inner_complete:
  "list_all (inner_ok limits) new \<Longrightarrow> length (ps @ new) \<le> max_inner_packets limits \<Longrightarrow>
   rest r = concat (map inner_frame new) \<Longrightarrow> decode_inner limits ps r = Inr (ps @ new)"
proof (induction new arbitrary: ps r)
  case Nil
  then show ?case by (simp add: decode_inner_done remaining_rest)
next
  case (Cons p new)
  then have "remaining r \<noteq> 0" by (simp add: remaining_rest)
  moreover obtain r' where r': "eats r (inner_frame p) r'"
    using Cons.prems(3) by (auto dest: eatsI)
  moreover have "decode_inner limits (ps @ [p]) r' = Inr ((ps @ [p]) @ new)"
    using Cons.prems eats_rest [OF r'] by (intro Cons.IH) auto
  ultimately show ?case using Cons.prems
    by (auto simp: decode_inner_round)
qed

lemma decode_inner_iff:
  "decode_inner limits [] (Reader_new u) = Inr ps \<longleftrightarrow>
   u = concat (map inner_frame ps) \<and> list_all (inner_ok limits) ps \<and> length ps \<le> max_inner_packets limits"
  using decode_inner_sound [of limits "[]" "Reader_new u" ps] decode_inner_complete [of limits ps "[]" "Reader_new u"]
  by auto

lemma encode_body_Inr_iff:
  "encode_body deflate batch limits = Inr out \<longleftrightarrow>
   batch_ok limits (batch_packets batch)
   \<and> (\<exists>z. deflate (concat (map inner_frame (batch_packets batch))) = Inr z
        \<and> length z \<le> max_batch_compressed_bytes limits \<and> length z < 2 ^ 32
        \<and> out = to_be_bytes (of_nat (length z) :: u32) @ z)"
  by (auto simp: encode_body_def result_simps encode_inners_Inr_iff batch_ok_def compress_zlib_def put_simps)

lemma decode_body_Inr_iff:
  "decode_body inflate body limits = Inr batch \<longleftrightarrow>
   (\<exists>z. body = to_be_bytes (of_nat (length z) :: u32) @ z \<and> length z < 2 ^ 32
     \<and> length z \<le> max_batch_compressed_bytes limits
     \<and> inflate z (min (max_batch_decompressed_bytes limits + 1) usize_max)
         = Inr (concat (map inner_frame (batch_packets batch))))
   \<and> batch_ok limits (batch_packets batch)" (is "?l = ?r")
proof
  assume ?l
  then obtain len m z r u where *: "eats (Reader_new body) (to_be_bytes (len :: u32)) m" "length z = unat len"
      "eats m z r" "rest r = []" "unat len \<le> max_batch_compressed_bytes limits"
      "inflate z (min (max_batch_decompressed_bytes limits + 1) usize_max) = Inr u"
      "length u \<le> max_batch_decompressed_bytes limits"
      "decode_inner limits [] (Reader_new u) = Inr (batch_packets batch)"
    by (clarsimp simp: decode_body_def result_simps read_iffs finish_Inr_iff decompress_zlib_limited_def Let_def
        split: prod.splits)
  have "len = of_nat (length z)" using *(2) by simp
  moreover have "body = to_be_bytes len @ z"
    using eats_rest [OF *(1)] eats_rest [OF *(3)] *(4) by simp
  moreover have "length z < 2 ^ 32" using *(2) unat_u32_less [of len] by simp
  ultimately show ?r using * by (auto simp: decode_inner_iff batch_ok_def)
next
  assume ?r
  then obtain z where z: "body = to_be_bytes (of_nat (length z) :: u32) @ z" "length z < 2 ^ 32"
      "length z \<le> max_batch_compressed_bytes limits"
      "inflate z (min (max_batch_decompressed_bytes limits + 1) usize_max)
         = Inr (concat (map inner_frame (batch_packets batch)))"
    and ok: "batch_ok limits (batch_packets batch)" by auto
  have "\<exists>m r. eats (Reader_new body) (to_be_bytes (of_nat (length z) :: u32)) m \<and> eats m z r \<and> rest r = []"
    using z(1) eats_all_iff [of body "to_be_bytes (of_nat (length z) :: u32) @ z"] by (auto simp: eats_append_iff)
  then obtain m r where "read_u32_be (Reader_new body) = Inr (of_nat (length z), m)"
      "read_exact (length z) m = Inr (z, r)" "rest r = []"
    by (auto simp: read_iffs)
  with z(2-4) ok show ?l
    by (auto simp: decode_body_def check_limit_def finish_def remaining_rest decompress_zlib_limited_def Let_def
        batch_ok_def decode_inner_iff result_simps)
qed

lemma batch_decodes:
  assumes "zlib_law deflate inflate" and "max_batch_decompressed_bytes limits \<le> usize_max"
    and "encode_body deflate batch limits = Inr body"
  shows "decode_body inflate body limits = Inr batch"
proof -
  let ?u = "concat (map inner_frame (batch_packets batch))"
  from assms(3) obtain z where ok: "batch_ok limits (batch_packets batch)" and z: "deflate ?u = Inr z"
      "length z \<le> max_batch_compressed_bytes limits" "length z < 2 ^ 32"
      "body = to_be_bytes (of_nat (length z) :: u32) @ z"
    by (auto simp: encode_body_Inr_iff)
  let ?n = "min (max_batch_decompressed_bytes limits + 1) usize_max"
  have "inflate z ?n = Inr (take ?n ?u)" using assms(1) z(1) by (simp add: zlib_law_def)
  moreover have "length ?u \<le> ?n" using ok assms(2) by (simp add: batch_ok_def)
  ultimately show ?thesis using z ok by (auto simp: decode_body_Inr_iff)
qed

section \<open>Properties\<close>

text \<open>
  The instances of the compressor used by the witnesses: a stored copy behind one marker byte.
\<close>

definition stored_deflate :: deflater where
  "stored_deflate x = Inr (0x78 # x)"

definition stored_inflate :: inflater where
  "stored_inflate z n = (case z of [] \<Rightarrow> Inl ''unexpected end of file'' | _ # x \<Rightarrow> Inr (take n x))"

definition sample_limits :: CodecLimits where
  "sample_limits = CodecLimits_new 4096 1024 1024 2048 512 4"

lemma stored_zlib_law: "zlib_law stored_deflate stored_inflate"
  by (auto simp: zlib_law_def stored_deflate_def stored_inflate_def split: list.splits)

text \<open>
  Game-frame encoding and decoding are mutually inverse under the same limits: a frame is the
  encoding of a packet exactly when it decodes to that packet. In particular every accepted
  frame is canonical and every packet the encoder accepts survives the wire.
\<close>

lemma game_frame_codec:
  assumes "max_frame_bytes limits \<le> usize_max"
  shows "encode_game_frame p limits = Inr frame \<longleftrightarrow> decode_game_frame frame limits = Inr p"
  using assms by (auto simp: encode_game_frame_Inr_iff decode_game_frame_Inr_iff)

lemma game_frame_codec_sample:
  "decode_game_frame [0xfe, 0x01, 0x2a] sample_limits = Inr (RawPacket_new 1 [0x2a])"
  using game_frame_codec [of sample_limits "RawPacket_new 1 [0x2a]" "[0xfe, 0x01, 0x2a]"]
  by (simp add: sample_limits_def CodecLimits_new_def usize_max_def encode_game_frame_Inr_iff
      GAME_MARKER_def packet_bytes_def RawPacket_new_def)

text \<open>
  C25: with a lossless compressor, whatever the Batch encoder produces decodes under the same
  limits to the same packets in the same order, with none lost to the decompression limit.
\<close>

theorem batch_roundtrip:
  assumes "zlib_law deflate inflate" and "max_batch_decompressed_bytes limits \<le> usize_max"
    and "encode_body deflate batch limits = Inr body"
  shows "decode_body inflate body limits = Inr batch"
  using assms by (rule batch_decodes)

definition sample_batch :: BatchPacket where
  "sample_batch = \<lparr>batch_packets = [RawPacket_new 0x8f [1, 2], RawPacket_new 0x90 []]\<rparr>"

lemma sample_batch_encodes:
  "encode_body stored_deflate sample_batch sample_limits
   = Inr [0, 0, 0, 13, 0x78, 0, 0, 0, 3, 0x8f, 1, 2, 0, 0, 0, 1, 0x90]"
  by (simp add: encode_body_Inr_iff sample_batch_def sample_limits_def CodecLimits_new_def batch_ok_def
      inner_ok_def inner_frame_def encoded_len_def packet_bytes_def RawPacket_new_def stored_deflate_def
      to_be_bytes_def to_le_bytes_def upt_rec)

theorem batch_roundtrip_witness:
  "decode_body stored_inflate [0, 0, 0, 13, 0x78, 0, 0, 0, 3, 0x8f, 1, 2, 0, 0, 0, 1, 0x90] sample_limits
   = Inr sample_batch"
  by (rule batch_roundtrip [OF stored_zlib_law _ sample_batch_encodes])
    (simp add: sample_limits_def CodecLimits_new_def usize_max_def)

text \<open>
  C26: every Batch body that the decoder accepts, for any decompressor and any input bytes, obeys
  all configured bounds: the compressed block is exactly the rest of the body and within its limit,
  the number of packets, the size of each packet and the decompressed size are within theirs, no
  packet is empty, and the decompressed bytes are exactly the framed packets, with none trailing.
\<close>

theorem batch_decode_bounds:
  assumes "decode_body inflate body limits = Inr batch"
  shows "length body \<le> 4 + max_batch_compressed_bytes limits
    \<and> inflate (drop 4 body) (min (max_batch_decompressed_bytes limits + 1) usize_max)
        = Inr (concat (map inner_frame (batch_packets batch)))
    \<and> length (concat (map inner_frame (batch_packets batch))) \<le> max_batch_decompressed_bytes limits
    \<and> length (batch_packets batch) \<le> max_inner_packets limits
    \<and> list_all (\<lambda>p. 1 \<le> encoded_len p \<and> encoded_len p \<le> max_inner_packet_bytes limits) (batch_packets batch)"
  using assms encoded_len_pos
  by (auto simp: decode_body_Inr_iff batch_ok_def list_all_iff inner_ok_def Suc_leI)

theorem batch_decode_bounds_witness:
  "length (batch_packets sample_batch) \<le> 4
   \<and> list_all (\<lambda>p. 1 \<le> encoded_len p \<and> encoded_len p \<le> 512) (batch_packets sample_batch)"
proof -
  have "decode_body stored_inflate [0, 0, 0, 13, 0x78, 0, 0, 0, 3, 0x8f, 1, 2, 0, 0, 0, 1, 0x90] sample_limits
      = Inr sample_batch"
    using sample_batch_encodes
    by (simp add: encode_body_Inr_iff decode_body_Inr_iff stored_inflate_def stored_deflate_def
        sample_limits_def CodecLimits_new_def usize_max_def)
  from batch_decode_bounds [OF this] show ?thesis
    by (simp add: sample_limits_def CodecLimits_new_def)
qed

end
