(* ===== verification/Nbt.thy ===== *)
theory Nbt
  imports Framing
begin

text \<open>
  Little-endian NBT documents: \<open>native/wire/src/nbt/mod.rs\<close> and \<open>nbt/codec.rs\<close>.

  The three loops of \<open>read_payload\<close> and \<open>write_payload\<close> (list elements, compound entries, int
  arrays) are mutually recursive functions. Reading terminates because every nested call is
  guarded by the depth limit and every further compound entry by the collection limit.
\<close>

section \<open>Definitions\<close>

datatype NbtTag =
    Tag_End | Tag_Byte | Tag_Short | Tag_Int | Tag_Long | Tag_Float | Tag_Double
  | Tag_ByteArray | Tag_String | Tag_List | Tag_Compound | Tag_IntArray

fun NbtTag_id :: "NbtTag \<Rightarrow> u8" where
  "NbtTag_id Tag_End = 0"
| "NbtTag_id Tag_Byte = 1"
| "NbtTag_id Tag_Short = 2"
| "NbtTag_id Tag_Int = 3"
| "NbtTag_id Tag_Long = 4"
| "NbtTag_id Tag_Float = 5"
| "NbtTag_id Tag_Double = 6"
| "NbtTag_id Tag_ByteArray = 7"
| "NbtTag_id Tag_String = 8"
| "NbtTag_id Tag_List = 9"
| "NbtTag_id Tag_Compound = 10"
| "NbtTag_id Tag_IntArray = 11"

definition NbtTag_from_id :: "u8 \<Rightarrow> CodecError + NbtTag" where
  "NbtTag_from_id i =
     (if i = 0 then Inr Tag_End
      else if i = 1 then Inr Tag_Byte
      else if i = 2 then Inr Tag_Short
      else if i = 3 then Inr Tag_Int
      else if i = 4 then Inr Tag_Long
      else if i = 5 then Inr Tag_Float
      else if i = 6 then Inr Tag_Double
      else if i = 7 then Inr Tag_ByteArray
      else if i = 8 then Inr Tag_String
      else if i = 9 then Inr Tag_List
      else if i = 10 then Inr Tag_Compound
      else if i = 11 then Inr Tag_IntArray
      else Inl (InvalidNbtTag i))"

datatype NbtValue =
    NbtByte i8
  | NbtShort i16
  | NbtInt i32
  | NbtLong i64
  | NbtFloat f32
  | NbtDouble f64
  | NbtByteArray bytes
  | NbtStr bytes
  | NbtList NbtTag "NbtValue list"
  | NbtCompound "NamedNbt list"
  | NbtIntArray "i32 list"
and NamedNbt = NamedNbt (nbt_name: bytes) (nbt_value: NbtValue)

fun NbtValue_tag :: "NbtValue \<Rightarrow> NbtTag" where
  "NbtValue_tag (NbtByte _) = Tag_Byte"
| "NbtValue_tag (NbtShort _) = Tag_Short"
| "NbtValue_tag (NbtInt _) = Tag_Int"
| "NbtValue_tag (NbtLong _) = Tag_Long"
| "NbtValue_tag (NbtFloat _) = Tag_Float"
| "NbtValue_tag (NbtDouble _) = Tag_Double"
| "NbtValue_tag (NbtByteArray _) = Tag_ByteArray"
| "NbtValue_tag (NbtStr _) = Tag_String"
| "NbtValue_tag (NbtList _ _) = Tag_List"
| "NbtValue_tag (NbtCompound _) = Tag_Compound"
| "NbtValue_tag (NbtIntArray _) = Tag_IntArray"

record NbtDocument =
  nbt_root :: NamedNbt

record NbtLimits =
  nbt_max_bytes :: nat
  nbt_max_depth :: nat
  nbt_max_collection_len :: nat
  nbt_max_string_bytes :: nat

definition NbtLimits_new :: "nat \<Rightarrow> nat \<Rightarrow> nat \<Rightarrow> nat \<Rightarrow> NbtLimits" where
  "NbtLimits_new b d c s =
     \<lparr>nbt_max_bytes = b, nbt_max_depth = d, nbt_max_collection_len = c, nbt_max_string_bytes = s\<rparr>"

definition nbt_read_string :: "NbtLimits \<Rightarrow> bytes reading" where
  "nbt_read_string limits =
     rd_bind read_u16_le (\<lambda>len.
     rd_bind (rd_lift (check_limit NbtString (unat len) (nbt_max_string_bytes limits))) (\<lambda>_.
     rd_bind (read_exact (unat len)) (\<lambda>bs.
     rd_lift (string_from_utf8 bs))))"

definition read_collection_len :: "string \<Rightarrow> NbtLimits \<Rightarrow> nat reading" where
  "read_collection_len field limits =
     rd_bind read_i32_le (\<lambda>v.
     if sint v < 0 then rd_err (NegativeLength field v)
     else
       rd_bind (rd_lift (check_limit NbtCollection (nat (sint v)) (nbt_max_collection_len limits))) (\<lambda>_.
       rd_ok (nat (sint v))))"

fun read_n :: "'a reading \<Rightarrow> nat \<Rightarrow> 'a list \<Rightarrow> 'a list reading" where
  "read_n p 0 acc = rd_ok acc"
| "read_n p (Suc n) acc = rd_bind p (\<lambda>x. read_n p n (acc @ [x]))"

lemma check_limit_mono_lift: "rd_lift (check_limit k a l) r = Inr (u, r') \<longleftrightarrow> a \<le> l \<and> r' = r"
  by (simp add: read_iffs result_simps)

function read_payload :: "NbtTag \<Rightarrow> NbtLimits \<Rightarrow> nat \<Rightarrow> NbtValue reading"
  and read_list_values :: "NbtTag \<Rightarrow> NbtLimits \<Rightarrow> nat \<Rightarrow> nat \<Rightarrow> NbtValue list \<Rightarrow> NbtValue list reading"
  and read_compound_entries :: "NbtLimits \<Rightarrow> nat \<Rightarrow> NamedNbt list \<Rightarrow> NamedNbt list reading" where
  "read_payload tag limits depth r =
     rd_bind (rd_lift (check_limit NbtDepth depth (nbt_max_depth limits))) (\<lambda>_.
     case tag of
       Tag_End \<Rightarrow> rd_err (InvalidNbtTag (NbtTag_id tag))
     | Tag_Byte \<Rightarrow> rd_bind read_i8 (\<lambda>v. rd_ok (NbtByte v))
     | Tag_Short \<Rightarrow> rd_bind read_i16_le (\<lambda>v. rd_ok (NbtShort v))
     | Tag_Int \<Rightarrow> rd_bind read_i32_le (\<lambda>v. rd_ok (NbtInt v))
     | Tag_Long \<Rightarrow> rd_bind read_i64_le (\<lambda>v. rd_ok (NbtLong v))
     | Tag_Float \<Rightarrow> rd_bind read_f32_le (\<lambda>v. rd_ok (NbtFloat v))
     | Tag_Double \<Rightarrow> rd_bind read_f64_le (\<lambda>v. rd_ok (NbtDouble v))
     | Tag_ByteArray \<Rightarrow>
         rd_bind (read_collection_len ''NBT byte array length'' limits) (\<lambda>len.
         rd_bind (read_exact len) (\<lambda>bs. rd_ok (NbtByteArray bs)))
     | Tag_String \<Rightarrow> rd_bind (nbt_read_string limits) (\<lambda>s. rd_ok (NbtStr s))
     | Tag_List \<Rightarrow>
         rd_bind read_u8 (\<lambda>i.
         rd_bind (rd_lift (NbtTag_from_id i)) (\<lambda>element_type.
         rd_bind (read_collection_len ''NBT list length'' limits) (\<lambda>len.
         if element_type = Tag_End \<and> len \<noteq> 0 then rd_err (InvalidNbtList len)
         else
           rd_bind (read_list_values element_type limits (depth + 1) len []) (\<lambda>values.
           rd_ok (NbtList element_type values)))))
     | Tag_Compound \<Rightarrow>
         rd_bind (read_compound_entries limits (depth + 1) []) (\<lambda>entries.
         rd_ok (NbtCompound entries))
     | Tag_IntArray \<Rightarrow>
         rd_bind (read_collection_len ''NBT int array length'' limits) (\<lambda>len.
         rd_bind (read_n read_i32_le len []) (\<lambda>vs.
         rd_ok (NbtIntArray vs)))) r"
| "read_list_values element_type limits child_depth 0 values r = rd_ok values r"
| "read_list_values element_type limits child_depth (Suc n) values r =
     rd_bind (read_payload element_type limits child_depth) (\<lambda>v.
     read_list_values element_type limits child_depth n (values @ [v])) r"
| "read_compound_entries limits child_depth entries r =
     rd_bind read_u8 (\<lambda>i.
     rd_bind (rd_lift (NbtTag_from_id i)) (\<lambda>child_type r.
     if child_type = Tag_End then rd_ok entries r
     else
       rd_bind (rd_lift (check_limit NbtCollection (length entries + 1) (nbt_max_collection_len limits))) (\<lambda>_.
       rd_bind (nbt_read_string limits) (\<lambda>name.
       rd_bind (read_payload child_type limits child_depth) (\<lambda>v.
       read_compound_entries limits child_depth (entries @ [NamedNbt name v])))) r)) r"
  by pat_completeness auto
termination
  apply (relation "inv_image (less_than <*lex*> less_than) (\<lambda>x. case x of
      Inl (tag, limits, depth, r) \<Rightarrow> (Suc (nbt_max_depth limits) - depth, 0)
    | Inr (Inl (ty, limits, c, n, vs, r)) \<Rightarrow> (Suc (nbt_max_depth limits) - c, Suc n)
    | Inr (Inr (limits, c, entries, r)) \<Rightarrow>
        (Suc (nbt_max_depth limits) - c, Suc (nbt_max_collection_len limits - length entries)))")
  apply (auto simp: check_limit_mono_lift split: sum.splits)
  done

declare read_payload.simps [simp del] read_compound_entries.simps [simp del]

definition ensure_output_room :: "Writer \<Rightarrow> nat \<Rightarrow> NbtLimits \<Rightarrow> CodecError + unit" where
  "ensure_output_room w additional limits =
     rbind (ok_or (usize_checked_add (Writer_len w) additional)
              (LimitExceeded NbtBytes (nbt_max_bytes limits) usize_max)) (\<lambda>actual.
     check_limit NbtBytes actual (nbt_max_bytes limits))"

definition nbt_write_string :: "string \<Rightarrow> bytes \<Rightarrow> NbtLimits \<Rightarrow> Writer \<Rightarrow> CodecError + Writer" where
  "nbt_write_string field v limits w =
     rbind (check_limit NbtString (length v) (nbt_max_string_bytes limits)) (\<lambda>_.
     rbind (ensure (length v \<le> 65535) (LengthOutOfRange field (length v) 65535)) (\<lambda>_.
     rbind (ok_or (usize_checked_add 2 (length v))
              (LimitExceeded NbtBytes (nbt_max_bytes limits) usize_max)) (\<lambda>additional.
     rbind (ensure_output_room w additional limits) (\<lambda>_.
     Inr (put_bytes v (put_u16_le (of_nat (length v)) w))))))"

definition write_i32_len :: "string \<Rightarrow> nat \<Rightarrow> Writer \<Rightarrow> CodecError + Writer" where
  "write_i32_len field len w =
     (if len < 2 ^ 31 then Inr (put_i32_le (of_nat len) w)
      else Inl (LengthOutOfRange field len (2 ^ 31 - 1)))"

definition write_collection_len :: "string \<Rightarrow> nat \<Rightarrow> NbtLimits \<Rightarrow> Writer \<Rightarrow> CodecError + Writer" where
  "write_collection_len field len limits w =
     rbind (check_limit NbtCollection len (nbt_max_collection_len limits)) (\<lambda>_.
     write_i32_len field len w)"

fun write_payload :: "NbtLimits \<Rightarrow> nat \<Rightarrow> NbtValue \<Rightarrow> Writer \<Rightarrow> CodecError + Writer"
  and write_list_values :: "NbtTag \<Rightarrow> NbtLimits \<Rightarrow> nat \<Rightarrow> NbtValue list \<Rightarrow> Writer \<Rightarrow> CodecError + Writer"
  and write_compound_entries :: "NbtLimits \<Rightarrow> nat \<Rightarrow> NamedNbt list \<Rightarrow> Writer \<Rightarrow> CodecError + Writer" where
  "write_payload limits depth v w =
     rbind (check_limit NbtDepth depth (nbt_max_depth limits)) (\<lambda>_.
     rbind
       (case v of
          NbtByte x \<Rightarrow> Inr (put_i8 x w)
        | NbtShort x \<Rightarrow> Inr (put_i16_le x w)
        | NbtInt x \<Rightarrow> Inr (put_i32_le x w)
        | NbtLong x \<Rightarrow> Inr (put_i64_le x w)
        | NbtFloat x \<Rightarrow> Inr (put_f32_le x w)
        | NbtDouble x \<Rightarrow> Inr (put_f64_le x w)
        | NbtByteArray bs \<Rightarrow>
            rbind (write_collection_len ''NBT byte array length'' (length bs) limits w) (\<lambda>w.
            rbind (ensure_output_room w (length bs) limits) (\<lambda>_.
            Inr (put_bytes bs w)))
        | NbtStr s \<Rightarrow> nbt_write_string ''NBT string'' s limits w
        | NbtList element_type values \<Rightarrow>
            rbind (check_limit NbtCollection (length values) (nbt_max_collection_len limits)) (\<lambda>_.
            if element_type = Tag_End \<and> values \<noteq> [] then Inl (InvalidNbtList (length values))
            else
              rbind (write_i32_len ''NBT list length'' (length values) (put_u8 (NbtTag_id element_type) w)) (\<lambda>w.
              write_list_values element_type limits (depth + 1) values w))
        | NbtCompound entries \<Rightarrow>
            rbind (check_limit NbtCollection (length entries) (nbt_max_collection_len limits)) (\<lambda>_.
            rbind (write_compound_entries limits (depth + 1) entries w) (\<lambda>w.
            Inr (put_u8 (NbtTag_id Tag_End) w)))
        | NbtIntArray xs \<Rightarrow>
            rbind (write_collection_len ''NBT int array length'' (length xs) limits w) (\<lambda>w.
            Inr (fold put_i32_le xs w)))
       (\<lambda>w. rbind (check_limit NbtBytes (Writer_len w) (nbt_max_bytes limits)) (\<lambda>_. Inr w)))"
| "write_list_values element_type limits child_depth [] w = Inr w"
| "write_list_values element_type limits child_depth (v # vs) w =
     (if NbtValue_tag v \<noteq> element_type
      then Inl (NbtListTypeMismatch (NbtTag_id element_type) (NbtTag_id (NbtValue_tag v)))
      else
        rbind (write_payload limits child_depth v w) (\<lambda>w.
        write_list_values element_type limits child_depth vs w))"
| "write_compound_entries limits child_depth [] w = Inr w"
| "write_compound_entries limits child_depth (NamedNbt name v # es) w =
     rbind (nbt_write_string ''NBT tag name'' name limits (put_u8 (NbtTag_id (NbtValue_tag v)) w)) (\<lambda>w.
     rbind (write_payload limits child_depth v w) (\<lambda>w.
     write_compound_entries limits child_depth es w))"

definition decode_le :: "bytes \<Rightarrow> NbtLimits \<Rightarrow> CodecError + NbtDocument" where
  "decode_le inp limits =
     rbind (check_limit NbtBytes (length inp) (nbt_max_bytes limits)) (\<lambda>_.
     rbind (rd_bind read_u8 (\<lambda>i. rd_lift (NbtTag_from_id i)) (Reader_new inp)) (\<lambda>(tag, r).
     if tag = Tag_End then Inl (InvalidNbtTag (NbtTag_id Tag_End))
     else
       rbind (nbt_read_string limits r) (\<lambda>(name, r).
       rbind (read_payload tag limits 0 r) (\<lambda>(v, r).
       rbind (finish r) (\<lambda>_.
       Inr \<lparr>nbt_root = NamedNbt name v\<rparr>)))))"

definition encode_le :: "NbtDocument \<Rightarrow> NbtLimits \<Rightarrow> CodecError + bytes" where
  "encode_le doc limits =
     rbind (nbt_write_string ''NBT root name'' (nbt_name (nbt_root doc)) limits
              (put_u8 (NbtTag_id (NbtValue_tag (nbt_value (nbt_root doc)))) Writer_new)) (\<lambda>w.
     rbind (write_payload limits 0 (nbt_value (nbt_root doc)) w) (\<lambda>w.
     rbind (check_limit NbtBytes (Writer_len w) (nbt_max_bytes limits)) (\<lambda>_.
     Inr (into_vec w))))"

section \<open>The NBT format\<close>

text \<open>The layout of values, and which values a set of limits admits at a nesting depth.\<close>

definition nbt_string :: "bytes \<Rightarrow> bytes" where
  "nbt_string s = to_le_bytes (of_nat (length s) :: u16) @ s"

definition nbt_len :: "nat \<Rightarrow> bytes" where
  "nbt_len n = to_le_bytes (of_nat n :: i32)"

fun nbt_bytes :: "NbtValue \<Rightarrow> bytes" and named_bytes :: "NamedNbt \<Rightarrow> bytes" where
  "nbt_bytes (NbtByte x) = [x]"
| "nbt_bytes (NbtShort x) = to_le_bytes x"
| "nbt_bytes (NbtInt x) = to_le_bytes x"
| "nbt_bytes (NbtLong x) = to_le_bytes x"
| "nbt_bytes (NbtFloat x) = to_le_bytes x"
| "nbt_bytes (NbtDouble x) = to_le_bytes x"
| "nbt_bytes (NbtByteArray bs) = nbt_len (length bs) @ bs"
| "nbt_bytes (NbtStr s) = nbt_string s"
| "nbt_bytes (NbtList ty vs) = NbtTag_id ty # nbt_len (length vs) @ concat (map nbt_bytes vs)"
| "nbt_bytes (NbtCompound es) = concat (map named_bytes es) @ [NbtTag_id Tag_End]"
| "nbt_bytes (NbtIntArray xs) = nbt_len (length xs) @ concat (map to_le_bytes xs)"
| "named_bytes (NamedNbt n v) = NbtTag_id (NbtValue_tag v) # nbt_string n @ nbt_bytes v"

definition string_fits :: "NbtLimits \<Rightarrow> bytes \<Rightarrow> bool" where
  "string_fits limits s \<longleftrightarrow> length s \<le> nbt_max_string_bytes limits \<and> length s \<le> 65535"

definition collection_fits :: "NbtLimits \<Rightarrow> nat \<Rightarrow> bool" where
  "collection_fits limits n \<longleftrightarrow> n \<le> nbt_max_collection_len limits \<and> n < 2 ^ 31"

fun nbt_fits :: "NbtLimits \<Rightarrow> nat \<Rightarrow> NbtValue \<Rightarrow> bool" and named_fits :: "NbtLimits \<Rightarrow> nat \<Rightarrow> NamedNbt \<Rightarrow> bool" where
  "nbt_fits limits d v \<longleftrightarrow> d \<le> nbt_max_depth limits \<and>
     (case v of
        NbtByteArray bs \<Rightarrow> collection_fits limits (length bs)
      | NbtStr s \<Rightarrow> string_fits limits s
      | NbtList ty vs \<Rightarrow> collection_fits limits (length vs)
          \<and> (\<forall>v \<in> set vs. NbtValue_tag v = ty \<and> nbt_fits limits (d + 1) v)
      | NbtCompound es \<Rightarrow> length es \<le> nbt_max_collection_len limits \<and> (\<forall>e \<in> set es. named_fits limits (d + 1) e)
      | NbtIntArray xs \<Rightarrow> collection_fits limits (length xs)
      | _ \<Rightarrow> True)"
| "named_fits limits d (NamedNbt n v) \<longleftrightarrow> string_fits limits n \<and> nbt_fits limits d v"

text \<open>The strings of a value are Rust \<open>String\<close>s.\<close>

fun nbt_utf8 :: "NbtValue \<Rightarrow> bool" and named_utf8 :: "NamedNbt \<Rightarrow> bool" where
  "nbt_utf8 (NbtStr s) = valid_utf8 s"
| "nbt_utf8 (NbtList ty vs) = (\<forall>v \<in> set vs. nbt_utf8 v)"
| "nbt_utf8 (NbtCompound es) = (\<forall>e \<in> set es. named_utf8 e)"
| "nbt_utf8 _ = True"
| "named_utf8 (NamedNbt n v) \<longleftrightarrow> valid_utf8 n \<and> nbt_utf8 v"

definition document_utf8 :: "NbtDocument \<Rightarrow> bool" where
  "document_utf8 doc \<longleftrightarrow> named_utf8 (nbt_root doc)"

declare nbt_fits.simps [simp del] write_payload.simps [simp del]

section \<open>Reading\<close>

lemma tag_from_id_iff: "NbtTag_from_id i = Inr t \<longleftrightarrow> i = NbtTag_id t"
  by (cases t) (auto simp: NbtTag_from_id_def)

lemma tag_from_id_id [simp]: "NbtTag_from_id (NbtTag_id t) = Inr t"
  by (simp add: tag_from_id_iff)

lemma value_tag_not_End [simp]: "NbtValue_tag v \<noteq> Tag_End" "Tag_End \<noteq> NbtValue_tag v"
  by (cases v; simp)+

lemma NbtTag_id_inj [simp]: "NbtTag_id a = NbtTag_id b \<longleftrightarrow> a = b"
  using tag_from_id_iff by (metis sum.inject(2))

lemma NbtTag_id_0 [simp]: "NbtTag_id t = 0 \<longleftrightarrow> t = Tag_End" "0 = NbtTag_id t \<longleftrightarrow> t = Tag_End"
  by (cases t; simp)+

lemma nbt_read_string_iff [read_iffs]:
  "nbt_read_string limits r = Inr (s, r') \<longleftrightarrow> string_fits limits s \<and> valid_utf8 s \<and> eats r (nbt_string s) r'"
  using unat_u16_bound
  by (fastforce simp: nbt_read_string_def read_iffs result_simps string_from_utf8_def nbt_string_def
      string_fits_def eats_append_iff split: if_splits)

lemma sint_of_nat_i32: "n < 2 ^ 31 \<Longrightarrow> sint (of_nat n :: i32) = int n"
  by (simp add: signed_of_nat signed_take_bit_int_eq_self)

lemma of_nat_sint_i32: "0 \<le> sint (v :: i32) \<Longrightarrow> of_nat (nat (sint v)) = v"
  by simp

lemma nat_sint_i32_bound: "nat (sint (v :: i32)) < 2 ^ 31"
  using sint_lt [of v] by simp

lemma read_collection_len_iff [read_iffs]:
  "read_collection_len field limits r = Inr (n, r') \<longleftrightarrow> collection_fits limits n \<and> eats r (nbt_len n) r'"
  (is "?l = ?r")
proof
  assume ?l
  then obtain v where v: "eats r (to_le_bytes v) r'" "0 \<le> sint (v :: i32)" "n = nat (sint v)"
      "n \<le> nbt_max_collection_len limits"
    by (auto simp: read_collection_len_def read_iffs result_simps split: if_splits)
  with of_nat_sint_i32 [OF v(2)] nat_sint_i32_bound [of v] show ?r
    by (simp add: collection_fits_def nbt_len_def)
next
  assume r: ?r
  then have "read_i32_le r = Inr (of_nat n, r')" by (simp add: read_iffs nbt_len_def)
  with r show ?l
    by (auto simp: read_collection_len_def rd_bind_def rd_lift_def check_limit_def rd_ok_def collection_fits_def sint_of_nat_i32)
qed

lemma read_n_iff:
  assumes "wire_codec p enc okv"
  shows "read_n p n acc r = Inr (xs, r') \<longleftrightarrow>
    (\<exists>ys. xs = acc @ ys \<and> length ys = n \<and> (\<forall>y \<in> set ys. okv y) \<and> eats r (concat (map enc ys)) r')"
proof (induction n arbitrary: acc r)
  case 0
  then show ?case by (auto simp: read_iffs)
next
  case (Suc n)
  note p = wire_codec.read_iff [OF assms]
  show ?case
  proof
    assume "read_n p (Suc n) acc r = Inr (xs, r')"
    then obtain y m ys where "okv y" "eats r (enc y) m" "xs = (acc @ [y]) @ ys" "length ys = n"
        "\<forall>y \<in> set ys. okv y" "eats m (concat (map enc ys)) r'"
      by (auto simp: read_iffs p Suc)
    then show "\<exists>ys. xs = acc @ ys \<and> length ys = Suc n \<and> (\<forall>y \<in> set ys. okv y) \<and> eats r (concat (map enc ys)) r'"
      by (intro exI [of _ "y # ys"]) (auto intro: eats_trans)
  next
    assume "\<exists>ys. xs = acc @ ys \<and> length ys = Suc n \<and> (\<forall>y \<in> set ys. okv y) \<and> eats r (concat (map enc ys)) r'"
    then obtain y ys m where "xs = acc @ y # ys" "length ys = n" "okv y" "\<forall>y \<in> set ys. okv y"
        "eats r (enc y) m" "eats m (concat (map enc ys)) r'"
      by (auto simp: length_Suc_conv eats_append_iff)
    moreover from this have "read_n p n (acc @ [y]) m = Inr (xs, r')" by (subst Suc) auto
    ultimately show "read_n p (Suc n) acc r = Inr (xs, r')"
      by (auto simp: read_iffs p)
  qed
qed

text \<open>The domain of \<open>read_payload\<close> for a tag at a depth.\<close>

definition payload_ok :: "NbtTag \<Rightarrow> NbtLimits \<Rightarrow> nat \<Rightarrow> NbtValue \<Rightarrow> bool" where
  "payload_ok tag limits d v \<longleftrightarrow> NbtValue_tag v = tag \<and> nbt_fits limits d v \<and> nbt_utf8 v"

definition entry_ok :: "NbtLimits \<Rightarrow> nat \<Rightarrow> NamedNbt \<Rightarrow> bool" where
  "entry_ok limits d e \<longleftrightarrow> named_fits limits d e \<and> named_utf8 e"

lemma payload_ok_End [simp]: "\<not> payload_ok Tag_End limits d v"
  by (simp add: payload_ok_def)

lemma read_list_values_read_n:
  "read_list_values ty limits c n vs = read_n (read_payload ty limits c) n vs"
proof (induction n arbitrary: vs)
  case 0
  then show ?case by (rule ext) simp
next
  case (Suc n)
  then show ?case by (intro ext) simp
qed

lemma read_compound_entries_round:
  assumes pay: "\<And>ty. wire_codec (read_payload ty limits c) nbt_bytes (payload_ok ty limits c)"
  shows "read_compound_entries limits c acc r = Inr (es, r') \<longleftrightarrow>
    es = acc \<and> eats r [NbtTag_id Tag_End] r'
    \<or> length acc < nbt_max_collection_len limits
      \<and> (\<exists>e m. entry_ok limits c e \<and> eats r (named_bytes e) m
           \<and> read_compound_entries limits c (acc @ [e]) m = Inr (es, r'))" (is "?l = (?stop \<or> ?more)")
proof
  assume ?l
  then consider (stop) "es = acc" "eats r [0] r'"
    | (more) ty m1 n m2 v m3 where "length acc < nbt_max_collection_len limits" "eats r [NbtTag_id ty] m1"
        "string_fits limits n" "valid_utf8 n" "eats m1 (nbt_string n) m2"
        "payload_ok ty limits c v" "eats m2 (nbt_bytes v) m3"
        "read_compound_entries limits c (acc @ [NamedNbt n v]) m3 = Inr (es, r')"
    by (auto simp: read_compound_entries.simps [of limits c acc r] read_iffs result_simps tag_from_id_iff
        wire_codec.read_iff [OF pay] less_eq_Suc_le split: if_splits)
  then show "?stop \<or> ?more"
  proof cases
    case stop
    then show ?thesis by simp
  next
    case more
    then have "eats r (named_bytes (NamedNbt n v)) m3"
      using eats_trans [OF more(2) eats_trans [OF more(5,7)]] by (simp add: payload_ok_def)
    with more show ?thesis by (auto simp: entry_ok_def payload_ok_def intro!: exI [of _ "NamedNbt n v"])
  qed
next
  assume "?stop \<or> ?more"
  then show ?l
  proof
    assume ?stop
    then show ?l by (auto simp: read_compound_entries.simps [of limits c acc r] read_iffs tag_from_id_iff)
  next
    assume ?more
    then obtain e m where e: "length acc < nbt_max_collection_len limits" "entry_ok limits c e"
        "eats r (named_bytes e) m" "read_compound_entries limits c (acc @ [e]) m = Inr (es, r')"
      by auto
    obtain n v where "e = NamedNbt n v" by (cases e)
    note * = e [unfolded this]
    then obtain m1 m2 where "eats r [NbtTag_id (NbtValue_tag v)] m1" "eats m1 (nbt_string n) m2" "eats m2 (nbt_bytes v) m"
      by (auto simp: eats_Cons_append_iff eats_append_iff)
    moreover from this * have "read_u8 r = Inr (NbtTag_id (NbtValue_tag v), m1)"
      and "nbt_read_string limits m1 = Inr (n, m2)"
      and "read_payload (NbtValue_tag v) limits c m2 = Inr (v, m)"
      by (auto simp: read_iffs wire_codec.read_iff [OF pay] entry_ok_def payload_ok_def)
    ultimately show ?l using *
      by (simp add: read_compound_entries.simps [of limits c acc r] rd_bind_def rd_lift_def check_limit_def)
  qed
qed

lemma read_compound_entries_iff:
  assumes pay: "\<And>ty. wire_codec (read_payload ty limits c) nbt_bytes (payload_ok ty limits c)"
  shows "length acc \<le> nbt_max_collection_len limits \<Longrightarrow>
    read_compound_entries limits c acc r = Inr (es, r') \<longleftrightarrow>
    (\<exists>new. es = acc @ new \<and> length es \<le> nbt_max_collection_len limits
       \<and> (\<forall>e \<in> set new. entry_ok limits c e) \<and> eats r (concat (map named_bytes new) @ [NbtTag_id Tag_End]) r')"
    (is "_ \<Longrightarrow> _ \<longleftrightarrow> (\<exists>new. ?P acc r new)")
proof (induction "nbt_max_collection_len limits - length acc" arbitrary: acc r rule: less_induct)
  case less
  have IH: "read_compound_entries limits c (acc @ [e]) m = Inr (es, r') \<longleftrightarrow> (\<exists>new. ?P (acc @ [e]) m new)"
    if "length acc < nbt_max_collection_len limits" for e m
    using that by (intro less.hyps) auto
  have "(\<exists>new. ?P acc r new) \<longleftrightarrow> ?P acc r [] \<or> (\<exists>e new. ?P acc r (e # new))"
    by (rule ex_list_iff)
  moreover have "?P acc r (e # new) \<longleftrightarrow> length acc < nbt_max_collection_len limits \<and> entry_ok limits c e
      \<and> (\<exists>m. eats r (named_bytes e) m \<and> ?P (acc @ [e]) m new)" for e new
    by (auto simp: eats_append_iff)
  ultimately show ?case
    using less.prems by (auto simp: read_compound_entries_round [OF pay, of acc r es r'] IH cong: conj_cong)
qed

lemma value_tag_iffs:
  "NbtValue_tag v = Tag_Byte \<longleftrightarrow> (\<exists>x. v = NbtByte x)"
  "NbtValue_tag v = Tag_Short \<longleftrightarrow> (\<exists>x. v = NbtShort x)"
  "NbtValue_tag v = Tag_Int \<longleftrightarrow> (\<exists>x. v = NbtInt x)"
  "NbtValue_tag v = Tag_Long \<longleftrightarrow> (\<exists>x. v = NbtLong x)"
  "NbtValue_tag v = Tag_Float \<longleftrightarrow> (\<exists>x. v = NbtFloat x)"
  "NbtValue_tag v = Tag_Double \<longleftrightarrow> (\<exists>x. v = NbtDouble x)"
  "NbtValue_tag v = Tag_ByteArray \<longleftrightarrow> (\<exists>x. v = NbtByteArray x)"
  "NbtValue_tag v = Tag_String \<longleftrightarrow> (\<exists>x. v = NbtStr x)"
  "NbtValue_tag v = Tag_List \<longleftrightarrow> (\<exists>ty vs. v = NbtList ty vs)"
  "NbtValue_tag v = Tag_Compound \<longleftrightarrow> (\<exists>es. v = NbtCompound es)"
  "NbtValue_tag v = Tag_IntArray \<longleftrightarrow> (\<exists>x. v = NbtIntArray x)"
  by (cases v; simp)+

lemma nbt_fits_iffs:
  "nbt_fits limits d (NbtList ty vs) \<longleftrightarrow> d \<le> nbt_max_depth limits \<and> collection_fits limits (length vs)
     \<and> (\<forall>v \<in> set vs. NbtValue_tag v = ty \<and> nbt_fits limits (d + 1) v)"
  "nbt_fits limits d (NbtCompound es) \<longleftrightarrow> d \<le> nbt_max_depth limits
     \<and> length es \<le> nbt_max_collection_len limits \<and> (\<forall>e \<in> set es. named_fits limits (d + 1) e)"
  by (subst nbt_fits.simps, simp)+

lemma payload_depth: "\<not> d \<le> nbt_max_depth limits \<Longrightarrow>
    read_payload tag limits d r = Inr (v, r') \<longleftrightarrow> payload_ok tag limits d v \<and> eats r (nbt_bytes v) r'"
  by (simp add: read_payload.simps read_iffs result_simps payload_ok_def nbt_fits.simps)

lemma payload_scalar:
  assumes "d \<le> nbt_max_depth limits" and "tag \<notin> {Tag_List, Tag_Compound, Tag_IntArray}"
  shows "read_payload tag limits d r = Inr (v, r') \<longleftrightarrow> payload_ok tag limits d v \<and> eats r (nbt_bytes v) r'"
  using assms
  by (cases tag)
    (auto simp: read_payload.simps read_iffs result_simps payload_ok_def nbt_fits.simps value_tag_iffs eats_append_iff)

lemma payload_int_array:
  assumes "d \<le> nbt_max_depth limits"
  shows "read_payload Tag_IntArray limits d r = Inr (v, r')
    \<longleftrightarrow> payload_ok Tag_IntArray limits d v \<and> eats r (nbt_bytes v) r'"
proof -
  have ints: "read_n read_i32_le n [] m = Inr (xs, r') \<longleftrightarrow> length xs = n \<and> eats m (concat (map to_le_bytes xs)) r'"
    for n m xs
    by (subst read_n_iff [of read_i32_le to_le_bytes "\<lambda>_. True"]) (auto intro: wire_codec.intro simp: read_iffs)
  show ?thesis
    using assms
    by (auto simp: read_payload.simps read_iffs ints result_simps payload_ok_def nbt_fits.simps value_tag_iffs eats_append_iff)
qed

lemma payload_list:
  assumes "d \<le> nbt_max_depth limits"
    and "\<And>ty. wire_codec (read_payload ty limits (d + 1)) nbt_bytes (payload_ok ty limits (d + 1))"
  shows "read_payload Tag_List limits d r = Inr (v, r') \<longleftrightarrow> payload_ok Tag_List limits d v \<and> eats r (nbt_bytes v) r'"
proof -
  have vals: "read_list_values ty limits (Suc d) n [] m = Inr (vs, r') \<longleftrightarrow>
      length vs = n \<and> (\<forall>v \<in> set vs. payload_ok ty limits (d + 1) v) \<and> eats m (concat (map nbt_bytes vs)) r'"
    for ty n m vs
    using read_n_iff [OF assms(2)] by (simp add: read_list_values_read_n)
  show ?thesis (is "?l = ?r")
  proof
    assume ?l
    with assms(1) obtain ty vs m1 m2 where v: "v = NbtList ty vs"
      and "eats r [NbtTag_id ty] m1" "eats m1 (nbt_len (length vs)) m2" "eats m2 (concat (map nbt_bytes vs)) r'"
      and ok: "collection_fits limits (length vs)" "\<forall>v \<in> set vs. payload_ok ty limits (d + 1) v"
      by (auto simp: read_payload.simps read_iffs vals result_simps tag_from_id_iff split: if_splits)
    then have "eats r ([NbtTag_id ty] @ nbt_len (length vs) @ concat (map nbt_bytes vs)) r'"
      by (auto simp only: eats_append_iff)
    with v ok assms(1) show ?r by (auto simp: payload_ok_def nbt_fits_iffs)
  next
    assume r: ?r
    then obtain ty vs where v: "v = NbtList ty vs" by (auto simp: payload_ok_def value_tag_iffs)
    with r have "eats r ([NbtTag_id ty] @ nbt_len (length vs) @ concat (map nbt_bytes vs)) r'" by simp
    then obtain m1 m2 where m: "eats r [NbtTag_id ty] m1" "eats m1 (nbt_len (length vs)) m2"
        "eats m2 (concat (map nbt_bytes vs)) r'"
      by (auto simp only: eats_append_iff)
    from r v have ok: "collection_fits limits (length vs)" "\<forall>v \<in> set vs. payload_ok ty limits (d + 1) v"
      and stop: "ty = Tag_End \<Longrightarrow> vs = []"
      by (auto simp: payload_ok_def nbt_fits_iffs)
    have "read_u8 r = Inr (NbtTag_id ty, m1)" "read_collection_len ''NBT list length'' limits m1 = Inr (length vs, m2)"
        "read_list_values ty limits (Suc d) (length vs) [] m2 = Inr (vs, r')"
      using m ok by (auto simp: read_iffs vals)
    with assms(1) stop v show ?l
      by (auto simp: read_payload.simps rd_bind_def rd_lift_def check_limit_def rd_ok_def)
  qed
qed

lemma payload_compound:
  assumes "d \<le> nbt_max_depth limits"
    and "\<And>ty. wire_codec (read_payload ty limits (d + 1)) nbt_bytes (payload_ok ty limits (d + 1))"
  shows "read_payload Tag_Compound limits d r = Inr (v, r') \<longleftrightarrow> payload_ok Tag_Compound limits d v \<and> eats r (nbt_bytes v) r'"
  using assms(1) read_compound_entries_iff [OF assms(2), of "[]"]
  by (auto simp: read_payload.simps read_iffs result_simps payload_ok_def nbt_fits.simps value_tag_iffs entry_ok_def)

text \<open>Reading a payload accepts exactly the admitted values, in exactly their layout.\<close>

interpretation np: wire_codec "read_payload tag limits d" nbt_bytes "payload_ok tag limits d" for tag limits d
proof (induction "Suc (nbt_max_depth limits) - d" arbitrary: tag d rule: less_induct)
  case less
  show ?case
  proof (unfold_locales, cases "d \<le> nbt_max_depth limits")
    fix r v r'
    assume d: "d \<le> nbt_max_depth limits"
    then have IH: "\<And>ty. wire_codec (read_payload ty limits (d + 1)) nbt_bytes (payload_ok ty limits (d + 1))"
      by (intro less.hyps) simp
    show "read_payload tag limits d r = Inr (v, r') \<longleftrightarrow> payload_ok tag limits d v \<and> eats r (nbt_bytes v) r'"
      using payload_scalar [OF d] payload_int_array [OF d] payload_list [OF d IH] payload_compound [OF d IH]
      by (cases tag) auto
  qed (rule payload_depth)
qed

section \<open>Writing\<close>

definition appended :: "Writer \<Rightarrow> bytes \<Rightarrow> Writer" where
  "appended w bs = w\<lparr>written := written w @ bs\<rparr>"

lemma appended_appended [simp]: "appended (appended w a) b = appended w (a @ b)"
  by (simp add: appended_def)

lemma appended_Nil [simp]: "appended w [] = w"
  by (simp add: appended_def)

lemma written_appended [simp]: "written (appended w bs) = written w @ bs"
  by (simp add: appended_def)

lemma put_appended:
  "put_bytes bs w = appended w bs" "put_u8 b w = appended w [b]" "put_i8 b w = appended w [b]"
  "put_u16_be u16 w = appended w (to_be_bytes u16)" "put_u16_le u16 w = appended w (to_le_bytes u16)"
  "put_i16_le u16 w = appended w (to_le_bytes u16)" "put_u32_be u32 w = appended w (to_be_bytes u32)"
  "put_i32_be u32 w = appended w (to_be_bytes u32)" "put_i64_be u64 w = appended w (to_be_bytes u64)"
  "put_f32_be u32 w = appended w (to_be_bytes u32)" "put_i32_le u32 w = appended w (to_le_bytes u32)"
  "put_i64_le u64 w = appended w (to_le_bytes u64)" "put_f32_le u32 w = appended w (to_le_bytes u32)"
  "put_f64_le u64 w = appended w (to_le_bytes u64)"
  by (simp_all add: appended_def put_bytes_def put_u8_def put_i8_def put_u16_be_def put_u16_le_def
      put_i16_le_def put_u32_be_def put_i32_be_def put_i64_be_def put_f32_be_def put_i32_le_def
      put_i64_le_def put_f32_le_def put_f64_le_def)

lemma put_string_u16_appended:
  "put_string_u16 field v w = Inr w' \<longleftrightarrow> length v \<le> 65535 \<and> w' = appended w (string_u16 v)"
  by (auto simp: put_string_u16_Inr_iff appended_def)

lemma fold_put_i32_le: "fold put_i32_le xs w = appended w (concat (map to_le_bytes xs))"
  by (induction xs arbitrary: w) (simp_all add: put_appended)

definition room :: "NbtLimits \<Rightarrow> Writer \<Rightarrow> bool" where
  "room limits w \<longleftrightarrow> length (written w) \<le> nbt_max_bytes limits"

lemma room_prefix: "room limits (appended w bs) \<Longrightarrow> room limits w"
  by (simp add: room_def)

lemma room_prefix_append: "room limits (appended w (a @ b)) \<Longrightarrow> room limits (appended w a)"
  by (simp add: room_def)

lemma ensure_output_room_iff:
  "nbt_max_bytes limits \<le> usize_max \<Longrightarrow>
   ensure_output_room w n limits = Inr u \<longleftrightarrow> length (written w) + n \<le> nbt_max_bytes limits"
  by (auto simp: ensure_output_room_def result_simps Writer_len_def)

lemma nbt_write_string_iff:
  assumes "nbt_max_bytes limits \<le> usize_max"
  shows "nbt_write_string field s limits w = Inr w' \<longleftrightarrow>
    string_fits limits s \<and> w' = appended w (nbt_string s) \<and> room limits w'"
  using assms
  by (auto simp: nbt_write_string_def result_simps ensure_output_room_iff string_fits_def nbt_string_def
      put_appended room_def)

lemma write_i32_len_iff: "write_i32_len field n w = Inr w' \<longleftrightarrow> n < 2 ^ 31 \<and> w' = appended w (nbt_len n)"
  by (auto simp: write_i32_len_def put_appended nbt_len_def)

lemma write_collection_len_iff:
  "write_collection_len field n limits w = Inr w' \<longleftrightarrow> collection_fits limits n \<and> w' = appended w (nbt_len n)"
  by (auto simp: write_collection_len_def result_simps write_i32_len_iff collection_fits_def)

definition payload_written :: "NbtLimits \<Rightarrow> NbtValue \<Rightarrow> bool" where
  "payload_written limits v \<longleftrightarrow> (\<forall>d w w'. write_payload limits d v w = Inr w' \<longleftrightarrow>
     nbt_fits limits d v \<and> w' = appended w (nbt_bytes v) \<and> room limits w')"

lemma write_list_values_iff:
  assumes "\<forall>v \<in> set vs. payload_written limits v"
  shows "write_list_values ty limits c vs w = Inr w' \<longleftrightarrow>
    (\<forall>v \<in> set vs. NbtValue_tag v = ty \<and> nbt_fits limits c v) \<and> w' = appended w (concat (map nbt_bytes vs))
    \<and> (vs = [] \<or> room limits w')"
  using assms
proof (induction vs arbitrary: w)
  case Nil
  then show ?case by auto
next
  case (Cons v vs)
  have pw: "write_payload limits c v w = Inr u \<longleftrightarrow>
      nbt_fits limits c v \<and> u = appended w (nbt_bytes v) \<and> room limits u" for u
    using Cons.prems by (simp add: payload_written_def)
  have IH: "write_list_values ty limits c vs u = Inr w' \<longleftrightarrow>
    (\<forall>v \<in> set vs. NbtValue_tag v = ty \<and> nbt_fits limits c v) \<and> w' = appended u (concat (map nbt_bytes vs))
    \<and> (vs = [] \<or> room limits w')" for u
    using Cons by simp
  show ?case
    by (auto simp: result_simps pw IH dest: room_prefix_append)
qed

lemma write_compound_entries_iff:
  assumes usize: "nbt_max_bytes limits \<le> usize_max"
    and "\<forall>e \<in> set es. payload_written limits (nbt_value e)"
  shows "write_compound_entries limits c es w = Inr w' \<longleftrightarrow>
    (\<forall>e \<in> set es. named_fits limits c e) \<and> w' = appended w (concat (map named_bytes es))
    \<and> (es = [] \<or> room limits w')"
  using assms(2)
proof (induction es arbitrary: w)
  case Nil
  then show ?case by auto
next
  case (Cons e es)
  obtain n v where e: "e = NamedNbt n v" by (cases e)
  have pw: "write_payload limits c v u' = Inr u \<longleftrightarrow>
      nbt_fits limits c v \<and> u = appended u' (nbt_bytes v) \<and> room limits u" for u u'
    using Cons.prems by (simp add: payload_written_def e)
  have IH: "write_compound_entries limits c es u = Inr w' \<longleftrightarrow>
    (\<forall>e \<in> set es. named_fits limits c e) \<and> w' = appended u (concat (map named_bytes es))
    \<and> (es = [] \<or> room limits w')" for u
    using Cons by simp
  show ?case
    by (auto simp: e result_simps pw IH nbt_write_string_iff [OF usize] put_appended room_def)
qed

lemma write_payload_iff:
  assumes usize: "nbt_max_bytes limits \<le> usize_max"
  shows "payload_written limits v"
proof -
  have "payload_written limits v" and "payload_written limits (nbt_value e)" for e
  proof (induction v and e)
    case (NbtList ty vs)
    note loop = write_list_values_iff [of vs limits]
    show ?case unfolding payload_written_def
      using NbtList
      by (auto simp: write_payload.simps result_simps loop write_i32_len_iff put_appended nbt_fits_iffs
          collection_fits_def Writer_len_def room_def)
  next
    case (NbtCompound es)
    note loop = write_compound_entries_iff [OF usize, of es]
    show ?case unfolding payload_written_def
      using NbtCompound
      by (auto simp: write_payload.simps result_simps loop put_appended nbt_fits_iffs Writer_len_def room_def)
  qed (auto simp: payload_written_def write_payload.simps result_simps put_appended nbt_fits.simps room_def
      Writer_len_def write_collection_len_iff ensure_output_room_iff [OF usize] nbt_write_string_iff [OF usize]
      fold_put_i32_le)
  then show ?thesis by blast
qed

section \<open>Documents\<close>

lemma decode_le_iff:
  "decode_le inp limits = Inr doc \<longleftrightarrow>
   length inp \<le> nbt_max_bytes limits \<and> inp = named_bytes (nbt_root doc)
   \<and> named_fits limits 0 (nbt_root doc) \<and> document_utf8 doc"
proof -
  obtain n v where doc: "doc = \<lparr>nbt_root = NamedNbt n v\<rparr>"
    by (metis NamedNbt.exhaust NbtDocument.surjective old.unit.exhaust)
  have "decode_le inp limits = Inr doc \<longleftrightarrow> length inp \<le> nbt_max_bytes limits
      \<and> (\<exists>m1 m2 m3. eats (Reader_new inp) [NbtTag_id (NbtValue_tag v)] m1 \<and> eats m1 (nbt_string n) m2
           \<and> eats m2 (nbt_bytes v) m3 \<and> rest m3 = [])
      \<and> string_fits limits n \<and> valid_utf8 n \<and> nbt_fits limits 0 v \<and> nbt_utf8 v" (is "?l = ?r")
  proof
    assume ?l
    then show ?r
      by (auto simp: decode_le_def doc result_simps read_iffs tag_from_id_iff np.read_iff payload_ok_def finish_Inr_iff
          split: if_splits)
  next
    assume r: ?r
    then obtain m1 m2 m3 where "read_u8 (Reader_new inp) = Inr (NbtTag_id (NbtValue_tag v), m1)"
        "nbt_read_string limits m1 = Inr (n, m2)" "read_payload (NbtValue_tag v) limits 0 m2 = Inr (v, m3)"
        "finish m3 = Inr ()"
      by (auto simp: read_iffs np.read_iff payload_ok_def finish_Inr_iff)
    with r show ?l by (simp add: decode_le_def doc check_limit_def rd_bind_def rd_lift_def)
  qed
  also have "(\<exists>m1 m2 m3. eats (Reader_new inp) [NbtTag_id (NbtValue_tag v)] m1 \<and> eats m1 (nbt_string n) m2
           \<and> eats m2 (nbt_bytes v) m3 \<and> rest m3 = []) \<longleftrightarrow> inp = named_bytes (NamedNbt n v)"
    using eats_all_iff [of inp "named_bytes (NamedNbt n v)"] by (auto simp: eats_Cons_append_iff eats_append_iff)
  finally show ?thesis by (auto simp: doc document_utf8_def)
qed

lemma encode_le_iff:
  assumes "nbt_max_bytes limits \<le> usize_max"
  shows "encode_le doc limits = Inr out \<longleftrightarrow>
    length out \<le> nbt_max_bytes limits \<and> out = named_bytes (nbt_root doc) \<and> named_fits limits 0 (nbt_root doc)"
  using write_payload_iff [OF assms, unfolded payload_written_def]
  by (cases "nbt_root doc")
    (auto simp: encode_le_def result_simps nbt_write_string_iff [OF assms] put_appended put_simps Writer_len_def room_def)

text \<open>The nesting depth and the number of values, array elements and entries of a value.\<close>

fun nbt_depth :: "NbtValue \<Rightarrow> nat" and named_depth :: "NamedNbt \<Rightarrow> nat" where
  "nbt_depth (NbtList ty vs) = fold (\<lambda>v n. max (Suc (nbt_depth v)) n) vs 0"
| "nbt_depth (NbtCompound es) = fold (\<lambda>e n. max (Suc (named_depth e)) n) es 0"
| "nbt_depth _ = 0"
| "named_depth (NamedNbt n v) = nbt_depth v"

fun nbt_nodes :: "NbtValue \<Rightarrow> nat" and named_nodes :: "NamedNbt \<Rightarrow> nat" where
  "nbt_nodes (NbtList ty vs) = 1 + sum_list (map nbt_nodes vs)"
| "nbt_nodes (NbtCompound es) = 1 + sum_list (map named_nodes es)"
| "nbt_nodes (NbtByteArray bs) = 1 + length bs"
| "nbt_nodes (NbtIntArray xs) = 1 + length xs"
| "nbt_nodes (NbtStr s) = 1 + length s"
| "nbt_nodes _ = 1"
| "named_nodes (NamedNbt n v) = length n + nbt_nodes v"

lemma fold_max_le_iff: "fold (\<lambda>x n. max (f x) n) xs (k :: nat) \<le> m \<longleftrightarrow> k \<le> m \<and> (\<forall>x \<in> set xs. f x \<le> m)"
  by (induction xs arbitrary: k) auto

lemma nbt_fits_depth:
  "nbt_fits limits d v \<Longrightarrow> d + nbt_depth v \<le> nbt_max_depth limits"
  "named_fits limits d e \<Longrightarrow> d + named_depth e \<le> nbt_max_depth limits"
proof (induction v and e arbitrary: d and d)
  case (NbtList ty vs)
  then have "\<forall>v \<in> set vs. d + 1 + nbt_depth v \<le> nbt_max_depth limits" and "d \<le> nbt_max_depth limits"
    by (auto simp: nbt_fits_iffs simp del: add_Suc_right)
  then have "fold (\<lambda>v n. max (Suc (nbt_depth v)) n) vs 0 \<le> nbt_max_depth limits - d"
    by (subst fold_max_le_iff) auto
  with \<open>d \<le> nbt_max_depth limits\<close> show ?case by simp
next
  case (NbtCompound es)
  then have "\<forall>e \<in> set es. d + 1 + named_depth e \<le> nbt_max_depth limits" and "d \<le> nbt_max_depth limits"
    by (auto simp: nbt_fits_iffs simp del: add_Suc_right)
  then have "fold (\<lambda>e n. max (Suc (named_depth e)) n) es 0 \<le> nbt_max_depth limits - d"
    by (subst fold_max_le_iff) auto
  with \<open>d \<le> nbt_max_depth limits\<close> show ?case by simp
qed (auto simp: nbt_fits.simps)

lemma length_int_bytes: "length (concat (map to_le_bytes (xs :: i32 list))) = 4 * length xs"
  by (induction xs) simp_all

lemma nbt_nodes_bytes:
  "nbt_nodes v \<le> length (nbt_bytes v)"
  "named_nodes e \<le> length (named_bytes e)"
proof (induction v and e)
  case (NbtList ty vs)
  then have "sum_list (map nbt_nodes vs) \<le> sum_list (map (length \<circ> nbt_bytes) vs)"
    by (intro sum_list_mono) simp
  then show ?case by (simp add: length_concat nbt_len_def)
next
  case (NbtCompound es)
  then have "sum_list (map named_nodes es) \<le> sum_list (map (length \<circ> named_bytes) es)"
    by (intro sum_list_mono) simp
  then show ?case by (simp add: length_concat)
qed (auto simp: nbt_len_def nbt_string_def length_int_bytes)

section \<open>Properties\<close>

text \<open>
  C23: NBT encoding and decoding are mutually inverse under the same limits: a byte string is the
  encoding of a document (whose strings are UTF-8, as Rust strings are) exactly when it decodes to
  that document. So the decoder accepts only canonical documents, and the encoder never emits
  one that the decoder refuses.
\<close>

theorem nbt_codec:
  assumes "nbt_max_bytes limits \<le> usize_max"
  shows "encode_le doc limits = Inr bs \<and> document_utf8 doc \<longleftrightarrow> decode_le bs limits = Inr doc"
  by (auto simp: encode_le_iff [OF assms] decode_le_iff)

definition sample_nbt_limits :: NbtLimits where
  "sample_nbt_limits = NbtLimits_new 64 2 4 8"

definition sample_document :: NbtDocument where
  "sample_document = \<lparr>nbt_root = NamedNbt [0x61] (NbtCompound
     [NamedNbt [] (NbtList Tag_Byte [NbtByte 1, NbtByte 2]), NamedNbt [0x62] (NbtStr [0x63])])\<rparr>"

definition sample_document_bytes :: bytes where
  "sample_document_bytes = [10, 1, 0, 0x61, 9, 0, 0, 1, 2, 0, 0, 0, 1, 2, 8, 1, 0, 0x62, 1, 0, 0x63, 0]"

lemma sample_document_encodes:
  "encode_le sample_document sample_nbt_limits = Inr sample_document_bytes" "document_utf8 sample_document"
  by (simp_all add: encode_le_iff sample_nbt_limits_def NbtLimits_new_def usize_max_def sample_document_def
      sample_document_bytes_def nbt_fits_iffs nbt_fits.simps string_fits_def collection_fits_def nbt_string_def
      nbt_len_def to_le_bytes_def upt_rec document_utf8_def)

theorem nbt_codec_witness:
  "decode_le sample_document_bytes sample_nbt_limits = Inr sample_document"
  using nbt_codec [of sample_nbt_limits sample_document sample_document_bytes] sample_document_encodes
  by (simp add: sample_nbt_limits_def NbtLimits_new_def usize_max_def)

text \<open>
  C24: on every input the NBT decoder returns, and what it accepts is bounded: the input is
  within the byte limit, the nesting within the depth limit, and the number of values, array
  elements and string bytes it builds is at most the number of input bytes.
\<close>

theorem nbt_decode_bounds:
  assumes "decode_le inp limits = Inr doc"
  shows "length inp \<le> nbt_max_bytes limits
    \<and> named_depth (nbt_root doc) \<le> nbt_max_depth limits
    \<and> named_nodes (nbt_root doc) \<le> length inp"
  using assms nbt_fits_depth(2) [of limits 0] nbt_nodes_bytes(2) by (auto simp: decode_le_iff)

theorem nbt_decode_bounds_witness:
  "named_depth (nbt_root sample_document) \<le> 2 \<and> named_nodes (nbt_root sample_document) \<le> 22"
proof -
  have "decode_le sample_document_bytes sample_nbt_limits = Inr sample_document"
    using sample_document_encodes
    by (simp add: decode_le_iff encode_le_iff sample_nbt_limits_def NbtLimits_new_def usize_max_def)
  from nbt_decode_bounds [OF this] show ?thesis
    by (simp add: sample_nbt_limits_def NbtLimits_new_def sample_document_bytes_def)
qed

end
