(* ===== verification/Target.thy ===== *)
theory Target
  imports Prelude
begin

text \<open>
  The fixed target (MCPE 0.15.10): chunk shape, block and biome catalogues of
  \<open>native/target/src/lib.rs\<close> and its committed generated modules, and the identifier
  arithmetic of \<open>native/world/src/block.rs\<close>, \<open>biome.rs\<close> and \<open>dimension.rs\<close>.
\<close>

section \<open>Definitions\<close>

definition EDGE :: nat where "EDGE = 16"
definition HEIGHT :: nat where "HEIGHT = 128"
definition COLUMN_COUNT :: nat where "COLUMN_COUNT = EDGE * EDGE"
definition BLOCK_COUNT :: nat where "BLOCK_COUNT = COLUMN_COUNT * HEIGHT"
definition NIBBLE_BYTES :: nat where "NIBBLE_BYTES = BLOCK_COUNT div 2"
definition GAME_PROTOCOL :: i32 where "GAME_PROTOCOL = 84"
definition MAX_BLOCK_STATE_ID :: u16 where "MAX_BLOCK_STATE_ID = 0x0fff"

text \<open>A Rust range pattern \<open>lo..=hi\<close>.\<close>

definition within :: "u8 \<Rightarrow> u8 \<Rightarrow> u8 \<Rightarrow> bool" where
  "within lo hi x \<longleftrightarrow> lo \<le> x \<and> x \<le> hi"

definition BlockId_is_public :: "u8 \<Rightarrow> bool" where
  "BlockId_is_public b \<longleftrightarrow>
     within 0 35 b \<or> within 37 83 b \<or> within 85 118 b \<or> b = 120 \<or> b = 121 \<or> within 123 129 b
     \<or> within 131 136 b \<or> within 139 159 b \<or> within 161 165 b \<or> b = 167 \<or> within 170 175 b
     \<or> within 178 187 b \<or> within 193 199 b \<or> within 243 250 b \<or> b = 255"

definition BlockId_is_world_supported :: "u8 \<Rightarrow> bool" where
  "BlockId_is_world_supported b \<longleftrightarrow>
     within 0 35 b \<or> within 37 83 b \<or> within 85 121 b \<or> within 123 129 b
     \<or> within 131 136 b \<or> within 139 159 b \<or> within 161 165 b \<or> b = 167 \<or> within 170 175 b
     \<or> within 178 187 b \<or> within 193 199 b \<or> within 243 250 b \<or> b = 255"

definition BiomeId_is_supported :: "u8 \<Rightarrow> bool" where
  "BiomeId_is_supported b \<longleftrightarrow>
     within 0 8 b \<or> within 10 39 b \<or> within 129 134 b \<or> b = 140 \<or> b = 149 \<or> b = 151
     \<or> within 155 158 b \<or> within 160 167 b"

definition biome_colors :: "(u8 \<times> u32) list" where
  "biome_colors = [
    (0, 0x8eb871), (1, 0x92bc59), (2, 0xbfb655), (3, 0x8ab589), (4, 0x7ac05b), (5, 0x87b684),
    (6, 0x6a7039), (7, 0x8eb871), (8, 0x000000), (10, 0x80b497), (11, 0x80b497), (12, 0x80b497),
    (13, 0x80b497), (14, 0x56cb40), (15, 0x56cb40), (16, 0x92bc59), (17, 0xbfb655), (18, 0x7ac05b),
    (19, 0x87b684), (20, 0x8ab589), (21, 0x59cb3c), (22, 0x59cb3c), (23, 0x64c940), (24, 0x8eb871),
    (25, 0x8ab589), (26, 0x83b493), (27, 0x89bb67), (28, 0x89bb67), (29, 0x517a32), (30, 0x80b497),
    (31, 0x80b497), (32, 0x87b780), (33, 0x87b780), (34, 0x8ab589), (35, 0xbfb655), (36, 0xbfb655),
    (37, 0x90814d), (38, 0x90814d), (39, 0x90814d), (129, 0x92bc59), (130, 0xbfb655), (131, 0x8ab589),
    (132, 0x7ac05b), (133, 0x87b684), (134, 0x6a7039), (140, 0x80b497), (149, 0x59cb3c), (151, 0x64c940),
    (155, 0x7ac05b), (156, 0x7ac05b), (157, 0x517a32), (158, 0x80b497), (160, 0x87b684), (161, 0x87b780),
    (162, 0x8ab589), (163, 0x83c344), (164, 0x83c344), (165, 0x90814d), (166, 0x90814d), (167, 0x90814d)]"

definition BiomeId_default_color :: "u8 \<Rightarrow> u32 option" where
  "BiomeId_default_color b = map_of biome_colors b"

definition block_id_is_supported :: "u8 \<Rightarrow> bool" where
  "block_id_is_supported i = BlockId_is_public i"

definition block_state_id_is_supported :: "u16 \<Rightarrow> bool" where
  "block_state_id_is_supported state \<longleftrightarrow>
     state \<le> MAX_BLOCK_STATE_ID \<and> block_id_is_supported (ucast (drop_bit 4 state))"

definition world_block_id_is_supported :: "u8 \<Rightarrow> bool" where
  "world_block_id_is_supported i = BlockId_is_world_supported i"

definition world_block_state_id_is_supported :: "u16 \<Rightarrow> bool" where
  "world_block_state_id_is_supported state \<longleftrightarrow>
     state \<le> MAX_BLOCK_STATE_ID \<and> world_block_id_is_supported (ucast (drop_bit 4 state))"

definition BIOME_COLOR_MASK :: u32 where
  "BIOME_COLOR_MASK = 0x00ffffff"

definition biome_id_is_supported :: "u8 \<Rightarrow> bool" where
  "biome_id_is_supported i = BiomeId_is_supported i"

definition default_biome_word :: "u8 \<Rightarrow> u32 option" where
  "default_biome_word i = map_option (\<lambda>color. push_bit 24 (ucast i) OR color) (BiomeId_default_color i)"

definition biome_id :: "u32 \<Rightarrow> u8" where
  "biome_id word = ucast (drop_bit 24 word)"

definition biome_color :: "u32 \<Rightarrow> u32" where
  "biome_color word = word AND BIOME_COLOR_MASK"

definition with_biome_id :: "u32 \<Rightarrow> u8 \<Rightarrow> u32" where
  "with_biome_id word i = push_bit 24 (ucast i) OR biome_color word"

definition with_biome_color :: "u32 \<Rightarrow> u32 \<Rightarrow> u32" where
  "with_biome_color word color = (word AND 0xff000000) OR (color AND BIOME_COLOR_MASK)"

datatype DimensionId = Overworld | Nether

definition has_sky :: "DimensionId \<Rightarrow> bool" where
  "has_sky d \<longleftrightarrow> d = Overworld"

fun DimensionId_to_u8 :: "DimensionId \<Rightarrow> u8" where
  "DimensionId_to_u8 Overworld = 0"
| "DimensionId_to_u8 Nether = 1"

definition DimensionId_try_from :: "u8 \<Rightarrow> u8 + DimensionId" where
  "DimensionId_try_from v = (if v = 0 then Inr Overworld else if v = 1 then Inr Nether else Inl v)"

section \<open>Shape constants\<close>

lemma shape_numerals: "EDGE = 16" "HEIGHT = 128" "COLUMN_COUNT = 256" "BLOCK_COUNT = 32768" "NIBBLE_BYTES = 16384"
  by (simp_all add: EDGE_def HEIGHT_def COLUMN_COUNT_def BLOCK_COUNT_def NIBBLE_BYTES_def)

lemma BLOCK_COUNT_eq: "BLOCK_COUNT = COLUMN_COUNT * HEIGHT" "BLOCK_COUNT = 2 * NIBBLE_BYTES"
  by (simp_all add: shape_numerals)

section \<open>Identifiers and colours\<close>

lemma color_mask: "BIOME_COLOR_MASK = mask 24"
  by (simp add: BIOME_COLOR_MASK_def mask_eq_exp_minus_1)

lemma id_mask: "(0xff000000 :: u32) = push_bit 24 (mask 8)"
  by (simp add: mask_eq_exp_minus_1 push_bit_eq_mult)

lemma bit_color_mask: "bit BIOME_COLOR_MASK n \<longleftrightarrow> n < 24"
  unfolding color_mask bit_mask_iff by auto

lemma bit_biome_color: "bit (biome_color w) n \<longleftrightarrow> bit w n \<and> n < 24"
  by (simp add: biome_color_def bit_and_iff bit_color_mask)

lemma bit_biome_id: "bit (biome_id w) n \<longleftrightarrow> n < 8 \<and> bit w (24 + n)"
  by (auto simp: biome_id_def bit_ucast_iff bit_drop_bit_eq)

lemma bit_with_biome_id: "bit (with_biome_id w i) n \<longleftrightarrow> (if n < 24 then bit w n else n < 32 \<and> bit i (n - 24))"
  by (auto simp: with_biome_id_def bit_or_iff bit_push_bit_iff bit_ucast_iff bit_biome_color)

lemma bit_with_biome_color: "bit (with_biome_color w c) n \<longleftrightarrow> (if n < 24 then bit c n else bit w n)"
proof -
  have "bit (push_bit 24 (mask 8) :: u32) n \<longleftrightarrow> 24 \<le> n \<and> n < 32"
    unfolding bit_push_bit_iff bit_mask_iff by auto
  then show ?thesis
    unfolding with_biome_color_def id_mask bit_or_iff bit_and_iff bit_color_mask
    using bit_imp_le_length [of w n] by auto
qed

lemma biome_id_with_id [simp]: "biome_id (with_biome_id w i) = i"
  by (rule bit_word_eqI) (auto simp: bit_biome_id bit_with_biome_id)

lemma biome_color_with_id [simp]: "biome_color (with_biome_id w i) = biome_color w"
  by (rule bit_word_eqI) (auto simp: bit_biome_color bit_with_biome_id)

lemma biome_id_with_color [simp]: "biome_id (with_biome_color w c) = biome_id w"
  by (rule bit_word_eqI) (auto simp: bit_biome_id bit_with_biome_color)

lemma biome_color_with_color [simp]: "biome_color (with_biome_color w c) = biome_color c"
  by (rule bit_word_eqI) (auto simp: bit_biome_color bit_with_biome_color)

lemma default_color_bound: "BiomeId_default_color i = Some c \<Longrightarrow> c AND BIOME_COLOR_MASK = c"
proof -
  assume "BiomeId_default_color i = Some c"
  then have "(i, c) \<in> set biome_colors" by (simp add: BiomeId_default_color_def map_of_SomeD)
  moreover have "list_all (\<lambda>(i, c). c AND BIOME_COLOR_MASK = c) biome_colors"
    by (simp add: biome_colors_def BIOME_COLOR_MASK_def)
  ultimately show ?thesis by (auto simp: list_all_iff)
qed

lemma default_color_supported: "BiomeId_default_color i = Some c \<Longrightarrow> BiomeId_is_supported i"
proof -
  assume "BiomeId_default_color i = Some c"
  then have "(i, c) \<in> set biome_colors" by (simp add: BiomeId_default_color_def map_of_SomeD)
  moreover have "list_all (\<lambda>(i, c). BiomeId_is_supported i) biome_colors"
    by (simp add: biome_colors_def BiomeId_is_supported_def within_def)
  ultimately show ?thesis by (auto simp: list_all_iff)
qed

lemma default_biome_word_id: "default_biome_word i = Some w \<Longrightarrow> biome_id w = i \<and> biome_id_is_supported i"
proof -
  assume "default_biome_word i = Some w"
  then obtain c where c: "BiomeId_default_color i = Some c" "w = push_bit 24 (ucast i) OR c"
    by (auto simp: default_biome_word_def)
  then have "w = with_biome_id c i"
    using default_color_bound [OF c(1)] by (simp add: with_biome_id_def biome_color_def)
  with default_color_supported [OF c(1)] show ?thesis by (simp add: biome_id_is_supported_def)
qed

lemma DimensionId_roundtrip: "DimensionId_try_from v = Inr d \<longleftrightarrow> v = DimensionId_to_u8 d"
  by (cases d) (auto simp: DimensionId_try_from_def)

lemma public_is_world_supported: "BlockId_is_public b \<Longrightarrow> BlockId_is_world_supported b"
  unfolding BlockId_is_public_def BlockId_is_world_supported_def within_def
  by (elim disjE) (simp_all add: word_le_nat_alt)

end
