(* ===== verification/Packet.thy ===== *)
theory Packet
  imports Nbt Target
begin

text \<open>
  The bootstrap packets of protocol 84: \<open>native/wire/src/packet/mod.rs\<close> and \<open>packet/codec.rs\<close>, and the
  MovePlayer body of \<open>movement.rs\<close>.

  Every body is read by a sequence of reader calls followed by \<open>finish\<close> (\<open>read_whole\<close>), and written
  by a sequence of writer calls. \<open>body_bytes\<close> is the layout both sides agree on; the compressed bodies (Login
  and Batch) go through the zlib parameters of \<open>Framing\<close>. The array types \<open>[i32; 3]\<close> and \<open>[f32; 3]\<close>
  are triples; \<open>AdventureFlags\<close> is its 32 bits, all of which the source retains.
\<close>

section \<open>Definitions\<close>

definition LOGIN :: u8 where "LOGIN = 0x01"
definition PLAY_STATUS :: u8 where "PLAY_STATUS = 0x02"
definition DISCONNECT :: u8 where "DISCONNECT = 0x05"
definition BATCH :: u8 where "BATCH = 0x06"
definition SET_TIME :: u8 where "SET_TIME = 0x08"
definition START_GAME :: u8 where "START_GAME = 0x09"
definition MOVE_PLAYER :: u8 where "MOVE_PLAYER = 0x10"
definition UPDATE_BLOCK :: u8 where "UPDATE_BLOCK = 0x13"
definition SET_SPAWN_POSITION :: u8 where "SET_SPAWN_POSITION = 0x26"
definition ADVENTURE_SETTINGS :: u8 where "ADVENTURE_SETTINGS = 0x31"
definition SET_DIFFICULTY :: u8 where "SET_DIFFICULTY = 0x35"
definition REQUEST_CHUNK_RADIUS :: u8 where "REQUEST_CHUNK_RADIUS = 0x3d"
definition CHUNK_RADIUS_UPDATED :: u8 where "CHUNK_RADIUS_UPDATED = 0x3e"

lemmas packet_id_defs = LOGIN_def PLAY_STATUS_def DISCONNECT_def BATCH_def SET_TIME_def START_GAME_def
  MOVE_PLAYER_def UPDATE_BLOCK_def SET_SPAWN_POSITION_def ADVENTURE_SETTINGS_def SET_DIFFICULTY_def
  REQUEST_CHUNK_RADIUS_def CHUNK_RADIUS_UPDATED_def

record LoginPacket =
  login_protocol :: i32
  chain_data :: bytes
  skin_jwt :: bytes

definition LoginPacket_new :: "bytes \<Rightarrow> bytes \<Rightarrow> LoginPacket" where
  "LoginPacket_new chain skin = \<lparr>login_protocol = GAME_PROTOCOL, chain_data = chain, skin_jwt = skin\<rparr>"

record PlayStatusPacket =
  status :: i32

definition PlayStatusPacket_new :: "i32 \<Rightarrow> PlayStatusPacket" where
  "PlayStatusPacket_new s = \<lparr>status = s\<rparr>"

record DisconnectPacket =
  disconnect_message :: bytes

definition DisconnectPacket_new :: "bytes \<Rightarrow> DisconnectPacket" where
  "DisconnectPacket_new m = \<lparr>disconnect_message = m\<rparr>"

record SetTimePacket =
  packet_time :: i32
  started :: bool

definition SetTimePacket_new :: "i32 \<Rightarrow> bool \<Rightarrow> SetTimePacket" where
  "SetTimePacket_new t s = \<lparr>packet_time = t, started = s\<rparr>"

datatype WireDimensionId = WireOverworld | WireNether

fun WireDimensionId_to_u8 :: "WireDimensionId \<Rightarrow> u8" where
  "WireDimensionId_to_u8 WireOverworld = 0"
| "WireDimensionId_to_u8 WireNether = 1"

definition WireDimensionId_try_from :: "u8 \<Rightarrow> u8 + WireDimensionId" where
  "WireDimensionId_try_from v = (if v = 0 then Inr WireOverworld else if v = 1 then Inr WireNether else Inl v)"

record StartGamePacket =
  seed :: i32
  dimension :: WireDimensionId
  generator :: i32
  gamemode :: i32
  start_entity_id :: i64
  spawn :: "i32 \<times> i32 \<times> i32"
  start_position :: "f32 \<times> f32 \<times> f32"
  level_id :: bytes

record SetSpawnPositionPacket =
  spawn_position :: "i32 \<times> i32 \<times> i32"

definition SetSpawnPositionPacket_new :: "i32 \<Rightarrow> i32 \<Rightarrow> i32 \<Rightarrow> SetSpawnPositionPacket" where
  "SetSpawnPositionPacket_new x y z = \<lparr>spawn_position = (x, y, z)\<rparr>"

record SetDifficultyPacket =
  difficulty :: i32

definition SetDifficultyPacket_new :: "i32 \<Rightarrow> SetDifficultyPacket" where
  "SetDifficultyPacket_new d = \<lparr>difficulty = d\<rparr>"

record AdventureSettingsPacket =
  adventure_flags :: u32
  user_permission :: i32
  global_permission :: i32

definition AdventureSettingsPacket_new :: "i32 \<Rightarrow> i32 \<Rightarrow> i32 \<Rightarrow> AdventureSettingsPacket" where
  "AdventureSettingsPacket_new f u g =
     \<lparr>adventure_flags = ucast f, user_permission = u, global_permission = g\<rparr>"

definition AdventureSettingsPacket_flags :: "AdventureSettingsPacket \<Rightarrow> i32" where
  "AdventureSettingsPacket_flags p = ucast (adventure_flags p)"

datatype BootstrapPacket =
    Login LoginPacket
  | PlayStatus PlayStatusPacket
  | Disconnect DisconnectPacket
  | SetTime SetTimePacket
  | StartGame StartGamePacket
  | SetSpawnPosition SetSpawnPositionPacket
  | AdventureSettings AdventureSettingsPacket
  | SetDifficulty SetDifficultyPacket
  | Batch BatchPacket

definition nonnegative_len :: "string \<Rightarrow> i32 \<Rightarrow> CodecError + nat" where
  "nonnegative_len field v = (if sint v < 0 then Inl (NegativeLength field v) else Inr (nat (sint v)))"

definition require_fixed_byte :: "string \<Rightarrow> u8 \<Rightarrow> unit reading" where
  "require_fixed_byte field expected =
     rd_bind read_u8 (\<lambda>actual.
     if actual = expected then rd_ok () else rd_err (InvalidFixedByte field expected actual))"

text \<open>A decoder that starts a reader on the body, reads a value and calls \<open>finish\<close>.\<close>

definition read_whole :: "'a reading \<Rightarrow> bytes \<Rightarrow> CodecError + 'a" where
  "read_whole p body = rbind (p (Reader_new body)) (\<lambda>(v, r). rbind (finish r) (\<lambda>_. Inr v))"

definition read_i32_triple :: "(i32 \<times> i32 \<times> i32) reading" where
  "read_i32_triple =
     rd_bind read_i32_be (\<lambda>x. rd_bind read_i32_be (\<lambda>y. rd_bind read_i32_be (\<lambda>z. rd_ok (x, y, z))))"

definition read_f32_triple :: "(f32 \<times> f32 \<times> f32) reading" where
  "read_f32_triple =
     rd_bind read_f32_be (\<lambda>x. rd_bind read_f32_be (\<lambda>y. rd_bind read_f32_be (\<lambda>z. rd_ok (x, y, z))))"

definition read_start_game :: "StartGamePacket reading" where
  "read_start_game =
     rd_bind read_i32_be (\<lambda>seed.
     rd_bind read_u8 (\<lambda>dimension_raw.
     rd_bind (rd_lift (map_err (\<lambda>_. InvalidFixedTargetValue ''dimension'' (ucast dimension_raw)
                (ucast (WireDimensionId_to_u8 WireNether))) (WireDimensionId_try_from dimension_raw))) (\<lambda>dimension.
     rd_bind read_i32_be (\<lambda>generator.
     rd_bind read_i32_be (\<lambda>gamemode.
     rd_bind read_i64_be (\<lambda>entity_id.
     rd_bind read_i32_triple (\<lambda>spawn.
     rd_bind read_f32_triple (\<lambda>position.
     rd_bind (require_fixed_byte ''start-game flag 1'' 1) (\<lambda>_.
     rd_bind (require_fixed_byte ''start-game flag 2'' 1) (\<lambda>_.
     rd_bind (require_fixed_byte ''start-game flag 3'' 0) (\<lambda>_.
     rd_bind read_string_u16 (\<lambda>level_id.
     rd_ok \<lparr>seed = seed, dimension = dimension, generator = generator, gamemode = gamemode,
       start_entity_id = entity_id, spawn = spawn, start_position = position, level_id = level_id\<rparr>))))))))))))"

definition decode_start_game :: "bytes \<Rightarrow> CodecError + BootstrapPacket" where
  "decode_start_game body = map_ok StartGame (read_whole read_start_game body)"

definition decode_login :: "inflater \<Rightarrow> bytes \<Rightarrow> CodecLimits \<Rightarrow> CodecError + LoginPacket" where
  "decode_login inflate body limits =
     rbind (read_i32_be (Reader_new body)) (\<lambda>(protocol, r).
     if protocol \<noteq> GAME_PROTOCOL then Inl (UnsupportedProtocol GAME_PROTOCOL protocol)
     else
       rbind (read_i32_be r) (\<lambda>(len, r).
       rbind (nonnegative_len ''login compressed length'' len) (\<lambda>compressed_len.
       rbind (check_limit LoginCompressed compressed_len (max_login_compressed_bytes limits)) (\<lambda>_.
       rbind (read_exact compressed_len r) (\<lambda>(compressed, r).
       rbind (finish r) (\<lambda>_.
       rbind (decompress_zlib_limited inflate compressed LOGIN_MAX_DECOMPRESSED_BYTES LoginDecompressed)
         (\<lambda>decompressed.
       rbind (read_i32_le (Reader_new decompressed)) (\<lambda>(len, inner).
       rbind (nonnegative_len ''login chain length'' len) (\<lambda>chain_len.
       rbind (read_exact chain_len inner) (\<lambda>(chain, inner).
       rbind (read_i32_le inner) (\<lambda>(len, inner).
       rbind (nonnegative_len ''login skin JWT length'' len) (\<lambda>skin_len.
       rbind (read_exact skin_len inner) (\<lambda>(skin, inner).
       rbind (finish inner) (\<lambda>_.
       Inr \<lparr>login_protocol = protocol, chain_data = chain, skin_jwt = skin\<rparr>))))))))))))))"

definition i32_len :: "string \<Rightarrow> nat \<Rightarrow> CodecError + i32" where
  "i32_len field n = (if n < 2 ^ 31 then Inr (of_nat n) else Inl (LengthOutOfRange field n (2 ^ 31 - 1)))"

definition encode_login :: "deflater \<Rightarrow> LoginPacket \<Rightarrow> CodecLimits \<Rightarrow> CodecError + bytes" where
  "encode_login deflate p limits =
     (if login_protocol p \<noteq> GAME_PROTOCOL then Inl (UnsupportedProtocol GAME_PROTOCOL (login_protocol p))
      else
        rbind (i32_len ''login chain length'' (length (chain_data p))) (\<lambda>chain_len.
        rbind (i32_len ''login skin JWT length'' (length (skin_jwt p))) (\<lambda>skin_len.
        let inner = into_vec (put_bytes (skin_jwt p) (put_i32_le skin_len
                      (put_bytes (chain_data p) (put_i32_le chain_len Writer_new))))
        in rbind (check_limit LoginDecompressed (length inner) LOGIN_MAX_DECOMPRESSED_BYTES) (\<lambda>_.
           rbind (compress_zlib deflate inner) (\<lambda>compressed.
           rbind (check_limit LoginCompressed (length compressed) (max_login_compressed_bytes limits)) (\<lambda>_.
           rbind (i32_len ''login compressed length'' (length compressed)) (\<lambda>compressed_len.
           Inr (into_vec (put_bytes compressed (put_i32_be compressed_len (put_i32_be GAME_PROTOCOL
                 (Writer_with_capacity (8 + length compressed)))))))))))))"

definition put_i32_triple :: "i32 \<times> i32 \<times> i32 \<Rightarrow> Writer \<Rightarrow> Writer" where
  "put_i32_triple t w = (case t of (x, y, z) \<Rightarrow> put_i32_be z (put_i32_be y (put_i32_be x w)))"

definition put_f32_triple :: "f32 \<times> f32 \<times> f32 \<Rightarrow> Writer \<Rightarrow> Writer" where
  "put_f32_triple t w = (case t of (x, y, z) \<Rightarrow> put_f32_be z (put_f32_be y (put_f32_be x w)))"

definition write_start_game :: "StartGamePacket \<Rightarrow> Writer \<Rightarrow> CodecError + Writer" where
  "write_start_game p w =
     (let w = put_i32_be (seed p) w;
          w = put_u8 (WireDimensionId_to_u8 (dimension p)) w;
          w = put_i32_be (generator p) w;
          w = put_i32_be (gamemode p) w;
          w = put_i64_be (start_entity_id p) w;
          w = put_i32_triple (spawn p) w;
          w = put_f32_triple (start_position p) w;
          w = put_u8 0 (put_u8 1 (put_u8 1 w))
      in put_string_u16 ''start-game level id'' (level_id p) w)"

fun encode_bootstrap_packet :: "deflater \<Rightarrow> BootstrapPacket \<Rightarrow> CodecLimits \<Rightarrow> CodecError + RawPacket" where
  "encode_bootstrap_packet deflate (Login p) limits =
     rbind (encode_login deflate p limits) (\<lambda>body. Inr (RawPacket_new LOGIN body))"
| "encode_bootstrap_packet deflate (PlayStatus p) limits =
     Inr (RawPacket_new PLAY_STATUS (into_vec (put_i32_be (status p) Writer_new)))"
| "encode_bootstrap_packet deflate (Disconnect p) limits =
     rbind (put_string_u16 ''disconnect message'' (disconnect_message p) Writer_new) (\<lambda>w.
     Inr (RawPacket_new DISCONNECT (into_vec w)))"
| "encode_bootstrap_packet deflate (SetTime p) limits =
     Inr (RawPacket_new SET_TIME
       (into_vec (put_u8 (if started p then 1 else 0) (put_i32_be (packet_time p) Writer_new))))"
| "encode_bootstrap_packet deflate (StartGame p) limits =
     rbind (write_start_game p Writer_new) (\<lambda>w. Inr (RawPacket_new START_GAME (into_vec w)))"
| "encode_bootstrap_packet deflate (SetSpawnPosition p) limits =
     Inr (RawPacket_new SET_SPAWN_POSITION (into_vec (put_i32_triple (spawn_position p) Writer_new)))"
| "encode_bootstrap_packet deflate (AdventureSettings p) limits =
     Inr (RawPacket_new ADVENTURE_SETTINGS (into_vec (put_i32_be (global_permission p)
       (put_i32_be (user_permission p) (put_i32_be (AdventureSettingsPacket_flags p) Writer_new)))))"
| "encode_bootstrap_packet deflate (SetDifficulty p) limits =
     Inr (RawPacket_new SET_DIFFICULTY (into_vec (put_i32_be (difficulty p) Writer_new)))"
| "encode_bootstrap_packet deflate (Batch p) limits =
     rbind (encode_body deflate p limits) (\<lambda>body. Inr (RawPacket_new BATCH body))"

definition decode_bootstrap_packet :: "inflater \<Rightarrow> RawPacket \<Rightarrow> CodecLimits \<Rightarrow> CodecError + BootstrapPacket" where
  "decode_bootstrap_packet inflate raw limits =
     (let i = packet_id raw; body = packet_body raw
      in if i = LOGIN then map_ok Login (decode_login inflate body limits)
         else if i = PLAY_STATUS then
           map_ok (\<lambda>s. PlayStatus (PlayStatusPacket_new s)) (read_whole read_i32_be body)
         else if i = DISCONNECT then
           map_ok (\<lambda>m. Disconnect (DisconnectPacket_new m)) (read_whole read_string_u16 body)
         else if i = SET_TIME then
           map_ok (\<lambda>(t, s). SetTime (SetTimePacket_new t s))
             (read_whole (rd_bind read_i32_be (\<lambda>t. rd_bind read_u8 (\<lambda>b. rd_ok (t, b \<noteq> 0)))) body)
         else if i = START_GAME then decode_start_game body
         else if i = SET_SPAWN_POSITION then
           map_ok (\<lambda>(x, y, z). SetSpawnPosition (SetSpawnPositionPacket_new x y z)) (read_whole read_i32_triple body)
         else if i = ADVENTURE_SETTINGS then
           map_ok (\<lambda>(f, u, g). AdventureSettings (AdventureSettingsPacket_new f u g))
             (read_whole read_i32_triple body)
         else if i = SET_DIFFICULTY then
           map_ok (\<lambda>d. SetDifficulty (SetDifficultyPacket_new d)) (read_whole read_i32_be body)
         else if i = BATCH then map_ok Batch (decode_body inflate body limits)
         else Inl (UnsupportedPacket i))"

definition encode_bootstrap_frame :: "deflater \<Rightarrow> BootstrapPacket \<Rightarrow> CodecLimits \<Rightarrow> CodecError + bytes" where
  "encode_bootstrap_frame deflate p limits =
     rbind (encode_bootstrap_packet deflate p limits) (\<lambda>raw. encode_game_frame raw limits)"

definition decode_bootstrap_frame :: "inflater \<Rightarrow> bytes \<Rightarrow> CodecLimits \<Rightarrow> CodecError + BootstrapPacket" where
  "decode_bootstrap_frame inflate inp limits =
     rbind (decode_game_frame inp limits) (\<lambda>raw. decode_bootstrap_packet inflate raw limits)"

text \<open>MovePlayer (\<open>movement.rs\<close>).\<close>

datatype MovePlayerMode = Normal | Reset | Rotation

fun wire_value :: "MovePlayerMode \<Rightarrow> u8" where
  "wire_value Normal = 0"
| "wire_value Reset = 1"
| "wire_value Rotation = 2"

definition MovePlayerMode_decode :: "u8 \<Rightarrow> CodecError + MovePlayerMode" where
  "MovePlayerMode_decode v =
     (if v = 0 then Inr Normal
      else if v = 1 then Inr Reset
      else if v = 2 then Inr Rotation
      else Inl (InvalidFixedTargetValue ''MovePlayer mode'' (ucast v) 2))"

record MovePlayerPacket =
  move_entity_id :: i64
  move_position :: "f32 \<times> f32 \<times> f32"
  yaw :: f32
  body_yaw :: f32
  pitch :: f32
  move_mode :: MovePlayerMode
  on_ground :: bool

definition read_move_player :: "MovePlayerPacket reading" where
  "read_move_player =
     rd_bind read_i64_be (\<lambda>entity_id.
     rd_bind read_f32_triple (\<lambda>position.
     rd_bind read_f32_be (\<lambda>yaw.
     rd_bind read_f32_be (\<lambda>body_yaw.
     rd_bind read_f32_be (\<lambda>pitch.
     rd_bind read_u8 (\<lambda>m.
     rd_bind (rd_lift (MovePlayerMode_decode m)) (\<lambda>mode.
     rd_bind read_u8 (\<lambda>g.
     rd_ok \<lparr>move_entity_id = entity_id, move_position = position, yaw = yaw, body_yaw = body_yaw,
       pitch = pitch, move_mode = mode, on_ground = (g \<noteq> 0)\<rparr>))))))))"

definition decode_move_player :: "bytes \<Rightarrow> CodecError + MovePlayerPacket" where
  "decode_move_player body = read_whole read_move_player body"

section \<open>Layout\<close>

definition i32_triple_bytes :: "32 word \<times> 32 word \<times> 32 word \<Rightarrow> bytes" where
  "i32_triple_bytes t = (case t of (x, y, z) \<Rightarrow> to_be_bytes x @ to_be_bytes y @ to_be_bytes z)"

definition start_game_bytes :: "StartGamePacket \<Rightarrow> bytes" where
  "start_game_bytes p =
     to_be_bytes (seed p) @ [WireDimensionId_to_u8 (dimension p)] @ to_be_bytes (generator p)
     @ to_be_bytes (gamemode p) @ to_be_bytes (start_entity_id p) @ i32_triple_bytes (spawn p)
     @ i32_triple_bytes (start_position p) @ [1] @ [1] @ [0] @ string_u16 (level_id p)"

definition login_inner :: "LoginPacket \<Rightarrow> bytes" where
  "login_inner p =
     to_le_bytes (of_nat (length (chain_data p)) :: i32) @ chain_data p
     @ to_le_bytes (of_nat (length (skin_jwt p)) :: i32) @ skin_jwt p"

definition login_ok :: "LoginPacket \<Rightarrow> bool" where
  "login_ok p \<longleftrightarrow> login_protocol p = GAME_PROTOCOL \<and> length (login_inner p) \<le> LOGIN_MAX_DECOMPRESSED_BYTES"

definition login_outer :: "bytes \<Rightarrow> bytes" where
  "login_outer z = to_be_bytes GAME_PROTOCOL @ to_be_bytes (of_nat (length z) :: i32) @ z"

text \<open>The strings of a packet are UTF-8, as every Rust \<open>String\<close> is.\<close>

fun packet_utf8 :: "BootstrapPacket \<Rightarrow> bool" where
  "packet_utf8 (Disconnect p) = valid_utf8 (disconnect_message p)"
| "packet_utf8 (StartGame p) = valid_utf8 (level_id p)"
| "packet_utf8 _ = True"

section \<open>Readers and writers of the layout\<close>

lemma read_whole_iff:
  assumes "\<And>r v r'. p r = Inr (v, r') \<longleftrightarrow> D v \<and> eats r (E v) r'"
  shows "read_whole p body = Inr v \<longleftrightarrow> D v \<and> body = E v"
  using eats_all_iff [of body "E v"]
  by (auto simp: read_whole_def result_simps assms finish_Inr_iff split: prod.splits)

lemma nonnegative_len_iff: "nonnegative_len field v = Inr n \<longleftrightarrow> n < 2 ^ 31 \<and> v = of_nat n"
  using nat_sint_i32_bound [of v] by (auto simp: nonnegative_len_def sint_of_nat_i32)

lemma i32_len_iff [result_simps]: "i32_len field n = Inr v \<longleftrightarrow> n < 2 ^ 31 \<and> v = of_nat n"
  by (auto simp: i32_len_def)

lemma require_fixed_byte_iff [read_iffs]: "require_fixed_byte field b r = Inr (u, r') \<longleftrightarrow> eats r [b] r'"
  by (auto simp: require_fixed_byte_def read_iffs split: if_splits)

lemma read_triple_iffs [read_iffs]:
  "read_i32_triple r = Inr (t, r') \<longleftrightarrow> eats r (i32_triple_bytes t) r'"
  "read_f32_triple r = Inr (t, r') \<longleftrightarrow> eats r (i32_triple_bytes t) r'"
  by (cases t; auto simp: read_i32_triple_def read_f32_triple_def read_iffs i32_triple_bytes_def eats_append_iff)+

lemma dimension_try_from_iff [simp]:
  "WireDimensionId_try_from b = Inr d \<longleftrightarrow> b = WireDimensionId_to_u8 d"
  by (cases d) (auto simp: WireDimensionId_try_from_def)

lemma mode_decode_iff [simp]: "MovePlayerMode_decode b = Inr m \<longleftrightarrow> b = wire_value m"
  by (cases m) (auto simp: MovePlayerMode_decode_def)

lemma fixed_value_decoders [simp]:
  "WireDimensionId_try_from (WireDimensionId_to_u8 d) = Inr d"
  "MovePlayerMode_decode (wire_value m) = Inr m"
  by simp_all

lemma read_start_game_iff:
  "read_start_game r = Inr (p, r') \<longleftrightarrow> string_u16_ok (level_id p) \<and> eats r (start_game_bytes p) r'" (is "?l = ?r")
proof
  assume ?l
  then show ?r unfolding start_game_bytes_def
    by (auto simp: read_start_game_def read_iffs result_simps simp del: append_Cons append_Nil intro!: eats_trans)
next
  assume ?r
  then obtain m1 m2 m3 m4 m5 m6 m7 m8 m9 m10 m11 where
      "read_i32_be r = Inr (seed p, m1)" "read_u8 m1 = Inr (WireDimensionId_to_u8 (dimension p), m2)"
      "read_i32_be m2 = Inr (generator p, m3)" "read_i32_be m3 = Inr (gamemode p, m4)"
      "read_i64_be m4 = Inr (start_entity_id p, m5)" "read_i32_triple m5 = Inr (spawn p, m6)"
      "read_f32_triple m6 = Inr (start_position p, m7)" "require_fixed_byte ''start-game flag 1'' 1 m7 = Inr ((), m8)"
      "require_fixed_byte ''start-game flag 2'' 1 m8 = Inr ((), m9)"
      "require_fixed_byte ''start-game flag 3'' 0 m9 = Inr ((), m10)" "read_string_u16 m10 = Inr (level_id p, r')"
    unfolding start_game_bytes_def by (auto simp: eats_append_iff read_iffs simp del: append_Cons append_Nil)
  then show ?l by (simp add: read_start_game_def rd_bind_def rd_lift_def rd_ok_def)
qed

definition move_player_bytes :: "MovePlayerPacket \<Rightarrow> u8 \<Rightarrow> bytes" where
  "move_player_bytes p g =
     to_be_bytes (move_entity_id p) @ i32_triple_bytes (move_position p) @ to_be_bytes (yaw p)
     @ to_be_bytes (body_yaw p) @ to_be_bytes (pitch p) @ [wire_value (move_mode p)] @ [g]"

lemma read_move_player_iff:
  "read_move_player r = Inr (p, r') \<longleftrightarrow> (\<exists>g. on_ground p = (g \<noteq> 0) \<and> eats r (move_player_bytes p g) r')" (is "?l = ?r")
proof
  assume ?l
  then obtain g m1 m2 m3 m4 m5 m6 where "eats r (to_be_bytes (move_entity_id p)) m1"
      "eats m1 (i32_triple_bytes (move_position p)) m2" "eats m2 (to_be_bytes (yaw p)) m3"
      "eats m3 (to_be_bytes (body_yaw p)) m4" "eats m4 (to_be_bytes (pitch p)) m5"
      "eats m5 [wire_value (move_mode p)] m6" "eats m6 [g] r'" and g: "on_ground p = (g \<noteq> 0)"
    by (auto simp: read_move_player_def read_iffs)
  then have "eats r (move_player_bytes p g) r'" unfolding move_player_bytes_def by (intro eats_trans)
  with g show ?r by blast
next
  assume ?r
  then obtain g where g: "on_ground p = (g \<noteq> 0)" "eats r (move_player_bytes p g) r'" by blast
  then obtain m1 m2 m3 m4 m5 m6 where
      "read_i64_be r = Inr (move_entity_id p, m1)" "read_f32_triple m1 = Inr (move_position p, m2)"
      "read_f32_be m2 = Inr (yaw p, m3)" "read_f32_be m3 = Inr (body_yaw p, m4)"
      "read_f32_be m4 = Inr (pitch p, m5)" "read_u8 m5 = Inr (wire_value (move_mode p), m6)"
      "read_u8 m6 = Inr (g, r')"
    unfolding move_player_bytes_def by (auto simp: eats_append_iff read_iffs simp del: append_Cons append_Nil)
  with g(1) show ?l by (simp add: read_move_player_def rd_bind_def rd_lift_def rd_ok_def)
qed

lemma write_start_game_iff:
  "write_start_game p w = Inr w' \<longleftrightarrow> length (level_id p) \<le> 65535 \<and> w' = appended w (start_game_bytes p)"
  by (auto simp: write_start_game_def Let_def put_i32_triple_def put_f32_triple_def put_appended
      put_string_u16_appended start_game_bytes_def i32_triple_bytes_def split: prod.splits)

text \<open>The compressed part of a Login body, and the envelope around it.\<close>

lemma encode_login_iff:
  "encode_login deflate p limits = Inr body \<longleftrightarrow> login_ok p
   \<and> (\<exists>z. deflate (login_inner p) = Inr z \<and> length z \<le> max_login_compressed_bytes limits
        \<and> length z < 2 ^ 31 \<and> body = login_outer z)"
  by (auto simp: encode_login_def result_simps Let_def login_ok_def login_inner_def login_outer_def compress_zlib_def
      put_simps LOGIN_MAX_DECOMPRESSED_BYTES_def)

lemma login_read_limit: "min (Suc LOGIN_MAX_DECOMPRESSED_BYTES) usize_max = Suc LOGIN_MAX_DECOMPRESSED_BYTES"
  by (simp add: LOGIN_MAX_DECOMPRESSED_BYTES_def usize_max_def)

lemma decode_login_iff:
  "decode_login inflate body limits = Inr p \<longleftrightarrow> login_ok p
   \<and> (\<exists>z. body = login_outer z \<and> length z \<le> max_login_compressed_bytes limits \<and> length z < 2 ^ 31
        \<and> inflate z (LOGIN_MAX_DECOMPRESSED_BYTES + 1) = Inr (login_inner p))" (is "?l = ?r")
proof
  assume ?l
  then obtain m1 m2 z m3 u n1 n2 n3 n4 where *:
      "eats (Reader_new body) (to_be_bytes GAME_PROTOCOL) m1" "eats m1 (to_be_bytes (of_nat (length z) :: i32)) m2"
      "eats m2 z m3" "rest m3 = []" "length z \<le> max_login_compressed_bytes limits" "length z < 2 ^ 31"
      "inflate z (LOGIN_MAX_DECOMPRESSED_BYTES + 1) = Inr u" "length u \<le> LOGIN_MAX_DECOMPRESSED_BYTES"
      "eats (Reader_new u) (to_le_bytes (of_nat (length (chain_data p)) :: i32)) n1" "eats n1 (chain_data p) n2"
      "eats n2 (to_le_bytes (of_nat (length (skin_jwt p)) :: i32)) n3" "eats n3 (skin_jwt p) n4" "rest n4 = []"
      "login_protocol p = GAME_PROTOCOL"
    by (clarsimp simp: decode_login_def result_simps read_iffs finish_Inr_iff nonnegative_len_iff login_read_limit
        decompress_zlib_limited_def Let_def split: prod.splits if_splits)
  then have "eats (Reader_new body) (login_outer z) m3" and "eats (Reader_new u) (login_inner p) n4"
    unfolding login_outer_def login_inner_def by (auto intro: eats_trans)
  then have "body = login_outer z" and "u = login_inner p"
    using *(4,13) eats_all_iff by blast+
  with * show ?r by (auto simp: login_ok_def)
next
  assume ?r
  then obtain z where z: "login_ok p" "body = login_outer z" "length z \<le> max_login_compressed_bytes limits"
      "length z < 2 ^ 31" "inflate z (LOGIN_MAX_DECOMPRESSED_BYTES + 1) = Inr (login_inner p)" by blast
  then have len: "length (chain_data p) < 2 ^ 31" "length (skin_jwt p) < 2 ^ 31"
    by (auto simp: login_ok_def login_inner_def LOGIN_MAX_DECOMPRESSED_BYTES_def)
  obtain m1 m2 m3 where "read_i32_be (Reader_new body) = Inr (GAME_PROTOCOL, m1)"
      "read_i32_be m1 = Inr (of_nat (length z), m2)" "read_exact (length z) m2 = Inr (z, m3)" "finish m3 = Inr ()"
    using z(2) eats_all_iff [of body "login_outer z"]
    by (auto simp: login_outer_def eats_append_iff read_iffs finish_Inr_iff)
  moreover obtain n1 n2 n3 n4 where
      "read_i32_le (Reader_new (login_inner p)) = Inr (of_nat (length (chain_data p)), n1)"
      "read_exact (length (chain_data p)) n1 = Inr (chain_data p, n2)"
      "read_i32_le n2 = Inr (of_nat (length (skin_jwt p)), n3)"
      "read_exact (length (skin_jwt p)) n3 = Inr (skin_jwt p, n4)" "finish n4 = Inr ()"
    using eats_all_iff [of "login_inner p" "login_inner p"]
    by (auto simp: login_inner_def eats_append_iff read_iffs finish_Inr_iff)
  ultimately show ?l using z len
    by (simp add: decode_login_def nonnegative_len_iff [THEN iffD2] check_limit_def decompress_zlib_limited_def login_read_limit login_ok_def)
qed

section \<open>Bootstrap packets\<close>

lemma set_time_body_iff:
  "read_whole (rd_bind read_i32_be (\<lambda>t. rd_bind read_u8 (\<lambda>b. rd_ok (t, b \<noteq> 0)))) body = Inr (t, s) \<longleftrightarrow>
   (\<exists>b. s = (b \<noteq> 0) \<and> body = to_be_bytes t @ [b])"
proof -
  have "read_whole (rd_bind read_i32_be (\<lambda>t. rd_bind read_u8 (\<lambda>b. rd_ok (t, b \<noteq> 0)))) body = Inr (t, s) \<longleftrightarrow>
      (\<exists>b. s = (b \<noteq> 0) \<and> (\<exists>m. eats (Reader_new body) (to_be_bytes t @ [b]) m \<and> rest m = []))"
    by (auto simp: read_whole_def result_simps read_iffs finish_Inr_iff eats_append_iff)
  then show ?thesis by (simp add: eats_all_iff)
qed

lemmas whole_body_iffs =
  read_whole_iff [where p = read_i32_be and D = "\<lambda>_. True" and E = to_be_bytes, simplified read_iffs, simplified]
  read_whole_iff [where p = read_string_u16 and D = string_u16_ok and E = string_u16, OF read_string_u16_iff]
  read_whole_iff [where p = read_i32_triple and D = "\<lambda>_. True" and E = i32_triple_bytes, simplified read_iffs, simplified]
  read_whole_iff [where p = read_start_game and D = "\<lambda>p. string_u16_ok (level_id p)" and E = start_game_bytes,
    OF read_start_game_iff]

text \<open>The wire form of a decoded packet: its id and what its body may be.\<close>

fun wire_form :: "inflater \<Rightarrow> CodecLimits \<Rightarrow> BootstrapPacket \<Rightarrow> RawPacket \<Rightarrow> bool" where
  "wire_form inflate limits (Login p) raw \<longleftrightarrow> packet_id raw = LOGIN \<and> decode_login inflate (packet_body raw) limits = Inr p"
| "wire_form inflate limits (PlayStatus p) raw \<longleftrightarrow> raw = RawPacket_new PLAY_STATUS (to_be_bytes (status p))"
| "wire_form inflate limits (Disconnect p) raw \<longleftrightarrow> string_u16_ok (disconnect_message p)
     \<and> raw = RawPacket_new DISCONNECT (string_u16 (disconnect_message p))"
| "wire_form inflate limits (SetTime p) raw \<longleftrightarrow>
     (\<exists>b. started p = (b \<noteq> 0) \<and> raw = RawPacket_new SET_TIME (to_be_bytes (packet_time p) @ [b]))"
| "wire_form inflate limits (StartGame p) raw \<longleftrightarrow> string_u16_ok (level_id p)
     \<and> raw = RawPacket_new START_GAME (start_game_bytes p)"
| "wire_form inflate limits (SetSpawnPosition p) raw \<longleftrightarrow>
     raw = RawPacket_new SET_SPAWN_POSITION (i32_triple_bytes (spawn_position p))"
| "wire_form inflate limits (AdventureSettings p) raw \<longleftrightarrow> raw = RawPacket_new ADVENTURE_SETTINGS
     (i32_triple_bytes (adventure_flags p, user_permission p, global_permission p))"
| "wire_form inflate limits (SetDifficulty p) raw \<longleftrightarrow> raw = RawPacket_new SET_DIFFICULTY (to_be_bytes (difficulty p))"
| "wire_form inflate limits (Batch p) raw \<longleftrightarrow> packet_id raw = BATCH \<and> decode_body inflate (packet_body raw) limits = Inr p"

lemma packet_new_iffs:
  "p1 = PlayStatusPacket_new s \<longleftrightarrow> s = status p1"
  "p2 = DisconnectPacket_new m \<longleftrightarrow> m = disconnect_message p2"
  "p3 = SetTimePacket_new t b \<longleftrightarrow> t = packet_time p3 \<and> b = started p3"
  "p4 = SetSpawnPositionPacket_new x y z \<longleftrightarrow> spawn_position p4 = (x, y, z)"
  "p5 = SetDifficultyPacket_new d \<longleftrightarrow> d = difficulty p5"
  "p6 = AdventureSettingsPacket_new f u g \<longleftrightarrow> f = adventure_flags p6 \<and> u = user_permission p6 \<and> g = global_permission p6"
  by (cases p1; cases p2; cases p3; cases p4; cases p5; cases p6;
      auto simp: PlayStatusPacket_new_def DisconnectPacket_new_def SetTimePacket_new_def SetSpawnPositionPacket_new_def
        SetDifficultyPacket_new_def AdventureSettingsPacket_new_def)+

lemma decode_bootstrap_packet_iff:
  "decode_bootstrap_packet inflate raw limits = Inr p \<longleftrightarrow> wire_form inflate limits p raw"
proof -
  obtain i body where raw: "raw = RawPacket_new i body" by (cases raw) (simp add: RawPacket_new_def)
  show ?thesis
    by (cases p) (auto simp: raw RawPacket_new_def decode_bootstrap_packet_def Let_def result_simps packet_id_defs
        packet_new_iffs decode_start_game_def whole_body_iffs set_time_body_iff, metis prod_cases3)
qed

lemma put_triple_appended:
  "put_i32_triple t w = appended w (i32_triple_bytes t)" "put_f32_triple t w = appended w (i32_triple_bytes t)"
  by (cases t; simp add: put_i32_triple_def put_f32_triple_def put_appended i32_triple_bytes_def)+

lemmas bootstrap_writes = write_start_game_iff put_triple_appended put_appended put_string_u16_appended put_simps
  AdventureSettingsPacket_flags_def

text \<open>The encoder emits a wire form, when the compressor is lossless.\<close>

lemma encode_bootstrap_wire_form:
  assumes zlib: "zlib_law deflate inflate" and usize: "max_batch_decompressed_bytes limits \<le> usize_max"
    and utf8: "packet_utf8 p" and enc: "encode_bootstrap_packet deflate p limits = Inr raw"
  shows "wire_form inflate limits p raw"
proof (cases p)
  case (Login q)
  with enc obtain z where ok: "login_ok q" and z: "deflate (login_inner q) = Inr z"
      "length z \<le> max_login_compressed_bytes limits" "length z < 2 ^ 31" "raw = RawPacket_new LOGIN (login_outer z)"
    by (auto simp: encode_login_iff result_simps)
  have "inflate z (LOGIN_MAX_DECOMPRESSED_BYTES + 1) = Inr (login_inner q)"
    using zlib z(1) ok by (simp add: zlib_law_def login_ok_def)
  with Login ok z show ?thesis by (auto simp: decode_login_iff RawPacket_new_def)
next
  case (Batch b)
  with enc obtain body where "encode_body deflate b limits = Inr body" "raw = RawPacket_new BATCH body"
    by (auto simp: result_simps)
  with Batch batch_decodes [OF zlib usize] show ?thesis by (simp add: RawPacket_new_def)
next
  case (SetTime q)
  with enc show ?thesis
    by (cases "started q") (auto simp: bootstrap_writes intro!: exI [of _ "if started q then 1 else 0 :: u8"])
qed (use enc utf8 in \<open>auto simp: bootstrap_writes result_simps string_u16_ok_def i32_triple_bytes_def\<close>)

lemma wire_form_canonical:
  assumes "wire_form inflate limits p raw" and "\<forall>q. p \<noteq> Login q" and "\<forall>q. p \<noteq> Batch q"
    and "\<forall>q. p = SetTime q \<longrightarrow> last (packet_body raw) \<le> 1"
  shows "encode_bootstrap_packet deflate p limits = Inr raw"
proof (cases p)
  case (SetTime q)
  then obtain b where b: "started q = (b \<noteq> 0)" "raw = RawPacket_new SET_TIME (to_be_bytes (packet_time q) @ [b])"
    using assms(1) by auto
  then have "b \<le> 1" using assms(4) SetTime by (simp add: RawPacket_new_def)
  then have "unat b = 0 \<or> unat b = 1" by (auto simp: word_le_nat_alt)
  then have "b = (if started q then 1 else 0)" using b(1) by (auto simp: word_unat_eq_iff)
  with SetTime b show ?thesis by (simp add: bootstrap_writes)
qed (use assms in \<open>auto simp: bootstrap_writes result_simps string_u16_ok_def i32_triple_bytes_def\<close>)

lemma move_player_bytes_length: "length (move_player_bytes p g) = 34"
  by (simp add: move_player_bytes_def i32_triple_bytes_def split: prod.splits)

lemma i32_triple_bytes_length [simp]: "length (i32_triple_bytes t) = 12"
  by (simp add: i32_triple_bytes_def split: prod.splits)

lemma move_player_split:
  assumes "length body = 34"
  shows "body = take 8 body @ take 12 (drop 8 body) @ take 4 (drop 20 body) @ take 4 (drop 24 body)
    @ take 4 (drop 28 body) @ [body ! 32] @ [body ! 33]"
proof -
  have "drop 32 body = [body ! 32] @ [body ! 33]"
    using assms Cons_nth_drop_Suc [of 32 body] Cons_nth_drop_Suc [of 33 body] by simp
  moreover have "drop m body = take n (drop m body) @ drop (m + n) body" for m n
    by (metis add.commute append_take_drop_id drop_drop)
  from this [of 0 8] this [of 8 12] this [of 20 4] this [of 24 4] this [of 28 4]
  have "body = take 8 body @ drop 8 body" "drop 8 body = take 12 (drop 8 body) @ drop 20 body"
    "drop 20 body = take 4 (drop 20 body) @ drop 24 body" "drop 24 body = take 4 (drop 24 body) @ drop 28 body"
    "drop 28 body = take 4 (drop 28 body) @ drop 32 body"
    by simp_all
  ultimately show ?thesis by metis
qed

lemma decode_move_player_iff:
  "decode_move_player body = Inr p \<longleftrightarrow> (\<exists>g. on_ground p = (g \<noteq> 0) \<and> body = move_player_bytes p g)"
proof -
  have "decode_move_player body = Inr p \<longleftrightarrow>
      (\<exists>g. on_ground p = (g \<noteq> 0) \<and> (\<exists>m. eats (Reader_new body) (move_player_bytes p g) m \<and> rest m = []))"
    by (auto simp: decode_move_player_def read_whole_def result_simps read_move_player_iff finish_Inr_iff)
  then show ?thesis by (simp add: eats_all_iff)
qed

section \<open>Properties\<close>

text \<open>
  C34: every bootstrap packet survives the wire. With a lossless compressor, whatever game frame the
  encoder produces for a packet (Login, PlayStatus, Disconnect, SetTime, StartGame, SetSpawnPosition,
  AdventureSettings, SetDifficulty or Batch) decodes under the same limits to that same packet; neither the
  login decompression bound nor any frame or batch limit rejects it.
\<close>

theorem bootstrap_frame_roundtrip:
  assumes "zlib_law deflate inflate" and "max_batch_decompressed_bytes limits \<le> usize_max"
    and "packet_utf8 p" and "encode_bootstrap_frame deflate p limits = Inr frame"
  shows "decode_bootstrap_frame inflate frame limits = Inr p"
proof -
  from assms(4) obtain raw where raw: "encode_bootstrap_packet deflate p limits = Inr raw"
      "encode_game_frame raw limits = Inr frame"
    by (auto simp: encode_bootstrap_frame_def result_simps)
  then have "decode_game_frame frame limits = Inr raw"
    by (auto simp: encode_game_frame_Inr_iff decode_game_frame_Inr_iff)
  moreover have "decode_bootstrap_packet inflate raw limits = Inr p"
    using encode_bootstrap_wire_form [OF assms(1-3) raw(1)] by (simp add: decode_bootstrap_packet_iff)
  ultimately show ?thesis by (simp add: decode_bootstrap_frame_def)
qed

definition sample_login :: BootstrapPacket where
  "sample_login = Login (LoginPacket_new [0x7b, 0x7d] [0x2e])"

lemma sample_login_encodes:
  "encode_bootstrap_frame stored_deflate sample_login sample_limits
   = Inr [0xfe, 1, 0, 0, 0, 84, 0, 0, 0, 12, 0x78, 2, 0, 0, 0, 0x7b, 0x7d, 1, 0, 0, 0, 0x2e]"
  by (simp add: encode_bootstrap_frame_def sample_login_def result_simps encode_login_iff encode_game_frame_Inr_iff
      LoginPacket_new_def login_ok_def login_inner_def login_outer_def stored_deflate_def sample_limits_def
      CodecLimits_new_def LOGIN_MAX_DECOMPRESSED_BYTES_def to_be_bytes_def to_le_bytes_def upt_rec GAME_PROTOCOL_def
      GAME_MARKER_def packet_bytes_def RawPacket_new_def LOGIN_def usize_max_def)

theorem bootstrap_frame_roundtrip_witness:
  "decode_bootstrap_frame stored_inflate
     [0xfe, 1, 0, 0, 0, 84, 0, 0, 0, 12, 0x78, 2, 0, 0, 0, 0x7b, 0x7d, 1, 0, 0, 0, 0x2e] sample_limits = Inr sample_login"
  by (rule bootstrap_frame_roundtrip [OF stored_zlib_law _ _ sample_login_encodes])
    (simp_all add: sample_limits_def CodecLimits_new_def usize_max_def sample_login_def)

text \<open>
  C35: the bootstrap decoder accepts only canonical frames. A packet accepted from any bytes is, unless it went
  through the compressor, re-encoded to exactly the bytes it came from; the one exception is SetTime, whose flag
  byte may be any non-zero byte for true. An accepted Login carries the supported protocol number, and
  both its compressed and its decompressed part are within their bounds.
\<close>

theorem bootstrap_decode_canonical:
  assumes "decode_bootstrap_frame inflate frame limits = Inr p" and "max_frame_bytes limits \<le> usize_max"
  shows "case p of
      Login q \<Rightarrow> login_protocol q = GAME_PROTOCOL \<and> length (login_inner q) \<le> LOGIN_MAX_DECOMPRESSED_BYTES
        \<and> (\<exists>z. frame = GAME_MARKER # LOGIN # login_outer z \<and> length z \<le> max_login_compressed_bytes limits
              \<and> inflate z (LOGIN_MAX_DECOMPRESSED_BYTES + 1) = Inr (login_inner q))
    | Batch q \<Rightarrow> \<exists>body. frame = GAME_MARKER # BATCH # body \<and> decode_body inflate body limits = Inr q
    | SetTime q \<Rightarrow> last frame \<le> 1 \<longrightarrow> encode_bootstrap_frame deflate p limits = Inr frame
    | _ \<Rightarrow> encode_bootstrap_frame deflate p limits = Inr frame"
proof -
  from assms(1) obtain raw where raw: "frame = GAME_MARKER # packet_bytes raw" "length frame \<le> max_frame_bytes limits"
      and wf: "wire_form inflate limits p raw"
    by (auto simp: decode_bootstrap_frame_def result_simps decode_game_frame_Inr_iff decode_bootstrap_packet_iff)
  then have frame: "encode_game_frame raw limits = Inr frame"
    using assms(2) by (simp add: encode_game_frame_Inr_iff)
  have canon: "(\<forall>q. p \<noteq> Login q) \<Longrightarrow> (\<forall>q. p \<noteq> Batch q) \<Longrightarrow>
      (\<forall>q. p = SetTime q \<longrightarrow> last (packet_body raw) \<le> 1) \<Longrightarrow> encode_bootstrap_frame deflate p limits = Inr frame"
    using wire_form_canonical [OF wf] frame by (simp add: encode_bootstrap_frame_def)
  show ?thesis
  proof (cases p)
    case (SetTime q)
    with wf have "last frame = last (packet_body raw)"
      by (auto simp: raw(1) packet_bytes_def RawPacket_new_def)
    with SetTime canon show ?thesis by simp
  next
    case (Login q)
    with wf raw(1) show ?thesis by (auto simp: decode_login_iff login_ok_def packet_bytes_def)
  qed (use wf raw(1) canon in \<open>auto simp: packet_bytes_def\<close>)
qed

theorem bootstrap_decode_canonical_witness:
  "encode_bootstrap_frame stored_deflate (PlayStatus (PlayStatusPacket_new 3)) sample_limits = Inr [0xfe, 2, 0, 0, 0, 3]"
proof -
  have "decode_bootstrap_frame stored_inflate [0xfe, 2, 0, 0, 0, 3] sample_limits = Inr (PlayStatus (PlayStatusPacket_new 3))"
    by (simp add: decode_bootstrap_frame_def result_simps decode_game_frame_Inr_iff decode_bootstrap_packet_iff
        packet_bytes_def RawPacket_new_def GAME_MARKER_def PLAY_STATUS_def PlayStatusPacket_new_def sample_limits_def
        CodecLimits_new_def to_be_bytes_def to_le_bytes_def upt_rec)
  from bootstrap_decode_canonical [OF this, of stored_deflate] show ?thesis
    by (simp add: sample_limits_def CodecLimits_new_def usize_max_def)
qed

text \<open>
  C36: the MovePlayer decoder accepts exactly the bodies of the fixed layout: 34 bytes with the entity id, six
  big-endian floats, a mode byte of the three defined ones and a flag byte; every field is read
  from its place, and two accepted bodies of the same packet can differ only in a non-zero flag byte.
\<close>

theorem move_player_exact:
  "decode_move_player body = Inr p \<longleftrightarrow>
      length body = 34
      \<and> take 8 body = to_be_bytes (move_entity_id p)
      \<and> take 12 (drop 8 body) = i32_triple_bytes (move_position p)
      \<and> take 4 (drop 20 body) = to_be_bytes (yaw p)
      \<and> take 4 (drop 24 body) = to_be_bytes (body_yaw p)
      \<and> take 4 (drop 28 body) = to_be_bytes (pitch p)
      \<and> body ! 32 = wire_value (move_mode p)
      \<and> on_ground p = (body ! 33 \<noteq> 0)" (is "?l = ?r")
proof
  assume ?l
  then obtain g where "on_ground p = (g \<noteq> 0)" "body = move_player_bytes p g" by (auto simp: decode_move_player_iff)
  then show ?r
    by (simp add: move_player_bytes_length) (simp add: move_player_bytes_def nth_append)
next
  assume *: ?r
  then have "body = move_player_bytes p (body ! 33)"
    using move_player_split [of body] by (simp add: move_player_bytes_def)
  with * show ?l by (auto simp: decode_move_player_iff)
qed

end
