(* ===== verification/Arena.thy ===== *)
theory Arena
  imports Prelude
begin

text \<open>
  Runtime identities, generational handles and the generational arena:
  \<open>native/runtime/src/runtime.rs\<close>, \<open>handle.rs\<close> and \<open>arena.rs\<close>.

  A \<open>NonZeroU32\<close> is a \<open>u32\<close> whose value is not 0 (part of \<open>arena_inv\<close>). \<open>get_mut\<close> returns the
  value together with the write-back that assigning through the reference performs. The one
  panic of the code (\<open>self.slots[index]\<close> on a free-list index) is the error \<open>IndexPanic\<close>,
  which \<open>arena_inv\<close> excludes.
\<close>

section \<open>Definitions\<close>

datatype RuntimeId = RuntimeId u32

definition RuntimeId_new :: "u32 \<Rightarrow> RuntimeId option" where
  "RuntimeId_new v = (if v = 0 then None else Some (RuntimeId v))"

fun RuntimeId_get :: "RuntimeId \<Rightarrow> u32" where
  "RuntimeId_get (RuntimeId v) = v"

record Handle =
  handle_index :: u32
  handle_generation :: u32

definition Handle_new :: "u32 \<Rightarrow> u32 \<Rightarrow> Handle" where
  "Handle_new i g = \<lparr>handle_index = i, handle_generation = g\<rparr>"

definition into_raw :: "Handle \<Rightarrow> u64" where
  "into_raw h = push_bit 32 (ucast (handle_generation h)) OR ucast (handle_index h)"

definition from_raw :: "u64 \<Rightarrow> Handle option" where
  "from_raw raw =
     (let g = (ucast (drop_bit 32 raw) :: u32)
      in if g = 0 then None else Some (Handle_new (ucast raw) g))"

datatype InsertError = CapacityExhausted | IndexPanic

record 'a Slot =
  slot_generation :: u32
  slot_value :: "'a option"
  slot_retired :: bool

record 'a Arena =
  slots :: "'a Slot list"
  free_slots :: "u32 list"
  arena_len :: nat

definition Arena_new :: "'a Arena" where
  "Arena_new = \<lparr>slots = [], free_slots = [], arena_len = 0\<rparr>"

definition Arena_is_empty :: "'a Arena \<Rightarrow> bool" where
  "Arena_is_empty a \<longleftrightarrow> arena_len a = 0"

definition Arena_insert :: "'a Arena \<Rightarrow> 'a \<Rightarrow> InsertError + Handle \<times> 'a Arena" where
  "Arena_insert a v =
     (if free_slots a \<noteq> [] then
        let index = last (free_slots a); i = unat index in
        if i < length (slots a) then
          let slot = slots a ! i in
          Inr (Handle_new index (slot_generation slot),
               a\<lparr>free_slots := butlast (free_slots a),
                 slots := (slots a)[i := slot\<lparr>slot_value := Some v\<rparr>],
                 arena_len := arena_len a + 1\<rparr>)
        else Inl IndexPanic
      else if length (slots a) < 2 ^ 32 then
        Inr (Handle_new (of_nat (length (slots a))) 1,
             a\<lparr>slots := slots a @ [\<lparr>slot_generation = 1, slot_value = Some v, slot_retired = False\<rparr>],
               arena_len := arena_len a + 1\<rparr>)
      else Inl CapacityExhausted)"

definition Arena_get :: "'a Arena \<Rightarrow> Handle \<Rightarrow> 'a option" where
  "Arena_get a h =
     (let i = unat (handle_index h) in
      if i < length (slots a) then
        if slot_generation (slots a ! i) \<noteq> handle_generation h then None
        else slot_value (slots a ! i)
      else None)"

definition Arena_get_mut :: "'a Arena \<Rightarrow> Handle \<Rightarrow> ('a \<times> ('a \<Rightarrow> 'a Arena)) option" where
  "Arena_get_mut a h =
     (let i = unat (handle_index h) in
      if i < length (slots a) then
        if slot_generation (slots a ! i) \<noteq> handle_generation h then None
        else case slot_value (slots a ! i) of
               None \<Rightarrow> None
             | Some v \<Rightarrow>
                 Some (v, \<lambda>v'. a\<lparr>slots := (slots a)[i := (slots a ! i)\<lparr>slot_value := Some v'\<rparr>]\<rparr>)
      else None)"

definition Arena_contains :: "'a Arena \<Rightarrow> Handle \<Rightarrow> bool" where
  "Arena_contains a h \<longleftrightarrow> Arena_get a h \<noteq> None"

definition Arena_drain :: "'a Arena \<Rightarrow> 'a list \<times> 'a Arena" where
  "Arena_drain a = (List.map_filter slot_value (slots a), Arena_new)"

definition Arena_remove :: "'a Arena \<Rightarrow> Handle \<Rightarrow> ('a \<times> 'a Arena) option" where
  "Arena_remove a h =
     (let i = unat (handle_index h) in
      if i < length (slots a) then
        let slot = slots a ! i in
        if slot_generation slot \<noteq> handle_generation h then None
        else case slot_value slot of
               None \<Rightarrow> None
             | Some v \<Rightarrow>
                 (case checked_add (slot_generation slot) 1 of
                    Some g \<Rightarrow>
                      Some (v, a\<lparr>slots := (slots a)[i := slot\<lparr>slot_value := None, slot_generation := g\<rparr>],
                                 arena_len := arena_len a - 1,
                                 free_slots := free_slots a @ [handle_index h]\<rparr>)
                  | None \<Rightarrow>
                      Some (v, a\<lparr>slots := (slots a)[i := slot\<lparr>slot_value := None, slot_retired := True\<rparr>],
                                 arena_len := arena_len a - 1\<rparr>))
      else None)"

text \<open>
  The invariant of the representation: generations are nonzero, the free list holds exactly
  the vacant slots that are not retired, a slot retires only at the last generation, and
  \<open>len\<close> counts the live values.
\<close>

definition slot_ok :: "'a Slot \<Rightarrow> bool" where
  "slot_ok s \<longleftrightarrow> slot_generation s \<noteq> 0
     \<and> (slot_retired s \<longrightarrow> slot_value s = None \<and> slot_generation s = - 1)"

definition vacant :: "'a Slot \<Rightarrow> bool" where
  "vacant s \<longleftrightarrow> slot_value s = None \<and> \<not> slot_retired s"

definition arena_inv :: "'a Arena \<Rightarrow> bool" where
  "arena_inv a \<longleftrightarrow>
     length (slots a) \<le> 2 ^ 32
     \<and> list_all slot_ok (slots a)
     \<and> distinct (free_slots a)
     \<and> (\<forall>i. i < length (slots a) \<longrightarrow> (vacant (slots a ! i) \<longleftrightarrow> of_nat i \<in> set (free_slots a)))
     \<and> (\<forall>f \<in> set (free_slots a). unat f < length (slots a))
     \<and> arena_len a = length (filter (\<lambda>s. slot_value s \<noteq> None) (slots a))"

text \<open>
  A handle is spent when its slot has moved past the handle's generation, or was retired
  at it.
\<close>

definition handle_spent :: "'a Arena \<Rightarrow> Handle \<Rightarrow> bool" where
  "handle_spent a h \<longleftrightarrow>
     (let i = unat (handle_index h) in
      i < length (slots a)
      \<and> (handle_generation h < slot_generation (slots a ! i)
         \<or> handle_generation h = slot_generation (slots a ! i) \<and> slot_retired (slots a ! i)))"

text \<open>
  The histories of an arena between two drains: insertions, assignments through \<open>get_mut\<close>,
  and removals.
\<close>

inductive arena_step :: "'a Arena \<Rightarrow> 'a Arena \<Rightarrow> bool" where
  step_insert: "Arena_insert a v = Inr (h, a') \<Longrightarrow> arena_step a a'"
| step_assign: "Arena_get_mut a h = Some (v, k) \<Longrightarrow> arena_step a (k v')"
| step_remove: "Arena_remove a h = Some (v, a') \<Longrightarrow> arena_step a a'"

inductive_cases arena_stepE: "arena_step a b"

section \<open>Handles and runtime identities\<close>

lemma RuntimeId_roundtrip: "RuntimeId_new v = Some r \<Longrightarrow> RuntimeId_get r = v \<and> v \<noteq> 0"
  by (auto simp: RuntimeId_new_def split: if_splits)

lemma into_raw_split:
  "ucast (drop_bit 32 (into_raw h)) = handle_generation h"
  "ucast (into_raw h) = handle_index h"
  unfolding into_raw_def
  by (rule bit_word_eqI, auto simp: bit_simps not_le dest: bit_imp_le_length)+

text \<open>
  C27: packing a handle into its FFI scalar and unpacking it again is the identity on every
  handle with a nonzero generation, and unpacking accepts exactly the scalars with a nonzero
  upper half, each of which packs back to itself.
\<close>

theorem handle_raw_roundtrip:
  "from_raw (into_raw h) = (if handle_generation h = 0 then None else Some h)
   \<and> (from_raw raw = Some h' \<longleftrightarrow> into_raw h' = raw \<and> handle_generation h' \<noteq> 0)"
proof -
  have fw: "from_raw (into_raw h) = (if handle_generation h = 0 then None else Some h)" for h
    by (simp add: from_raw_def into_raw_split Handle_new_def)
  have "into_raw h' = raw \<and> handle_generation h' \<noteq> 0" if "from_raw raw = Some h'"
  proof -
    from that have h': "h' = Handle_new (ucast raw) (ucast (drop_bit 32 raw))"
      and nz: "(ucast (drop_bit 32 raw) :: u32) \<noteq> 0"
      by (auto simp: from_raw_def Let_def split: if_splits)
    have "push_bit 32 (ucast (ucast (drop_bit 32 raw) :: u32)) OR ucast (ucast raw :: u32) = raw"
      by (rule bit_word_eqI) (auto simp: bit_simps not_le)
    with h' nz show ?thesis by (simp add: into_raw_def Handle_new_def)
  qed
  with fw [of h'] fw [of h] show ?thesis by auto
qed

section \<open>The arena\<close>

lemma arena_inv_new: "arena_inv Arena_new"
  by (simp add: arena_inv_def Arena_new_def)

lemma Handle_new_sel [simp]:
  "handle_index (Handle_new i g) = i"
  "handle_generation (Handle_new i g) = g"
  by (simp_all add: Handle_new_def)

lemma arena_invD:
  assumes "arena_inv a"
  shows "length (slots a) \<le> 2 ^ 32"
    and "i < length (slots a) \<Longrightarrow> slot_ok (slots a ! i)"
    and "i < length (slots a) \<Longrightarrow> vacant (slots a ! i) \<longleftrightarrow> of_nat i \<in> set (free_slots a)"
    and "f \<in> set (free_slots a) \<Longrightarrow> unat f < length (slots a)"
    and "distinct (free_slots a)"
  using assms by (auto simp: arena_inv_def list_all_length)

lemma unat_of_nat_index: "i < 2 ^ 32 \<Longrightarrow> unat (of_nat i :: u32) = i"
  by (simp add: unsigned_of_nat take_bit_nat_eq_self)

lemma of_nat_index_eq:
  assumes "i < 2 ^ 32"
  shows "(of_nat i :: u32) = f \<longleftrightarrow> i = unat f"
  using unat_of_nat_index [OF assms] by auto

lemma length_filter_update:
  "i < length xs \<Longrightarrow> length (filter P (xs[i := x])) + of_bool (P (xs ! i)) = length (filter P xs) + of_bool (P x)"
proof (induction xs arbitrary: i)
  case Nil
  then show ?case by simp
next
  case (Cons y ys)
  then show ?case by (cases i) auto
qed

lemma free_top:
  assumes "arena_inv a" and "free_slots a \<noteq> []"
  shows "unat (last (free_slots a)) < length (slots a)"
    and "vacant (slots a ! unat (last (free_slots a)))"
    and "last (free_slots a) \<notin> set (butlast (free_slots a))"
proof -
  have mem: "last (free_slots a) \<in> set (free_slots a)" using assms(2) by simp
  show lt: "unat (last (free_slots a)) < length (slots a)"
    by (rule arena_invD(4) [OF assms(1) mem])
  show "vacant (slots a ! unat (last (free_slots a)))"
    using arena_invD(3) [OF assms(1) lt] mem by simp
  have "distinct (butlast (free_slots a) @ [last (free_slots a)])"
    using assms arena_invD(5) by simp
  then show "last (free_slots a) \<notin> set (butlast (free_slots a))" by simp
qed

lemma arena_inv_update:
  assumes inv: "arena_inv a" and i: "i < length (slots a)"
    and ok: "slot_ok s'" and free: "distinct fs'"
    and setfs: "set fs' = (if vacant s' then insert (of_nat i) (set (free_slots a))
                           else set (free_slots a) - {of_nat i})"
    and len: "n' + of_bool (slot_value (slots a ! i) \<noteq> None) = arena_len a + of_bool (slot_value s' \<noteq> None)"
  shows "arena_inv (a\<lparr>slots := (slots a)[i := s'], free_slots := fs', arena_len := n'\<rparr>)"
proof -
  have small: "j < 2 ^ 32" if "j < length (slots a)" for j
    using that arena_invD(1) [OF inv] by simp
  have vac: "vacant ((slots a)[i := s'] ! j) \<longleftrightarrow> of_nat j \<in> set fs'" if j: "j < length (slots a)" for j
    using j arena_invD(3) [OF inv j] setfs of_nat_index_eq [OF small [OF j], of "of_nat i"]
      unat_of_nat_index [OF small [OF i]]
    by (auto simp: nth_list_update)
  have bnd: "unat f < length (slots a)" if "f \<in> set fs'" for f
    using that setfs arena_invD(4) [OF inv] i unat_of_nat_index [OF small [OF i]]
    by (auto split: if_splits)
  have "length (filter (\<lambda>s. slot_value s \<noteq> None) ((slots a)[i := s'])) = n'"
    using length_filter_update [OF i, of "\<lambda>s. slot_value s \<noteq> None" s'] len inv
    by (simp add: arena_inv_def)
  with inv ok free vac bnd i show ?thesis
    by (auto simp: arena_inv_def list_all_length nth_list_update)
qed

lemma insert_cases:
  assumes "arena_inv a" and "Arena_insert a v = Inr (h, a')"
  obtains
    (reuse) i slot where "i < length (slots a)" and "slot = slots a ! i" and "vacant slot"
      and "h = Handle_new (of_nat i) (slot_generation slot)"
      and "free_slots a \<noteq> []" and "of_nat i = last (free_slots a)"
      and "a' = a\<lparr>slots := (slots a)[i := slot\<lparr>slot_value := Some v\<rparr>],
                  free_slots := butlast (free_slots a), arena_len := arena_len a + 1\<rparr>"
  | (fresh) "length (slots a) < 2 ^ 32" and "free_slots a = []"
      and "h = Handle_new (of_nat (length (slots a))) 1"
      and "a' = a\<lparr>slots := slots a @ [\<lparr>slot_generation = 1, slot_value = Some v, slot_retired = False\<rparr>],
                  arena_len := arena_len a + 1\<rparr>"
proof (cases "free_slots a = []")
  case True
  with assms(2) show ?thesis
    by (intro fresh) (auto simp: Arena_insert_def split: if_splits)
next
  case False
  let ?f = "last (free_slots a)"
  from free_top [OF assms(1) False] assms(2) False show ?thesis
    by (intro reuse [of "unat ?f" "slots a ! unat ?f"]) (auto simp: Arena_insert_def Let_def)
qed

lemma arena_inv_insert:
  assumes inv: "arena_inv a" and ins: "Arena_insert a v = Inr (h, a')"
  shows "arena_inv a'"
  using inv ins
proof (cases rule: insert_cases)
  case (reuse i slot)
  have "set (butlast (free_slots a)) = set (free_slots a) - {last (free_slots a)}"
    using free_top(3) [OF inv reuse(5)] append_butlast_last_id [OF reuse(5)]
    by (metis Diff_insert_absorb Un_insert_right list.simps(15) list.set(1) set_append sup_bot_right)
  moreover have "slot_ok (slot\<lparr>slot_value := Some v\<rparr>)"
    using arena_invD(2) [OF inv reuse(1)] reuse(2,3) by (auto simp: slot_ok_def vacant_def)
  moreover have "distinct (butlast (free_slots a))"
    by (rule distinct_butlast [OF arena_invD(5) [OF inv]])
  ultimately show ?thesis
    unfolding reuse(7) using reuse(2,3,6)
    by (intro arena_inv_update [OF inv reuse(1)]) (auto simp: vacant_def)
next
  case fresh
  have "vacant (slots a' ! i) \<longleftrightarrow> of_nat i \<in> set (free_slots a')" if "i < length (slots a')" for i
    using that arena_invD(3) [OF inv, of i] fresh by (auto simp: nth_append vacant_def)
  with inv fresh show ?thesis
    by (simp add: arena_inv_def slot_ok_def)
qed

lemma get_mut_iff:
  "Arena_get_mut a h = Some (v, k) \<longleftrightarrow> Arena_get a h = Some v
     \<and> k = (\<lambda>v'. a\<lparr>slots := (slots a)[unat (handle_index h) :=
                   (slots a ! unat (handle_index h))\<lparr>slot_value := Some v'\<rparr>]\<rparr>)"
  by (auto simp: Arena_get_mut_def Arena_get_def Let_def split: if_splits option.splits)

lemma get_SomeD:
  assumes "Arena_get a h = Some v"
  shows "unat (handle_index h) < length (slots a)"
    and "slot_generation (slots a ! unat (handle_index h)) = handle_generation h"
    and "slot_value (slots a ! unat (handle_index h)) = Some v"
  using assms by (auto simp: Arena_get_def Let_def split: if_splits)

lemma arena_inv_assign:
  assumes inv: "arena_inv a" and mut: "Arena_get_mut a h = Some (v, k)"
  shows "arena_inv (k v')"
proof -
  let ?i = "unat (handle_index h)"
  from mut have get: "Arena_get a h = Some v"
    and k: "k v' = a\<lparr>slots := (slots a)[?i := (slots a ! ?i)\<lparr>slot_value := Some v'\<rparr>]\<rparr>"
    by (auto simp: get_mut_iff)
  note i = get_SomeD(1) [OF get] and val = get_SomeD(3) [OF get]
  have "of_nat ?i \<notin> set (free_slots a)"
    using arena_invD(3) [OF inv i] val by (simp add: vacant_def)
  moreover have "slot_ok ((slots a ! ?i)\<lparr>slot_value := Some v'\<rparr>)"
    using arena_invD(2) [OF inv i] val by (auto simp: slot_ok_def)
  ultimately have "arena_inv (a\<lparr>slots := (slots a)[?i := (slots a ! ?i)\<lparr>slot_value := Some v'\<rparr>],
      free_slots := free_slots a, arena_len := arena_len a\<rparr>)"
    using arena_invD(5) [OF inv] val
    by (intro arena_inv_update [OF inv i]) (auto simp: vacant_def)
  then show ?thesis by (simp add: k)
qed

lemma remove_cases:
  assumes "Arena_remove a h = Some (v, a')"
  obtains i slot where "i = unat (handle_index h)" and "i < length (slots a)" and "slot = slots a ! i"
    and "slot_generation slot = handle_generation h" and "slot_value slot = Some v"
    and "(\<exists>g. checked_add (slot_generation slot) 1 = Some g
            \<and> a' = a\<lparr>slots := (slots a)[i := slot\<lparr>slot_value := None, slot_generation := g\<rparr>],
                     free_slots := free_slots a @ [handle_index h], arena_len := arena_len a - 1\<rparr>)
         \<or> checked_add (slot_generation slot) 1 = None
            \<and> a' = a\<lparr>slots := (slots a)[i := slot\<lparr>slot_value := None, slot_retired := True\<rparr>],
                     free_slots := free_slots a, arena_len := arena_len a - 1\<rparr>"
  using assms by (auto simp: Arena_remove_def Let_def split: if_splits option.splits)

lemma remove_iff_get: "(\<exists>a'. Arena_remove a h = Some (v, a')) \<longleftrightarrow> Arena_get a h = Some v"
  by (auto simp: Arena_remove_def Arena_get_def Let_def split: if_splits option.splits)

lemma live_value_counted:
  assumes "arena_inv a" and "i < length (slots a)" and "slot_value (slots a ! i) \<noteq> None"
  shows "0 < arena_len a"
proof -
  have "slots a ! i \<in> set (filter (\<lambda>s. slot_value s \<noteq> None) (slots a))"
    using assms(2,3) by simp
  then have "0 < length (filter (\<lambda>s. slot_value s \<noteq> None) (slots a))"
    by (rule length_pos_if_in_set)
  with assms(1) show ?thesis by (simp add: arena_inv_def)
qed

lemma arena_inv_remove:
  assumes inv: "arena_inv a" and rem: "Arena_remove a h = Some (v, a')"
  shows "arena_inv a'"
  using rem
proof (cases rule: remove_cases)
  case (1 i slot)
  have idx: "of_nat i = handle_index h" using 1(1) by simp
  have ok: "slot_ok slot" using arena_invD(2) [OF inv 1(2)] 1(3) by simp
  have notfree: "handle_index h \<notin> set (free_slots a)" and notret: "\<not> slot_retired slot"
    using arena_invD(3) [OF inv 1(2)] 1(3,5) ok idx by (auto simp: vacant_def slot_ok_def)
  have pos: "0 < arena_len a" using live_value_counted [OF inv 1(2)] 1(3,5) by simp
  from 1(6) show ?thesis
  proof (elim disjE exE conjE)
    fix g
    assume g: "checked_add (slot_generation slot) 1 = Some g"
      and a': "a' = a\<lparr>slots := (slots a)[i := slot\<lparr>slot_value := None, slot_generation := g\<rparr>],
                     free_slots := free_slots a @ [handle_index h], arena_len := arena_len a - 1\<rparr>"
    have "g \<noteq> 0" using checked_add_1_less [OF g] by auto
    then show ?thesis
      unfolding a' using 1(3,5) notfree notret pos idx arena_invD(5) [OF inv]
      by (intro arena_inv_update [OF inv 1(2)]) (auto simp: slot_ok_def vacant_def)
  next
    assume g: "checked_add (slot_generation slot) 1 = None"
      and a': "a' = a\<lparr>slots := (slots a)[i := slot\<lparr>slot_value := None, slot_retired := True\<rparr>],
                     free_slots := free_slots a, arena_len := arena_len a - 1\<rparr>"
    from g ok have "slot_ok (slot\<lparr>slot_value := None, slot_retired := True\<rparr>)"
      by (auto simp: slot_ok_def checked_add_1_None)
    then show ?thesis
      unfolding a' using 1(3,5) notfree pos idx arena_invD(5) [OF inv]
      by (intro arena_inv_update [OF inv 1(2)]) (auto simp: vacant_def)
  qed
qed

lemma arena_inv_step: "arena_inv a \<Longrightarrow> arena_step a b \<Longrightarrow> arena_inv b"
  by (erule arena_stepE) (auto intro: arena_inv_insert arena_inv_assign arena_inv_remove)

subsection \<open>The arena as a keyed store\<close>

text \<open>
  What the owner-gated arena relies on: a store that issues keys, in which insertion,
  assignment and removal act on the map \<open>get s\<close> at exactly one key, and an issued key was
  not bound before.
\<close>

locale keyed_store =
  fixes insert :: "'s \<Rightarrow> 'v \<Rightarrow> 'e + 'h \<times> 's"
    and get :: "'s \<Rightarrow> 'h \<Rightarrow> 'v option"
    and get_mut :: "'s \<Rightarrow> 'h \<Rightarrow> ('v \<times> ('v \<Rightarrow> 's)) option"
    and remove :: "'s \<Rightarrow> 'h \<Rightarrow> ('v \<times> 's) option"
    and inv :: "'s \<Rightarrow> bool"
  assumes insert_inv: "inv s \<Longrightarrow> insert s v = Inr (h, s') \<Longrightarrow> inv s'"
    and insert_fresh: "inv s \<Longrightarrow> insert s v = Inr (h, s') \<Longrightarrow> get s h = None"
    and insert_get: "inv s \<Longrightarrow> insert s v = Inr (h, s') \<Longrightarrow> get s' = (get s)(h \<mapsto> v)"
    and mut_get: "get_mut s h = Some (v, k) \<Longrightarrow> get s h = Some v"
    and mut_some: "get s h = Some v \<Longrightarrow> \<exists>k. get_mut s h = Some (v, k)"
    and mut_inv: "inv s \<Longrightarrow> get_mut s h = Some (v, k) \<Longrightarrow> inv (k v')"
    and mut_assign: "get_mut s h = Some (v, k) \<Longrightarrow> get (k v') = (get s)(h \<mapsto> v')"
    and remove_some: "get s h = Some v \<Longrightarrow> \<exists>s'. remove s h = Some (v, s')"
    and remove_was: "remove s h = Some (v, s') \<Longrightarrow> get s h = Some v"
    and remove_inv: "inv s \<Longrightarrow> remove s h = Some (v, s') \<Longrightarrow> inv s'"
    and remove_get: "inv s \<Longrightarrow> remove s h = Some (v, s') \<Longrightarrow> get s' = (get s)(h := None)"
begin

lemma insert_then_remove:
  assumes "inv s" and "insert s v = Inr (h, s')"
  shows "\<exists>s''. remove s' h = Some (v, s'') \<and> get s'' = get s"
proof -
  have "get s' h = Some v" using insert_get [OF assms] by simp
  then obtain s'' where rem: "remove s' h = Some (v, s'')" using remove_some by blast
  have "get s'' = (get s')(h := None)"
    by (rule remove_get [OF insert_inv [OF assms] rem])
  with rem insert_get [OF assms] insert_fresh [OF assms] show ?thesis
    by (auto simp: fun_upd_idem)
qed

lemma mut_None_iff: "get_mut s h = None \<longleftrightarrow> get s h = None"
  using mut_get mut_some by (metis option.exhaust option.simps(3) surj_pair)

lemma remove_None_iff: "remove s h = None \<longleftrightarrow> get s h = None"
  using remove_was remove_some by (metis option.exhaust option.simps(3) surj_pair)

lemma live_key_is_stable:
  assumes "inv s" and "insert s v = Inr (h, s')" and "get s h' = Some w"
  shows "h \<noteq> h' \<and> get s' h' = Some w"
  using insert_fresh [OF assms(1,2)] insert_get [OF assms(1,2)] assms(3) by auto

end

lemma get_nth:
  "Arena_get a h = Some v \<longleftrightarrow> (\<exists>i. i = unat (handle_index h) \<and> i < length (slots a)
     \<and> slot_generation (slots a ! i) = handle_generation h \<and> slot_value (slots a ! i) = Some v)"
  by (auto simp: Arena_get_def Let_def)

lemma Handle_eq_iff:
  "h = Handle_new i g \<longleftrightarrow> handle_index h = i \<and> handle_generation h = g"
  by (cases h) (auto simp: Handle_new_def)

lemma Handle_eqI:
  "unat (handle_index h) = unat (handle_index h') \<Longrightarrow>
   handle_generation h = handle_generation h' \<Longrightarrow> h = (h' :: Handle)"
  by (cases h; cases h') (simp add: word_unat_eq_iff)

lemma Arena_get_update:
  assumes "i < length (slots a)" and "length (slots a) \<le> 2 ^ 32"
    and "slots b = (slots a)[i := s]"
  shows "Arena_get b h =
    (if handle_index h = of_nat i
     then if slot_generation s = handle_generation h then slot_value s else None
     else Arena_get a h)"
proof -
  have "(of_nat i = handle_index h) = (i = unat (handle_index h))"
    using assms by (intro of_nat_index_eq) simp
  with assms show ?thesis
    by (auto simp: Arena_get_def Let_def nth_list_update)
qed

lemma Arena_insert_spec:
  assumes inv: "arena_inv a" and ins: "Arena_insert a v = Inr (h, a')"
  shows "Arena_get a h = None" and "Arena_get a' = (Arena_get a)(h \<mapsto> v)"
proof -
  have "Arena_get a h = None \<and> Arena_get a' = (Arena_get a)(h \<mapsto> v)"
    using inv ins
  proof (cases rule: insert_cases)
    case (reuse i slot)
    note bound = arena_invD(1) [OF inv]
    have "unat (of_nat i :: u32) = i"
      using reuse(1) bound by (intro unat_of_nat_index) simp
    then have old: "Arena_get a h' = None" if "handle_index h' = of_nat i" for h'
      using that reuse(1-3) by (auto simp: Arena_get_def Let_def vacant_def)
    have "Arena_get a' h' = ((Arena_get a)(h \<mapsto> v)) h'" for h'
    proof -
      have "slots a' = (slots a)[i := slot\<lparr>slot_value := Some v\<rparr>]" by (simp add: reuse(7))
      from Arena_get_update [OF reuse(1) bound this, of h'] old [of h'] show ?thesis
        by (auto simp: reuse(4) Handle_eq_iff)
    qed
    with old [of h] show ?thesis by (auto simp: reuse(4))
  next
    case fresh
    have "unat (of_nat (length (slots a)) :: u32) = length (slots a)"
      using fresh(1) by (rule unat_of_nat_index)
    with fresh show ?thesis
      by (auto simp: Arena_get_def Let_def fun_eq_iff nth_append Handle_eq_iff less_Suc_eq
          intro!: Handle_eqI)
  qed
  then show "Arena_get a h = None" and "Arena_get a' = (Arena_get a)(h \<mapsto> v)"
    by auto
qed

lemma Arena_assign_spec:
  assumes "Arena_get_mut a h = Some (v, k)"
  shows "Arena_get (k v') = (Arena_get a)(h \<mapsto> v')"
proof -
  from assms have get: "Arena_get a h = Some v" by (simp add: get_mut_iff)
  have k: "slots (k v') = (slots a)[unat (handle_index h) :=
      (slots a ! unat (handle_index h))\<lparr>slot_value := Some v'\<rparr>]"
    using assms by (simp add: get_mut_iff)
  have "Arena_get (k v') h' = ((Arena_get a)(h \<mapsto> v')) h'" for h'
  proof (cases "unat (handle_index h') = unat (handle_index h)")
    case True
    then have "handle_index h' = handle_index h" by (simp add: word_unat_eq_iff)
    with k get_SomeD [OF get] show ?thesis
      by (cases h; cases h') (auto simp: Arena_get_def Let_def)
  next
    case False
    with k show ?thesis by (auto simp: Arena_get_def Let_def)
  qed
  then show ?thesis by blast
qed

lemma Arena_remove_spec:
  assumes inv: "arena_inv a" and rem: "Arena_remove a h = Some (v, a')"
  shows "Arena_get a' = (Arena_get a)(h := None)"
  using rem
proof (cases rule: remove_cases)
  case (1 i slot)
  have vac: "slot_value (slots a' ! i) = None" and upd: "slots a' = (slots a)[i := slots a' ! i]"
    using 1(2,6) by auto
  have "Arena_get a' h' = ((Arena_get a)(h := None)) h'" for h'
  proof (cases "handle_index h' = handle_index h")
    case True
    with Arena_get_update [OF 1(2) arena_invD(1) [OF inv] upd, of h'] 1 vac show ?thesis
      by (cases h; cases h') (auto simp: Arena_get_def Let_def)
  next
    case False
    with Arena_get_update [OF 1(2) arena_invD(1) [OF inv] upd, of h'] 1(1) show ?thesis by auto
  qed
  then show ?thesis by blast
qed

interpretation ar: keyed_store Arena_insert Arena_get Arena_get_mut Arena_remove arena_inv
proof
  fix s s' :: "'a Arena" and h v v' k
  show "arena_inv s \<Longrightarrow> Arena_insert s v = Inr (h, s') \<Longrightarrow> arena_inv s'" by (rule arena_inv_insert)
  show "arena_inv s \<Longrightarrow> Arena_insert s v = Inr (h, s') \<Longrightarrow> Arena_get s h = None" by (rule Arena_insert_spec)
  show "arena_inv s \<Longrightarrow> Arena_insert s v = Inr (h, s') \<Longrightarrow> Arena_get s' = (Arena_get s)(h \<mapsto> v)"
    by (rule Arena_insert_spec)
  show "Arena_get_mut s h = Some (v, k) \<Longrightarrow> Arena_get s h = Some v" by (simp add: get_mut_iff)
  show "Arena_get s h = Some v \<Longrightarrow> \<exists>k. Arena_get_mut s h = Some (v, k)" by (simp add: get_mut_iff)
  show "arena_inv s \<Longrightarrow> Arena_get_mut s h = Some (v, k) \<Longrightarrow> arena_inv (k v')" by (rule arena_inv_assign)
  show "Arena_get_mut s h = Some (v, k) \<Longrightarrow> Arena_get (k v') = (Arena_get s)(h \<mapsto> v')"
    by (rule Arena_assign_spec)
  show "Arena_get s h = Some v \<Longrightarrow> \<exists>s'. Arena_remove s h = Some (v, s')" by (simp add: remove_iff_get)
  show "Arena_remove s h = Some (v, s') \<Longrightarrow> Arena_get s h = Some v" by (auto simp: remove_iff_get [symmetric])
  show "arena_inv s \<Longrightarrow> Arena_remove s h = Some (v, s') \<Longrightarrow> arena_inv s'" by (rule arena_inv_remove)
  show "arena_inv s \<Longrightarrow> Arena_remove s h = Some (v, s') \<Longrightarrow> Arena_get s' = (Arena_get s)(h := None)"
    by (rule Arena_remove_spec)
qed

subsection \<open>Handles are never revalidated\<close>

lemma handle_spent_not_live: "arena_inv a \<Longrightarrow> handle_spent a h \<Longrightarrow> \<not> Arena_contains a h"
  using arena_invD(2) [of a "unat (handle_index h)"]
  by (auto simp: handle_spent_def Arena_contains_def Arena_get_def Let_def slot_ok_def)

lemma spent_mono:
  assumes "handle_spent a h"
    and "\<And>i. i < length (slots a) \<Longrightarrow> i < length (slots b)
      \<and> (slot_generation (slots a ! i) < slot_generation (slots b ! i)
         \<or> slot_generation (slots a ! i) = slot_generation (slots b ! i)
           \<and> (slot_retired (slots a ! i) \<longrightarrow> slot_retired (slots b ! i)))"
  shows "handle_spent b h"
  using assms(1) assms(2) [of "unat (handle_index h)"]
  by (auto simp: handle_spent_def Let_def)

lemma handle_spent_insert:
  assumes "arena_inv a" and "Arena_insert a v = Inr (h', a')" and "handle_spent a h"
  shows "handle_spent a' h"
  using assms(1,2)
proof (cases rule: insert_cases)
  case (reuse i slot)
  then show ?thesis by (intro spent_mono [OF assms(3)]) (auto simp: nth_list_update)
next
  case fresh
  then show ?thesis by (intro spent_mono [OF assms(3)]) (auto simp: nth_append)
qed

lemma handle_spent_assign:
  assumes "Arena_get_mut a h' = Some (v, k)" and "handle_spent a h"
  shows "handle_spent (k v') h"
  using assms by (intro spent_mono [OF assms(2)]) (auto simp: get_mut_iff nth_list_update dest: get_SomeD(1))

lemma handle_spent_remove:
  assumes "Arena_remove a h' = Some (v, a')" and "handle_spent a h"
  shows "handle_spent a' h"
  using assms(1)
proof (cases rule: remove_cases)
  case (1 i slot)
  have "slot_generation slot < g" if "checked_add (slot_generation slot) 1 = Some g" for g
    using that by (rule checked_add_1_less)
  with 1(2,3,6) show ?thesis
    by (intro spent_mono [OF assms(2)]) (auto simp: nth_list_update)
qed

lemma remove_spends:
  assumes "Arena_remove a h = Some (v, a')"
  shows "handle_spent a' h"
  using assms
proof (cases rule: remove_cases)
  case (1 i slot)
  then show ?thesis
    by (auto simp: handle_spent_def Let_def dest: checked_add_1_less)
qed

interpretation at: token_machine arena_step arena_inv Arena_contains handle_spent
proof
  fix a b :: "'a Arena" and h
  show "arena_inv a \<Longrightarrow> arena_step a b \<Longrightarrow> arena_inv b" by (rule arena_inv_step)
  show "arena_inv a \<Longrightarrow> arena_step a b \<Longrightarrow> handle_spent a h \<Longrightarrow> handle_spent b h"
    by (erule arena_stepE) (auto intro: handle_spent_insert handle_spent_assign handle_spent_remove)
  show "arena_inv a \<Longrightarrow> handle_spent a h \<Longrightarrow> \<not> Arena_contains a h" by (rule handle_spent_not_live)
qed

text \<open>
  C1: the arena refines a map from handles to values. From any state reached from a new arena
  by insertions, assignments and removals, insertion binds a handle that was unbound and
  changes no other binding, and fails only when the free list is empty and all \<open>2 ^ 32\<close> slots
  exist (it never hits the index panic); removal succeeds exactly on bound handles, returns
  the bound value and unbinds that handle alone; and \<open>len\<close> is the number of live values.
\<close>

theorem arena_refines_map:
  assumes reach: "arena_step\<^sup>*\<^sup>* Arena_new (a :: 'a Arena)"
  shows "(case Arena_insert a v of
            Inr (h, a') \<Rightarrow> Arena_get a h = None \<and> Arena_get a' = (Arena_get a)(h \<mapsto> v)
          | Inl e \<Rightarrow> e = CapacityExhausted \<and> free_slots a = [] \<and> length (slots a) = 2 ^ 32)
       \<and> (case Arena_remove a h of
            Some (w, a') \<Rightarrow> Arena_get a h = Some w \<and> Arena_get a' = (Arena_get a)(h := None)
          | None \<Rightarrow> Arena_get a h = None)
       \<and> arena_len a = length (fst (Arena_drain a))"
proof (intro conjI)
  have inv: "arena_inv a" by (rule at.inv_steps [OF reach arena_inv_new])
  show "case Arena_insert a v of
           Inr (h, a') \<Rightarrow> Arena_get a h = None \<and> Arena_get a' = (Arena_get a)(h \<mapsto> v)
         | Inl e \<Rightarrow> e = CapacityExhausted \<and> free_slots a = [] \<and> length (slots a) = 2 ^ 32"
  proof (cases "Arena_insert a v")
    case (Inl e)
    with inv free_top(1) [OF inv] arena_invD(1) [OF inv] show ?thesis
      by (auto simp: Arena_insert_def Let_def split: if_splits)
  next
    case (Inr p)
    with ar.insert_fresh [OF inv] ar.insert_get [OF inv] show ?thesis by (cases p) auto
  qed
  show "case Arena_remove a h of
           Some (w, a') \<Rightarrow> Arena_get a h = Some w \<and> Arena_get a' = (Arena_get a)(h := None)
         | None \<Rightarrow> Arena_get a h = None"
    using ar.remove_None_iff [of a h] ar.remove_get [OF inv, of h] ar.remove_was [of a h]
    by (cases "Arena_remove a h") auto
  show "arena_len a = length (fst (Arena_drain a))"
    using inv by (auto simp: arena_inv_def Arena_drain_def map_filter_def)
qed

definition sample_arena :: "nat Arena" where
  "sample_arena = snd (the (Arena_remove (snd (projr (Arena_insert Arena_new 7))) (Handle_new 0 1)))"

lemma sample_arena_eval:
  "sample_arena = \<lparr>slots = [\<lparr>slot_generation = 2, slot_value = None, slot_retired = False\<rparr>],
     free_slots = [0], arena_len = 0\<rparr>"
  by (simp add: sample_arena_def Arena_insert_def Arena_remove_def Arena_new_def Let_def checked_add_def)

lemma sample_arena_reachable: "arena_step\<^sup>*\<^sup>* Arena_new sample_arena"
proof -
  have ins: "Arena_insert Arena_new (7::nat) = Inr (Handle_new 0 1,
      \<lparr>slots = [\<lparr>slot_generation = 1, slot_value = Some 7, slot_retired = False\<rparr>],
       free_slots = [], arena_len = 1\<rparr>)" (is "_ = Inr (_, ?a)")
    by (simp add: Arena_insert_def Arena_new_def)
  moreover have "Arena_remove ?a (Handle_new 0 1) = Some (7, sample_arena)"
    by (simp add: sample_arena_eval Arena_remove_def Let_def checked_add_def)
  ultimately show ?thesis
    by (meson arena_step.intros r_into_rtranclp rtranclp_trans)
qed

theorem arena_refines_map_witness:
  "Arena_get sample_arena (Handle_new 0 2) = None
   \<and> (\<exists>a'. Arena_insert sample_arena 9 = Inr (Handle_new 0 2, a')
        \<and> Arena_get a' = (Arena_get sample_arena)(Handle_new 0 2 \<mapsto> 9))"
  using arena_refines_map [OF sample_arena_reachable, of 9]
  by (auto simp: Arena_insert_def sample_arena_eval Let_def)



end
