(* ===== verification/Ownership.thy ===== *)
theory Ownership
  imports Arena
begin

text \<open>
  Owner-gated values and region routing: \<open>native/runtime/src/ownership/mod.rs\<close> and
  \<open>native/runtime/src/region.rs\<close>. Both hand authority over a key to one runtime at a time and
  number the ownership lifetimes with an epoch; \<open>epoch_gate\<close> is the contract they share.
\<close>

section \<open>Owner-gated arena: definitions\<close>

datatype OwnershipEpoch = OwnershipEpoch (epoch_get: u64)

definition epoch_ZERO :: OwnershipEpoch where
  "epoch_ZERO = OwnershipEpoch 0"

definition epoch_next :: "OwnershipEpoch \<Rightarrow> OwnershipEpoch option" where
  "epoch_next e = map_option OwnershipEpoch (checked_add (epoch_get e) 1)"

datatype OwnedHandle = OwnedHandle (inner: Handle)

record OwnershipMetadata =
  metadata_owner :: RuntimeId
  metadata_epoch :: OwnershipEpoch

datatype OwnershipError =
    StaleHandle
  | WrongOwner (wo_requester: RuntimeId) (wo_current: RuntimeId)
  | StaleEpoch (se_expected: OwnershipEpoch) (se_current: OwnershipEpoch)
  | EpochExhausted

record 'a OwnedValue =
  owned_owner :: RuntimeId
  owned_epoch :: OwnershipEpoch
  owned_value :: 'a

record 'a OwnedArena =
  owned_arena :: "'a OwnedValue Arena"

definition OwnedArena_new :: "'a OwnedArena" where
  "OwnedArena_new = \<lparr>owned_arena = Arena_new\<rparr>"

definition OwnedArena_len :: "'a OwnedArena \<Rightarrow> nat" where
  "OwnedArena_len a = arena_len (owned_arena a)"

definition OwnedArena_is_empty :: "'a OwnedArena \<Rightarrow> bool" where
  "OwnedArena_is_empty a \<longleftrightarrow> Arena_is_empty (owned_arena a)"

definition OwnedArena_insert ::
  "'a OwnedArena \<Rightarrow> RuntimeId \<Rightarrow> 'a \<Rightarrow> InsertError + (OwnedHandle \<times> OwnershipEpoch) \<times> 'a OwnedArena" where
  "OwnedArena_insert a owner v =
     rbind (Arena_insert (owned_arena a)
              \<lparr>owned_owner = owner, owned_epoch = epoch_ZERO, owned_value = v\<rparr>)
       (\<lambda>(h, ar). Inr ((OwnedHandle h, epoch_ZERO), a\<lparr>owned_arena := ar\<rparr>))"

definition OwnedArena_state :: "'a OwnedArena \<Rightarrow> OwnedHandle \<Rightarrow> OwnershipError + 'a OwnedValue" where
  "OwnedArena_state a h = ok_or (Arena_get (owned_arena a) (inner h)) StaleHandle"

definition OwnedArena_state_mut ::
  "'a OwnedArena \<Rightarrow> OwnedHandle \<Rightarrow> OwnershipError + 'a OwnedValue \<times> ('a OwnedValue \<Rightarrow> 'a OwnedArena)" where
  "OwnedArena_state_mut a h =
     map_ok (\<lambda>(st, k). (st, \<lambda>st'. a\<lparr>owned_arena := k st'\<rparr>))
       (ok_or (Arena_get_mut (owned_arena a) (inner h)) StaleHandle)"

definition assert_owner_and_epoch ::
  "'a OwnedValue \<Rightarrow> RuntimeId \<Rightarrow> OwnershipEpoch \<Rightarrow> OwnershipError + unit" where
  "assert_owner_and_epoch st requester expected =
     (if owned_owner st \<noteq> requester then Inl (WrongOwner requester (owned_owner st))
      else if owned_epoch st \<noteq> expected then Inl (StaleEpoch expected (owned_epoch st))
      else Inr ())"

definition OwnedArena_metadata :: "'a OwnedArena \<Rightarrow> OwnedHandle \<Rightarrow> OwnershipError + OwnershipMetadata" where
  "OwnedArena_metadata a h =
     rbind (OwnedArena_state a h)
       (\<lambda>st. Inr \<lparr>metadata_owner = owned_owner st, metadata_epoch = owned_epoch st\<rparr>)"

definition OwnedArena_get ::
  "'a OwnedArena \<Rightarrow> OwnedHandle \<Rightarrow> RuntimeId \<Rightarrow> OwnershipEpoch \<Rightarrow> OwnershipError + 'a" where
  "OwnedArena_get a h requester expected =
     rbind (OwnedArena_state a h) (\<lambda>st.
     rbind (assert_owner_and_epoch st requester expected) (\<lambda>_.
     Inr (owned_value st)))"

definition OwnedArena_get_mut ::
  "'a OwnedArena \<Rightarrow> OwnedHandle \<Rightarrow> RuntimeId \<Rightarrow> OwnershipEpoch
     \<Rightarrow> OwnershipError + 'a \<times> ('a \<Rightarrow> 'a OwnedArena)" where
  "OwnedArena_get_mut a h requester expected =
     rbind (OwnedArena_state_mut a h) (\<lambda>(st, k).
     rbind (assert_owner_and_epoch st requester expected) (\<lambda>_.
     Inr (owned_value st, \<lambda>v'. k (st\<lparr>owned_value := v'\<rparr>))))"

definition OwnedArena_transfer ::
  "'a OwnedArena \<Rightarrow> OwnedHandle \<Rightarrow> RuntimeId \<Rightarrow> OwnershipEpoch \<Rightarrow> RuntimeId
     \<Rightarrow> OwnershipError + OwnershipEpoch \<times> 'a OwnedArena" where
  "OwnedArena_transfer a h requester expected new_owner =
     rbind (OwnedArena_state_mut a h) (\<lambda>(st, k).
     rbind (assert_owner_and_epoch st requester expected) (\<lambda>_.
     rbind (ok_or (epoch_next (owned_epoch st)) EpochExhausted) (\<lambda>next.
     Inr (next, k (st\<lparr>owned_owner := new_owner, owned_epoch := next\<rparr>)))))"

definition OwnedArena_remove ::
  "'a OwnedArena \<Rightarrow> OwnedHandle \<Rightarrow> RuntimeId \<Rightarrow> OwnershipEpoch \<Rightarrow> OwnershipError + 'a \<times> 'a OwnedArena" where
  "OwnedArena_remove a h requester expected =
     rbind (OwnedArena_state a h) (\<lambda>st.
     rbind (assert_owner_and_epoch st requester expected) (\<lambda>_.
     rbind (ok_or (Arena_remove (owned_arena a) (inner h)) StaleHandle) (\<lambda>(st', ar).
     Inr (owned_value st', a\<lparr>owned_arena := ar\<rparr>))))"

text \<open>The histories of an owner-gated arena, over all requesters.\<close>

inductive owned_step :: "'a OwnedArena \<Rightarrow> 'a OwnedArena \<Rightarrow> bool" where
  owned_insert: "OwnedArena_insert a r v = Inr (p, a') \<Longrightarrow> owned_step a a'"
| owned_assign: "OwnedArena_get_mut a h r e = Inr (v, k) \<Longrightarrow> owned_step a (k v')"
| owned_transfer: "OwnedArena_transfer a h r e n = Inr (e', a') \<Longrightarrow> owned_step a a'"
| owned_remove: "OwnedArena_remove a h r e = Inr (v, a') \<Longrightarrow> owned_step a a'"

inductive_cases owned_stepE: "owned_step a b"

definition owned_inv :: "'a OwnedArena \<Rightarrow> bool" where
  "owned_inv a \<longleftrightarrow> arena_inv (owned_arena a)"

text \<open>The ownership record of a handle: the current owner and epoch, when it is live.\<close>

definition owned_by :: "'a OwnedArena \<Rightarrow> OwnedHandle \<Rightarrow> (RuntimeId \<times> OwnershipEpoch) option" where
  "owned_by a h = map_option (\<lambda>st. (owned_owner st, owned_epoch st)) (Arena_get (owned_arena a) (inner h))"

text \<open>
  An ownership lifetime (a handle and an epoch) is over when the handle is spent or the
  stored epoch has moved past it.
\<close>

definition lifetime_spent :: "'a OwnedArena \<Rightarrow> OwnedHandle \<times> OwnershipEpoch \<Rightarrow> bool" where
  "lifetime_spent a = (\<lambda>(h, e). handle_spent (owned_arena a) (inner h)
     \<or> (\<exists>r e'. owned_by a h = Some (r, e') \<and> epoch_get e < epoch_get e'))"

definition lifetime_live :: "'a OwnedArena \<Rightarrow> OwnedHandle \<times> OwnershipEpoch \<Rightarrow> bool" where
  "lifetime_live a = (\<lambda>(h, e). \<exists>r v. OwnedArena_get a h r e = Inr v)"

section \<open>Region directory: definitions\<close>

datatype RegionId = RegionId (region_x: i32) (region_z: i32)

record RegionRoute =
  route_owner :: RuntimeId
  route_epoch :: OwnershipEpoch

datatype RegionRouteError =
    AlreadyAssigned
  | Unassigned
  | RouteWrongOwner RuntimeId RuntimeId
  | RouteStaleEpoch OwnershipEpoch OwnershipEpoch
  | RouteEpochExhausted

record RegionRouteState =
  state_owner :: "RuntimeId option"
  state_epoch :: OwnershipEpoch

record RegionDirectory =
  routes :: "(RegionId \<times> RegionRouteState) list"

definition RegionDirectory_new :: RegionDirectory where
  "RegionDirectory_new = \<lparr>routes = []\<rparr>"

definition RegionDirectory_len :: "RegionDirectory \<Rightarrow> nat" where
  "RegionDirectory_len d = length (filter (\<lambda>(_, st). state_owner st \<noteq> None) (routes d))"

definition RegionDirectory_is_empty :: "RegionDirectory \<Rightarrow> bool" where
  "RegionDirectory_is_empty d \<longleftrightarrow> RegionDirectory_len d = 0"

definition next_epoch :: "OwnershipEpoch \<Rightarrow> RegionRouteError + OwnershipEpoch" where
  "next_epoch e = ok_or (map_option OwnershipEpoch (checked_add (epoch_get e) 1)) RouteEpochExhausted"

definition RegionDirectory_assign ::
  "RegionDirectory \<Rightarrow> RegionId \<Rightarrow> RuntimeId \<Rightarrow> RegionRouteError + OwnershipEpoch \<times> RegionDirectory" where
  "RegionDirectory_assign d region owner =
     (case hm_get (routes d) region of
        Some route \<Rightarrow>
          if state_owner route \<noteq> None then Inl AlreadyAssigned
          else Inr (state_epoch route,
                    d\<lparr>routes := hm_insert region (route\<lparr>state_owner := Some owner\<rparr>) (routes d)\<rparr>)
      | None \<Rightarrow>
          Inr (epoch_ZERO,
               d\<lparr>routes := hm_insert region \<lparr>state_owner = Some owner, state_epoch = epoch_ZERO\<rparr> (routes d)\<rparr>))"

definition RegionDirectory_route :: "RegionDirectory \<Rightarrow> RegionId \<Rightarrow> RegionRoute option" where
  "RegionDirectory_route d region =
     (case hm_get (routes d) region of
        None \<Rightarrow> None
      | Some st \<Rightarrow> (case state_owner st of
            None \<Rightarrow> None
          | Some owner \<Rightarrow> Some \<lparr>route_owner = owner, route_epoch = state_epoch st\<rparr>))"

definition RegionDirectory_transfer ::
  "RegionDirectory \<Rightarrow> RegionId \<Rightarrow> RuntimeId \<Rightarrow> OwnershipEpoch \<Rightarrow> RuntimeId
     \<Rightarrow> RegionRouteError + OwnershipEpoch \<times> RegionDirectory" where
  "RegionDirectory_transfer d region requester expected new_owner =
     rbind (ok_or (hm_get (routes d) region) Unassigned) (\<lambda>route.
     rbind (ok_or (state_owner route) Unassigned) (\<lambda>current.
     if current \<noteq> requester then Inl (RouteWrongOwner requester current)
     else if state_epoch route \<noteq> expected then Inl (RouteStaleEpoch expected (state_epoch route))
     else rbind (next_epoch (state_epoch route)) (\<lambda>next.
       Inr (next, d\<lparr>routes := hm_insert region
              (route\<lparr>state_owner := Some new_owner, state_epoch := next\<rparr>) (routes d)\<rparr>))))"

definition RegionDirectory_unassign ::
  "RegionDirectory \<Rightarrow> RegionId \<Rightarrow> RuntimeId \<Rightarrow> OwnershipEpoch
     \<Rightarrow> RegionRouteError + OwnershipEpoch \<times> RegionDirectory" where
  "RegionDirectory_unassign d region requester expected =
     rbind (ok_or (hm_get (routes d) region) Unassigned) (\<lambda>route.
     rbind (ok_or (state_owner route) Unassigned) (\<lambda>current.
     if current \<noteq> requester then Inl (RouteWrongOwner requester current)
     else if state_epoch route \<noteq> expected then Inl (RouteStaleEpoch expected (state_epoch route))
     else rbind (next_epoch (state_epoch route)) (\<lambda>next.
       Inr (next, d\<lparr>routes := hm_insert region
              (route\<lparr>state_owner := None, state_epoch := next\<rparr>) (routes d)\<rparr>))))"

inductive directory_step :: "RegionDirectory \<Rightarrow> RegionDirectory \<Rightarrow> bool" where
  dir_assign: "RegionDirectory_assign d g r = Inr (e, d') \<Longrightarrow> directory_step d d'"
| dir_transfer: "RegionDirectory_transfer d g r e n = Inr (e', d') \<Longrightarrow> directory_step d d'"
| dir_unassign: "RegionDirectory_unassign d g r e = Inr (e', d') \<Longrightarrow> directory_step d d'"

inductive_cases directory_stepE: "directory_step d d'"

definition directory_inv :: "RegionDirectory \<Rightarrow> bool" where
  "directory_inv d \<longleftrightarrow> hm_wf (routes d)"

definition routed_to :: "RegionDirectory \<Rightarrow> RegionId \<Rightarrow> (RuntimeId \<times> OwnershipEpoch) option" where
  "routed_to d g = map_option (\<lambda>r. (route_owner r, route_epoch r)) (RegionDirectory_route d g)"

definition route_spent :: "RegionDirectory \<Rightarrow> RegionId \<times> OwnershipEpoch \<Rightarrow> bool" where
  "route_spent d = (\<lambda>(g, e). \<exists>st. hm_get (routes d) g = Some st \<and> epoch_get e < epoch_get (state_epoch st))"

definition route_live :: "RegionDirectory \<Rightarrow> RegionId \<times> OwnershipEpoch \<Rightarrow> bool" where
  "route_live d = (\<lambda>(g, e). \<exists>r. routed_to d g = Some (r, e))"

section \<open>The shared contract of epoch-gated transfer\<close>

text \<open>
  \<open>holder s k\<close> is the runtime that holds \<open>k\<close> and its epoch. A transfer succeeds exactly for the
  holder at the current epoch when the epoch can advance, and then changes only that record.
\<close>

locale epoch_gate =
  fixes holder :: "'s \<Rightarrow> 'k \<Rightarrow> (RuntimeId \<times> OwnershipEpoch) option"
    and transfer :: "'s \<Rightarrow> 'k \<Rightarrow> RuntimeId \<Rightarrow> OwnershipEpoch \<Rightarrow> RuntimeId \<Rightarrow> 'e + OwnershipEpoch \<times> 's"
    and inv :: "'s \<Rightarrow> bool"
  assumes transfer_inv: "inv s \<Longrightarrow> transfer s k r e n = Inr (e', s') \<Longrightarrow> inv s'"
    and transfer_ok_iff: "inv s \<Longrightarrow> (\<exists>p. transfer s k r e n = Inr p) \<longleftrightarrow> holder s k = Some (r, e) \<and> epoch_get e \<noteq> - 1"
    and transfer_holder: "inv s \<Longrightarrow> transfer s k r e n = Inr (e', s')
          \<Longrightarrow> e' = OwnershipEpoch (epoch_get e + 1) \<and> holder s' = (holder s)(k \<mapsto> (n, e'))"
begin

lemma transfer_advances:
  assumes "inv s" and "transfer s k r e n = Inr (e', s')"
  shows "epoch_get e < epoch_get e'"
proof -
  from assms transfer_ok_iff [OF assms(1), of k r e n] have "epoch_get e \<noteq> - 1" by blast
  then have "epoch_get e < epoch_get e + 1"
    using checked_add_1_None [of "epoch_get e"] checked_add_1_less [of "epoch_get e"]
    by (auto simp: checked_add_Some_iff checked_add_None_iff)
  with transfer_holder [OF assms] show ?thesis by simp
qed

lemma transfer_once:
  assumes "inv s" and "transfer s k r e n = Inr (e', s')"
  shows "\<not> (\<exists>p. transfer s' k r' e n' = Inr p)"
proof -
  have "holder s' k = Some (n, e')" using transfer_holder [OF assms] by simp
  moreover have "e \<noteq> e'" using transfer_advances [OF assms] by (metis less_irrefl)
  ultimately show ?thesis using transfer_ok_iff [OF transfer_inv [OF assms], of k r' e n'] by auto
qed

lemma transfer_hands_over:
  assumes "inv s" and "transfer s k r e n = Inr (e', s')" and "epoch_get e' \<noteq> - 1"
  shows "\<exists>p. transfer s' k n e' n' = Inr p"
  using transfer_ok_iff [OF transfer_inv [OF assms(1,2)], of k n e' n'] transfer_holder [OF assms(1,2)] assms(3)
  by auto

end

section \<open>The owner-gated arena satisfies the contract\<close>

lemma epoch_next_Some_iff:
  "epoch_next e = Some e' \<longleftrightarrow> epoch_get e \<noteq> - 1 \<and> e' = OwnershipEpoch (epoch_get e + 1)"
  using checked_add_1_None [of "epoch_get e"]
  by (auto simp: epoch_next_def checked_add_Some_iff checked_add_None_iff)

lemma next_epoch_Inr_iff:
  "next_epoch e = Inr e' \<longleftrightarrow> epoch_get e \<noteq> - 1 \<and> e' = OwnershipEpoch (epoch_get e + 1)"
  using epoch_next_Some_iff [of e e'] by (simp add: next_epoch_def epoch_next_def result_simps)

lemma epoch_succ_less: "epoch_get e \<noteq> - 1 \<Longrightarrow> epoch_get e < epoch_get e + 1"
  using checked_add_1_None [of "epoch_get e"] checked_add_1_less [of "epoch_get e"]
  by (auto simp: checked_add_Some_iff checked_add_None_iff)

lemma assert_owner_and_epoch_Inr_iff:
  "assert_owner_and_epoch st r e = Inr u \<longleftrightarrow> owned_owner st = r \<and> owned_epoch st = e"
  by (auto simp: assert_owner_and_epoch_def)

lemmas owned_op_defs = OwnedArena_insert_def OwnedArena_state_def OwnedArena_state_mut_def
  OwnedArena_get_def OwnedArena_get_mut_def OwnedArena_transfer_def OwnedArena_remove_def
  OwnedArena_metadata_def

lemmas owned_op_iffs = result_simps assert_owner_and_epoch_Inr_iff epoch_next_Some_iff

lemma OwnedArena_get_Inr_iff:
  "OwnedArena_get a h r e = Inr v \<longleftrightarrow>
   Arena_get (owned_arena a) (inner h) = Some \<lparr>owned_owner = r, owned_epoch = e, owned_value = v\<rparr>"
  by (auto simp: owned_op_defs owned_op_iffs)

lemma owned_transferE:
  assumes "OwnedArena_transfer a h r e n = Inr (e', a')"
  obtains v k where
    "Arena_get_mut (owned_arena a) (inner h) = Some (\<lparr>owned_owner = r, owned_epoch = e, owned_value = v\<rparr>, k)"
    and "epoch_get e \<noteq> - 1" and "e' = OwnershipEpoch (epoch_get e + 1)"
    and "a' = a\<lparr>owned_arena := k \<lparr>owned_owner = n, owned_epoch = e', owned_value = v\<rparr>\<rparr>"
proof -
  from assms obtain st k where st: "Arena_get_mut (owned_arena a) (inner h) = Some (st, k)"
      "owned_owner st = r" "owned_epoch st = e" "epoch_get e \<noteq> - 1"
      "e' = OwnershipEpoch (epoch_get e + 1)"
      "a' = a\<lparr>owned_arena := k (st\<lparr>owned_owner := n, owned_epoch := e'\<rparr>)\<rparr>"
    by (auto simp: OwnedArena_transfer_def OwnedArena_state_mut_def owned_op_iffs split: prod.splits)
  then show thesis by (cases st) (auto intro: that)
qed

lemma owned_assignE:
  assumes "OwnedArena_get_mut a h r e = Inr (v, f)"
  obtains k where
    "Arena_get_mut (owned_arena a) (inner h) = Some (\<lparr>owned_owner = r, owned_epoch = e, owned_value = v\<rparr>, k)"
    and "\<And>v'. f v' = a\<lparr>owned_arena := k \<lparr>owned_owner = r, owned_epoch = e, owned_value = v'\<rparr>\<rparr>"
proof -
  from assms obtain st k where st: "Arena_get_mut (owned_arena a) (inner h) = Some (st, k)"
      "owned_owner st = r" "owned_epoch st = e" "owned_value st = v"
      "f = (\<lambda>v'. a\<lparr>owned_arena := k (st\<lparr>owned_value := v'\<rparr>)\<rparr>)"
    by (auto simp: OwnedArena_get_mut_def OwnedArena_state_mut_def owned_op_iffs split: prod.splits)
  then show thesis by (cases st) (auto intro: that)
qed

lemma owned_removeE:
  assumes "OwnedArena_remove a h r e = Inr (v, a')"
  obtains ar where
    "Arena_remove (owned_arena a) (inner h) = Some (\<lparr>owned_owner = r, owned_epoch = e, owned_value = v\<rparr>, ar)"
    and "a' = a\<lparr>owned_arena := ar\<rparr>"
proof -
  from assms obtain st st' ar where st: "Arena_get (owned_arena a) (inner h) = Some st"
      and own: "owned_owner st = r" "owned_epoch st = e"
      and rem: "Arena_remove (owned_arena a) (inner h) = Some (st', ar)"
      and v: "v = owned_value st'" and a': "a' = a\<lparr>owned_arena := ar\<rparr>"
    by (auto simp: OwnedArena_remove_def OwnedArena_state_def owned_op_iffs split: prod.splits)
  from ar.remove_was [OF rem] st have "st' = st" by simp
  with rem own v a' that show ?thesis by (cases st) auto
qed

lemma owned_insertE:
  assumes "OwnedArena_insert a r v = Inr (p, a')"
  obtains h ar where
    "Arena_insert (owned_arena a) \<lparr>owned_owner = r, owned_epoch = epoch_ZERO, owned_value = v\<rparr> = Inr (h, ar)"
    and "p = (OwnedHandle h, epoch_ZERO)" and "a' = a\<lparr>owned_arena := ar\<rparr>"
  using assms that by (auto simp: OwnedArena_insert_def result_simps split: prod.splits)

lemma owned_by_Some_iff:
  "owned_by a h = Some (r, e) \<longleftrightarrow> (\<exists>v. OwnedArena_get a h r e = Inr v)"
proof -
  have "(\<exists>st. x = Some st \<and> owned_owner st = r \<and> owned_epoch st = e)
    = (\<exists>v. x = Some \<lparr>owned_owner = r, owned_epoch = e, owned_value = v\<rparr>)" for x :: "'a OwnedValue option"
    by (metis OwnedValue.select_convs(1,2) OwnedValue.surjective old.unit.exhaust)
  then show ?thesis by (auto simp: owned_by_def OwnedArena_get_Inr_iff)
qed

lemma owned_inv_step: "owned_inv a \<Longrightarrow> owned_step a b \<Longrightarrow> owned_inv b"
  unfolding owned_inv_def
  by (erule owned_stepE)
    (auto elim!: owned_insertE owned_assignE owned_transferE owned_removeE
      intro: ar.insert_inv ar.mut_inv ar.remove_inv)

lemma owned_inv_new: "owned_inv OwnedArena_new"
  by (simp add: owned_inv_def OwnedArena_new_def arena_inv_new)

lemma owned_transfer_ok_iff:
  "(\<exists>p. OwnedArena_transfer a h r e n = Inr p) \<longleftrightarrow> owned_by a h = Some (r, e) \<and> epoch_get e \<noteq> - 1"
proof
  assume "\<exists>p. OwnedArena_transfer a h r e n = Inr p"
  then show "owned_by a h = Some (r, e) \<and> epoch_get e \<noteq> - 1"
    by (auto elim!: owned_transferE simp: owned_by_def get_mut_iff)
next
  assume "owned_by a h = Some (r, e) \<and> epoch_get e \<noteq> - 1"
  then obtain st where st: "Arena_get (owned_arena a) (inner h) = Some st" "owned_owner st = r"
      "owned_epoch st = e" "epoch_get e \<noteq> - 1"
    by (auto simp: owned_by_def)
  moreover from ar.mut_some [OF st(1)] obtain k where "Arena_get_mut (owned_arena a) (inner h) = Some (st, k)" ..
  ultimately show "\<exists>p. OwnedArena_transfer a h r e n = Inr p"
    by (auto simp: OwnedArena_transfer_def OwnedArena_state_mut_def assert_owner_and_epoch_def
        epoch_next_Some_iff [THEN iffD2])
qed

interpretation oa: epoch_gate owned_by OwnedArena_transfer owned_inv
proof
  fix s s' :: "'a OwnedArena" and k r e n e'
  show "owned_inv s \<Longrightarrow> OwnedArena_transfer s k r e n = Inr (e', s') \<Longrightarrow> owned_inv s'"
    by (rule owned_inv_step) (auto intro: owned_step.intros)
  show "(\<exists>p. OwnedArena_transfer s k r e n = Inr p) = (owned_by s k = Some (r, e) \<and> epoch_get e \<noteq> - 1)"
    by (rule owned_transfer_ok_iff)
  assume "OwnedArena_transfer s k r e n = Inr (e', s')"
  then show "e' = OwnershipEpoch (epoch_get e + 1) \<and> owned_by s' = (owned_by s)(k \<mapsto> (n, e'))"
  proof (cases rule: owned_transferE)
    case (1 v g)
    then have "Arena_get (owned_arena s') h
        = ((Arena_get (owned_arena s))(inner k \<mapsto> \<lparr>owned_owner = n, owned_epoch = e', owned_value = v\<rparr>)) h" for h
      using ar.mut_assign [OF 1(1)] by simp
    with 1(3) show ?thesis
      by (auto simp: owned_by_def fun_eq_iff OwnedHandle.expand)
  qed
qed

subsection \<open>Ownership lifetimes\<close>

lemma contains_iff: "Arena_contains a h \<longleftrightarrow> Arena_get a h \<noteq> None"
  by (simp add: Arena_contains_def)

lemma owned_by_insert:
  assumes "owned_inv a" and "OwnedArena_insert a r v = Inr (p, a')" and "owned_by a h = Some q"
  shows "owned_by a' h = Some q"
  using assms(2)
proof (cases rule: owned_insertE)
  case (1 h' ar)
  from assms(3) obtain st where st: "Arena_get (owned_arena a) (inner h) = Some st" by (auto simp: owned_by_def)
  from ar.live_key_is_stable [OF assms(1) [unfolded owned_inv_def] 1(1) st] st assms(3) 1(3)
  show ?thesis by (simp add: owned_by_def)
qed

lemma owned_by_assign:
  assumes "OwnedArena_get_mut a h' r e = Inr (v, f)"
  shows "owned_by (f v') = owned_by a"
  using assms
proof (cases rule: owned_assignE)
  case (1 k)
  with ar.mut_assign [OF 1(1)] ar.mut_get [OF 1(1)] show ?thesis
    by (auto simp: owned_by_def fun_eq_iff)
qed

lemma owned_by_remove:
  assumes "owned_inv a" and "OwnedArena_remove a h' r e = Inr (v, a')"
  shows "owned_by a' = (owned_by a)(h' := None)"
  using assms(2)
proof (cases rule: owned_removeE)
  case (1 ar)
  with ar.remove_get [OF assms(1) [unfolded owned_inv_def] 1(1)] show ?thesis
    by (auto simp: owned_by_def fun_eq_iff OwnedHandle.expand)
qed

lemma inner_spent_step:
  assumes "owned_inv a" and "owned_step a b" and "handle_spent (owned_arena a) h"
  shows "handle_spent (owned_arena b) h"
  using assms(2,1,3) unfolding owned_inv_def
  by (cases rule: owned_step.cases)
    (auto elim!: owned_insertE owned_assignE owned_transferE owned_removeE
      intro: handle_spent_insert handle_spent_assign handle_spent_remove)

lemma owned_epoch_mono:
  assumes inv: "owned_inv a" and step: "owned_step a b" and own: "owned_by a h = Some (r, e)"
  shows "handle_spent (owned_arena b) (inner h)
       \<or> (\<exists>r' e'. owned_by b h = Some (r', e') \<and> epoch_get e \<le> epoch_get e')"
  using step
proof (cases rule: owned_step.cases)
  case (owned_insert r v p)
  with owned_by_insert [OF inv _ own] show ?thesis by blast
next
  case (owned_assign h r e v k v')
  with owned_by_assign [OF owned_assign(2)] own show ?thesis by auto
next
  case (owned_transfer h' r' e0 n e')
  have "epoch_get e0 < epoch_get e'" by (rule oa.transfer_advances [OF inv owned_transfer])
  moreover have "owned_by a h' = Some (r', e0)" using oa.transfer_ok_iff [OF inv] owned_transfer by blast
  ultimately show ?thesis using oa.transfer_holder [OF inv owned_transfer] own by auto
next
  case (owned_remove h' r e v)
  show ?thesis
  proof (cases "h = h'")
    case True
    with owned_remove show ?thesis by (auto elim!: owned_removeE dest: remove_spends)
  next
    case False
    with owned_by_remove [OF inv owned_remove] own show ?thesis by auto
  qed
qed

lemma lifetime_spent_not_live: "owned_inv a \<Longrightarrow> lifetime_spent a t \<Longrightarrow> \<not> lifetime_live a t"
  using handle_spent_not_live [of "owned_arena a" "inner (fst t)"]
  by (auto simp: lifetime_spent_def lifetime_live_def owned_inv_def owned_by_def
      OwnedArena_get_Inr_iff contains_iff)

interpretation ot: token_machine owned_step owned_inv lifetime_live lifetime_spent
proof
  fix a b :: "'a OwnedArena" and t
  show "owned_inv a \<Longrightarrow> owned_step a b \<Longrightarrow> owned_inv b" by (rule owned_inv_step)
  show "owned_inv a \<Longrightarrow> lifetime_spent a t \<Longrightarrow> \<not> lifetime_live a t" by (rule lifetime_spent_not_live)
  assume inv: "owned_inv a" and step: "owned_step a b" and spent: "lifetime_spent a t"
  obtain h e where t: "t = (h, e)" by (cases t)
  from spent t consider "handle_spent (owned_arena a) (inner h)"
    | r e' where "owned_by a h = Some (r, e')" "epoch_get e < epoch_get e'"
    by (auto simp: lifetime_spent_def)
  then show "lifetime_spent b t"
  proof cases
    case 1
    then show ?thesis using inner_spent_step [OF inv step] by (simp add: lifetime_spent_def t)
  next
    case 2
    with owned_epoch_mono [OF inv step 2(1)] show ?thesis
      by (auto simp: lifetime_spent_def t)
  qed
qed

lemma transfer_spends_lifetime:
  assumes "owned_inv a" and "OwnedArena_transfer a h r e n = Inr (e', a')"
  shows "lifetime_spent a' (h, e)"
  using oa.transfer_holder [OF assms] oa.transfer_advances [OF assms]
  by (auto simp: lifetime_spent_def)

lemma remove_spends_lifetime:
  assumes "OwnedArena_remove a h r e = Inr (v, a')"
  shows "lifetime_spent a' (h, e)"
  using assms by (auto elim!: owned_removeE dest: remove_spends simp: lifetime_spent_def)

lemma dead_lifetime_rejected:
  assumes "\<not> lifetime_live b (h, e)"
  shows "isl (OwnedArena_get b h r e) \<and> isl (OwnedArena_get_mut b h r e)
       \<and> isl (OwnedArena_transfer b h r e n) \<and> isl (OwnedArena_remove b h r e)"
proof -
  have no: "OwnedArena_get b h r e \<noteq> Inr v" for v
    using assms by (auto simp: lifetime_live_def)
  have "OwnedArena_get_mut b h r e \<noteq> Inr p" for p
    using no by (cases p) (auto elim!: owned_assignE simp: OwnedArena_get_Inr_iff get_mut_iff)
  moreover have "OwnedArena_transfer b h r e n \<noteq> Inr p" for p
    using no by (cases p) (auto elim!: owned_transferE simp: OwnedArena_get_Inr_iff get_mut_iff)
  moreover have "OwnedArena_remove b h r e \<noteq> Inr p" for p
    using no by (cases p) (auto elim!: owned_removeE simp: OwnedArena_get_Inr_iff dest: ar.remove_was)
  ultimately show ?thesis using no by (simp add: isl_iff)
qed

section \<open>The region directory satisfies the contract\<close>

lemmas directory_op_defs = RegionDirectory_assign_def RegionDirectory_transfer_def
  RegionDirectory_unassign_def

lemma routed_to_Some_iff:
  "routed_to d g = Some (r, e) \<longleftrightarrow>
   hm_get (routes d) g = Some \<lparr>state_owner = Some r, state_epoch = e\<rparr>"
proof -
  have "st = \<lparr>state_owner = Some r, state_epoch = e\<rparr> \<longleftrightarrow> state_owner st = Some r \<and> state_epoch st = e"
    for st :: RegionRouteState
    by (cases st) auto
  then show ?thesis
    by (auto simp: routed_to_def RegionDirectory_route_def split: option.splits)
qed

lemma route_transferE:
  assumes "RegionDirectory_transfer d g r e n = Inr (e', d')"
  obtains "hm_get (routes d) g = Some \<lparr>state_owner = Some r, state_epoch = e\<rparr>"
    and "epoch_get e \<noteq> - 1" and "e' = OwnershipEpoch (epoch_get e + 1)"
    and "d' = d\<lparr>routes := hm_insert g \<lparr>state_owner = Some n, state_epoch = e'\<rparr> (routes d)\<rparr>"
proof -
  from assms obtain st where "hm_get (routes d) g = Some st" "state_owner st = Some r" "state_epoch st = e"
      "epoch_get e \<noteq> - 1" "e' = OwnershipEpoch (epoch_get e + 1)"
      "d' = d\<lparr>routes := hm_insert g (st\<lparr>state_owner := Some n, state_epoch := e'\<rparr>) (routes d)\<rparr>"
    by (auto simp: RegionDirectory_transfer_def result_simps next_epoch_Inr_iff split: if_splits)
  then show thesis by (cases st) (auto intro: that)
qed

lemma route_unassignE:
  assumes "RegionDirectory_unassign d g r e = Inr (e', d')"
  obtains "hm_get (routes d) g = Some \<lparr>state_owner = Some r, state_epoch = e\<rparr>"
    and "epoch_get e \<noteq> - 1" and "e' = OwnershipEpoch (epoch_get e + 1)"
    and "d' = d\<lparr>routes := hm_insert g \<lparr>state_owner = None, state_epoch = e'\<rparr> (routes d)\<rparr>"
proof -
  from assms obtain st where "hm_get (routes d) g = Some st" "state_owner st = Some r" "state_epoch st = e"
      "epoch_get e \<noteq> - 1" "e' = OwnershipEpoch (epoch_get e + 1)"
      "d' = d\<lparr>routes := hm_insert g (st\<lparr>state_owner := None, state_epoch := e'\<rparr>) (routes d)\<rparr>"
    by (auto simp: RegionDirectory_unassign_def result_simps next_epoch_Inr_iff split: if_splits)
  then show thesis by (cases st) (auto intro: that)
qed

lemma route_assignE:
  assumes "RegionDirectory_assign d g r = Inr (e, d')"
  obtains "\<And>st. hm_get (routes d) g = Some st \<Longrightarrow> state_owner st = None \<and> state_epoch st = e"
    and "hm_get (routes d) g = None \<Longrightarrow> e = epoch_ZERO"
    and "d' = d\<lparr>routes := hm_insert g \<lparr>state_owner = Some r, state_epoch = e\<rparr> (routes d)\<rparr>"
proof (cases "hm_get (routes d) g")
  case None
  with assms show thesis by (intro that) (auto simp: RegionDirectory_assign_def)
next
  case (Some st)
  with assms show thesis
    by (cases st) (intro that, auto simp: RegionDirectory_assign_def split: if_splits)
qed

interpretation rd: epoch_gate routed_to RegionDirectory_transfer directory_inv
proof
  fix s s' :: RegionDirectory and k r e n e'
  show "directory_inv s \<Longrightarrow> RegionDirectory_transfer s k r e n = Inr (e', s') \<Longrightarrow> directory_inv s'"
    by (erule route_transferE) (simp add: directory_inv_def hm.wf_put)
  show "(\<exists>p. RegionDirectory_transfer s k r e n = Inr p) = (routed_to s k = Some (r, e) \<and> epoch_get e \<noteq> - 1)"
    by (auto elim!: route_transferE simp: routed_to_Some_iff)
      (auto simp: RegionDirectory_transfer_def next_epoch_Inr_iff [THEN iffD2])
  assume "RegionDirectory_transfer s k r e n = Inr (e', s')"
  then show "e' = OwnershipEpoch (epoch_get e + 1) \<and> routed_to s' = (routed_to s)(k \<mapsto> (n, e'))"
    by (rule route_transferE)
      (auto simp: routed_to_def RegionDirectory_route_def fun_eq_iff update_conv')
qed

lemma directory_step_update:
  assumes "directory_step d d'"
  obtains g st where "routes d' = hm_insert g st (routes d)"
    and "\<And>st0. hm_get (routes d) g = Some st0 \<Longrightarrow> epoch_get (state_epoch st0) \<le> epoch_get (state_epoch st)"
  using assms
proof (cases rule: directory_step.cases)
  case (dir_assign g r e)
  then show thesis by (rule route_assignE) (rule that [of g], auto)
next
  case (dir_transfer g r e n e')
  then show thesis by (rule route_transferE) (rule that [of g], auto dest: epoch_succ_less)
next
  case (dir_unassign g r e e')
  then show thesis by (rule route_unassignE) (rule that [of g], auto dest: epoch_succ_less)
qed

interpretation rt: token_machine directory_step directory_inv route_live route_spent
proof
  fix d d' :: RegionDirectory and t
  show "directory_inv d \<Longrightarrow> route_spent d t \<Longrightarrow> \<not> route_live d t"
    by (auto simp: route_spent_def route_live_def routed_to_Some_iff)
  assume inv: "directory_inv d" and "directory_step d d'"
  from this(2) obtain g st where upd: "routes d' = hm_insert g st (routes d)"
    and mono: "\<And>st0. hm_get (routes d) g = Some st0 \<Longrightarrow> epoch_get (state_epoch st0) \<le> epoch_get (state_epoch st)"
    by (rule directory_step_update) blast
  show "directory_inv d'" using inv by (simp add: directory_inv_def upd hm.wf_put)
  show "route_spent d t \<Longrightarrow> route_spent d' t"
    using mono by (fastforce simp: route_spent_def upd update_conv')
qed

lemma directory_inv_new: "directory_inv RegionDirectory_new"
  by (simp add: directory_inv_def RegionDirectory_new_def)

lemma end_route_spends:
  assumes "directory_inv d"
    and "RegionDirectory_transfer d g r e n = Inr (e', d') \<or> RegionDirectory_unassign d g r e = Inr (e', d')"
  shows "route_spent d' (g, e)"
  using assms(2)
  by (auto elim!: route_transferE route_unassignE simp: route_spent_def update_conv' epoch_succ_less)

section \<open>Properties\<close>

definition sample_owned :: "nat OwnedArena" where
  "sample_owned = snd (projr (OwnedArena_insert OwnedArena_new (RuntimeId 1) 7))"

definition sample_transferred :: "nat OwnedArena" where
  "sample_transferred = snd (projr (OwnedArena_transfer sample_owned (OwnedHandle (Handle_new 0 1))
     (RuntimeId 1) epoch_ZERO (RuntimeId 2)))"

lemma sample_owned_eval:
  "owned_arena sample_owned = \<lparr>slots = [\<lparr>slot_generation = 1, slot_value = Some \<lparr>owned_owner = RuntimeId 1,
     owned_epoch = epoch_ZERO, owned_value = 7\<rparr>, slot_retired = False\<rparr>], free_slots = [], arena_len = 1\<rparr>"
  by (simp add: sample_owned_def OwnedArena_insert_def OwnedArena_new_def Arena_insert_def Arena_new_def)

lemma sample_owned_reachable: "owned_step\<^sup>*\<^sup>* OwnedArena_new sample_owned"
proof -
  have "OwnedArena_insert OwnedArena_new (RuntimeId 1) (7::nat)
      = Inr ((OwnedHandle (Handle_new 0 1), epoch_ZERO), sample_owned)"
    by (simp add: sample_owned_def OwnedArena_insert_def OwnedArena_new_def Arena_insert_def Arena_new_def)
  then show ?thesis by (meson owned_step.intros(1) r_into_rtranclp)
qed

lemma sample_transfer:
  "OwnedArena_transfer sample_owned (OwnedHandle (Handle_new 0 1)) (RuntimeId 1) epoch_ZERO (RuntimeId 2)
   = Inr (OwnershipEpoch 1, sample_transferred)"
proof -
  have "\<exists>s. OwnedArena_transfer sample_owned (OwnedHandle (Handle_new 0 1)) (RuntimeId 1) epoch_ZERO (RuntimeId 2)
      = Inr (OwnershipEpoch 1, s)"
    by (simp add: OwnedArena_transfer_def OwnedArena_state_mut_def sample_owned_eval Arena_get_mut_def
        assert_owner_and_epoch_def epoch_next_def epoch_ZERO_def checked_add_def Let_def)
  then show ?thesis by (auto simp: sample_transferred_def)
qed

text \<open>
  C3: once a transfer or a removal has ended an ownership lifetime (a handle and an epoch),
  every operation of the owner-gated arena rejects that lifetime for every requester, whatever
  insertions, assignments, transfers and removals happen afterwards, reuse of the slot included.
\<close>

theorem ended_ownership_lifetime_rejected:
  assumes reach: "owned_step\<^sup>*\<^sup>* OwnedArena_new (a :: 'a OwnedArena)"
    and ended: "OwnedArena_transfer a h r e n = Inr (e', a') \<or> OwnedArena_remove a h r e = Inr (v, a')"
    and later: "owned_step\<^sup>*\<^sup>* a' b"
  shows "isl (OwnedArena_get b h r' e) \<and> isl (OwnedArena_get_mut b h r' e)
       \<and> isl (OwnedArena_transfer b h r' e n') \<and> isl (OwnedArena_remove b h r' e)"
proof -
  have inv: "owned_inv a" by (rule ot.inv_steps [OF reach owned_inv_new])
  have "owned_step a a'" using ended by (auto intro: owned_step.intros)
  with inv have inv': "owned_inv a'" by (rule ot.inv_step)
  have "lifetime_spent a' (h, e)"
    using ended by (auto intro: transfer_spends_lifetime [OF inv] remove_spends_lifetime)
  then have "\<not> lifetime_live b (h, e)" by (rule ot.spent_never_live [OF later inv'])
  then show ?thesis by (rule dead_lifetime_rejected)
qed

theorem ended_ownership_lifetime_rejected_witness:
  "isl (OwnedArena_get sample_transferred (OwnedHandle (Handle_new 0 1)) (RuntimeId 1) epoch_ZERO)
   \<and> isl (OwnedArena_remove sample_transferred (OwnedHandle (Handle_new 0 1)) (RuntimeId 2) epoch_ZERO)"
  using ended_ownership_lifetime_rejected [OF sample_owned_reachable disjI1 [OF sample_transfer] rtranclp.rtrancl_refl]
  by blast

text \<open>
  C4: a transfer is accepted exactly when the requester is the recorded owner, names the
  recorded epoch and that epoch is not the last one. It keeps the value, which the new owner
  reads under the returned epoch, strictly increases the epoch, and leaves the owner and epoch
  of every other handle as they were. The previous owner is then told the new owner.
\<close>

theorem transfer_hands_over_ownership:
  assumes reach: "owned_step\<^sup>*\<^sup>* OwnedArena_new (a :: 'a OwnedArena)"
  shows "case OwnedArena_transfer a h r e n of
      Inl _ \<Rightarrow> owned_by a h \<noteq> Some (r, e) \<or> epoch_get e = - 1
    | Inr (e', a') \<Rightarrow> owned_by a h = Some (r, e) \<and> epoch_get e < epoch_get e'
        \<and> OwnedArena_get a' h n e' = OwnedArena_get a h r e
        \<and> owned_by a' = (owned_by a)(h \<mapsto> (n, e'))
        \<and> OwnedArena_get a' h r e = Inl (if r = n then StaleEpoch e e' else WrongOwner r n)"
proof -
  have inv: "owned_inv a" by (rule ot.inv_steps [OF reach owned_inv_new])
  show ?thesis
  proof (cases "OwnedArena_transfer a h r e n")
    case (Inl err)
    then have "\<not> (\<exists>p. OwnedArena_transfer a h r e n = Inr p)" by simp
    then have "\<not> (owned_by a h = Some (r, e) \<and> epoch_get e \<noteq> - 1)"
      by (simp only: oa.transfer_ok_iff [OF inv] not_False_eq_True)
    then show ?thesis by (simp add: Inl)
  next
    case (Inr p)
    obtain e' a' where p: "p = (e', a')" by (cases p)
    note tr = Inr [unfolded p]
    have lt: "epoch_get e < epoch_get e'" by (rule oa.transfer_advances [OF inv tr])
    from tr obtain v where new: "Arena_get (owned_arena a') (inner h)
        = Some \<lparr>owned_owner = n, owned_epoch = e', owned_value = v\<rparr>"
      and old: "OwnedArena_get a h r e = Inr v"
      by (rule owned_transferE) (auto simp: ar.mut_assign OwnedArena_get_Inr_iff dest: ar.mut_get)
    from new lt have "OwnedArena_get a' h r e = Inl (if r = n then StaleEpoch e e' else WrongOwner r n)"
      by (auto simp: OwnedArena_get_def OwnedArena_state_def assert_owner_and_epoch_def)
    moreover have "OwnedArena_get a' h n e' = Inr v" using new by (simp add: OwnedArena_get_Inr_iff)
    ultimately show ?thesis
      using lt old oa.transfer_holder [OF inv tr] oa.transfer_ok_iff [OF inv, of h r e n]
      by (auto simp: Inr p)
  qed
qed

theorem transfer_hands_over_ownership_witness:
  "OwnedArena_get sample_transferred (OwnedHandle (Handle_new 0 1)) (RuntimeId 2) (OwnershipEpoch 1) = Inr 7
   \<and> OwnedArena_get sample_transferred (OwnedHandle (Handle_new 0 1)) (RuntimeId 1) epoch_ZERO
     = Inl (WrongOwner (RuntimeId 1) (RuntimeId 2))"
proof -
  have "OwnedArena_get sample_owned (OwnedHandle (Handle_new 0 1)) (RuntimeId 1) epoch_ZERO = Inr 7"
    by (simp add: OwnedArena_get_Inr_iff sample_owned_eval Arena_get_def)
  with transfer_hands_over_ownership [OF sample_owned_reachable, of "OwnedHandle (Handle_new 0 1)"
      "RuntimeId 1" epoch_ZERO "RuntimeId 2"]
  show ?thesis by (simp add: sample_transfer)
qed

text \<open>
  C5: a region's routing epochs are never reused. After a transfer or an unassignment ended
  the epoch \<open>e\<close> of a region, no later history of assignments, transfers and unassignments of
  any regions routes that region under \<open>e\<close> again, and every transfer or unassignment that
  names \<open>e\<close> is rejected.
\<close>

theorem ended_route_epoch_rejected:
  assumes reach: "directory_step\<^sup>*\<^sup>* RegionDirectory_new d"
    and ended: "RegionDirectory_transfer d g r e n = Inr (e', d') \<or> RegionDirectory_unassign d g r e = Inr (e', d')"
    and later: "directory_step\<^sup>*\<^sup>* d' b"
  shows "map_option route_epoch (RegionDirectory_route b g) \<noteq> Some e
       \<and> isl (RegionDirectory_transfer b g r' e n') \<and> isl (RegionDirectory_unassign b g r' e)"
proof -
  have inv: "directory_inv d" by (rule rt.inv_steps [OF reach directory_inv_new])
  have "directory_step d d'" using ended by (auto intro: directory_step.intros)
  with inv have inv': "directory_inv d'" by (rule rt.inv_step)
  have "\<not> route_live b (g, e)"
    by (rule rt.spent_never_live [OF later inv' end_route_spends [OF inv ended]])
  then have dead: "routed_to b g \<noteq> Some (x, e)" for x by (simp add: route_live_def)
  have "RegionDirectory_transfer b g r' e n' \<noteq> Inr p" for p
    using dead by (cases p) (auto elim!: route_transferE simp: routed_to_Some_iff)
  moreover have "RegionDirectory_unassign b g r' e \<noteq> Inr p" for p
    using dead by (cases p) (auto elim!: route_unassignE simp: routed_to_Some_iff)
  ultimately show ?thesis
    using dead by (auto simp: routed_to_def isl_iff)
qed

definition sample_directory :: RegionDirectory where
  "sample_directory = \<lparr>routes = [(RegionId 3 5, \<lparr>state_owner = Some (RuntimeId 1), state_epoch = epoch_ZERO\<rparr>)]\<rparr>"

definition sample_reassigned :: RegionDirectory where
  "sample_reassigned = \<lparr>routes = [(RegionId 3 5, \<lparr>state_owner = Some (RuntimeId 1), state_epoch = OwnershipEpoch 1\<rparr>)]\<rparr>"

theorem ended_route_epoch_rejected_witness:
  "RegionDirectory_route sample_reassigned (RegionId 3 5)
     = Some \<lparr>route_owner = RuntimeId 1, route_epoch = OwnershipEpoch 1\<rparr>
   \<and> isl (RegionDirectory_transfer sample_reassigned (RegionId 3 5) (RuntimeId 1) epoch_ZERO (RuntimeId 2))"
proof -
  let ?mid = "\<lparr>routes = [(RegionId 3 5, \<lparr>state_owner = None, state_epoch = OwnershipEpoch 1\<rparr>)]\<rparr>"
  have "RegionDirectory_assign RegionDirectory_new (RegionId 3 5) (RuntimeId 1) = Inr (epoch_ZERO, sample_directory)"
    by (simp add: RegionDirectory_assign_def RegionDirectory_new_def sample_directory_def)
  then have reach: "directory_step\<^sup>*\<^sup>* RegionDirectory_new sample_directory"
    by (meson directory_step.intros(1) r_into_rtranclp)
  have un: "RegionDirectory_unassign sample_directory (RegionId 3 5) (RuntimeId 1) epoch_ZERO
      = Inr (OwnershipEpoch 1, ?mid)"
    by (simp add: RegionDirectory_unassign_def sample_directory_def next_epoch_def epoch_ZERO_def checked_add_def)
  have "RegionDirectory_assign ?mid (RegionId 3 5) (RuntimeId 1) = Inr (OwnershipEpoch 1, sample_reassigned)"
    by (simp add: RegionDirectory_assign_def sample_reassigned_def)
  then have "directory_step\<^sup>*\<^sup>* ?mid sample_reassigned"
    by (meson directory_step.intros(1) r_into_rtranclp)
  from ended_route_epoch_rejected [OF reach disjI2 [OF un] this] show ?thesis
    by (simp add: RegionDirectory_route_def sample_reassigned_def)
qed

end
