(* ===== verification/Chunk.thy ===== *)
theory Chunk
  imports Target Ownership
begin

text \<open>
  Chunk data and its elementary operations: \<open>native/world/src/chunk.rs\<close> and the validators,
  index arithmetic, nibble access and height computation of \<open>native/world/src/lib.rs\<close>.

  An \<open>Arc<ChunkData>\<close> is its value: \<open>Arc::make_mut\<close> copies before it writes, so a snapshot
  never observes a later write. A \<open>BTreeMap\<close> is an association list in key order. The
  panics of slice indexing are excluded by \<open>chunk_data_ok\<close>, which fixes every plane's length.
\<close>

section \<open>Definitions\<close>

definition REGION_CHUNK_EDGE :: int where
  "REGION_CHUNK_EDGE = 8"

datatype ChunkCoord = ChunkCoord (coord_x: i32) (coord_z: i32)

record ChestItemStack =
  chest_slot :: u8
  chest_item_id :: i16
  chest_damage :: i16
  chest_count :: u8

record ChestBlockEntity =
  chest_x :: i32
  chest_y :: i32
  chest_z :: i32
  chest_items :: "ChestItemStack list"

record ChunkData =
  states :: "u16 list"
  sky_light :: bytes
  block_light :: bytes
  biomes :: "u32 list"
  height_map :: bytes
  extra_data :: "(u16 \<times> u16) list"
  chest_block_entities :: "ChestBlockEntity list"

definition ChunkData_empty :: "u32 \<Rightarrow> ChunkData" where
  "ChunkData_empty biome_word =
     \<lparr>states = replicate BLOCK_COUNT 0, sky_light = replicate NIBBLE_BYTES 0,
      block_light = replicate NIBBLE_BYTES 0, biomes = replicate COLUMN_COUNT biome_word,
      height_map = replicate COLUMN_COUNT 0, extra_data = [], chest_block_entities = []\<rparr>"

record ChunkRecord =
  terrain_revision :: u64
  light_revision :: u64
  persisted_terrain_revision :: "u64 option"
  persisted_light_revision :: "u64 option"
  persisted_lifecycle_flags :: "u8 option"
  pin_count :: u32
  lifecycle_flags :: u8
  chunk_data :: ChunkData

record ChunkImport =
  imp_terrain_revision :: u64
  imp_light_revision :: u64
  imp_lifecycle_flags :: u8
  imp_states :: "u16 list"
  imp_sky_light :: bytes
  imp_block_light :: bytes
  imp_biomes :: "u32 list"
  imp_height_map :: bytes
  imp_extra_data :: "(u16 \<times> u16) list"
  imp_chest_block_entities :: "ChestBlockEntity list"

record ChunkPatch =
  expected_terrain_revision :: u64
  next_terrain_revision :: u64
  expected_light_revision :: u64
  next_light_revision :: u64
  patch_blocks :: "(u16 \<times> u16) list"
  patch_biomes :: "(u8 \<times> u32) list"
  patch_extra_data :: "(u16 \<times> u16) list"
  patch_sky_light :: "(u16 \<times> u8) list"
  patch_block_light :: "(u16 \<times> u8) list"

record ChunkSnapshot =
  snap_position :: ChunkCoord
  snap_terrain_revision :: u64
  snap_light_revision :: u64
  snap_lifecycle_flags :: u8
  snap_data :: ChunkData

datatype ChunkEviction = Missing | Pinned u32 | Dirty | Evicted

definition CHUNK_LIFECYCLE_GENERATED :: u8 where "CHUNK_LIFECYCLE_GENERATED = 0x01"
definition CHUNK_LIFECYCLE_POPULATED :: u8 where "CHUNK_LIFECYCLE_POPULATED = 0x02"
definition CHUNK_LIFECYCLE_LIGHT_POPULATED :: u8 where "CHUNK_LIFECYCLE_LIGHT_POPULATED = 0x04"

definition CHUNK_LIFECYCLE_MASK :: u8 where
  "CHUNK_LIFECYCLE_MASK =
     CHUNK_LIFECYCLE_GENERATED OR CHUNK_LIFECYCLE_POPULATED OR CHUNK_LIFECYCLE_LIGHT_POPULATED"

definition ChunkRecord_empty :: "u32 \<Rightarrow> ChunkRecord" where
  "ChunkRecord_empty biome_word =
     \<lparr>terrain_revision = 0, light_revision = 0, persisted_terrain_revision = None,
      persisted_light_revision = None, persisted_lifecycle_flags = None, pin_count = 0,
      lifecycle_flags = 0, chunk_data = ChunkData_empty biome_word\<rparr>"

definition import_data :: "ChunkImport \<Rightarrow> ChunkData" where
  "import_data imp =
     \<lparr>states = imp_states imp, sky_light = imp_sky_light imp, block_light = imp_block_light imp,
      biomes = imp_biomes imp, height_map = imp_height_map imp, extra_data = imp_extra_data imp,
      chest_block_entities = imp_chest_block_entities imp\<rparr>"

definition ChunkRecord_from_import :: "ChunkImport \<Rightarrow> ChunkRecord" where
  "ChunkRecord_from_import imp =
     \<lparr>terrain_revision = imp_terrain_revision imp, light_revision = imp_light_revision imp,
      persisted_terrain_revision = Some (imp_terrain_revision imp),
      persisted_light_revision = Some (imp_light_revision imp),
      persisted_lifecycle_flags = Some (imp_lifecycle_flags imp), pin_count = 0,
      lifecycle_flags = imp_lifecycle_flags imp, chunk_data = import_data imp\<rparr>"

definition ChunkRecord_is_dirty :: "ChunkRecord \<Rightarrow> bool" where
  "ChunkRecord_is_dirty c \<longleftrightarrow>
     persisted_terrain_revision c \<noteq> Some (terrain_revision c)
     \<or> persisted_light_revision c \<noteq> Some (light_revision c)
     \<or> persisted_lifecycle_flags c \<noteq> Some (lifecycle_flags c)"

datatype WorldStoreError =
    ChunkMissing i32 i32
  | InvalidState u16
  | InvalidBlockIndex u16
  | InvalidColumnIndex u8
  | InvalidBiome u8
  | InvalidLight u8
  | InvalidLayerRange u8 u8
  | InvalidImport string
  | InvalidLifecycleFlags u8
  | PinCountExhausted
  | ChunkNotPinned
  | PersistedTerrainRevisionAhead u64 u64
  | PersistedLightRevisionAhead u64 u64
  | PersistedTerrainRevisionRegression u64 u64
  | PersistedLightRevisionRegression u64 u64
  | TerrainRevisionConflict u64 u64
  | LightRevisionConflict u64 u64
  | InvalidTerrainRevisionTransition u64 u64
  | InvalidLightRevisionTransition u64 u64
  | TerrainRevisionExhausted
  | LightRevisionExhausted
  | ChangeSequencePanic

definition validate_lifecycle_flags :: "u8 \<Rightarrow> WorldStoreError + unit" where
  "validate_lifecycle_flags flags =
     (if flags AND NOT CHUNK_LIFECYCLE_MASK \<noteq> 0 then Inl (InvalidLifecycleFlags flags) else Inr ())"

definition validate_state :: "u16 \<Rightarrow> WorldStoreError + unit" where
  "validate_state state = (if world_block_state_id_is_supported state then Inr () else Inl (InvalidState state))"

definition validate_light :: "u8 \<Rightarrow> WorldStoreError + unit" where
  "validate_light level = (if level > 0x0f then Inl (InvalidLight level) else Inr ())"

definition validate_block_index :: "u16 \<Rightarrow> WorldStoreError + unit" where
  "validate_block_index index =
     (if unat index \<ge> BLOCK_COUNT then Inl (InvalidBlockIndex index) else Inr ())"

definition validate_column_index :: "u8 \<Rightarrow> WorldStoreError + unit" where
  "validate_column_index index =
     (if unat index \<ge> COLUMN_COUNT then Inl (InvalidColumnIndex index) else Inr ())"

definition validate_biome_word :: "u32 \<Rightarrow> WorldStoreError + unit" where
  "validate_biome_word word =
     (if \<not> biome_id_is_supported (biome_id word) then Inl (InvalidBiome (biome_id word)) else Inr ())"

definition check_each :: "('a \<Rightarrow> WorldStoreError + unit) \<Rightarrow> 'a list \<Rightarrow> WorldStoreError + unit" where
  "check_each f xs = for_each (\<lambda>x _. f x) xs ()"

definition validate_import :: "ChunkImport \<Rightarrow> WorldStoreError + unit" where
  "validate_import imp =
     rbind (validate_lifecycle_flags (imp_lifecycle_flags imp)) (\<lambda>_.
     rbind (ensure (length (imp_states imp) = BLOCK_COUNT) (InvalidImport ''state'')) (\<lambda>_.
     rbind (ensure (length (imp_sky_light imp) = NIBBLE_BYTES) (InvalidImport ''sky-light'')) (\<lambda>_.
     rbind (ensure (length (imp_block_light imp) = NIBBLE_BYTES) (InvalidImport ''block-light'')) (\<lambda>_.
     rbind (ensure (length (imp_biomes imp) = COLUMN_COUNT) (InvalidImport ''biome'')) (\<lambda>_.
     rbind (check_each validate_biome_word (imp_biomes imp)) (\<lambda>_.
     rbind (ensure (length (imp_height_map imp) = COLUMN_COUNT) (InvalidImport ''height-map'')) (\<lambda>_.
     check_each validate_state (imp_states imp))))))))"

definition block_index :: "u8 \<Rightarrow> u8 \<Rightarrow> u8 \<Rightarrow> WorldStoreError + nat" where
  "block_index x y z =
     (if unat x \<ge> EDGE \<or> unat z \<ge> EDGE \<or> unat y \<ge> HEIGHT
      then Inl (InvalidBlockIndex (push_bit 8 (ucast y) OR push_bit 4 (ucast z) OR ucast x))
      else Inr (push_bit 8 (unat y) OR push_bit 4 (unat z) OR unat x))"

definition column_index :: "u8 \<Rightarrow> u8 \<Rightarrow> WorldStoreError + nat" where
  "column_index x z =
     (if unat x \<ge> EDGE \<or> unat z \<ge> EDGE then Inl (InvalidColumnIndex (push_bit 4 z OR x))
      else Inr (push_bit 4 (unat z) OR unat x))"

definition extra_key :: "u8 \<Rightarrow> u8 \<Rightarrow> u8 \<Rightarrow> WorldStoreError + u16" where
  "extra_key x y z =
     rbind (block_index x y z) (\<lambda>_.
     Inr (push_bit 12 (ucast z) OR push_bit 8 (ucast x) OR ucast y))"

definition linear_index_to_extra_key :: "u16 \<Rightarrow> u16" where
  "linear_index_to_extra_key index =
     (let x = index AND 0x0f;
          z = drop_bit 4 index AND 0x0f;
          y = drop_bit 8 index AND 0x7f
      in push_bit 12 z OR push_bit 8 x OR y)"

definition read_nibble :: "bytes \<Rightarrow> nat \<Rightarrow> u8" where
  "read_nibble bs index =
     (let v = bs ! drop_bit 1 index
      in if index AND 1 = 0 then v AND 0x0f else drop_bit 4 v AND 0x0f)"

definition write_nibble :: "nat \<Rightarrow> u8 \<Rightarrow> bytes \<Rightarrow> bytes" where
  "write_nibble index v bs =
     (let i = drop_bit 1 index; b = bs ! i
      in if index AND 1 = 0 then bs[i := (b AND 0xf0) OR v] else bs[i := (b AND 0x0f) OR push_bit 4 v])"

text \<open>The downward scan of \<open>recalculate_column_height\<close>.\<close>

definition column_height :: "u16 list \<Rightarrow> nat \<Rightarrow> u8" where
  "column_height sts column =
     (case find (\<lambda>y. sts ! (y * COLUMN_COUNT + column) \<noteq> 0) (rev [0..<HEIGHT]) of
        Some y \<Rightarrow> of_nat y
      | None \<Rightarrow> 0)"

definition recalculate_column_height :: "nat \<Rightarrow> ChunkData \<Rightarrow> ChunkData" where
  "recalculate_column_height column d =
     d\<lparr>height_map := (height_map d)[column := column_height (states d) column]\<rparr>"

definition recalculate_all_heights :: "ChunkData \<Rightarrow> ChunkData" where
  "recalculate_all_heights d = fold recalculate_column_height [0..<COLUMN_COUNT] d"

section \<open>Well-formed chunks\<close>

definition chunk_data_ok :: "ChunkData \<Rightarrow> bool" where
  "chunk_data_ok d \<longleftrightarrow>
     length (states d) = BLOCK_COUNT \<and> length (sky_light d) = NIBBLE_BYTES
     \<and> length (block_light d) = NIBBLE_BYTES \<and> length (biomes d) = COLUMN_COUNT
     \<and> length (height_map d) = COLUMN_COUNT
     \<and> list_all world_block_state_id_is_supported (states d)
     \<and> list_all (\<lambda>w. biome_id_is_supported (biome_id w)) (biomes d)
     \<and> bt_wf (extra_data d)"

definition flags_ok :: "u8 \<Rightarrow> bool" where
  "flags_ok f \<longleftrightarrow> f AND NOT CHUNK_LIFECYCLE_MASK = 0"

text \<open>
  A resident record: well-formed data, legal flags, and persisted watermarks that do not run
  ahead of the current revisions.
\<close>

definition chunk_ok :: "ChunkRecord \<Rightarrow> bool" where
  "chunk_ok c \<longleftrightarrow> chunk_data_ok (chunk_data c) \<and> flags_ok (lifecycle_flags c)
     \<and> (\<forall>r. persisted_terrain_revision c = Some r \<longrightarrow> r \<le> terrain_revision c)
     \<and> (\<forall>r. persisted_light_revision c = Some r \<longrightarrow> r \<le> light_revision c)
     \<and> (\<forall>f. persisted_lifecycle_flags c = Some f \<longrightarrow> flags_ok f)"

text \<open>The height map tells, for each column, its topmost non-air block (0 for an empty column).\<close>

definition top_block :: "u16 list \<Rightarrow> nat \<Rightarrow> nat \<Rightarrow> bool" where
  "top_block sts column y \<longleftrightarrow>
     y < HEIGHT \<and> (\<forall>y'. y < y' \<longrightarrow> y' < HEIGHT \<longrightarrow> sts ! (y' * COLUMN_COUNT + column) = 0)
     \<and> (sts ! (y * COLUMN_COUNT + column) \<noteq> 0 \<or> y = 0)"

definition heights_exact :: "ChunkData \<Rightarrow> bool" where
  "heights_exact d \<longleftrightarrow> (\<forall>column < COLUMN_COUNT. top_block (states d) column (unat (height_map d ! column)))"

section \<open>Index arithmetic\<close>

lemma or_push_bit_add:
  fixes a b :: nat
  assumes "b < 2 ^ n"
  shows "push_bit n a OR b = a * 2 ^ n + b"
proof -
  have "push_bit n a OR b = push_bit n a + b"
  proof (rule disjunctive_add [symmetric])
    fix k
    show "\<not> bit (push_bit n a) k \<or> \<not> bit b k"
    proof (cases "k < n")
      case True
      then show ?thesis by (simp add: bit_push_bit_iff)
    next
      case False
      with assms have "b < 2 ^ k" by (meson not_less less_le_trans power_increasing_iff one_less_numeral_iff semiring_norm(76))
      then show ?thesis by (simp add: bit_iff_odd)
    qed
  qed
  then show ?thesis by (simp add: push_bit_eq_mult)
qed

lemma block_index_Inr_iff:
  "block_index x y z = Inr i \<longleftrightarrow> unat x < EDGE \<and> unat z < EDGE \<and> unat y < HEIGHT
     \<and> i = unat y * COLUMN_COUNT + (unat z * EDGE + unat x)"
proof -
  have "push_bit 8 (unat y) OR push_bit 4 (unat z) OR unat x = unat y * 256 + (unat z * 16 + unat x)"
    if "unat x < 16" "unat z < 16"
    using that or_push_bit_add [of "unat x" 4 "unat z"] or_push_bit_add [of "unat z * 16 + unat x" 8 "unat y"]
    by (simp add: or.assoc)
  then show ?thesis by (auto simp: block_index_def shape_numerals)
qed

lemma column_index_Inr_iff:
  "column_index x z = Inr i \<longleftrightarrow> unat x < EDGE \<and> unat z < EDGE \<and> i = unat z * EDGE + unat x"
  using or_push_bit_add [of "unat x" 4 "unat z"] by (auto simp: column_index_def shape_numerals)

lemma block_index_bound: "block_index x y z = Inr i \<Longrightarrow> i < BLOCK_COUNT"
  by (auto simp: block_index_Inr_iff shape_numerals)

lemma column_index_bound: "column_index x z = Inr i \<Longrightarrow> i < COLUMN_COUNT"
  by (auto simp: column_index_Inr_iff shape_numerals)

lemma mixed_radix:
  fixes x y z x' y' z' :: nat
  assumes "x < 16" "z < 16" "x' < 16" "z' < 16" and "y * 256 + (z * 16 + x) = y' * 256 + (z' * 16 + x')"
  shows "x = x' \<and> y = y' \<and> z = z'"
proof -
  have eq: "x + (z + y * 16) * 16 = x' + (z' + y' * 16) * 16" using assms(5) by simp
  then have "x = x'" using assms(1,3) by (metis mod_less mod_mult_self1)
  with eq have eq': "z + y * 16 = z' + y' * 16" by simp
  then have "z = z'" using assms(2,4) by (metis mod_less mod_mult_self1)
  with eq' \<open>x = x'\<close> show ?thesis by simp
qed

lemma block_index_inj:
  "block_index x y z = Inr i \<Longrightarrow> block_index x' y' z' = Inr i \<Longrightarrow> x = x' \<and> y = y' \<and> z = z'"
proof -
  assume "block_index x y z = Inr i" and "block_index x' y' z' = Inr i"
  then have "unat x = unat x' \<and> unat y = unat y' \<and> unat z = unat z'"
    by (intro mixed_radix) (simp_all add: block_index_Inr_iff shape_numerals)
  then show ?thesis by (simp add: word_unat_eq_iff)
qed

section \<open>Nibbles\<close>

lemma nibble_index: "(i :: nat) AND 1 = 0 \<longleftrightarrow> even i" "drop_bit 1 (i :: nat) = i div 2"
  by (simp_all add: and_one_eq mod_2_eq_odd drop_bit_eq_div)

lemma read_nibble_alt:
  "read_nibble bs i = (if even i then bs ! (i div 2) AND 0x0f else drop_bit 4 (bs ! (i div 2)) AND 0x0f)"
  by (simp only: read_nibble_def Let_def nibble_index)

lemma write_nibble_alt:
  "write_nibble i v bs = bs[i div 2 := if even i then (bs ! (i div 2) AND 0xf0) OR v
     else (bs ! (i div 2) AND 0x0f) OR push_bit 4 v]"
  unfolding write_nibble_def Let_def nibble_index by (cases "even i") simp_all

lemma bit_0f: "bit (0x0f :: u8) n \<longleftrightarrow> n < 4"
proof -
  have "(0x0f :: u8) = mask 4" by (simp add: mask_eq_exp_minus_1)
  then show ?thesis unfolding \<open>(0x0f :: u8) = mask 4\<close> bit_mask_iff by auto
qed

lemma bit_f0: "bit (0xf0 :: u8) n \<longleftrightarrow> 4 \<le> n \<and> n < 8"
proof -
  have "(0xf0 :: u8) = push_bit 4 (mask 4)" by (simp add: mask_eq_exp_minus_1 push_bit_eq_mult)
  then show ?thesis unfolding \<open>(0xf0 :: u8) = push_bit 4 (mask 4)\<close> bit_push_bit_iff bit_mask_iff by auto
qed

lemma nibble_bits: "(v :: u8) \<le> 0x0f \<longleftrightarrow> (\<forall>n. bit v n \<longrightarrow> n < 4)"
proof -
  have "v \<le> 0x0f \<longleftrightarrow> unat v < 2 ^ 4" by (auto simp: word_le_nat_alt)
  also have "\<dots> \<longleftrightarrow> take_bit 4 v = v"
    by (simp only: word_unat_eq_iff unsigned_take_bit_eq take_bit_nat_eq_self_iff)
  also have "\<dots> \<longleftrightarrow> (\<forall>n. bit v n \<longrightarrow> n < 4)" 
    using bit_imp_le_length [of v] by (fastforce simp: bit_eq_iff bit_take_bit_iff)
  finally show ?thesis .
qed

lemma bit_read_nibble:
  "bit (read_nibble bs i) n \<longleftrightarrow> n < 4 \<and> bit (bs ! (i div 2)) (if even i then n else n + 4)"
proof (cases "even i")
  case True
  then show ?thesis unfolding read_nibble_alt if_P [OF True] bit_and_iff bit_0f by auto
next
  case False
  then show ?thesis
    unfolding read_nibble_alt if_not_P [OF False] bit_and_iff bit_0f bit_drop_bit_eq
    by (auto simp: add.commute)
qed

lemma bit_write_nibble:
  assumes "i div 2 < length bs" and "v \<le> 0x0f"
  shows "bit (write_nibble i v bs ! (i div 2)) n \<longleftrightarrow>
    (if even i then if n < 4 then bit v n else bit (bs ! (i div 2)) n
     else if n < 4 then bit (bs ! (i div 2)) n else bit v (n - 4))"
proof -
  have v: "bit v k \<Longrightarrow> k < 4" for k using assms(2) by (auto simp: nibble_bits)
  have "bit (bs ! (i div 2)) n \<Longrightarrow> n < 8" using bit_imp_le_length [of "bs ! (i div 2)" n] by simp
  moreover have "write_nibble i v bs ! (i div 2) = (if even i then (bs ! (i div 2) AND 0xf0) OR v
      else (bs ! (i div 2) AND 0x0f) OR push_bit 4 v)"
    using assms(1) unfolding write_nibble_alt by (rule nth_list_update_eq)
  ultimately show ?thesis
    using v [of n] v [of "n - 4"]
    by (cases "even i") (simp_all only: if_True if_False not_False_eq_True bit_or_iff bit_and_iff bit_0f bit_f0, auto simp: bit_push_bit_iff)
qed

lemma length_write_nibble [simp]: "length (write_nibble i v bs) = length bs"
  by (simp add: write_nibble_alt)

lemma write_nibble_other: "j \<noteq> i div 2 \<Longrightarrow> write_nibble i v bs ! j = bs ! j"
  by (simp add: write_nibble_alt)

lemma read_write_nibble:
  assumes "i < 2 * length bs" and "v \<le> 0x0f"
  shows "read_nibble (write_nibble i v bs) j = (if i = j then v else read_nibble bs j)"
proof (rule bit_word_eqI)
  fix n
  have len: "i div 2 < length bs" using assms(1) by simp
  have *: "i = j \<longleftrightarrow> i div 2 = j div 2 \<and> even i = even j"
    by (metis bit_eq_rec div_mult_mod_eq even_iff_mod_2_eq_zero not_mod_2_eq_1_eq_0)
  show "bit (read_nibble (write_nibble i v bs) j) n = bit (if i = j then v else read_nibble bs j) n"
  proof (cases "i div 2 = j div 2")
    case True
    show ?thesis
      using bit_write_nibble [OF len assms(2)] nibble_bits [of v] assms(2)
      by (auto simp: bit_read_nibble * True)
  next
    case False
    then show ?thesis using * by (auto simp: bit_read_nibble write_nibble_other)
  qed
qed

lemma read_nibble_bound: "read_nibble bs i \<le> 0x0f"
  by (simp add: nibble_bits bit_read_nibble)

section \<open>Heights\<close>

lemma find_rev_upt:
  "find P (rev [0..<n]) = (if \<exists>y < n. P y then Some (GREATEST y. y < n \<and> P y) else None)"
proof (cases "\<exists>y < n. P y")
  case False
  then show ?thesis by (auto simp: find_None_iff)
next
  case True
  have "find P (rev [0..<n]) = Some (GREATEST y. y < n \<and> P y)" if "y < n" "P y" for y
    using that
  proof (induction n)
    case 0
    then show ?case by simp
  next
    case (Suc n)
    show ?case
    proof (cases "P n")
      case True
      then have "(GREATEST y. y < Suc n \<and> P y) = n" by (intro Greatest_equality) auto
      with True show ?thesis by simp
    next
      case False
      then have "(\<lambda>y. y < Suc n \<and> P y) = (\<lambda>y. y < n \<and> P y)" by (auto simp: less_Suc_eq)
      moreover from False Suc.prems have "y < n" by (metis less_SucE)
      ultimately show ?thesis using False Suc.IH Suc.prems by simp
    qed
  qed
  with True show ?thesis by auto
qed

lemma column_height_top: "top_block sts column (unat (column_height sts column))"
proof (cases "\<exists>y < HEIGHT. sts ! (y * COLUMN_COUNT + column) \<noteq> 0")
  case False
  then have "column_height sts column = 0" by (auto simp: column_height_def find_rev_upt)
  with False show ?thesis by (simp add: top_block_def shape_numerals(2))
next
  case True
  let ?P = "\<lambda>y. y < HEIGHT \<and> sts ! (y * COLUMN_COUNT + column) \<noteq> 0"
  let ?g = "GREATEST y. ?P y"
  have g: "?P ?g" using True by (intro GreatestI_ex_nat [of ?P HEIGHT]) auto
  have "\<forall>y. ?P y \<longrightarrow> y \<le> ?g" by (intro allI impI Greatest_le_nat [of ?P _ HEIGHT]) auto
  moreover have "unat (column_height sts column) = ?g"
    using True g by (simp add: column_height_def find_rev_upt unat_of_nat shape_numerals(2))
  ultimately show ?thesis using g by (auto simp: top_block_def)
qed

lemma recalculate_column_height_simps [simp]:
  "states (recalculate_column_height c d) = states d"
  "sky_light (recalculate_column_height c d) = sky_light d"
  "block_light (recalculate_column_height c d) = block_light d"
  "biomes (recalculate_column_height c d) = biomes d"
  "extra_data (recalculate_column_height c d) = extra_data d"
  "chest_block_entities (recalculate_column_height c d) = chest_block_entities d"
  "length (height_map (recalculate_column_height c d)) = length (height_map d)"
  by (simp_all add: recalculate_column_height_def)

lemma fold_recalculate_simps [simp]:
  "states (fold recalculate_column_height cs d) = states d"
  "sky_light (fold recalculate_column_height cs d) = sky_light d"
  "block_light (fold recalculate_column_height cs d) = block_light d"
  "biomes (fold recalculate_column_height cs d) = biomes d"
  "extra_data (fold recalculate_column_height cs d) = extra_data d"
  "chest_block_entities (fold recalculate_column_height cs d) = chest_block_entities d"
  "length (height_map (fold recalculate_column_height cs d)) = length (height_map d)"
  by (induction cs arbitrary: d) simp_all

lemma fold_recalculate_nth:
  "i < length (height_map d) \<Longrightarrow> height_map (fold recalculate_column_height cs d) ! i
     = (if i \<in> set cs then column_height (states d) i else height_map d ! i)"
proof (induction cs arbitrary: d)
  case Nil
  then show ?case by simp
next
  case (Cons c cs)
  then show ?case by (auto simp: Cons.IH) (auto simp: recalculate_column_height_def nth_list_update)
qed

text \<open>Recomputing a set of columns keeps the height map exact if the others were not affected.\<close>

lemma heights_exact_recalculate:
  assumes "length (height_map d) = COLUMN_COUNT"
    and "\<And>c. c < COLUMN_COUNT \<Longrightarrow> c \<notin> set cs \<Longrightarrow> top_block (states d) c (unat (height_map d ! c))"
  shows "heights_exact (fold recalculate_column_height cs d)"
  using assms by (auto simp: heights_exact_def fold_recalculate_nth column_height_top)

lemma recalculate_all_exact:
  "length (height_map d) = COLUMN_COUNT \<Longrightarrow> heights_exact (recalculate_all_heights d)"
  unfolding recalculate_all_heights_def by (rule heights_exact_recalculate) auto

lemma recalculate_all_simps [simp]:
  "states (recalculate_all_heights d) = states d"
  "sky_light (recalculate_all_heights d) = sky_light d"
  "block_light (recalculate_all_heights d) = block_light d"
  "biomes (recalculate_all_heights d) = biomes d"
  "extra_data (recalculate_all_heights d) = extra_data d"
  "chest_block_entities (recalculate_all_heights d) = chest_block_entities d"
  "length (height_map (recalculate_all_heights d)) = length (height_map d)"
  by (simp_all add: recalculate_all_heights_def)

lemma top_block_cong:
  "(\<And>y. y < HEIGHT \<Longrightarrow> sts ! (y * COLUMN_COUNT + c) = sts' ! (y * COLUMN_COUNT + c)) \<Longrightarrow>
   top_block sts c h = top_block sts' c h"
  by (auto simp: top_block_def)

section \<open>Validation\<close>

lemma check_each_Inr_iff [result_simps]: "check_each f xs = Inr u \<longleftrightarrow> (\<forall>x \<in> set xs. f x = Inr ())"
  by (induction xs) (auto simp: check_each_def result_simps)

lemma validate_Inr_iffs [result_simps]:
  "validate_lifecycle_flags f = Inr u \<longleftrightarrow> flags_ok f"
  "validate_state st = Inr u \<longleftrightarrow> world_block_state_id_is_supported st"
  "validate_light l = Inr u \<longleftrightarrow> l \<le> 0x0f"
  "validate_block_index i = Inr u \<longleftrightarrow> unat i < BLOCK_COUNT"
  "validate_column_index k = Inr u \<longleftrightarrow> unat k < COLUMN_COUNT"
  "validate_biome_word w = Inr u \<longleftrightarrow> biome_id_is_supported (biome_id w)"
  by (auto simp: validate_lifecycle_flags_def flags_ok_def validate_state_def validate_light_def
      validate_block_index_def validate_column_index_def validate_biome_word_def)

lemma validate_import_Inr_iff:
  "bt_wf (imp_extra_data imp) \<Longrightarrow>
   validate_import imp = Inr u \<longleftrightarrow> flags_ok (imp_lifecycle_flags imp) \<and> chunk_data_ok (import_data imp)"
  by (auto simp: validate_import_def result_simps chunk_data_ok_def import_data_def list_all_iff)

lemma air_supported: "world_block_state_id_is_supported 0"
  by (simp add: world_block_state_id_is_supported_def world_block_id_is_supported_def
      BlockId_is_world_supported_def within_def)

lemma ChunkData_empty_ok: "biome_id_is_supported (biome_id w) \<Longrightarrow> chunk_data_ok (ChunkData_empty w)"
  by (simp add: chunk_data_ok_def ChunkData_empty_def air_supported list_all_iff)

lemma flags_ok_0: "flags_ok 0"
  by (simp add: flags_ok_def)

lemma ChunkRecord_empty_ok: "biome_id_is_supported (biome_id w) \<Longrightarrow> chunk_ok (ChunkRecord_empty w)"
  by (simp add: chunk_ok_def ChunkRecord_empty_def ChunkData_empty_ok flags_ok_0)

lemma ChunkRecord_from_import_ok:
  "bt_wf (imp_extra_data imp) \<Longrightarrow> validate_import imp = Inr u \<Longrightarrow> chunk_ok (ChunkRecord_from_import imp)"
  by (simp add: validate_import_Inr_iff chunk_ok_def ChunkRecord_from_import_def)

lemma ChunkData_empty_heights: "heights_exact (ChunkData_empty w)"
proof -
  have "y * COLUMN_COUNT + c < BLOCK_COUNT" if "y < HEIGHT" "c < COLUMN_COUNT" for y c
    using that by (auto simp: shape_numerals)
  then show ?thesis
    by (auto simp: heights_exact_def top_block_def ChunkData_empty_def shape_numerals(2)) 
qed

end
