(* ===== verification/WorldStore.thy ===== *)
theory WorldStore
  imports Chunk
begin

text \<open>
  The resident world: \<open>native/world/src/lib.rs\<close>, \<open>change_log.rs\<close>, \<open>patch.rs\<close>,
  \<open>revision.rs\<close>, \<open>scalar.rs\<close> and \<open>residency.rs\<close>.

  The store is two levels of hash maps, regions and the chunks of a region, plus the change log.
  An operation takes the store and returns its result with the store it leaves behind, also when
  it fails, so that what an error leaves behind is part of the model. The locks make each
  access to a chunk atomic: \<open>with_chunk\<close> and \<open>with_chunk_mut\<close> are one step each. Every closure
  that \<open>with_chunk_mut\<close> runs returns its errors before its first write, so a closure is a
  function to an error or a result with the new record. The panic of an exhausted
  change sequence is the error value \<open>ChangeSequencePanic\<close>.
\<close>

section \<open>State\<close>

definition WORLD_CHANGE_LOG_CAPACITY :: nat where
  "WORLD_CHANGE_LOG_CAPACITY = 8192"

definition MAX_POINT_BLOCK_CHANGES :: nat where
  "MAX_POINT_BLOCK_CHANGES = 256"

datatype WorldChangeKind = Blocks "(u16 \<times> u16) list" | FullChunk

record WorldChange =
  change_sequence :: u64
  change_position :: ChunkCoord
  change_kind :: WorldChangeKind

record WorldChangeLog =
  next_sequence :: u64
  log_changes :: "WorldChange list"

record WorldChangeLogSnapshot =
  oldest_sequence :: u64
  latest_sequence :: u64
  snapshot_changes :: "WorldChange list"

record RegionShard =
  chunks :: "(ChunkCoord \<times> ChunkRecord) list"

record WorldStore =
  regions :: "(RegionId \<times> RegionShard) list"
  changes :: WorldChangeLog

type_synonym 'a world_op = "WorldStore \<Rightarrow> (WorldStoreError + 'a) \<times> WorldStore"

definition op_lift :: "WorldStoreError + 'a \<Rightarrow> 'a world_op" where
  "op_lift r s = (r, s)"

definition op_bind :: "'a world_op \<Rightarrow> ('a \<Rightarrow> 'b world_op) \<Rightarrow> 'b world_op" where
  "op_bind m f s = (case m s of (Inl e, s') \<Rightarrow> (Inl e, s') | (Inr x, s') \<Rightarrow> f x s')"

definition WorldChangeLog_default :: WorldChangeLog where
  "WorldChangeLog_default = \<lparr>next_sequence = 1, log_changes = []\<rparr>"

definition WorldStore_new :: WorldStore where
  "WorldStore_new = \<lparr>regions = [], changes = WorldChangeLog_default\<rparr>"

definition region_for :: "ChunkCoord \<Rightarrow> RegionId" where
  "region_for pos =
     RegionId (i32_div_euclid (coord_x pos) REGION_CHUNK_EDGE) (i32_div_euclid (coord_z pos) REGION_CHUNK_EDGE)"

definition chunk_missing :: "ChunkCoord \<Rightarrow> WorldStoreError" where
  "chunk_missing pos = ChunkMissing (coord_x pos) (coord_z pos)"

definition WorldStore_region :: "WorldStore \<Rightarrow> ChunkCoord \<Rightarrow> WorldStoreError + RegionShard" where
  "WorldStore_region s pos = ok_or (hm_get (regions s) (region_for pos)) (chunk_missing pos)"

text \<open>The shard \<open>region_or_create\<close> returns, and the map it leaves.\<close>

definition region_or_create :: "ChunkCoord \<Rightarrow> WorldStore \<Rightarrow> RegionShard \<times> WorldStore" where
  "region_or_create pos s =
     (case hm_get (regions s) (region_for pos) of
        Some region \<Rightarrow> (region, s)
      | None \<Rightarrow>
          let region = \<lparr>chunks = []\<rparr>
          in (region, s\<lparr>regions := hm_insert (region_for pos) region (regions s)\<rparr>))"

text \<open>Writing a record into the shard of its region, which the caller holds.\<close>

definition store_chunk :: "ChunkCoord \<Rightarrow> ChunkRecord \<Rightarrow> RegionShard \<Rightarrow> WorldStore \<Rightarrow> WorldStore" where
  "store_chunk pos c shard s =
     s\<lparr>regions := hm_insert (region_for pos) (shard\<lparr>chunks := hm_insert pos c (chunks shard)\<rparr>) (regions s)\<rparr>"

definition with_chunk :: "ChunkCoord \<Rightarrow> (ChunkRecord \<Rightarrow> WorldStoreError + 'a) \<Rightarrow> 'a world_op" where
  "with_chunk pos f s =
     (rbind (WorldStore_region s pos) (\<lambda>shard.
      rbind (ok_or (hm_get (chunks shard) pos) (chunk_missing pos)) f), s)"

definition with_chunk_mut ::
  "ChunkCoord \<Rightarrow> (ChunkRecord \<Rightarrow> WorldStoreError + 'a \<times> ChunkRecord) \<Rightarrow> 'a world_op" where
  "with_chunk_mut pos f s =
     (case WorldStore_region s pos of
        Inl e \<Rightarrow> (Inl e, s)
      | Inr shard \<Rightarrow>
          (case hm_get (chunks shard) pos of
             None \<Rightarrow> (Inl (chunk_missing pos), s)
           | Some c \<Rightarrow>
               (case f c of
                  Inl e \<Rightarrow> (Inl e, s)
                | Inr (x, c') \<Rightarrow> (Inr x, store_chunk pos c' shard s))))"

definition map_data :: "(ChunkData \<Rightarrow> ChunkData) \<Rightarrow> ChunkRecord \<Rightarrow> ChunkRecord" where
  "map_data f c = c\<lparr>chunk_data := f (chunk_data c)\<rparr>"

definition snapshot_of :: "ChunkCoord \<Rightarrow> ChunkRecord \<Rightarrow> ChunkSnapshot" where
  "snapshot_of pos c =
     \<lparr>snap_position = pos, snap_terrain_revision = terrain_revision c, snap_light_revision = light_revision c,
      snap_lifecycle_flags = lifecycle_flags c, snap_data = chunk_data c\<rparr>"

definition WorldStore_snapshot :: "ChunkCoord \<Rightarrow> ChunkSnapshot world_op" where
  "WorldStore_snapshot pos = with_chunk pos (\<lambda>c. Inr (snapshot_of pos c))"

section \<open>Scalar reads and writes\<close>

definition WorldStore_block_state :: "ChunkCoord \<Rightarrow> u8 \<Rightarrow> u8 \<Rightarrow> u8 \<Rightarrow> u16 world_op" where
  "WorldStore_block_state pos x y z =
     op_bind (op_lift (block_index x y z)) (\<lambda>index.
     with_chunk pos (\<lambda>c. Inr (states (chunk_data c) ! index)))"

definition set_block_state :: "ChunkCoord \<Rightarrow> u8 \<Rightarrow> u8 \<Rightarrow> u8 \<Rightarrow> u16 \<Rightarrow> u16 world_op" where
  "set_block_state pos x y z state =
     op_bind (op_lift (validate_state state)) (\<lambda>_.
     op_bind (op_lift (block_index x y z)) (\<lambda>index.
     with_chunk_mut pos (\<lambda>c.
       let d = chunk_data c; previous = states d ! index
       in Inr (previous,
            if previous \<noteq> state
            then c\<lparr>chunk_data := recalculate_column_height (unat z * EDGE + unat x)
                     (d\<lparr>states := (states d)[index := state]\<rparr>)\<rparr>
            else c))))"

definition fill_layers :: "ChunkCoord \<Rightarrow> u8 \<Rightarrow> u8 \<Rightarrow> u16 \<Rightarrow> unit world_op" where
  "fill_layers pos start_y count state =
     op_bind (op_lift (validate_state state)) (\<lambda>_.
     let start = unat start_y; n = unat count
     in op_bind (op_lift (ensure (\<not> (n = 0 \<or> start \<ge> HEIGHT \<or> start + n > HEIGHT))
                            (InvalidLayerRange start_y count))) (\<lambda>_.
        with_chunk_mut pos (\<lambda>c.
          let first = start * COLUMN_COUNT; last = (start + n) * COLUMN_COUNT; d = chunk_data c
          in Inr ((), c\<lparr>chunk_data := recalculate_all_heights
               (d\<lparr>states := take first (states d) @ replicate (last - first) state @ drop last (states d)\<rparr>)\<rparr>))))"

definition biome_word :: "ChunkCoord \<Rightarrow> u8 \<Rightarrow> u8 \<Rightarrow> u32 world_op" where
  "biome_word pos x z =
     op_bind (op_lift (column_index x z)) (\<lambda>index.
     with_chunk pos (\<lambda>c. Inr (biomes (chunk_data c) ! index)))"

definition set_biome_word :: "ChunkCoord \<Rightarrow> u8 \<Rightarrow> u8 \<Rightarrow> u32 \<Rightarrow> u32 world_op" where
  "set_biome_word pos x z word =
     op_bind (op_lift (validate_biome_word word)) (\<lambda>_.
     op_bind (op_lift (column_index x z)) (\<lambda>index.
     with_chunk_mut pos (\<lambda>c.
       Inr (biomes (chunk_data c) ! index,
            map_data (\<lambda>d. d\<lparr>biomes := (biomes d)[index := word]\<rparr>) c))))"

definition WorldStore_biome :: "ChunkCoord \<Rightarrow> u8 \<Rightarrow> u8 \<Rightarrow> u8 world_op" where
  "WorldStore_biome pos x z = op_bind (biome_word pos x z) (\<lambda>w. op_lift (Inr (biome_id w)))"

definition set_biome :: "ChunkCoord \<Rightarrow> u8 \<Rightarrow> u8 \<Rightarrow> u8 \<Rightarrow> u8 world_op" where
  "set_biome pos x z biome =
     op_bind (op_lift (ensure (biome_id_is_supported biome) (InvalidBiome biome))) (\<lambda>_.
     op_bind (biome_word pos x z) (\<lambda>previous.
     op_bind (set_biome_word pos x z (with_biome_id previous biome)) (\<lambda>_.
     op_lift (Inr (biome_id previous)))))"

definition WorldStore_biome_color :: "ChunkCoord \<Rightarrow> u8 \<Rightarrow> u8 \<Rightarrow> u32 world_op" where
  "WorldStore_biome_color pos x z = op_bind (biome_word pos x z) (\<lambda>w. op_lift (Inr (biome_color w)))"

definition set_biome_color :: "ChunkCoord \<Rightarrow> u8 \<Rightarrow> u8 \<Rightarrow> u32 \<Rightarrow> u32 world_op" where
  "set_biome_color pos x z color =
     op_bind (op_lift (ensure (color \<le> BIOME_COLOR_MASK) (InvalidImport ''biome color''))) (\<lambda>_.
     op_bind (biome_word pos x z) (\<lambda>previous.
     op_bind (set_biome_word pos x z (with_biome_color previous color)) (\<lambda>_.
     op_lift (Inr (biome_color previous)))))"

definition fill_biome :: "ChunkCoord \<Rightarrow> u8 \<Rightarrow> unit world_op" where
  "fill_biome pos biome =
     op_bind (op_lift (ensure (biome_id_is_supported biome) (InvalidBiome biome))) (\<lambda>_.
     with_chunk_mut pos (\<lambda>c.
       Inr ((), map_data (\<lambda>d. d\<lparr>biomes := map (\<lambda>w. with_biome_id w biome) (biomes d)\<rparr>) c)))"

definition WorldStore_sky_light :: "ChunkCoord \<Rightarrow> u8 \<Rightarrow> u8 \<Rightarrow> u8 \<Rightarrow> u8 world_op" where
  "WorldStore_sky_light pos x y z =
     op_bind (op_lift (block_index x y z)) (\<lambda>index.
     with_chunk pos (\<lambda>c. Inr (read_nibble (sky_light (chunk_data c)) index)))"

definition set_sky_light :: "ChunkCoord \<Rightarrow> u8 \<Rightarrow> u8 \<Rightarrow> u8 \<Rightarrow> u8 \<Rightarrow> u8 world_op" where
  "set_sky_light pos x y z level =
     op_bind (op_lift (validate_light level)) (\<lambda>_.
     op_bind (op_lift (block_index x y z)) (\<lambda>index.
     with_chunk_mut pos (\<lambda>c.
       Inr (read_nibble (sky_light (chunk_data c)) index,
            map_data (\<lambda>d. d\<lparr>sky_light := write_nibble index level (sky_light d)\<rparr>) c))))"

definition fill_sky_light_from :: "ChunkCoord \<Rightarrow> u8 \<Rightarrow> u8 \<Rightarrow> unit world_op" where
  "fill_sky_light_from pos y level =
     op_bind (op_lift (validate_light level)) (\<lambda>_.
     op_bind (op_lift (ensure (unat y \<le> HEIGHT) (InvalidLayerRange y 0))) (\<lambda>_.
     with_chunk_mut pos (\<lambda>c.
       Inr ((), map_data (\<lambda>d. d\<lparr>sky_light :=
         fold (\<lambda>index. write_nibble index level) [unat y * COLUMN_COUNT..<BLOCK_COUNT] (sky_light d)\<rparr>) c))))"

definition WorldStore_block_light :: "ChunkCoord \<Rightarrow> u8 \<Rightarrow> u8 \<Rightarrow> u8 \<Rightarrow> u8 world_op" where
  "WorldStore_block_light pos x y z =
     op_bind (op_lift (block_index x y z)) (\<lambda>index.
     with_chunk pos (\<lambda>c. Inr (read_nibble (block_light (chunk_data c)) index)))"

definition set_block_light :: "ChunkCoord \<Rightarrow> u8 \<Rightarrow> u8 \<Rightarrow> u8 \<Rightarrow> u8 \<Rightarrow> u8 world_op" where
  "set_block_light pos x y z level =
     op_bind (op_lift (validate_light level)) (\<lambda>_.
     op_bind (op_lift (block_index x y z)) (\<lambda>index.
     with_chunk_mut pos (\<lambda>c.
       Inr (read_nibble (block_light (chunk_data c)) index,
            map_data (\<lambda>d. d\<lparr>block_light := write_nibble index level (block_light d)\<rparr>) c))))"

definition WorldStore_height_map :: "ChunkCoord \<Rightarrow> u8 \<Rightarrow> u8 \<Rightarrow> u8 world_op" where
  "WorldStore_height_map pos x z =
     op_bind (op_lift (column_index x z)) (\<lambda>index.
     with_chunk pos (\<lambda>c. Inr (height_map (chunk_data c) ! index)))"

definition recalculate_height_map :: "ChunkCoord \<Rightarrow> unit world_op" where
  "recalculate_height_map pos =
     with_chunk_mut pos (\<lambda>c. Inr ((), map_data recalculate_all_heights c))"

definition extra_value :: "(u16 \<times> u16) list \<Rightarrow> u16 \<Rightarrow> u16" where
  "extra_value m key = (case map_of m key of Some v \<Rightarrow> v | None \<Rightarrow> 0)"

definition set_extra :: "u16 \<Rightarrow> u16 \<Rightarrow> (u16 \<times> u16) list \<Rightarrow> (u16 \<times> u16) list" where
  "set_extra key v m = (if v = 0 then bt_remove key m else bt_insert key v m)"

definition block_extra_data :: "ChunkCoord \<Rightarrow> u8 \<Rightarrow> u8 \<Rightarrow> u8 \<Rightarrow> u16 world_op" where
  "block_extra_data pos x y z =
     op_bind (op_lift (extra_key x y z)) (\<lambda>key.
     with_chunk pos (\<lambda>c. Inr (extra_value (extra_data (chunk_data c)) key)))"

definition set_block_extra_data :: "ChunkCoord \<Rightarrow> u8 \<Rightarrow> u8 \<Rightarrow> u8 \<Rightarrow> u16 \<Rightarrow> u16 world_op" where
  "set_block_extra_data pos x y z v =
     op_bind (op_lift (extra_key x y z)) (\<lambda>key.
     with_chunk_mut pos (\<lambda>c.
       Inr (extra_value (extra_data (chunk_data c)) key,
            map_data (\<lambda>d. d\<lparr>extra_data := set_extra key v (extra_data d)\<rparr>) c)))"

section \<open>Revisions\<close>

definition WorldStore_terrain_revision :: "ChunkCoord \<Rightarrow> u64 world_op" where
  "WorldStore_terrain_revision pos = with_chunk pos (\<lambda>c. Inr (terrain_revision c))"

definition WorldStore_light_revision :: "ChunkCoord \<Rightarrow> u64 world_op" where
  "WorldStore_light_revision pos = with_chunk pos (\<lambda>c. Inr (light_revision c))"

definition commit_terrain_revision :: "ChunkCoord \<Rightarrow> u64 \<Rightarrow> u64 \<Rightarrow> unit world_op" where
  "commit_terrain_revision pos expected next =
     with_chunk_mut pos (\<lambda>c.
       if terrain_revision c \<noteq> expected then Inl (TerrainRevisionConflict expected (terrain_revision c))
       else
         rbind (ok_or (checked_add expected 1) TerrainRevisionExhausted) (\<lambda>expected_next.
         if next \<noteq> expected_next then Inl (InvalidTerrainRevisionTransition expected_next next)
         else Inr ((), c\<lparr>terrain_revision := next\<rparr>)))"

definition commit_light_revision :: "ChunkCoord \<Rightarrow> u64 \<Rightarrow> u64 \<Rightarrow> unit world_op" where
  "commit_light_revision pos expected next =
     with_chunk_mut pos (\<lambda>c.
       if light_revision c \<noteq> expected then Inl (LightRevisionConflict expected (light_revision c))
       else
         rbind (ok_or (checked_add expected 1) LightRevisionExhausted) (\<lambda>expected_next.
         if next \<noteq> expected_next then Inl (InvalidLightRevisionTransition expected_next next)
         else Inr ((), c\<lparr>light_revision := next\<rparr>)))"

section \<open>Change log\<close>

definition current_change_sequence :: "WorldStore \<Rightarrow> u64" where
  "current_change_sequence s = saturating_sub (next_sequence (changes s)) 1"

definition change_log_snapshot :: "WorldStore \<Rightarrow> WorldChangeLogSnapshot" where
  "change_log_snapshot s =
     (let latest = saturating_sub (next_sequence (changes s)) 1;
          oldest = (case log_changes (changes s) of
                      c # _ \<Rightarrow> change_sequence c
                    | [] \<Rightarrow> saturating_add latest 1)
      in \<lparr>oldest_sequence = oldest, latest_sequence = latest, snapshot_changes = log_changes (changes s)\<rparr>)"

definition cursor_is_stale :: "WorldChangeLogSnapshot \<Rightarrow> u64 \<Rightarrow> bool" where
  "cursor_is_stale snap cursor \<longleftrightarrow> saturating_add cursor 1 < oldest_sequence snap"

definition prune_changes_through :: "u64 \<Rightarrow> WorldStore \<Rightarrow> WorldStore" where
  "prune_changes_through sequence s =
     s\<lparr>changes := (changes s)\<lparr>log_changes :=
        dropWhile (\<lambda>c. change_sequence c \<le> sequence) (log_changes (changes s))\<rparr>\<rparr>"

definition record_change :: "ChunkCoord \<Rightarrow> WorldChangeKind \<Rightarrow> unit world_op" where
  "record_change pos kind s =
     (let log = changes s; sequence = next_sequence log
      in case checked_add sequence 1 of
           None \<Rightarrow> (Inl ChangeSequencePanic, s)
         | Some next \<Rightarrow>
             let kept = (if length (log_changes log) = WORLD_CHANGE_LOG_CAPACITY
                         then tl (log_changes log) else log_changes log)
             in (Inr (), s\<lparr>changes := \<lparr>next_sequence = next, log_changes = kept @
                  [\<lparr>change_sequence = sequence, change_position = pos, change_kind = kind\<rparr>]\<rparr>\<rparr>))"

section \<open>Patches\<close>

definition validate_patch :: "ChunkPatch \<Rightarrow> WorldStoreError + unit" where
  "validate_patch p =
     rbind (check_each (\<lambda>(index, state). rbind (validate_block_index index) (\<lambda>_. validate_state state))
              (patch_blocks p)) (\<lambda>_.
     rbind (check_each (\<lambda>(index, word). rbind (validate_column_index index) (\<lambda>_. validate_biome_word word))
              (patch_biomes p)) (\<lambda>_.
     rbind (check_each (\<lambda>(index, _). validate_block_index index) (patch_extra_data p)) (\<lambda>_.
     check_each (\<lambda>(index, level). rbind (validate_block_index index) (\<lambda>_. validate_light level))
       (patch_sky_light p @ patch_block_light p))))"

definition patch_terrain_changed :: "ChunkPatch \<Rightarrow> bool" where
  "patch_terrain_changed p \<longleftrightarrow> \<not> (patch_blocks p = [] \<and> patch_biomes p = [] \<and> patch_extra_data p = [])"

definition patch_light_changed :: "ChunkPatch \<Rightarrow> bool" where
  "patch_light_changed p \<longleftrightarrow> \<not> (patch_sky_light p = [] \<and> patch_block_light p = [])"

definition patch_change_kind :: "ChunkPatch \<Rightarrow> WorldChangeKind option" where
  "patch_change_kind p =
     (if \<not> patch_terrain_changed p \<and> \<not> patch_light_changed p then None
      else if \<not> patch_light_changed p \<and> patch_biomes p = [] \<and> patch_extra_data p = []
              \<and> length (patch_blocks p) \<le> MAX_POINT_BLOCK_CHANGES
      then Some (Blocks (patch_blocks p))
      else Some FullChunk)"

fun patch_block :: "u16 \<times> u16 \<Rightarrow> ChunkData \<times> bool list \<Rightarrow> ChunkData \<times> bool list" where
  "patch_block (index, state) (d, touched) =
     (let i = unat index
      in if states d ! i \<noteq> state
         then (d\<lparr>states := (states d)[i := state]\<rparr>, touched[i AND 0xff := True])
         else (d, touched))"

definition patch_data :: "ChunkPatch \<Rightarrow> ChunkData \<Rightarrow> ChunkData" where
  "patch_data p d =
     (let (d, touched) = fold patch_block (patch_blocks p) (d, replicate COLUMN_COUNT False);
          d = fold (\<lambda>(index, biome) d. d\<lparr>biomes := (biomes d)[unat index := biome]\<rparr>) (patch_biomes p) d;
          d = fold (\<lambda>(index, v) d. d\<lparr>extra_data := set_extra (linear_index_to_extra_key index) v (extra_data d)\<rparr>)
                (patch_extra_data p) d;
          d = fold (\<lambda>(index, level) d. d\<lparr>sky_light := write_nibble (unat index) level (sky_light d)\<rparr>)
                (patch_sky_light p) d;
          d = fold (\<lambda>(index, level) d. d\<lparr>block_light := write_nibble (unat index) level (block_light d)\<rparr>)
                (patch_block_light p) d
      in fold (\<lambda>(column, t) d. if t then recalculate_column_height column d else d)
           (zip [0..<COLUMN_COUNT] touched) d)"

definition patch_chunk :: "ChunkPatch \<Rightarrow> ChunkRecord \<Rightarrow> WorldStoreError + unit \<times> ChunkRecord" where
  "patch_chunk p c =
     (if terrain_revision c \<noteq> expected_terrain_revision p
      then Inl (TerrainRevisionConflict (expected_terrain_revision p) (terrain_revision c))
      else if light_revision c \<noteq> expected_light_revision p
      then Inl (LightRevisionConflict (expected_light_revision p) (light_revision c))
      else
        rbind (if patch_terrain_changed p
               then ok_or (checked_add (terrain_revision c) 1) TerrainRevisionExhausted
               else Inr (terrain_revision c)) (\<lambda>expected_terrain_next.
        if next_terrain_revision p \<noteq> expected_terrain_next
        then Inl (InvalidTerrainRevisionTransition expected_terrain_next (next_terrain_revision p))
        else
          rbind (if patch_light_changed p
                 then ok_or (checked_add (light_revision c) 1) LightRevisionExhausted
                 else Inr (light_revision c)) (\<lambda>expected_light_next.
          if next_light_revision p \<noteq> expected_light_next
          then Inl (InvalidLightRevisionTransition expected_light_next (next_light_revision p))
          else Inr ((), c\<lparr>chunk_data := patch_data p (chunk_data c),
                           terrain_revision := next_terrain_revision p,
                           light_revision := next_light_revision p\<rparr>))))"

definition apply_patch :: "ChunkCoord \<Rightarrow> ChunkPatch \<Rightarrow> unit world_op" where
  "apply_patch pos p =
     op_bind (op_lift (validate_patch p)) (\<lambda>_.
     op_bind (with_chunk_mut pos (patch_chunk p)) (\<lambda>_.
     case patch_change_kind p of
       Some kind \<Rightarrow> record_change pos kind
     | None \<Rightarrow> op_lift (Inr ())))"

section \<open>Residency\<close>

definition contains_chunk :: "WorldStore \<Rightarrow> ChunkCoord \<Rightarrow> bool" where
  "contains_chunk s pos =
     (case hm_get (regions s) (region_for pos) of
        None \<Rightarrow> False
      | Some region \<Rightarrow> hm_get (chunks region) pos \<noteq> None)"

definition ensure_chunk :: "ChunkCoord \<Rightarrow> u8 \<Rightarrow> bool world_op" where
  "ensure_chunk pos biome s =
     (case ok_or (default_biome_word biome) (InvalidBiome biome) of
        Inl e \<Rightarrow> (Inl e, s)
      | Inr word \<Rightarrow>
          let (region, s) = region_or_create pos s
          in if hm_get (chunks region) pos \<noteq> None then (Inr False, s)
             else (Inr True, store_chunk pos (ChunkRecord_empty word) region s))"

definition import_chunk_if_absent :: "ChunkCoord \<Rightarrow> ChunkImport \<Rightarrow> bool world_op" where
  "import_chunk_if_absent pos imp s =
     (case validate_import imp of
        Inl e \<Rightarrow> (Inl e, s)
      | Inr _ \<Rightarrow>
          let (region, s) = region_or_create pos s
          in if hm_get (chunks region) pos \<noteq> None then (Inr False, s)
             else (Inr True, store_chunk pos (ChunkRecord_from_import imp) region s))"

definition import_chunk :: "ChunkCoord \<Rightarrow> ChunkImport \<Rightarrow> unit world_op" where
  "import_chunk pos imp s =
     (case validate_import imp of
        Inl e \<Rightarrow> (Inl e, s)
      | Inr _ \<Rightarrow>
          let (region, s) = region_or_create pos s
          in (Inr (), store_chunk pos (ChunkRecord_from_import imp) region s))"

text \<open>
  The replacement of a resident chunk by generator output. The two revision bumps are
  separate writes, so a failing light bump leaves the terrain revision already advanced.
\<close>

definition install_over :: "ChunkImport \<Rightarrow> ChunkRecord \<Rightarrow> (WorldStoreError + bool) \<times> ChunkRecord" where
  "install_over imp c =
     (let new_data = import_data imp; d = chunk_data c;
          terrain_changed = (states d \<noteq> states new_data \<or> biomes d \<noteq> biomes new_data
            \<or> height_map d \<noteq> height_map new_data \<or> extra_data d \<noteq> extra_data new_data);
          light_changed = (sky_light d \<noteq> sky_light new_data \<or> block_light d \<noteq> block_light new_data);
          lifecycle_changed = (lifecycle_flags c \<noteq> imp_lifecycle_flags imp)
      in case (if terrain_changed
               then ok_or (checked_add (terrain_revision c) 1) TerrainRevisionExhausted
               else Inr (terrain_revision c)) of
           Inl e \<Rightarrow> (Inl e, c)
         | Inr tr \<Rightarrow>
             let c = c\<lparr>terrain_revision := tr\<rparr>
             in case (if light_changed
                      then ok_or (checked_add (light_revision c) 1) LightRevisionExhausted
                      else Inr (light_revision c)) of
                  Inl e \<Rightarrow> (Inl e, c)
                | Inr lr \<Rightarrow>
                    let c = c\<lparr>light_revision := lr\<rparr>;
                        c = (if terrain_changed \<or> light_changed then c\<lparr>chunk_data := new_data\<rparr> else c)
                    in (Inr (terrain_changed \<or> light_changed \<or> lifecycle_changed),
                        c\<lparr>lifecycle_flags := imp_lifecycle_flags imp\<rparr>))"

definition generated_record :: "ChunkImport \<Rightarrow> ChunkRecord" where
  "generated_record imp =
     \<lparr>terrain_revision = 0, light_revision = 0, persisted_terrain_revision = None,
      persisted_light_revision = None, persisted_lifecycle_flags = None, pin_count = 0,
      lifecycle_flags = imp_lifecycle_flags imp, chunk_data = import_data imp\<rparr>"

definition install_generated_chunk :: "ChunkCoord \<Rightarrow> ChunkImport \<Rightarrow> bool world_op" where
  "install_generated_chunk pos imp s =
     (case validate_import imp of
        Inl e \<Rightarrow> (Inl e, s)
      | Inr _ \<Rightarrow>
          let (region, s) = region_or_create pos s
          in case hm_get (chunks region) pos of
               None \<Rightarrow> (Inr True, store_chunk pos (generated_record imp) region s)
             | Some c \<Rightarrow>
                 let (result, c) = install_over imp c in (result, store_chunk pos c region s))"

definition WorldStore_lifecycle_flags :: "ChunkCoord \<Rightarrow> u8 world_op" where
  "WorldStore_lifecycle_flags pos = with_chunk pos (\<lambda>c. Inr (lifecycle_flags c))"

definition set_lifecycle_flags :: "ChunkCoord \<Rightarrow> u8 \<Rightarrow> unit world_op" where
  "set_lifecycle_flags pos flags =
     op_bind (op_lift (validate_lifecycle_flags flags)) (\<lambda>_.
     with_chunk_mut pos (\<lambda>c. Inr ((), c\<lparr>lifecycle_flags := flags\<rparr>)))"

definition pin_chunk :: "ChunkCoord \<Rightarrow> u32 world_op" where
  "pin_chunk pos =
     with_chunk_mut pos (\<lambda>c.
       rbind (ok_or (checked_add (pin_count c) 1) PinCountExhausted) (\<lambda>n.
       Inr (n, c\<lparr>pin_count := n\<rparr>)))"

definition unpin_chunk :: "ChunkCoord \<Rightarrow> u32 world_op" where
  "unpin_chunk pos =
     with_chunk_mut pos (\<lambda>c.
       if pin_count c = 0 then Inl ChunkNotPinned
       else Inr (pin_count c - 1, c\<lparr>pin_count := pin_count c - 1\<rparr>))"

definition WorldStore_pin_count :: "ChunkCoord \<Rightarrow> u32 world_op" where
  "WorldStore_pin_count pos = with_chunk pos (\<lambda>c. Inr (pin_count c))"

definition total_pin_count :: "WorldStore \<Rightarrow> u64" where
  "total_pin_count s =
     sum_list (map (\<lambda>(_, region). sum_list (map (\<lambda>(_, c). ucast (pin_count c)) (chunks region))) (regions s))"

definition WorldStore_is_dirty :: "ChunkCoord \<Rightarrow> bool world_op" where
  "WorldStore_is_dirty pos = with_chunk pos (\<lambda>c. Inr (ChunkRecord_is_dirty c))"

text \<open>The nested loops with their early return: at most \<open>limit\<close> snapshots, in iteration order.\<close>

fun dirty_in_chunks ::
  "nat \<Rightarrow> ChunkCoord set \<Rightarrow> (ChunkCoord \<times> ChunkRecord) list \<Rightarrow> ChunkSnapshot list \<Rightarrow> bool \<times> ChunkSnapshot list" where
  "dirty_in_chunks limit excluded [] snapshots = (False, snapshots)"
| "dirty_in_chunks limit excluded ((pos, c) # cs) snapshots =
     (if ChunkRecord_is_dirty c \<and> pos \<notin> excluded
      then let snapshots = snapshots @ [snapshot_of pos c]
           in if length snapshots = limit then (True, snapshots)
              else dirty_in_chunks limit excluded cs snapshots
      else dirty_in_chunks limit excluded cs snapshots)"

fun dirty_in_regions ::
  "nat \<Rightarrow> ChunkCoord set \<Rightarrow> (RegionId \<times> RegionShard) list \<Rightarrow> ChunkSnapshot list \<Rightarrow> ChunkSnapshot list" where
  "dirty_in_regions limit excluded [] snapshots = snapshots"
| "dirty_in_regions limit excluded ((_, region) # rs) snapshots =
     (case dirty_in_chunks limit excluded (chunks region) snapshots of
        (True, snapshots) \<Rightarrow> snapshots
      | (False, snapshots) \<Rightarrow> dirty_in_regions limit excluded rs snapshots)"

definition dirty_snapshots_excluding :: "nat \<Rightarrow> ChunkCoord set \<Rightarrow> WorldStore \<Rightarrow> ChunkSnapshot list" where
  "dirty_snapshots_excluding limit excluded s =
     (if limit = 0 then [] else dirty_in_regions limit excluded (regions s) [])"

definition persisted_revisions :: "ChunkCoord \<Rightarrow> (u64 option \<times> u64 option) world_op" where
  "persisted_revisions pos =
     with_chunk pos (\<lambda>c. Inr (persisted_terrain_revision c, persisted_light_revision c))"

definition mark_persisted :: "ChunkCoord \<Rightarrow> u64 \<Rightarrow> u64 \<Rightarrow> u8 \<Rightarrow> unit world_op" where
  "mark_persisted pos tr lr flags =
     op_bind (op_lift (validate_lifecycle_flags flags)) (\<lambda>_.
     with_chunk_mut pos (\<lambda>c.
       if tr > terrain_revision c then Inl (PersistedTerrainRevisionAhead tr (terrain_revision c))
       else if lr > light_revision c then Inl (PersistedLightRevisionAhead lr (light_revision c))
       else
         rbind (case persisted_terrain_revision c of
                  Some previous \<Rightarrow> ensure (\<not> tr < previous) (PersistedTerrainRevisionRegression previous tr)
                | None \<Rightarrow> Inr ()) (\<lambda>_.
         rbind (case persisted_light_revision c of
                  Some previous \<Rightarrow> ensure (\<not> lr < previous) (PersistedLightRevisionRegression previous lr)
                | None \<Rightarrow> Inr ()) (\<lambda>_.
         Inr ((), c\<lparr>persisted_terrain_revision := Some tr, persisted_light_revision := Some lr,
                    persisted_lifecycle_flags := Some flags\<rparr>)))))"

definition try_evict_chunk :: "ChunkCoord \<Rightarrow> ChunkEviction world_op" where
  "try_evict_chunk pos s =
     (case hm_get (regions s) (region_for pos) of
        None \<Rightarrow> (Inr Missing, s)
      | Some region \<Rightarrow>
          (case hm_get (chunks region) pos of
             None \<Rightarrow> (Inr Missing, s)
           | Some c \<Rightarrow>
               if pin_count c \<noteq> 0 then (Inr (Pinned (pin_count c)), s)
               else if ChunkRecord_is_dirty c then (Inr Dirty, s)
               else
                 let region = region\<lparr>chunks := hm_remove pos (chunks region)\<rparr>;
                     s = s\<lparr>regions := hm_insert (region_for pos) region (regions s)\<rparr>
                 in (Inr Evicted,
                     if chunks region = []
                     then s\<lparr>regions := hm_remove (region_for pos) (regions s)\<rparr>
                     else s)))"

section \<open>Invariant and abstraction\<close>

text \<open>The store as a map from positions to records: what every operation is specified against.\<close>

definition ws_chunk :: "WorldStore \<Rightarrow> ChunkCoord \<Rightarrow> ChunkRecord option" where
  "ws_chunk s pos =
     (case hm_get (regions s) (region_for pos) of
        None \<Rightarrow> None
      | Some region \<Rightarrow> hm_get (chunks region) pos)"

definition shard_ok :: "RegionId \<Rightarrow> RegionShard \<Rightarrow> bool" where
  "shard_ok g sh \<longleftrightarrow> hm_wf (chunks sh)
     \<and> (\<forall>pos c. hm_get (chunks sh) pos = Some c \<longrightarrow> region_for pos = g \<and> chunk_ok c)"

text \<open>The log holds the latest changes, numbered without gaps up to \<open>next_sequence - 1\<close>.\<close>

definition log_ok :: "WorldChangeLog \<Rightarrow> bool" where
  "log_ok log \<longleftrightarrow> length (log_changes log) \<le> WORLD_CHANGE_LOG_CAPACITY
     \<and> length (log_changes log) < unat (next_sequence log)
     \<and> map (unat \<circ> change_sequence) (log_changes log)
         = [unat (next_sequence log) - length (log_changes log)..<unat (next_sequence log)]"

definition world_inv :: "WorldStore \<Rightarrow> bool" where
  "world_inv s \<longleftrightarrow> hm_wf (regions s)
     \<and> (\<forall>g sh. hm_get (regions s) g = Some sh \<longrightarrow> shard_ok g sh \<and> chunks sh \<noteq> [])
     \<and> log_ok (changes s)"

inductive world_step :: "WorldStore \<Rightarrow> WorldStore \<Rightarrow> bool" where
  ws_set_block: "world_step s (snd (set_block_state pos x y z st s))"
| ws_fill_layers: "world_step s (snd (fill_layers pos sy n st s))"
| ws_set_biome_word: "world_step s (snd (set_biome_word pos x z w s))"
| ws_set_biome: "world_step s (snd (set_biome pos x z b s))"
| ws_set_biome_color: "world_step s (snd (set_biome_color pos x z col s))"
| ws_fill_biome: "world_step s (snd (fill_biome pos b s))"
| ws_set_sky_light: "world_step s (snd (set_sky_light pos x y z l s))"
| ws_fill_sky_light: "world_step s (snd (fill_sky_light_from pos y l s))"
| ws_set_block_light: "world_step s (snd (set_block_light pos x y z l s))"
| ws_recalculate: "world_step s (snd (recalculate_height_map pos s))"
| ws_set_extra: "world_step s (snd (set_block_extra_data pos x y z v s))"
| ws_commit_terrain: "world_step s (snd (commit_terrain_revision pos r r' s))"
| ws_commit_light: "world_step s (snd (commit_light_revision pos r r' s))"
| ws_prune: "world_step s (prune_changes_through q s)"
| ws_patch: "world_step s (snd (apply_patch pos p s))"
| ws_ensure: "world_step s (snd (ensure_chunk pos b s))"
| ws_import_absent: "bt_wf (imp_extra_data imp) \<Longrightarrow> world_step s (snd (import_chunk_if_absent pos imp s))"
| ws_import: "bt_wf (imp_extra_data imp) \<Longrightarrow> world_step s (snd (import_chunk pos imp s))"
| ws_install: "bt_wf (imp_extra_data imp) \<Longrightarrow> world_step s (snd (install_generated_chunk pos imp s))"
| ws_set_flags: "world_step s (snd (set_lifecycle_flags pos f s))"
| ws_pin: "world_step s (snd (pin_chunk pos s))"
| ws_unpin: "world_step s (snd (unpin_chunk pos s))"
| ws_mark: "world_step s (snd (mark_persisted pos tr lr f s))"
| ws_evict: "world_step s (snd (try_evict_chunk pos s))"

lemma op_simps [simp]:
  "op_lift r s = (r, s)"
  "op_bind m f s = (case m s of (Inl e, s') \<Rightarrow> (Inl e, s') | (Inr x, s') \<Rightarrow> f x s')"
  by (simp_all add: op_lift_def op_bind_def)

lemma world_invD:
  assumes "world_inv s"
  shows "hm_wf (regions s)" and "hm_get (regions s) g = Some sh \<Longrightarrow> shard_ok g sh"
    and "hm_get (regions s) g = Some sh \<Longrightarrow> chunks sh \<noteq> []" and "log_ok (changes s)"
  using assms by (auto simp: world_inv_def)

lemma ws_chunk_ok: "world_inv s \<Longrightarrow> ws_chunk s pos = Some c \<Longrightarrow> chunk_ok c"
  by (auto simp: ws_chunk_def world_inv_def shard_ok_def split: option.splits)

lemma world_inv_new: "world_inv WorldStore_new"
  by (simp add: world_inv_def WorldStore_new_def WorldChangeLog_default_def log_ok_def)

lemma ws_chunk_changes [simp]: "ws_chunk (s\<lparr>changes := l\<rparr>) = ws_chunk s"
  by (simp add: ws_chunk_def fun_eq_iff)

lemma shard_ok_insert:
  "shard_ok (region_for pos) sh \<Longrightarrow> chunk_ok c \<Longrightarrow> shard_ok (region_for pos) (sh\<lparr>chunks := hm_insert pos c (chunks sh)\<rparr>)"
  by (auto simp: shard_ok_def hm.wf_put update_conv')

lemma store_chunk_inv:
  assumes "hm_wf (regions s)" and "log_ok (changes s)"
    and "\<And>g sh. g \<noteq> region_for pos \<Longrightarrow> hm_get (regions s) g = Some sh \<Longrightarrow> shard_ok g sh \<and> chunks sh \<noteq> []"
    and "shard_ok (region_for pos) sh" and "chunk_ok c"
  shows "world_inv (store_chunk pos c sh s)"
  using assms shard_ok_insert [OF assms(4,5)]
  by (auto simp: world_inv_def store_chunk_def hm.wf_put update_conv' update_nonempty)

lemma ws_chunk_store:
  assumes "\<And>p. region_for p = region_for pos \<Longrightarrow> ws_chunk s p = hm_get (chunks sh) p"
  shows "ws_chunk (store_chunk pos c sh s) = (ws_chunk s)(pos \<mapsto> c)"
proof
  fix p
  show "ws_chunk (store_chunk pos c sh s) p = ((ws_chunk s)(pos \<mapsto> c)) p"
    using assms [of p]
    by (cases "region_for p = region_for pos") (auto simp: ws_chunk_def store_chunk_def update_conv')
qed

lemma changes_store [simp]: "changes (store_chunk pos c sh s) = changes s"
  by (simp add: store_chunk_def)

definition put_chunk :: "ChunkCoord \<Rightarrow> ChunkRecord \<Rightarrow> WorldStore \<Rightarrow> WorldStore" where
  "put_chunk pos c s = (case region_or_create pos s of (sh, s1) \<Rightarrow> store_chunk pos c sh s1)"

lemma put_chunk_changes [simp]: "changes (put_chunk pos c s) = changes s"
  by (simp add: put_chunk_def region_or_create_def Let_def split: option.splits)

lemma ws_chunk_put [simp]: "ws_chunk (put_chunk pos c s) = (ws_chunk s)(pos \<mapsto> c)"
proof (cases "hm_get (regions s) (region_for pos)")
  case None
  let ?s = "s\<lparr>regions := hm_insert (region_for pos) \<lparr>chunks = []\<rparr> (regions s)\<rparr>"
  have "ws_chunk ?s = ws_chunk s"
    using None by (auto simp: ws_chunk_def fun_eq_iff update_conv')
  moreover have "ws_chunk (store_chunk pos c \<lparr>chunks = []\<rparr> ?s) = (ws_chunk ?s)(pos \<mapsto> c)"
    by (rule ws_chunk_store) (simp add: ws_chunk_def update_conv')
  ultimately show ?thesis using None by (simp add: put_chunk_def region_or_create_def Let_def)
next
  case (Some sh)
  then have "ws_chunk (store_chunk pos c sh s) = (ws_chunk s)(pos \<mapsto> c)"
    by (intro ws_chunk_store) (simp add: ws_chunk_def)
  with Some show ?thesis by (simp add: put_chunk_def region_or_create_def)
qed

lemma put_chunk_inv:
  assumes "world_inv s" and "chunk_ok c"
  shows "world_inv (put_chunk pos c s)"
proof (cases "hm_get (regions s) (region_for pos)")
  case None
  have "shard_ok (region_for pos) \<lparr>chunks = []\<rparr>" by (simp add: shard_ok_def)
  with None assms world_invD [OF assms(1)] show ?thesis
    by (auto simp: put_chunk_def region_or_create_def Let_def update_conv' hm.wf_put intro!: store_chunk_inv)
next
  case (Some sh)
  with assms world_invD [OF assms(1)] show ?thesis
    by (auto simp: put_chunk_def region_or_create_def intro!: store_chunk_inv)
qed

text \<open>The store operations in terms of the abstraction.\<close>

lemma with_chunk_alt:
  "with_chunk pos f s = (rbind (ok_or (ws_chunk s pos) (chunk_missing pos)) f, s)"
  by (cases "hm_get (regions s) (region_for pos)") (simp_all add: with_chunk_def WorldStore_region_def ws_chunk_def)

lemma with_chunk_mut_alt:
  "with_chunk_mut pos f s =
     (case ws_chunk s pos of
        None \<Rightarrow> (Inl (chunk_missing pos), s)
      | Some c \<Rightarrow> (case f c of Inl e \<Rightarrow> (Inl e, s) | Inr (x, c') \<Rightarrow> (Inr x, put_chunk pos c' s)))"
  by (auto simp: with_chunk_mut_def WorldStore_region_def ws_chunk_def put_chunk_def region_or_create_def
      split: option.splits sum.splits)

lemma contains_chunk_alt: "contains_chunk s pos \<longleftrightarrow> ws_chunk s pos \<noteq> None"
  by (simp add: contains_chunk_def ws_chunk_def split: option.splits)

lemma region_or_create_alt:
  "world_inv s \<Longrightarrow> region_or_create pos s = (sh, s') \<Longrightarrow>
   hm_get (chunks sh) pos = ws_chunk s pos \<and> store_chunk pos c sh s' = put_chunk pos c s
   \<and> (ws_chunk s pos \<noteq> None \<longrightarrow> s' = s)"
  by (auto simp: region_or_create_def ws_chunk_def put_chunk_def Let_def split: option.splits)

lemma ensure_chunk_alt:
  assumes "world_inv s"
  shows "ensure_chunk pos biome s =
    (case default_biome_word biome of
       None \<Rightarrow> (Inl (InvalidBiome biome), s)
     | Some w \<Rightarrow> if ws_chunk s pos \<noteq> None then (Inr False, s)
                 else (Inr True, put_chunk pos (ChunkRecord_empty w) s))"
  using region_or_create_alt [OF assms, of pos]
  by (cases "region_or_create pos s") (auto simp: ensure_chunk_def split: option.splits)

lemma import_if_absent_alt:
  assumes "world_inv s"
  shows "import_chunk_if_absent pos imp s =
    (case validate_import imp of
       Inl e \<Rightarrow> (Inl e, s)
     | Inr _ \<Rightarrow> if ws_chunk s pos \<noteq> None then (Inr False, s)
                 else (Inr True, put_chunk pos (ChunkRecord_from_import imp) s))"
  using region_or_create_alt [OF assms, of pos]
  by (cases "region_or_create pos s") (auto simp: import_chunk_if_absent_def split: sum.splits)

lemma import_chunk_alt:
  assumes "world_inv s"
  shows "import_chunk pos imp s =
    (case validate_import imp of
       Inl e \<Rightarrow> (Inl e, s)
     | Inr _ \<Rightarrow> (Inr (), put_chunk pos (ChunkRecord_from_import imp) s))"
  using region_or_create_alt [OF assms, of pos]
  by (cases "region_or_create pos s") (auto simp: import_chunk_def split: sum.splits)

lemma install_generated_alt:
  assumes "world_inv s"
  shows "install_generated_chunk pos imp s =
    (case validate_import imp of
       Inl e \<Rightarrow> (Inl e, s)
     | Inr _ \<Rightarrow> (case ws_chunk s pos of
          None \<Rightarrow> (Inr True, put_chunk pos (generated_record imp) s)
        | Some c \<Rightarrow> (fst (install_over imp c), put_chunk pos (snd (install_over imp c)) s)))"
  using region_or_create_alt [OF assms, of pos]
  by (cases "region_or_create pos s")
    (auto simp: install_generated_chunk_def split: sum.splits option.splits prod.splits)

lemma ws_evict_spec:
  assumes inv: "world_inv s" and c: "ws_chunk s pos = Some c"
    and ev: "try_evict_chunk pos s = (Inr Evicted, s')"
  shows "ws_chunk s' = (ws_chunk s)(pos := None)" and "world_inv s'" and "changes s' = changes s"
proof -
  from c obtain sh where sh: "hm_get (regions s) (region_for pos) = Some sh" "hm_get (chunks sh) pos = Some c"
    by (auto simp: ws_chunk_def split: option.splits)
  let ?sh = "sh\<lparr>chunks := hm_remove pos (chunks sh)\<rparr>"
  let ?s1 = "s\<lparr>regions := hm_insert (region_for pos) ?sh (regions s)\<rparr>"
  have s': "s' = (if chunks ?sh = [] then ?s1\<lparr>regions := hm_remove (region_for pos) (regions ?s1)\<rparr> else ?s1)"
    using ev sh by (auto simp: try_evict_chunk_def Let_def split: if_splits)
  have shok: "shard_ok (region_for pos) sh" by (rule world_invD(2) [OF inv sh(1)])
  then have shok': "shard_ok (region_for pos) ?sh" by (auto simp: shard_ok_def hm.wf_del delete_conv')
  have "ws_chunk ?s1 = (ws_chunk s)(pos := None)"
    using sh by (auto simp: ws_chunk_def fun_eq_iff update_conv' delete_conv')
  moreover have "ws_chunk (?s1\<lparr>regions := hm_remove (region_for pos) (regions ?s1)\<rparr>) = ws_chunk ?s1"
    if "chunks ?sh = []"
    using that by (auto simp: ws_chunk_def fun_eq_iff update_conv' delete_conv')
  ultimately show "ws_chunk s' = (ws_chunk s)(pos := None)" by (auto simp: s')
  show "world_inv s'"
    using world_invD [OF inv] shok'
    by (auto simp: s' world_inv_def hm.wf_put hm.wf_del update_conv' delete_conv' split: if_splits)
  show "changes s' = changes s" by (simp add: s')
qed

lemma try_evict_alt:
  assumes "world_inv s"
  shows "try_evict_chunk pos s =
    (case ws_chunk s pos of
       None \<Rightarrow> (Inr Missing, s)
     | Some c \<Rightarrow> if pin_count c \<noteq> 0 then (Inr (Pinned (pin_count c)), s)
                 else if ChunkRecord_is_dirty c then (Inr Dirty, s)
                 else (Inr Evicted, snd (try_evict_chunk pos s)))"
  by (auto simp: try_evict_chunk_def ws_chunk_def Let_def split: option.splits)

section \<open>Every operation preserves the invariant\<close>

lemma list_all_update: "list_all P xs \<Longrightarrow> P v \<Longrightarrow> list_all P (xs[i := v])"
  by (auto simp: list_all_iff dest!: subsetD [OF set_update_subset_insert])

lemma chunk_data_ok_updates:
  assumes "chunk_data_ok d"
  shows "world_block_state_id_is_supported st \<Longrightarrow> chunk_data_ok (d\<lparr>states := (states d)[i := st]\<rparr>)"
    and "biome_id_is_supported (biome_id w) \<Longrightarrow> chunk_data_ok (d\<lparr>biomes := (biomes d)[i := w]\<rparr>)"
    and "chunk_data_ok (d\<lparr>extra_data := set_extra k v (extra_data d)\<rparr>)"
    and "length sl = NIBBLE_BYTES \<Longrightarrow> chunk_data_ok (d\<lparr>sky_light := sl\<rparr>)"
    and "length bl = NIBBLE_BYTES \<Longrightarrow> chunk_data_ok (d\<lparr>block_light := bl\<rparr>)"
    and "chunk_data_ok (fold recalculate_column_height cs d)"
    and "chunk_data_ok (recalculate_column_height k' d)"
    and "chunk_data_ok (recalculate_all_heights d)"
  using assms by (simp_all add: chunk_data_ok_def list_all_update set_extra_def bt.wf_put bt.wf_del)

lemma chunk_ok_data: "chunk_ok c \<Longrightarrow> chunk_data_ok d \<Longrightarrow> chunk_ok (c\<lparr>chunk_data := d\<rparr>)"
  by (simp add: chunk_ok_def)

lemma chunk_ok_map_data:
  "chunk_ok c \<Longrightarrow> (chunk_data_ok (chunk_data c) \<Longrightarrow> chunk_data_ok (f (chunk_data c))) \<Longrightarrow> chunk_ok (map_data f c)"
  by (simp add: map_data_def chunk_ok_def)

lemma chunk_okD: "chunk_ok c \<Longrightarrow> chunk_data_ok (chunk_data c)"
  by (simp add: chunk_ok_def)

lemma length_fold_write_nibble [simp]: "length (fold (\<lambda>i. write_nibble i l) is bs) = length bs"
  by (induction "is" arbitrary: bs) simp_all

lemma u64_succ_mono: "checked_add (r :: u64) 1 = Some r' \<Longrightarrow> x \<le> r \<Longrightarrow> x \<le> r'"
  using checked_add_1_less [of r r'] by (meson less_imp_le order_trans)

text \<open>An operation keeps a predicate of stores.\<close>

definition keeps :: "(WorldStore \<Rightarrow> bool) \<Rightarrow> 'a world_op \<Rightarrow> bool" where
  "keeps J op \<longleftrightarrow> (\<forall>s. J s \<longrightarrow> J (snd (op s)))"

named_theorems keeps_intros \<open>invariant preservation of operation combinators\<close>

lemma keepsD: "keeps J op \<Longrightarrow> J s \<Longrightarrow> J (snd (op s))"
  by (simp add: keeps_def)

lemma keeps_lift [keeps_intros]: "keeps J (op_lift r)"
  by (simp add: keeps_def)

lemma keeps_lift_bind [keeps_intros]: "(\<And>x. r = Inr x \<Longrightarrow> keeps J (f x)) \<Longrightarrow> keeps J (op_bind (op_lift r) f)"
  by (auto simp: keeps_def split: sum.splits)

lemma keeps_bind: "keeps J m \<Longrightarrow> (\<And>x. keeps J (f x)) \<Longrightarrow> keeps J (op_bind m f)"
  unfolding keeps_def by (auto split: sum.splits prod.splits)

lemma keeps_with_chunk [keeps_intros]: "keeps J (with_chunk pos f)"
  by (simp add: keeps_def with_chunk_def)

lemma keeps_with_chunk_mut:
  assumes "\<And>s c x c'. J s \<Longrightarrow> ws_chunk s pos = Some c \<Longrightarrow> f c = Inr (x, c') \<Longrightarrow> J (put_chunk pos c' s)"
  shows "keeps J (with_chunk_mut pos f)"
  using assms by (auto simp: keeps_def with_chunk_mut_alt split: option.splits sum.splits)

lemma keeps_mut_inv [keeps_intros]:
  "(\<And>c x c'. chunk_ok c \<Longrightarrow> f c = Inr (x, c') \<Longrightarrow> chunk_ok c') \<Longrightarrow> keeps world_inv (with_chunk_mut pos f)"
  by (rule keeps_with_chunk_mut) (metis put_chunk_inv ws_chunk_ok)

lemmas chunk_ok_intros = chunk_ok_data chunk_ok_map_data chunk_data_ok_updates chunk_okD

lemma set_block_state_inv: "keeps world_inv (set_block_state pos x y z st)"
  unfolding set_block_state_def
  by (intro keeps_intros) (auto simp: result_simps Let_def intro!: chunk_ok_intros)

lemma fill_layers_ok:
  assumes "chunk_data_ok d" and "world_block_state_id_is_supported st" and "i \<le> j" and "j \<le> BLOCK_COUNT"
  shows "chunk_data_ok (d\<lparr>states := take i (states d) @ replicate (j - i) st @ drop j (states d)\<rparr>)"
  using assms by (auto simp: chunk_data_ok_def list_all_iff dest: in_set_takeD in_set_dropD)

lemma fill_layers_inv: "keeps world_inv (fill_layers pos sy n st)"
proof -
  have "(unat sy + unat n) * COLUMN_COUNT \<le> BLOCK_COUNT" if "unat sy + unat n \<le> HEIGHT"
    using that by (simp add: BLOCK_COUNT_eq(1) mult.commute)
  then show ?thesis
    unfolding fill_layers_def Let_def
    by (intro keeps_intros)
      (auto simp: result_simps intro!: chunk_ok_data chunk_data_ok_updates fill_layers_ok chunk_okD)
qed

lemma set_biome_word_inv: "keeps world_inv (set_biome_word pos x z w)"
  unfolding set_biome_word_def
  by (intro keeps_intros) (auto simp: result_simps intro!: chunk_ok_intros)

lemma biome_word_keeps [keeps_intros]: "keeps J (biome_word pos x z)"
  unfolding biome_word_def by (intro keeps_intros)

lemma set_biome_inv: "keeps world_inv (set_biome pos x z b)"
  unfolding set_biome_def by (intro keeps_intros keeps_bind set_biome_word_inv)

lemma set_biome_color_inv: "keeps world_inv (set_biome_color pos x z col)"
  unfolding set_biome_color_def by (intro keeps_intros keeps_bind set_biome_word_inv)

lemma fill_biome_inv: "keeps world_inv (fill_biome pos b)"
  unfolding fill_biome_def
  by (intro keeps_intros) (auto simp: result_simps chunk_data_ok_def list_all_iff intro!: chunk_ok_map_data)

lemma set_sky_light_inv: "keeps world_inv (set_sky_light pos x y z l)"
  unfolding set_sky_light_def
  by (intro keeps_intros) (auto simp: chunk_data_ok_def intro!: chunk_ok_map_data)

lemma fill_sky_light_inv: "keeps world_inv (fill_sky_light_from pos y l)"
  unfolding fill_sky_light_from_def
  by (intro keeps_intros) (auto simp: chunk_data_ok_def intro!: chunk_ok_map_data)

lemma set_block_light_inv: "keeps world_inv (set_block_light pos x y z l)"
  unfolding set_block_light_def
  by (intro keeps_intros) (auto simp: chunk_data_ok_def intro!: chunk_ok_map_data)

lemma recalculate_inv: "keeps world_inv (recalculate_height_map pos)"
  unfolding recalculate_height_map_def
  by (intro keeps_intros) (auto intro!: chunk_ok_intros)

lemma set_extra_inv: "keeps world_inv (set_block_extra_data pos x y z v)"
  unfolding set_block_extra_data_def
  by (intro keeps_intros) (auto intro!: chunk_ok_intros)

lemma commit_terrain_inv: "keeps world_inv (commit_terrain_revision pos r r')"
  unfolding commit_terrain_revision_def
  by (intro keeps_intros) (auto simp: result_simps chunk_ok_def split: if_splits intro: u64_succ_mono)

lemma commit_light_inv: "keeps world_inv (commit_light_revision pos r r')"
  unfolding commit_light_revision_def
  by (intro keeps_intros) (auto simp: result_simps chunk_ok_def split: if_splits intro: u64_succ_mono)

lemma set_flags_inv: "keeps world_inv (set_lifecycle_flags pos f)"
  unfolding set_lifecycle_flags_def
  by (intro keeps_intros) (auto simp: result_simps chunk_ok_def)

lemma pin_inv: "keeps world_inv (pin_chunk pos)"
  unfolding pin_chunk_def by (intro keeps_intros) (auto simp: result_simps chunk_ok_def)

lemma unpin_inv: "keeps world_inv (unpin_chunk pos)"
  unfolding unpin_chunk_def by (intro keeps_intros) (auto simp: chunk_ok_def split: if_splits)

lemma mark_persisted_inv: "keeps world_inv (mark_persisted pos tr lr f)"
  unfolding mark_persisted_def
  by (intro keeps_intros) (auto simp: result_simps chunk_ok_def split: if_splits)

lemma log_ok_drop:
  assumes "log_ok log"
  shows "log_ok (log\<lparr>log_changes := drop k (log_changes log)\<rparr>)"
proof -
  let ?n = "unat (next_sequence log)" and ?l = "length (log_changes log)"
  have "map (unat \<circ> change_sequence) (drop k (log_changes log)) = drop k [?n - ?l..<?n]"
    using assms by (simp add: log_ok_def drop_map [symmetric])
  also have "\<dots> = [?n - (?l - k)..<?n]"
    using assms by (cases "k \<le> ?l") (auto simp: log_ok_def)
  finally show ?thesis using assms by (auto simp: log_ok_def)
qed

lemma log_ok_push:
  assumes "log_ok log" and "length (log_changes log) < WORLD_CHANGE_LOG_CAPACITY"
    and "checked_add (next_sequence log) 1 = Some n'" and "change_sequence c = next_sequence log"
  shows "log_ok \<lparr>next_sequence = n', log_changes = log_changes log @ [c]\<rparr>"
proof -
  have "unat n' = Suc (unat (next_sequence log))" using checked_add_unat [OF assms(3)] by simp
  with assms show ?thesis by (simp add: log_ok_def)
qed

lemma log_ok_record:
  assumes "log_ok (changes s)" and "record_change pos kind s = (r, s')"
  shows "log_ok (changes s')"
proof (cases "checked_add (next_sequence (changes s)) 1")
  case None
  with assms show ?thesis by (auto simp: record_change_def Let_def)
next
  case (Some n')
  let ?log = "changes s"
  let ?kept = "if length (log_changes ?log) = WORLD_CHANGE_LOG_CAPACITY then tl (log_changes ?log) else log_changes ?log"
  have "log_ok (?log\<lparr>log_changes := ?kept\<rparr>)"
    using assms(1) log_ok_drop [OF assms(1), of 1] by (simp add: drop_Suc)
  moreover have "length ?kept < WORLD_CHANGE_LOG_CAPACITY"
    using assms(1) by (auto simp: log_ok_def WORLD_CHANGE_LOG_CAPACITY_def)
  ultimately show ?thesis
    using log_ok_push [of "?log\<lparr>log_changes := ?kept\<rparr>" n'
        "\<lparr>change_sequence = next_sequence ?log, change_position = pos, change_kind = kind\<rparr>"] Some assms(2)
    by (auto simp: record_change_def Let_def)
qed

lemma record_change_inv [keeps_intros]: "keeps world_inv (record_change pos kind)"
proof -
  have "regions (snd (record_change pos kind s)) = regions s" for s
    by (auto simp: record_change_def Let_def split: option.splits)
  then show ?thesis
    using log_ok_record by (auto simp: keeps_def world_inv_def) (metis prod.collapse)
qed

lemma prune_inv: "world_inv s \<Longrightarrow> world_inv (prune_changes_through q s)"
  using log_ok_drop [of "changes s"] by (auto simp: prune_changes_through_def world_inv_def dropWhile_eq_drop)

section \<open>Patching a chunk\<close>

lemma validate_patch_Inr_iff:
  "validate_patch p = Inr u \<longleftrightarrow>
   (\<forall>(i, st) \<in> set (patch_blocks p). unat i < BLOCK_COUNT \<and> world_block_state_id_is_supported st)
   \<and> (\<forall>(i, w) \<in> set (patch_biomes p). unat i < COLUMN_COUNT \<and> biome_id_is_supported (biome_id w))
   \<and> (\<forall>(i, v) \<in> set (patch_extra_data p). unat i < BLOCK_COUNT)
   \<and> (\<forall>(i, l) \<in> set (patch_sky_light p @ patch_block_light p). unat i < BLOCK_COUNT \<and> l \<le> 0x0f)"
  by (simp add: validate_patch_def result_simps split_def ball_Un)

text \<open>The planes after the loops of \<open>apply_patch\<close>.\<close>

definition patched_states :: "ChunkPatch \<Rightarrow> u16 list \<Rightarrow> u16 list" where
  "patched_states p sts = fold (\<lambda>(i, st) sts. sts[unat i := st]) (patch_blocks p) sts"

definition patched_nibbles :: "(u16 \<times> u8) list \<Rightarrow> bytes \<Rightarrow> bytes" where
  "patched_nibbles ls bs = fold (\<lambda>(i, l). write_nibble (unat i) l) ls bs"

lemma fold_patch_block:
  assumes "length (states d) = BLOCK_COUNT" and "length touched = COLUMN_COUNT"
    and "\<forall>(i, st) \<in> set bs. unat i < BLOCK_COUNT"
  shows "\<exists>t. fold patch_block bs (d, touched) = (d\<lparr>states := fold (\<lambda>(i, st) sts. sts[unat i := st]) bs (states d)\<rparr>, t)
    \<and> length t = COLUMN_COUNT
    \<and> (\<forall>c < COLUMN_COUNT. touched ! c \<longrightarrow> t ! c)
    \<and> (\<forall>i < BLOCK_COUNT. fold (\<lambda>(i, st) sts. sts[unat i := st]) bs (states d) ! i \<noteq> states d ! i \<longrightarrow> t ! (i mod COLUMN_COUNT))"
  using assms
proof (induction bs arbitrary: d touched)
  case Nil
  then show ?case by simp
next
  case (Cons b bs)
  obtain i st where b: "b = (i, st)" by (cases b)
  have and_mod: "unat i AND 0xff = unat i mod COLUMN_COUNT"
    using take_bit_eq_mask [of 8 "unat i"] by (simp add: take_bit_eq_mod mask_eq_exp_minus_1 shape_numerals)
  define d' where "d' = d\<lparr>states := (states d)[unat i := st]\<rparr>"
  define t' where "t' = (if states d ! unat i \<noteq> st then touched[unat i mod COLUMN_COUNT := True] else touched)"
  have step: "patch_block b (d, touched) = (d', t')"
    by (auto simp: b d'_def t'_def Let_def and_mod)
  have "length (states d') = BLOCK_COUNT" and "length t' = COLUMN_COUNT"
    using Cons.prems by (auto simp: d'_def t'_def)
  from Cons.IH [OF this] Cons.prems obtain t where
    t: "fold patch_block bs (d', t') = (d'\<lparr>states := fold (\<lambda>(i, st) sts. sts[unat i := st]) bs (states d')\<rparr>, t)"
      "length t = COLUMN_COUNT" "\<forall>c < COLUMN_COUNT. t' ! c \<longrightarrow> t ! c"
      "\<forall>j < BLOCK_COUNT. fold (\<lambda>(i, st) sts. sts[unat i := st]) bs (states d') ! j \<noteq> states d' ! j \<longrightarrow> t ! (j mod COLUMN_COUNT)"
    by auto
  have col: "j mod COLUMN_COUNT < COLUMN_COUNT" for j by (simp add: shape_numerals)
  have mono: "touched ! c \<longrightarrow> t ! c" if "c < COLUMN_COUNT" for c
    using t(3) that Cons.prems(2) by (auto simp: t'_def nth_list_update split: if_splits)
  have hit: "t ! (j mod COLUMN_COUNT)" if "states d' ! j \<noteq> states d ! j" "j < BLOCK_COUNT" for j
  proof -
    from that have "j = unat i" unfolding d'_def by (metis ChunkData.select_convs(1) ChunkData.surjective
        ChunkData.update_convs(1) nth_list_update_neq)
    with that have "states d ! unat i \<noteq> st" by (auto simp: d'_def)
    note \<open>j = unat i\<close> this
    then have "t' ! (j mod COLUMN_COUNT)" using Cons.prems(2) col by (simp add: t'_def)
    with t(3) col show ?thesis by blast
  qed
  have fold_eq: "fold (\<lambda>(i, st) sts. sts[unat i := st]) (b # bs) (states d)
      = fold (\<lambda>(i, st) sts. sts[unat i := st]) bs (states d')"
    by (simp add: b d'_def)
  show ?case
  proof (intro exI [of _ t] conjI allI impI)
    show "fold patch_block (b # bs) (d, touched)
        = (d\<lparr>states := fold (\<lambda>(i, st) sts. sts[unat i := st]) (b # bs) (states d)\<rparr>, t)"
      unfolding fold_eq by (simp add: step t(1)) (simp add: d'_def)
    show "length t = COLUMN_COUNT" by (rule t(2))
    show "t ! c" if "c < COLUMN_COUNT" "touched ! c" for c using mono that by blast
    fix j
    assume "j < BLOCK_COUNT" and "fold (\<lambda>(i, st) sts. sts[unat i := st]) (b # bs) (states d) ! j \<noteq> states d ! j"
    then show "t ! (j mod COLUMN_COUNT)" unfolding fold_eq using t(4) hit by metis
  qed
qed

lemma fold_touched:
  "fold (\<lambda>(column, hit) d. if hit then recalculate_column_height column d else d) ps d
     = fold recalculate_column_height (map fst (filter snd ps)) d"
  by (induction ps arbitrary: d) auto

lemma touched_columns:
  "length t = n \<Longrightarrow> c \<in> set (map fst (filter snd (zip [0..<n] t))) \<longleftrightarrow> c < n \<and> t ! c"
  by (force simp: set_zip)

definition patched :: "ChunkPatch \<Rightarrow> ChunkData \<Rightarrow> ChunkData" where
  "patched p d = d\<lparr>states := patched_states p (states d),
     biomes := fold (\<lambda>(i, w) bs. bs[unat i := w]) (patch_biomes p) (biomes d),
     extra_data := fold (\<lambda>(i, v). set_extra (linear_index_to_extra_key i) v) (patch_extra_data p) (extra_data d),
     sky_light := patched_nibbles (patch_sky_light p) (sky_light d),
     block_light := patched_nibbles (patch_block_light p) (block_light d)\<rparr>"

lemma fold_field_updates:
  "fold (\<lambda>(i, w) d. d\<lparr>biomes := (biomes d)[unat i := w]\<rparr>) ps d
     = d\<lparr>biomes := fold (\<lambda>(i, w) bs. bs[unat i := w]) ps (biomes d)\<rparr>"
  "fold (\<lambda>(i, v) d. d\<lparr>extra_data := set_extra (linear_index_to_extra_key i) v (extra_data d)\<rparr>) es d
     = d\<lparr>extra_data := fold (\<lambda>(i, v). set_extra (linear_index_to_extra_key i) v) es (extra_data d)\<rparr>"
  "fold (\<lambda>(i, l) d. d\<lparr>sky_light := write_nibble (unat i) l (sky_light d)\<rparr>) ls d
     = d\<lparr>sky_light := patched_nibbles ls (sky_light d)\<rparr>"
  "fold (\<lambda>(i, l) d. d\<lparr>block_light := write_nibble (unat i) l (block_light d)\<rparr>) ls d
     = d\<lparr>block_light := patched_nibbles ls (block_light d)\<rparr>"
proof -
  show "fold (\<lambda>(i, w) d. d\<lparr>biomes := (biomes d)[unat i := w]\<rparr>) ps d
     = d\<lparr>biomes := fold (\<lambda>(i, w) bs. bs[unat i := w]) ps (biomes d)\<rparr>"
    by (induction ps arbitrary: d) auto
  show "fold (\<lambda>(i, v) d. d\<lparr>extra_data := set_extra (linear_index_to_extra_key i) v (extra_data d)\<rparr>) es d
     = d\<lparr>extra_data := fold (\<lambda>(i, v). set_extra (linear_index_to_extra_key i) v) es (extra_data d)\<rparr>"
    by (induction es arbitrary: d) auto
  show "fold (\<lambda>(i, l) d. d\<lparr>sky_light := write_nibble (unat i) l (sky_light d)\<rparr>) ls d
     = d\<lparr>sky_light := patched_nibbles ls (sky_light d)\<rparr>"
    by (induction ls arbitrary: d) (auto simp: patched_nibbles_def)
  show "fold (\<lambda>(i, l) d. d\<lparr>block_light := write_nibble (unat i) l (block_light d)\<rparr>) ls d
     = d\<lparr>block_light := patched_nibbles ls (block_light d)\<rparr>"
    by (induction ls arbitrary: d) (auto simp: patched_nibbles_def)
qed

text \<open>
  The patched data: the planes after the patch, with the height of at least every column
  recomputed in which some block changed.
\<close>

lemma patch_data_alt:
  assumes "chunk_data_ok d" and "validate_patch p = Inr ()"
  shows "\<exists>cs. patch_data p d = fold recalculate_column_height cs (patched p d)
    \<and> (\<forall>i < BLOCK_COUNT. patched_states p (states d) ! i \<noteq> states d ! i \<longrightarrow> i mod COLUMN_COUNT \<in> set cs)"
proof -
  have "\<forall>(i, st) \<in> set (patch_blocks p). unat i < BLOCK_COUNT"
    using assms(2) by (auto simp: validate_patch_Inr_iff)
  with assms(1) fold_patch_block [of d "replicate COLUMN_COUNT False" "patch_blocks p"] obtain t where
    t: "fold patch_block (patch_blocks p) (d, replicate COLUMN_COUNT False) = (d\<lparr>states := patched_states p (states d)\<rparr>, t)"
      "length t = COLUMN_COUNT"
      "\<forall>i < BLOCK_COUNT. patched_states p (states d) ! i \<noteq> states d ! i \<longrightarrow> t ! (i mod COLUMN_COUNT)"
    by (auto simp: chunk_data_ok_def patched_states_def)
  let ?cs = "map fst (filter snd (zip [0..<COLUMN_COUNT] t))"
  have "patch_data p d = fold recalculate_column_height ?cs (patched p d)"
    by (simp add: patch_data_def Let_def t(1) fold_touched fold_field_updates patched_def)
  moreover have "i mod COLUMN_COUNT \<in> set ?cs"
    if "i < BLOCK_COUNT" "patched_states p (states d) ! i \<noteq> states d ! i" for i
    using touched_columns [OF t(2), of "i mod COLUMN_COUNT"] t(3) that by (simp add: shape_numerals(3))
  ultimately show ?thesis by blast
qed

lemma fold_list_update_all:
  assumes "list_all P xs" and "\<forall>(i, v) \<in> set us. P v"
  shows "list_all P (fold (\<lambda>(i, v) xs. xs[f i := v]) us xs) \<and> length (fold (\<lambda>(i, v) xs. xs[f i := v]) us xs) = length xs"
  using assms by (induction us arbitrary: xs) (auto simp: list_all_update)

lemma length_patched_nibbles [simp]: "length (patched_nibbles ls bs) = length bs"
  by (induction ls arbitrary: bs) (auto simp: patched_nibbles_def)

lemma bt_wf_set_extra: "bt_wf m \<Longrightarrow> bt_wf (set_extra k v m)"
  by (simp add: set_extra_def bt.wf_put bt.wf_del)

lemma bt_wf_fold_extra: "bt_wf m \<Longrightarrow> bt_wf (fold (\<lambda>(i, v). set_extra (f i) v) es m)"
  by (induction es arbitrary: m) (auto simp: bt_wf_set_extra)

lemma patched_ok:
  assumes "chunk_data_ok d" and "validate_patch p = Inr ()"
  shows "chunk_data_ok (patched p d)"
proof -
  have "list_all world_block_state_id_is_supported (patched_states p (states d))
      \<and> length (patched_states p (states d)) = BLOCK_COUNT"
    using assms fold_list_update_all [of world_block_state_id_is_supported "states d" "patch_blocks p" unat]
    by (auto simp: chunk_data_ok_def patched_states_def validate_patch_Inr_iff)
  moreover have "list_all (\<lambda>w. biome_id_is_supported (biome_id w)) (biomes (patched p d))
      \<and> length (biomes (patched p d)) = COLUMN_COUNT"
    using assms fold_list_update_all [of "\<lambda>w. biome_id_is_supported (biome_id w)" "biomes d" "patch_biomes p" unat]
    by (auto simp: chunk_data_ok_def patched_def validate_patch_Inr_iff)
  ultimately show ?thesis
    using assms(1) by (simp add: chunk_data_ok_def patched_def bt_wf_fold_extra)
qed

lemma patch_data_ok: "chunk_data_ok d \<Longrightarrow> validate_patch p = Inr () \<Longrightarrow> chunk_data_ok (patch_data p d)"
  using patch_data_alt [of d p] patched_ok [of d p] by (auto simp: chunk_data_ok_updates)

lemma patch_data_heights:
  assumes "chunk_data_ok d" and "validate_patch p = Inr ()" and "heights_exact d"
  shows "heights_exact (patch_data p d)"
proof -
  obtain cs where cs: "patch_data p d = fold recalculate_column_height cs (patched p d)"
      "\<forall>i < BLOCK_COUNT. patched_states p (states d) ! i \<noteq> states d ! i \<longrightarrow> i mod COLUMN_COUNT \<in> set cs"
    using patch_data_alt [OF assms(1,2)] by blast
  have "top_block (states (patched p d)) c (unat (height_map (patched p d) ! c))"
    if c: "c < COLUMN_COUNT" "c \<notin> set cs" for c
  proof -
    have "patched_states p (states d) ! (y * COLUMN_COUNT + c) = states d ! (y * COLUMN_COUNT + c)"
      if "y < HEIGHT" for y
    proof (rule ccontr)
      assume *: "\<not> ?thesis"
      have "y * COLUMN_COUNT + c < BLOCK_COUNT" and "(y * COLUMN_COUNT + c) mod COLUMN_COUNT = c"
        using that c(1) by (auto simp: shape_numerals)
      with cs(2) * c(2) show False by metis
    qed
    with assms(3) c(1) top_block_cong [of "patched_states p (states d)" c "states d"] show ?thesis
      by (simp add: heights_exact_def patched_def)
  qed
  moreover have "length (height_map (patched p d)) = COLUMN_COUNT"
    using assms(1) by (simp add: chunk_data_ok_def patched_def)
  ultimately show ?thesis unfolding cs(1) by (intro heights_exact_recalculate)
qed

lemma patch_chunk_Inr_iff:
  "patch_chunk p c = Inr (u, c') \<longleftrightarrow>
   terrain_revision c = expected_terrain_revision p \<and> light_revision c = expected_light_revision p
   \<and> (if patch_terrain_changed p then checked_add (terrain_revision c) 1 = Some (next_terrain_revision p)
      else next_terrain_revision p = terrain_revision c)
   \<and> (if patch_light_changed p then checked_add (light_revision c) 1 = Some (next_light_revision p)
      else next_light_revision p = light_revision c)
   \<and> c' = c\<lparr>chunk_data := patch_data p (chunk_data c), terrain_revision := next_terrain_revision p,
            light_revision := next_light_revision p\<rparr>"
  by (auto simp: patch_chunk_def result_simps split: if_splits)

lemma patch_chunk_ok:
  assumes "chunk_ok c" and "validate_patch p = Inr ()" and "patch_chunk p c = Inr (u, c')"
  shows "chunk_ok c'"
proof -
  have "chunk_data_ok (patch_data p (chunk_data c))"
    using assms(1,2) by (intro patch_data_ok) (auto simp: chunk_ok_def)
  moreover have "x \<le> terrain_revision c \<Longrightarrow> x \<le> next_terrain_revision p"
    and "x \<le> light_revision c \<Longrightarrow> x \<le> next_light_revision p" for x
    using assms(3) by (auto simp: patch_chunk_Inr_iff split: if_splits intro: u64_succ_mono)
  ultimately show ?thesis using assms(1,3) by (auto simp: patch_chunk_Inr_iff chunk_ok_def)
qed

lemma apply_patch_inv: "keeps world_inv (apply_patch pos p)"
  unfolding apply_patch_def
  by (intro keeps_lift_bind keeps_bind keeps_mut_inv)
    (auto intro: patch_chunk_ok keeps_intros split: option.splits)

lemma install_over_ok:
  assumes "chunk_ok c" and "bt_wf (imp_extra_data imp)" and "validate_import imp = Inr ()"
  shows "chunk_ok (snd (install_over imp c))"
proof -
  have imp: "chunk_data_ok (import_data imp)" "flags_ok (imp_lifecycle_flags imp)"
    using assms(2,3) by (auto simp: validate_import_Inr_iff)
  show ?thesis
    using assms(1) imp
    by (auto simp: install_over_def Let_def chunk_ok_def result_simps split: sum.splits if_splits
        intro: u64_succ_mono)
qed

lemma generated_record_ok:
  "bt_wf (imp_extra_data imp) \<Longrightarrow> validate_import imp = Inr () \<Longrightarrow> chunk_ok (generated_record imp)"
  by (simp add: validate_import_Inr_iff chunk_ok_def generated_record_def)

lemma ensure_chunk_inv: "keeps world_inv (ensure_chunk pos b)"
  using default_biome_word_id
  by (fastforce simp: keeps_def ensure_chunk_alt split: option.splits intro: put_chunk_inv ChunkRecord_empty_ok)

lemma import_if_absent_inv: "bt_wf (imp_extra_data imp) \<Longrightarrow> keeps world_inv (import_chunk_if_absent pos imp)"
  by (auto simp: keeps_def import_if_absent_alt split: sum.splits intro: put_chunk_inv ChunkRecord_from_import_ok)

lemma import_chunk_inv: "bt_wf (imp_extra_data imp) \<Longrightarrow> keeps world_inv (import_chunk pos imp)"
  by (auto simp: keeps_def import_chunk_alt split: sum.splits intro: put_chunk_inv ChunkRecord_from_import_ok)

lemma install_generated_inv: "bt_wf (imp_extra_data imp) \<Longrightarrow> keeps world_inv (install_generated_chunk pos imp)"
  by (auto simp: keeps_def install_generated_alt split: sum.splits option.splits
      intro: put_chunk_inv install_over_ok generated_record_ok ws_chunk_ok)

lemma try_evict_inv: "keeps world_inv (try_evict_chunk pos)"
  unfolding keeps_def
proof (intro allI impI)
  fix s
  assume inv: "world_inv s"
  show "world_inv (snd (try_evict_chunk pos s))"
  proof (cases "ws_chunk s pos")
    case None
    with inv show ?thesis by (simp add: try_evict_alt)
  next
    case (Some c)
    obtain r s' where ev: "try_evict_chunk pos s = (r, s')" by (cases "try_evict_chunk pos s")
    have "s' = s \<or> r = Inr Evicted"
      using try_evict_alt [OF inv, of pos] unfolding ev by (auto simp: Some split: if_splits)
    with ws_evict_spec(2) [OF inv Some] ev inv show ?thesis by auto
  qed
qed

lemmas op_invs = set_block_state_inv fill_layers_inv set_biome_word_inv set_biome_inv set_biome_color_inv
  fill_biome_inv set_sky_light_inv fill_sky_light_inv set_block_light_inv recalculate_inv set_extra_inv
  commit_terrain_inv commit_light_inv apply_patch_inv ensure_chunk_inv import_if_absent_inv import_chunk_inv
  install_generated_inv set_flags_inv pin_inv unpin_inv mark_persisted_inv try_evict_inv

interpretation wm: invariant_machine world_step world_inv
proof
  fix s t
  assume "world_inv s"
  assume "world_step s t"
  then show "world_inv t"
    by cases (insert \<open>world_inv s\<close>, auto intro: op_invs [THEN keepsD] prune_inv)
qed

section \<open>What a patch writes\<close>

text \<open>The last value a list of writes gives to a key.\<close>

definition last_write :: "('k \<times> 'v) list \<Rightarrow> 'k \<Rightarrow> 'v \<Rightarrow> 'v" where
  "last_write us k old = (case map_of (rev us) k of Some v \<Rightarrow> v | None \<Rightarrow> old)"

lemma last_write_snoc [simp]: "last_write (us @ [(k', v)]) k old = (if k' = k then v else last_write us k old)"
  by (simp add: last_write_def)

lemma last_write_Nil [simp]: "last_write [] k old = old"
  by (simp add: last_write_def)

lemma fold_update_nth:
  "unat (k :: 'w::len word) < length xs \<Longrightarrow>
   fold (\<lambda>(i, v) xs. xs[unat (i :: 'w word) := v]) us xs ! unat k = last_write us k (xs ! unat k)"
proof (induction us rule: rev_induct)
  case Nil
  then show ?case by simp
next
  case (snoc u us)
  obtain i v where u: "u = (i, v)" by (cases u)
  have "length (fold (\<lambda>(i, v) xs. xs[unat (i :: 'w word) := v]) us xs) = length xs"
    by (induction us arbitrary: xs) (auto simp: split_def)
  with snoc show ?case by (auto simp: u nth_list_update word_unat_eq_iff)
qed

lemma patched_nibbles_read:
  assumes "\<forall>(i, l) \<in> set ls. unat i < 2 * length bs \<and> l \<le> 0x0f"
  shows "read_nibble (patched_nibbles ls bs) (unat k) = last_write ls k (read_nibble bs (unat k))"
  using assms
proof (induction ls rule: rev_induct)
  case Nil
  then show ?case by (simp add: patched_nibbles_def)
next
  case (snoc u ls)
  obtain i l where u: "u = (i, l)" by (cases u)
  have "patched_nibbles (ls @ [u]) bs = write_nibble (unat i) l (patched_nibbles ls bs)"
    by (simp add: patched_nibbles_def u)
  with snoc u show ?case by (auto simp: read_write_nibble word_unat_eq_iff)
qed

lemma extra_value_set_extra:
  "bt_wf m \<Longrightarrow> extra_value (set_extra k v m) k' = (if k = k' then v else extra_value m k')"
  by (auto simp: extra_value_def set_extra_def bt.get_put bt.get_del)

lemma extra_value_fold:
  assumes "bt_wf m"
  shows "extra_value (fold (\<lambda>(i, v). set_extra (f i) v) es m) k
    = last_write (map (\<lambda>(i, v). (f i, v)) es) k (extra_value m k)"
proof (induction es rule: rev_induct)
  case Nil
  then show ?case by simp
next
  case (snoc e es)
  then show ?case
    using bt_wf_fold_extra [OF assms, of f es] by (cases e) (auto simp: extra_value_set_extra)
qed

definition patch_written :: "ChunkPatch \<Rightarrow> ChunkData \<Rightarrow> ChunkData \<Rightarrow> bool" where
  "patch_written p d d' \<longleftrightarrow>
     (\<forall>i. unat i < BLOCK_COUNT \<longrightarrow> states d' ! unat i = last_write (patch_blocks p) i (states d ! unat i))
     \<and> (\<forall>i. unat i < COLUMN_COUNT \<longrightarrow> biomes d' ! unat i = last_write (patch_biomes p) i (biomes d ! unat i))
     \<and> (\<forall>i. read_nibble (sky_light d') (unat i) = last_write (patch_sky_light p) i (read_nibble (sky_light d) (unat i)))
     \<and> (\<forall>i. read_nibble (block_light d') (unat i) = last_write (patch_block_light p) i (read_nibble (block_light d) (unat i)))
     \<and> (\<forall>k. extra_value (extra_data d') k
          = last_write (map (\<lambda>(i, v). (linear_index_to_extra_key i, v)) (patch_extra_data p)) k (extra_value (extra_data d) k))
     \<and> chest_block_entities d' = chest_block_entities d"

lemma patch_data_written:
  assumes "chunk_data_ok d" and "validate_patch p = Inr ()"
  shows "patch_written p d (patch_data p d)"
proof -
  obtain cs where cs: "patch_data p d = fold recalculate_column_height cs (patched p d)"
    using patch_data_alt [OF assms] by blast
  have ok: "\<forall>(i, l) \<in> set (patch_sky_light p). unat i < 2 * length (sky_light d) \<and> l \<le> 0x0f"
    "\<forall>(i, l) \<in> set (patch_block_light p). unat i < 2 * length (block_light d) \<and> l \<le> 0x0f"
    using assms by (auto simp: validate_patch_Inr_iff chunk_data_ok_def BLOCK_COUNT_eq(2))
  show ?thesis
    using assms(1) patched_nibbles_read [OF ok(1)] patched_nibbles_read [OF ok(2)]
    by (simp add: patch_written_def cs patched_def patched_states_def fold_update_nth chunk_data_ok_def
        extra_value_fold)
qed

definition log_patch :: "ChunkCoord \<Rightarrow> ChunkPatch \<Rightarrow> unit world_op" where
  "log_patch pos p =
     (case patch_change_kind p of Some kind \<Rightarrow> record_change pos kind | None \<Rightarrow> op_lift (Inr ()))"

lemma apply_patch_cases:
  obtains (rejected) e where "apply_patch pos p s = (Inl e, s)"
    | (accepted) c c' where "ws_chunk s pos = Some c" "validate_patch p = Inr ()" "patch_chunk p c = Inr ((), c')"
        "apply_patch pos p s = log_patch pos p (put_chunk pos c' s)"
  by (cases "validate_patch p"; cases "ws_chunk s pos"; cases "patch_chunk p (the (ws_chunk s pos))")
    (auto simp: apply_patch_def with_chunk_mut_alt log_patch_def)

lemma patch_chunk_effect:
  assumes "chunk_ok c" and "validate_patch p = Inr ()" and "patch_chunk p c = Inr (u, c')"
  shows "terrain_revision c = expected_terrain_revision p \<and> light_revision c = expected_light_revision p
    \<and> unat (terrain_revision c') = unat (terrain_revision c) + (if patch_terrain_changed p then 1 else 0)
    \<and> unat (light_revision c') = unat (light_revision c) + (if patch_light_changed p then 1 else 0)
    \<and> patch_written p (chunk_data c) (chunk_data c')
    \<and> (heights_exact (chunk_data c) \<longrightarrow> heights_exact (chunk_data c'))
    \<and> c' = c\<lparr>chunk_data := chunk_data c', terrain_revision := terrain_revision c', light_revision := light_revision c'\<rparr>"
proof -
  note eqs = assms(3) [unfolded patch_chunk_Inr_iff]
  have data: "chunk_data_ok (chunk_data c)" by (rule chunk_okD [OF assms(1)])
  have "unat (terrain_revision c') = unat (terrain_revision c) + (if patch_terrain_changed p then 1 else 0)"
    "unat (light_revision c') = unat (light_revision c) + (if patch_light_changed p then 1 else 0)"
    using eqs by (auto split: if_splits dest!: checked_add_unat)
  with eqs patch_data_written [OF data assms(2)] patch_data_heights [OF data assms(2)] show ?thesis by auto
qed

section \<open>Properties\<close>

text \<open>
  C28: the store's invariant. Whatever sequence of operations a new store has gone through, in
  any arguments and including operations that failed, every resident chunk sits in the shard of its
  region exactly once, its planes have their fixed lengths, its block states and biomes are in
  the target's catalogue, its lifecycle flags are legal, its persisted watermarks do not exceed the
  current revisions, no shard is empty, and the change log is gap-free and within its capacity.
\<close>

theorem world_store_invariant:
  assumes "world_step\<^sup>*\<^sup>* WorldStore_new s"
  shows "world_inv s"
  by (rule wm.inv_steps [OF assms world_inv_new])

definition sample_pos :: ChunkCoord where
  "sample_pos = ChunkCoord 2 (- 3)"

definition sample_store :: WorldStore where
  "sample_store = snd (ensure_chunk sample_pos 1 WorldStore_new)"

definition sample_patch :: ChunkPatch where
  "sample_patch = \<lparr>expected_terrain_revision = 0, next_terrain_revision = 1, expected_light_revision = 0,
     next_light_revision = 0, patch_blocks = [(0x201, 0x32)], patch_biomes = [], patch_extra_data = [],
     patch_sky_light = [], patch_block_light = []\<rparr>"

lemma sample_store_reachable: "world_step\<^sup>*\<^sup>* WorldStore_new sample_store"
  unfolding sample_store_def by (intro r_into_rtranclp ws_ensure)

lemma plains_word: "default_biome_word 1 = Some 0x0192bc59"
  by (simp add: default_biome_word_def BiomeId_default_color_def biome_colors_def)

lemma sample_store_eval:
  "sample_store = put_chunk sample_pos (ChunkRecord_empty 0x0192bc59) WorldStore_new"
  "ws_chunk sample_store sample_pos = Some (ChunkRecord_empty 0x0192bc59)"
  "changes sample_store = \<lparr>next_sequence = 1, log_changes = []\<rparr>"
proof -
  have none: "ws_chunk WorldStore_new sample_pos = None" by (simp add: ws_chunk_def WorldStore_new_def)
  show eq: "sample_store = put_chunk sample_pos (ChunkRecord_empty 0x0192bc59) WorldStore_new"
    by (simp add: sample_store_def ensure_chunk_alt [OF world_inv_new] plains_word none)
  show "ws_chunk sample_store sample_pos = Some (ChunkRecord_empty 0x0192bc59)" by (simp add: eq)
  show "changes sample_store = \<lparr>next_sequence = 1, log_changes = []\<rparr>"
    by (simp add: eq WorldStore_new_def WorldChangeLog_default_def)
qed

theorem world_store_invariant_witness: "world_inv sample_store \<and> contains_chunk sample_store sample_pos"
  using world_store_invariant [OF sample_store_reachable] by (simp add: contains_chunk_alt sample_store_eval)

text \<open>
  C29: applying a patch is atomic and optimistic. In any reachable store it either fails and
  leaves the store as it was (only the exhaustion of the 64-bit change sequence, a panic, leaves the
  patch applied), or the target chunk was resident at exactly the expected revisions and
  the new store differs in that chunk alone: every block, biome, light nibble and extra datum
  reads the last value the patch gives it or else its old value, the terrain and light
  revisions advance by one exactly when the patch touches terrain or light, pins, flags and persisted
  watermarks stay, an exact height map stays exact, and the change log gains exactly the entry
  for the patch under the next sequence number.
\<close>

theorem apply_patch_exact:
  assumes reach: "world_step\<^sup>*\<^sup>* WorldStore_new s"
  shows "case apply_patch pos p s of
      (Inl e, s') \<Rightarrow> s' = s \<or> e = ChangeSequencePanic
    | (Inr _, s') \<Rightarrow> \<exists>c c'. ws_chunk s pos = Some c \<and> ws_chunk s' = (ws_chunk s)(pos \<mapsto> c')
        \<and> terrain_revision c = expected_terrain_revision p \<and> light_revision c = expected_light_revision p
        \<and> unat (terrain_revision c') = unat (terrain_revision c) + (if patch_terrain_changed p then 1 else 0)
        \<and> unat (light_revision c') = unat (light_revision c) + (if patch_light_changed p then 1 else 0)
        \<and> patch_written p (chunk_data c) (chunk_data c')
        \<and> (heights_exact (chunk_data c) \<longrightarrow> heights_exact (chunk_data c'))
        \<and> c' = c\<lparr>chunk_data := chunk_data c', terrain_revision := terrain_revision c', light_revision := light_revision c'\<rparr>
        \<and> (case patch_change_kind p of
              None \<Rightarrow> changes s' = changes s
            | Some kind \<Rightarrow> last (log_changes (changes s')) = \<lparr>change_sequence = next_sequence (changes s),
                              change_position = pos, change_kind = kind\<rparr>
                \<and> unat (next_sequence (changes s')) = unat (next_sequence (changes s)) + 1)"
proof -
  have inv: "world_inv s" by (rule wm.inv_steps [OF reach world_inv_new])
  consider (rejected) e where "apply_patch pos p s = (Inl e, s)"
    | (accepted) c c' where "ws_chunk s pos = Some c" "validate_patch p = Inr ()" "patch_chunk p c = Inr ((), c')"
        "apply_patch pos p s = log_patch pos p (put_chunk pos c' s)"
    by (rule apply_patch_cases)
  then show ?thesis
  proof cases
    case rejected
    then show ?thesis by simp
  next
    case accepted
    note effect = patch_chunk_effect [OF ws_chunk_ok [OF inv accepted(1)] accepted(2,3)]
    show ?thesis
    proof (cases "patch_change_kind p")
      case None
      with accepted effect show ?thesis by (auto simp: log_patch_def)
    next
      case (Some kind)
      with accepted effect show ?thesis
        by (cases "checked_add (next_sequence (changes s)) 1")
          (auto simp: log_patch_def record_change_def Let_def dest!: checked_add_unat)
    qed
  qed
qed

lemma sample_patch_valid: "validate_patch sample_patch = Inr ()"
  by (simp add: validate_patch_Inr_iff sample_patch_def shape_numerals world_block_state_id_is_supported_def
      MAX_BLOCK_STATE_ID_def world_block_id_is_supported_def BlockId_is_world_supported_def within_def)

definition sample_patched :: WorldStore where
  "sample_patched = snd (apply_patch sample_pos sample_patch sample_store)"

lemma sample_patch_applies:
  "apply_patch sample_pos sample_patch sample_store = (Inr (), sample_patched)"
  "changes sample_patched = \<lparr>next_sequence = 2, log_changes = [\<lparr>change_sequence = 1, change_position = sample_pos,
     change_kind = Blocks [(0x201, 0x32)]\<rparr>]\<rparr>"
proof -
  have "\<exists>s'. apply_patch sample_pos sample_patch sample_store = (Inr (), s')
      \<and> changes s' = \<lparr>next_sequence = 2, log_changes = [\<lparr>change_sequence = 1, change_position = sample_pos,
           change_kind = Blocks [(0x201, 0x32)]\<rparr>]\<rparr>"
    using sample_patch_valid
    by (simp add: apply_patch_def with_chunk_mut_alt sample_store_eval patch_chunk_def ChunkRecord_empty_def
        sample_patch_def patch_terrain_changed_def patch_light_changed_def patch_change_kind_def checked_add_def
        record_change_def Let_def WorldStore_new_def WorldChangeLog_default_def MAX_POINT_BLOCK_CHANGES_def
        WORLD_CHANGE_LOG_CAPACITY_def)
  then show "apply_patch sample_pos sample_patch sample_store = (Inr (), sample_patched)"
    and "changes sample_patched = \<lparr>next_sequence = 2, log_changes = [\<lparr>change_sequence = 1, change_position = sample_pos,
      change_kind = Blocks [(0x201, 0x32)]\<rparr>]\<rparr>"
    by (auto simp: sample_patched_def)
qed

lemma sample_patched_reachable: "world_step\<^sup>*\<^sup>* WorldStore_new sample_patched"
  unfolding sample_patched_def by (rule rtranclp.rtrancl_into_rtrancl [OF sample_store_reachable ws_patch])

theorem apply_patch_exact_witness:
  "\<exists>c. ws_chunk sample_patched sample_pos = Some c
     \<and> terrain_revision c = 1 \<and> states (chunk_data c) ! 0x201 = 0x32 \<and> states (chunk_data c) ! 0x202 = 0"
proof -
  have idx: "states d ! 0x201 = states d ! unat (0x201 :: u16)" "states d ! 0x202 = states d ! unat (0x202 :: u16)" for d
    by simp_all
  from apply_patch_exact [OF sample_store_reachable, of sample_pos sample_patch]
  obtain c' where c': "ws_chunk sample_patched sample_pos = Some c'"
      "unat (terrain_revision c') = unat (0 :: u64) + (if patch_terrain_changed sample_patch then 1 else 0)"
      "patch_written sample_patch (ChunkData_empty 0x0192bc59) (chunk_data c')"
    by (auto simp: sample_patch_applies(1) sample_store_eval(2) ChunkRecord_empty_def)
  have "terrain_revision c' = 1"
    using c'(2) by (simp add: sample_patch_def patch_terrain_changed_def word_unat_eq_iff)
  moreover have blocks: "unat i < BLOCK_COUNT \<longrightarrow> states (chunk_data c') ! unat i
      = last_write (patch_blocks sample_patch) i (states (ChunkData_empty 0x0192bc59) ! unat i)" for i
    using c'(3) unfolding patch_written_def by blast
  have "states (chunk_data c') ! 0x201 = 0x32 \<and> states (chunk_data c') ! 0x202 = 0"
    unfolding idx using blocks [of "0x201"] blocks [of "0x202"]
    by (simp add: sample_patch_def last_write_def ChunkData_empty_def shape_numerals(4))
  ultimately show ?thesis using c'(1) by simp
qed

lemma filter_greater_upt: "a \<le> k + 1 \<Longrightarrow> filter (\<lambda>x. k < x) [a..<n] = [k + 1..<n]"
  by (induction n) auto

lemma oldest_sequence_eq:
  assumes "log_ok (changes s)"
  shows "unat (oldest_sequence (change_log_snapshot s))
    = unat (next_sequence (changes s)) - length (log_changes (changes s))"
proof -
  let ?n = "next_sequence (changes s)"
  have pos: "0 < unat ?n" using assms by (auto simp: log_ok_def)
  show ?thesis
  proof (cases "log_changes (changes s)")
    case Nil
    have "1 \<le> ?n" using pos by (simp add: word_le_nat_alt Suc_le_eq)
    moreover have "unat (?n - 1) + 1 = unat ?n" using pos by (simp add: unat_minus_one word_neq_0_conv word_less_nat_alt)
    moreover have "unat ?n < 2 ^ 64" using unsigned_less [of ?n, where 'a = nat] by simp
    ultimately show ?thesis using Nil
      by (simp add: change_log_snapshot_def saturating_sub_def saturating_add_def checked_add_def)
  next
    case (Cons c cs)
    with assms have "unat (change_sequence c) # map (unat \<circ> change_sequence) cs
        = [unat ?n - length (log_changes (changes s))..<unat ?n]"
      by (simp add: log_ok_def)
    then have "unat (change_sequence c) = unat ?n - length (log_changes (changes s))"
      by (metis list.inject upt_eq_Cons_conv)
    with Cons show ?thesis by (simp add: change_log_snapshot_def)
  qed
qed

text \<open>
  C30: change-log completeness. In any reachable store, a consumer whose cursor the snapshot does not
  report as stale finds in the snapshot exactly one change for every sequence number
  after its cursor, in order, up to the latest one; the log never holds more than its capacity.
\<close>

theorem change_log_cursor_complete:
  assumes reach: "world_step\<^sup>*\<^sup>* WorldStore_new s"
    and fresh: "\<not> cursor_is_stale (change_log_snapshot s) cursor"
  shows "map (unat \<circ> change_sequence) (filter (\<lambda>c. cursor < change_sequence c) (snapshot_changes (change_log_snapshot s)))
      = [unat cursor + 1..<unat (latest_sequence (change_log_snapshot s)) + 1]
    \<and> latest_sequence (change_log_snapshot s) = current_change_sequence s
    \<and> length (snapshot_changes (change_log_snapshot s)) \<le> WORLD_CHANGE_LOG_CAPACITY"
proof -
  let ?n = "unat (next_sequence (changes s))" and ?l = "length (log_changes (changes s))"
  have log: "log_ok (changes s)" by (rule world_invD(4) [OF wm.inv_steps [OF reach world_inv_new]])
  have "1 \<le> next_sequence (changes s)" using log by (auto simp: log_ok_def word_le_nat_alt)
  then have latest: "unat (latest_sequence (change_log_snapshot s)) + 1 = ?n"
    by (simp add: change_log_snapshot_def Let_def saturating_sub_def word_le_nat_alt unat_sub)
  have old: "unat (oldest_sequence (change_log_snapshot s)) = ?n - ?l" by (rule oldest_sequence_eq [OF log])
  have "?n - ?l \<le> unat cursor + 1"
  proof (cases "checked_add cursor 1")
    case None
    then have "unat cursor + 1 = 2 ^ 64" using unsigned_less [of cursor, where 'a = nat] by (simp add: checked_add_None_iff)
    moreover have "?n < 2 ^ 64" using unsigned_less [of "next_sequence (changes s)", where 'a = nat] by simp
    ultimately show ?thesis by simp
  next
    case (Some k)
    with fresh old checked_add_unat [OF Some] show ?thesis
      by (simp add: cursor_is_stale_def saturating_add_def word_less_nat_alt)
  qed
  then have "filter (\<lambda>x. unat cursor < x) [?n - ?l..<?n] = [unat cursor + 1..<?n]"
    using filter_greater_upt [of "?n - ?l" "unat cursor" ?n] by simp
  moreover have "map (unat \<circ> change_sequence) (filter (\<lambda>c. cursor < change_sequence c) (log_changes (changes s)))
      = filter (\<lambda>x. unat cursor < x) (map (unat \<circ> change_sequence) (log_changes (changes s)))"
    by (simp add: filter_map comp_def word_less_nat_alt)
  ultimately have "map (unat \<circ> change_sequence) (filter (\<lambda>c. cursor < change_sequence c) (log_changes (changes s)))
      = [unat cursor + 1..<?n]"
    using log by (simp add: log_ok_def)
  with latest log show ?thesis
    by (simp add: change_log_snapshot_def Let_def current_change_sequence_def log_ok_def)
qed

theorem change_log_cursor_complete_witness:
  "map (unat \<circ> change_sequence)
     (filter (\<lambda>c. 0 < change_sequence c) (snapshot_changes (change_log_snapshot sample_patched))) = [1]"
proof -
  have "\<not> cursor_is_stale (change_log_snapshot sample_patched) 0"
    and "unat (latest_sequence (change_log_snapshot sample_patched)) = 1"
    by (simp_all add: cursor_is_stale_def change_log_snapshot_def sample_patch_applies(2) saturating_add_def
        saturating_sub_def checked_add_def)
  with change_log_cursor_complete [OF sample_patched_reachable, of 0] show ?thesis by simp
qed

text \<open>
  C31: eviction removes exactly clean, unpinned chunks. In any reachable store \<open>try_evict_chunk\<close>
  never fails; it reports the resident state of the chunk truthfully; it removes the chunk only when no
  pin is held and the persisted revisions and flags equal the current ones, and then changes no other
  chunk and no log entry; in all other cases the store is unchanged.
\<close>

theorem eviction_exact:
  assumes reach: "world_step\<^sup>*\<^sup>* WorldStore_new s"
  shows "case try_evict_chunk pos s of
      (Inl _, _) \<Rightarrow> False
    | (Inr Missing, s') \<Rightarrow> s' = s \<and> \<not> contains_chunk s pos
    | (Inr (Pinned n), s') \<Rightarrow> s' = s \<and> n \<noteq> 0 \<and> map_option pin_count (ws_chunk s pos) = Some n
    | (Inr Dirty, s') \<Rightarrow> s' = s \<and> map_option ChunkRecord_is_dirty (ws_chunk s pos) = Some True
    | (Inr Evicted, s') \<Rightarrow> changes s' = changes s \<and> ws_chunk s' = (ws_chunk s)(pos := None)
        \<and> (\<exists>c. ws_chunk s pos = Some c \<and> pin_count c = 0
             \<and> persisted_terrain_revision c = Some (terrain_revision c)
             \<and> persisted_light_revision c = Some (light_revision c)
             \<and> persisted_lifecycle_flags c = Some (lifecycle_flags c))"
proof -
  have inv: "world_inv s" by (rule wm.inv_steps [OF reach world_inv_new])
  show ?thesis
  proof (cases "ws_chunk s pos")
    case None
    with try_evict_alt [OF inv, of pos] show ?thesis by (simp add: contains_chunk_alt)
  next
    case (Some c)
    consider "pin_count c \<noteq> 0" | "pin_count c = 0" "ChunkRecord_is_dirty c"
      | "pin_count c = 0" "\<not> ChunkRecord_is_dirty c" by blast
    then show ?thesis
    proof cases
      case 3
      then have ev: "try_evict_chunk pos s = (Inr Evicted, snd (try_evict_chunk pos s))"
        using try_evict_alt [OF inv, of pos] Some by simp
      show ?thesis
        using ws_evict_spec [OF inv Some ev] Some 3 by (subst ev) (simp add: ChunkRecord_is_dirty_def)
    qed (use try_evict_alt [OF inv, of pos] Some in simp_all)
  qed
qed

definition sample_saved :: WorldStore where
  "sample_saved = snd (mark_persisted sample_pos 0 0 0 sample_store)"

theorem eviction_exact_witness:
  "fst (try_evict_chunk sample_pos sample_saved) = Inr Evicted
   \<and> \<not> contains_chunk (snd (try_evict_chunk sample_pos sample_saved)) sample_pos
   \<and> fst (try_evict_chunk sample_pos sample_store) = Inr Dirty"
proof -
  have reach: "world_step\<^sup>*\<^sup>* WorldStore_new sample_saved"
    unfolding sample_saved_def by (rule rtranclp.rtrancl_into_rtrancl [OF sample_store_reachable ws_mark])
  have "ws_chunk sample_saved sample_pos = Some ((ChunkRecord_empty 0x0192bc59)
      \<lparr>persisted_terrain_revision := Some 0, persisted_light_revision := Some 0, persisted_lifecycle_flags := Some 0\<rparr>)"
    by (simp add: sample_saved_def mark_persisted_def with_chunk_mut_alt sample_store_eval(2) ChunkRecord_empty_def
        validate_lifecycle_flags_def)
  then have ev: "fst (try_evict_chunk sample_pos sample_saved) = Inr Evicted"
    by (auto simp: try_evict_chunk_def ws_chunk_def ChunkRecord_empty_def ChunkRecord_is_dirty_def Let_def
        split: option.splits)
  have dirty: "fst (try_evict_chunk sample_pos sample_store) = Inr Dirty"
    using sample_store_eval(2)
    by (auto simp: try_evict_chunk_def ws_chunk_def ChunkRecord_empty_def ChunkRecord_is_dirty_def Let_def
        split: option.splits)
  obtain s' where "try_evict_chunk sample_pos sample_saved = (Inr Evicted, s')" using ev by (metis prod.collapse)
  with eviction_exact [OF reach, of sample_pos] dirty show ?thesis by (simp add: contains_chunk_alt)
qed

section \<open>Dirty snapshots\<close>

definition dirty_candidates :: "ChunkCoord set \<Rightarrow> (ChunkCoord \<times> ChunkRecord) list \<Rightarrow> ChunkSnapshot list" where
  "dirty_candidates excluded cs =
     map (\<lambda>(pos, c). snapshot_of pos c) (filter (\<lambda>(pos, c). ChunkRecord_is_dirty c \<and> pos \<notin> excluded) cs)"

lemma dirty_in_chunks_eq:
  "length acc < limit \<Longrightarrow> dirty_in_chunks limit excluded cs acc =
     (limit \<le> length (acc @ dirty_candidates excluded cs), take limit (acc @ dirty_candidates excluded cs))"
proof (induction limit excluded cs acc rule: dirty_in_chunks.induct)
  case (1 limit excluded acc)
  then show ?case by (simp add: dirty_candidates_def)
next
  case (2 limit excluded pos c cs acc)
  show ?case
  proof (cases "ChunkRecord_is_dirty c \<and> pos \<notin> excluded")
    case True
    with 2 show ?thesis
      by (cases "Suc (length acc) = limit") (auto simp: Let_def dirty_candidates_def)
  next
    case False
    with 2 show ?thesis by (auto simp: dirty_candidates_def)
  qed
qed

lemma dirty_in_regions_eq:
  "length acc < limit \<Longrightarrow> dirty_in_regions limit excluded rs acc
     = take limit (acc @ dirty_candidates excluded (concat (map (\<lambda>(_, sh). chunks sh) rs)))"
proof (induction rs arbitrary: acc)
  case Nil
  then show ?case by (simp add: dirty_candidates_def)
next
  case (Cons r rs)
  obtain g sh where r: "r = (g, sh)" by (cases r)
  have app: "dirty_candidates excluded (xs @ ys) = dirty_candidates excluded xs @ dirty_candidates excluded ys" for xs ys
    by (simp add: dirty_candidates_def)
  show ?case
  proof (cases "limit \<le> length (acc @ dirty_candidates excluded (chunks sh))")
    case True
    then show ?thesis using Cons.prems by (simp add: r dirty_in_chunks_eq app)
  next
    case False
    then show ?thesis using Cons.prems Cons.IH [of "acc @ dirty_candidates excluded (chunks sh)"]
      by (simp add: r dirty_in_chunks_eq app)
  qed
qed

lemma resident_iff:
  assumes "world_inv s"
  shows "(pos, c) \<in> set (concat (map (\<lambda>(_, sh). chunks sh) (regions s))) \<longleftrightarrow> ws_chunk s pos = Some c"
proof
  assume "(pos, c) \<in> set (concat (map (\<lambda>(_, sh). chunks sh) (regions s)))"
  then obtain g sh where g: "(g, sh) \<in> set (regions s)" and c: "(pos, c) \<in> set (chunks sh)" by auto
  then have get: "hm_get (regions s) g = Some sh"
    using world_invD(1) [OF assms] by (simp add: hm_wf_def map_of_is_SomeI)
  have sh: "shard_ok g sh" by (rule world_invD(2) [OF assms get])
  then have "hm_get (chunks sh) pos = Some c" using c by (simp add: shard_ok_def hm_wf_def map_of_is_SomeI)
  with sh get show "ws_chunk s pos = Some c" by (auto simp: shard_ok_def ws_chunk_def)
next
  assume "ws_chunk s pos = Some c"
  then show "(pos, c) \<in> set (concat (map (\<lambda>(_, sh). chunks sh) (regions s)))"
    by (auto simp: ws_chunk_def split: option.splits dest!: map_of_SomeD)
qed

text \<open>
  C32: the save scheduler's snapshot selection is sound and complete: at most \<open>limit\<close> snapshots
  are returned, each is the current state of a resident, dirty, non-excluded chunk, and
  when fewer than \<open>limit\<close> are returned every such chunk is among them.
\<close>

theorem dirty_snapshots_exact:
  assumes reach: "world_step\<^sup>*\<^sup>* WorldStore_new s"
  shows "length (dirty_snapshots_excluding limit excluded s) \<le> limit
    \<and> set (dirty_snapshots_excluding limit excluded s)
        \<subseteq> {snapshot_of pos c | pos c. ws_chunk s pos = Some c \<and> ChunkRecord_is_dirty c \<and> pos \<notin> excluded}
    \<and> (length (dirty_snapshots_excluding limit excluded s) < limit \<longrightarrow>
        {snapshot_of pos c | pos c. ws_chunk s pos = Some c \<and> ChunkRecord_is_dirty c \<and> pos \<notin> excluded}
          \<subseteq> set (dirty_snapshots_excluding limit excluded s))"
proof (cases "limit = 0")
  case True
  then show ?thesis by (simp add: dirty_snapshots_excluding_def)
next
  case False
  have inv: "world_inv s" by (rule wm.inv_steps [OF reach world_inv_new])
  let ?all = "dirty_candidates excluded (concat (map (\<lambda>(_, sh). chunks sh) (regions s)))"
  have eq: "dirty_snapshots_excluding limit excluded s = take limit ?all"
    using False dirty_in_regions_eq [of "[]" limit] by (simp add: dirty_snapshots_excluding_def)
  have "set ?all = {snapshot_of pos c | pos c. ws_chunk s pos = Some c \<and> ChunkRecord_is_dirty c \<and> pos \<notin> excluded}"
    using resident_iff [OF inv] by (force simp: dirty_candidates_def)
  moreover have "take limit ?all = ?all" if "length (take limit ?all) < limit" using that by simp
  ultimately show ?thesis
    unfolding eq using set_take_subset [of limit ?all] by (intro conjI impI) auto
qed

theorem dirty_snapshots_exact_witness:
  "snapshot_of sample_pos (ChunkRecord_empty 0x0192bc59) \<in> set (dirty_snapshots_excluding 8 {} sample_store)"
proof -
  have "length (dirty_snapshots_excluding 8 {} sample_store) < 8"
    by (simp add: dirty_snapshots_excluding_def sample_store_eval(1) put_chunk_def region_or_create_def WorldStore_new_def
        store_chunk_def Let_def)
  with dirty_snapshots_exact [OF sample_store_reachable, of 8 "{}"]
  have "{snapshot_of pos c | pos c. ws_chunk sample_store pos = Some c \<and> ChunkRecord_is_dirty c \<and> pos \<notin> {}}
      \<subseteq> set (dirty_snapshots_excluding 8 {} sample_store)"
    by blast
  moreover have "ChunkRecord_is_dirty (ChunkRecord_empty 0x0192bc59)"
    by (simp add: ChunkRecord_is_dirty_def ChunkRecord_empty_def)
  ultimately show ?thesis using sample_store_eval(2) by auto
qed

section \<open>Block writes\<close>

text \<open>The part of \<open>set_block_state\<close> that runs under the shard's lock.\<close>

definition set_block_chunk :: "u8 \<Rightarrow> u8 \<Rightarrow> nat \<Rightarrow> u16 \<Rightarrow> ChunkRecord \<Rightarrow> ChunkRecord" where
  "set_block_chunk x z index state c =
     (if states (chunk_data c) ! index \<noteq> state
      then c\<lparr>chunk_data := recalculate_column_height (unat z * EDGE + unat x)
               ((chunk_data c)\<lparr>states := (states (chunk_data c))[index := state]\<rparr>)\<rparr>
      else c)"

lemma set_block_state_alt:
  "set_block_state pos x y z st s =
     (case validate_state st of Inl e \<Rightarrow> (Inl e, s) | Inr _ \<Rightarrow>
      case block_index x y z of Inl e \<Rightarrow> (Inl e, s) | Inr i \<Rightarrow>
      case ws_chunk s pos of None \<Rightarrow> (Inl (chunk_missing pos), s)
      | Some c \<Rightarrow> (Inr (states (chunk_data c) ! i), put_chunk pos (set_block_chunk x z i st c) s))"
  by (auto simp: set_block_state_def with_chunk_mut_alt set_block_chunk_def Let_def split: sum.splits option.splits)

lemma set_block_chunk_states [simp]:
  "states (chunk_data (set_block_chunk x z i st c)) = (states (chunk_data c))[i := st]"
  by (auto simp: set_block_chunk_def)

lemma set_block_chunk_heights:
  assumes "chunk_data_ok (chunk_data c)" and "block_index x y z = Inr i" and "heights_exact (chunk_data c)"
  shows "heights_exact (chunk_data (set_block_chunk x z i st c))"
proof -
  let ?d = "(chunk_data c)\<lparr>states := (states (chunk_data c))[i := st]\<rparr>" and ?col = "unat z * EDGE + unat x"
  have col: "?col < COLUMN_COUNT" and i: "i = unat y * COLUMN_COUNT + ?col"
    using assms(2) by (auto simp: block_index_Inr_iff shape_numerals)
  have "top_block (states ?d) k (unat (height_map ?d ! k))" if k: "k < COLUMN_COUNT" "k \<noteq> ?col" for k
  proof -
    have "i \<noteq> y' * COLUMN_COUNT + k" for y'
      using k col unfolding i by (metis add.commute mod_less mod_mult_self1)
    then have "top_block (states ?d) k h = top_block (states (chunk_data c)) k h" for h
      by (intro top_block_cong) simp
    with assms(3) k(1) show ?thesis by (simp add: heights_exact_def)
  qed
  then have "heights_exact (fold recalculate_column_height [?col] ?d)"
    using assms(1) by (intro heights_exact_recalculate) (auto simp: chunk_data_ok_def)
  with assms(3) show ?thesis by (simp add: set_block_chunk_def)
qed

lemma block_state_alt:
  "fst (WorldStore_block_state pos x y z s) =
     rbind (block_index x y z) (\<lambda>i. map_ok (\<lambda>c. states (chunk_data c) ! i) (ok_or (ws_chunk s pos) (chunk_missing pos)))"
  by (cases "block_index x y z"; cases "ws_chunk s pos") (simp_all add: WorldStore_block_state_def with_chunk_alt)

text \<open>
  C33: writing one block. In any reachable store \<open>set_block_state\<close> either fails and changes nothing, or
  it returns the block's previous state, afterwards that block reads the new state, every other
  block of every chunk reads as before, and an exact height map stays exact.
\<close>

theorem set_block_state_exact:
  assumes reach: "world_step\<^sup>*\<^sup>* WorldStore_new s"
  shows "case set_block_state pos x y z st s of
      (Inl _, s') \<Rightarrow> s' = s
    | (Inr previous, s') \<Rightarrow> fst (WorldStore_block_state pos x y z s) = Inr previous
        \<and> (\<forall>pos' x' y' z'. fst (WorldStore_block_state pos' x' y' z' s') =
             (if (pos', x', y', z') = (pos, x, y, z) then Inr st else fst (WorldStore_block_state pos' x' y' z' s)))
        \<and> (\<forall>c. ws_chunk s pos = Some c \<and> heights_exact (chunk_data c) \<longrightarrow>
             (\<exists>c'. ws_chunk s' pos = Some c' \<and> heights_exact (chunk_data c')))"
proof -
  have inv: "world_inv s" by (rule wm.inv_steps [OF reach world_inv_new])
  consider (fail) e where "set_block_state pos x y z st s = (Inl e, s)"
    | (ok) i c where "block_index x y z = Inr i" "ws_chunk s pos = Some c"
        "set_block_state pos x y z st s = (Inr (states (chunk_data c) ! i), put_chunk pos (set_block_chunk x z i st c) s)"
    by (cases "validate_state st"; cases "block_index x y z"; cases "ws_chunk s pos") (auto simp: set_block_state_alt)
  then show ?thesis
  proof cases
    case fail
    then show ?thesis by simp
  next
    case ok
    have data: "chunk_data_ok (chunk_data c)" by (rule chunk_okD [OF ws_chunk_ok [OF inv ok(2)]])
    have len: "i < length (states (chunk_data c))"
      using block_index_bound [OF ok(1)] data by (simp add: chunk_data_ok_def)
    have "fst (WorldStore_block_state pos' x' y' z' (put_chunk pos (set_block_chunk x z i st c) s)) =
        (if (pos', x', y', z') = (pos, x, y, z) then Inr st else fst (WorldStore_block_state pos' x' y' z' s))"
      for pos' x' y' z'
      using ok(1,2) len block_index_inj [OF ok(1), of x' y' z']
      by (cases "block_index x' y' z'") (auto simp: block_state_alt nth_list_update)
    then show ?thesis
      using ok set_block_chunk_heights [OF data ok(1)] by (simp add: block_state_alt)
  qed
qed

theorem set_block_state_exact_witness:
  "fst (WorldStore_block_state sample_pos 1 2 3 (snd (set_block_state sample_pos 1 2 3 0x10 sample_store))) = Inr 0x10
   \<and> fst (WorldStore_block_state sample_pos 1 3 3 (snd (set_block_state sample_pos 1 2 3 0x10 sample_store))) = Inr 0"
proof -
  have idx: "block_index 1 2 3 = Inr 561" "block_index 1 3 3 = Inr 817"
    by (simp_all add: block_index_Inr_iff shape_numerals)
  have "validate_state 0x10 = Inr ()"
    by (simp add: validate_Inr_iffs world_block_state_id_is_supported_def MAX_BLOCK_STATE_ID_def
        world_block_id_is_supported_def BlockId_is_world_supported_def within_def)
  then obtain s' where s': "set_block_state sample_pos 1 2 3 0x10 sample_store = (Inr 0, s')"
    using sample_store_eval(2) idx
    by (simp add: set_block_state_alt ChunkRecord_empty_def ChunkData_empty_def shape_numerals(4))
  have "fst (WorldStore_block_state sample_pos 1 3 3 sample_store) = Inr 0"
    using sample_store_eval(2) idx by (simp add: block_state_alt ChunkRecord_empty_def ChunkData_empty_def shape_numerals(4))
  with set_block_state_exact [OF sample_store_reachable, of sample_pos 1 2 3 "0x10"] s' show ?thesis
    by simp
qed

section \<open>Installing generator output\<close>

text \<open>
  An install whose only difference is in the chest contents is not recognised as a change: the
  resident chunk keeps its old chests and the result is \<open>false\<close>.
\<close>

lemma install_ignores_chests:
  assumes "import_data imp = (chunk_data c)\<lparr>chest_block_entities := chests\<rparr>"
    and "imp_lifecycle_flags imp = lifecycle_flags c"
  shows "install_over imp c = (Inr False, c)"
  using assms by (simp add: install_over_def Let_def)

text \<open>
  When the light revision is exhausted, the failed install leaves the terrain revision advanced
  over unchanged data.
\<close>

lemma install_failure_bumps_terrain:
  assumes "light_revision c = - 1" and "terrain_revision c \<noteq> - 1"
    and "sky_light (chunk_data c) \<noteq> imp_sky_light imp" and "states (chunk_data c) \<noteq> imp_states imp"
  shows "install_over imp c = (Inl LightRevisionExhausted, c\<lparr>terrain_revision := terrain_revision c + 1\<rparr>)"
  using assms checked_add_1_None [of "light_revision c"] checked_add_1_None [of "terrain_revision c"]
  by (auto simp: install_over_def Let_def import_data_def checked_add_def split: if_splits)

end
