(* ===== verification/ChunkWire.thy ===== *)
theory ChunkWire
  imports Packet WorldStore
begin

text \<open>
  From resident chunks to packets: \<open>native/wire/src/chunk.rs\<close> (FullChunkData), \<open>native/wire/src/update.rs\<close>
  (UpdateBlock), the projection of a chunk snapshot with its packet cache in
  \<open>native/extension/src/world/wire.rs\<close>, the eviction entry point of \<open>native/extension/src/world/residency.rs\<close>, and the
  unpacking of received payloads in \<open>native/session/src/wire.rs\<close> and \<open>packet.rs\<close>.

  The state of a native world is its store and its packet cache; the other two members of \<open>NativeWorldState\<close>
  (persistence and the infinite generator) do not take part here. Errors that the source turns into
  messages for PHP keep their origin as a constructor. The cache mutex makes each access atomic.
\<close>

section \<open>FullChunkData and UpdateBlock\<close>

definition FULL_CHUNK_DATA_ID :: u8 where "FULL_CHUNK_DATA_ID = 0x34"
definition CHUNK_ORDER_LAYERED :: u8 where "CHUNK_ORDER_LAYERED = 1"

record ChunkWireView =
  view_chunk_x :: i32
  view_chunk_z :: i32
  block_ids :: bytes
  block_data :: bytes
  view_sky_light :: bytes
  view_block_light :: bytes
  biome_words :: "u32 list"
  view_height_map :: bytes
  view_extra_data :: "(u32 \<times> u16) list"
  block_entities :: "NbtDocument list"

definition encode_chunk_unload :: "i32 \<Rightarrow> i32 \<Rightarrow> RawPacket option" where
  "encode_chunk_unload chunk_x chunk_z = None"

definition require_len :: "string \<Rightarrow> bytes \<Rightarrow> nat \<Rightarrow> CodecError + unit" where
  "require_len field bs expected =
     (if length bs = expected then Inr () else Inl (InvalidChunkPlaneLength field expected (length bs)))"

definition validate_extra_data_key :: "u32 \<Rightarrow> CodecError + unit" where
  "validate_extra_data_key key =
     (let y = key AND 0xff in if key > 0xffff \<or> y > 127 then Inl (InvalidChunkExtraDataKey key) else Inr ())"

definition chunk_nbt_limits :: NbtLimits where
  "chunk_nbt_limits = NbtLimits_new (64 * 1024) 16 256 1024"

definition put_extra :: "u32 \<times> u16 \<Rightarrow> bytes \<Rightarrow> CodecError + bytes" where
  "put_extra kv payload =
     (case kv of (key, v) \<Rightarrow>
        rbind (validate_extra_data_key key) (\<lambda>_. Inr (payload @ to_le_bytes key @ to_le_bytes v)))"

definition encode_full_chunk :: "ChunkWireView \<Rightarrow> CodecError + RawPacket" where
  "encode_full_chunk v =
     rbind (require_len ''chunk block ids'' (block_ids v) BLOCK_COUNT) (\<lambda>_.
     rbind (require_len ''chunk block data'' (block_data v) NIBBLE_BYTES) (\<lambda>_.
     rbind (require_len ''chunk sky light'' (view_sky_light v) NIBBLE_BYTES) (\<lambda>_.
     rbind (require_len ''chunk block light'' (view_block_light v) NIBBLE_BYTES) (\<lambda>_.
     rbind (ensure (length (biome_words v) = COLUMN_COUNT)
              (InvalidChunkPlaneLength ''chunk biome words'' COLUMN_COUNT (length (biome_words v)))) (\<lambda>_.
     rbind (require_len ''chunk height map'' (view_height_map v) COLUMN_COUNT) (\<lambda>_.
     rbind (ok_or (usize_checked_mul (length (view_extra_data v)) 6)
              (LengthOutOfRange ''chunk extra data'' (length (view_extra_data v)) (usize_max div 6))) (\<lambda>_.
     rbind (collect_results (\<lambda>doc. encode_le doc chunk_nbt_limits) (block_entities v)) (\<lambda>entities.
     rbind (for_each (\<lambda>bs sum. ok_or (usize_checked_add sum (length bs))
              (LengthOutOfRange ''chunk block entities'' usize_max (2 ^ 32 - 1))) entities 0) (\<lambda>_.
     let payload = block_ids v @ block_data v @ view_sky_light v @ view_block_light v @ view_height_map v
           @ concat (map to_be_bytes (biome_words v))
     in rbind (ensure (length (view_extra_data v) < 2 ^ 32)
          (LengthOutOfRange ''chunk extra-data count'' (length (view_extra_data v)) (2 ^ 32 - 1))) (\<lambda>_.
        rbind (for_each put_extra (view_extra_data v)
                 (payload @ to_le_bytes (of_nat (length (view_extra_data v)) :: u32))) (\<lambda>payload.
        let payload = payload @ concat entities
        in rbind (ensure (length payload < 2 ^ 32)
             (LengthOutOfRange ''full chunk payload'' (length payload) (2 ^ 32 - 1))) (\<lambda>_.
           Inr (RawPacket_new FULL_CHUNK_DATA_ID
             (to_be_bytes (view_chunk_x v) @ to_be_bytes (view_chunk_z v) @ [CHUNK_ORDER_LAYERED]
              @ to_be_bytes (of_nat (length payload) :: u32) @ payload)))))))))))))) "

definition encode_update_block :: "i32 \<Rightarrow> u8 \<Rightarrow> i32 \<Rightarrow> u16 \<Rightarrow> u8 \<Rightarrow> CodecError + RawPacket" where
  "encode_update_block x y z state_id flags =
     (if y > 127 then Inl (InvalidFixedTargetValue ''UpdateBlock y'' (ucast y) 127)
      else if state_id > 0x0fff then Inl (InvalidFixedTargetValue ''UpdateBlock state id'' (ucast state_id) 0x0fff)
      else if flags > 0x0f then Inl (InvalidFixedTargetValue ''UpdateBlock flags'' (ucast flags) 0x0f)
      else Inr (RawPacket_new UPDATE_BLOCK
             (to_be_bytes x @ to_be_bytes z @ [y, ucast (drop_bit 4 state_id)]
              @ [push_bit 4 flags OR (ucast state_id AND 0x0f)])))"

section \<open>The packet of a resident chunk and its cache\<close>

definition MAX_CHUNK_WIRE_CACHE_ENTRIES :: nat where "MAX_CHUNK_WIRE_CACHE_ENTRIES = 4096"

record CachedChunkWire =
  cached_terrain_revision :: u64
  cached_light_revision :: u64
  cached_packet :: RawPacket

record NativeWorldState =
  world_store :: WorldStore
  chunk_wire_cache :: "(ChunkCoord \<times> CachedChunkWire) list"

datatype PhpError = PhpStoreError WorldStoreError | PhpCodecError CodecError

definition item_nbt :: "ChestItemStack \<Rightarrow> NbtValue" where
  "item_nbt item = NbtCompound
     [NamedNbt [0x69, 0x64] (NbtShort (chest_item_id item)),
      NamedNbt [0x43, 0x6f, 0x75, 0x6e, 0x74] (NbtByte (ucast (chest_count item))),
      NamedNbt [0x44, 0x61, 0x6d, 0x61, 0x67, 0x65] (NbtShort (chest_damage item)),
      NamedNbt [0x53, 0x6c, 0x6f, 0x74] (NbtByte (ucast (chest_slot item)))]"

definition chest_nbt :: "ChestBlockEntity \<Rightarrow> NbtDocument" where
  "chest_nbt chest = \<lparr>nbt_root = NamedNbt [] (NbtCompound
     [NamedNbt [0x69, 0x64] (NbtStr [0x43, 0x68, 0x65, 0x73, 0x74]),
      NamedNbt [0x78] (NbtInt (chest_x chest)),
      NamedNbt [0x79] (NbtInt (chest_y chest)),
      NamedNbt [0x7a] (NbtInt (chest_z chest)),
      NamedNbt [0x49, 0x74, 0x65, 0x6d, 0x73] (NbtList Tag_Compound (map item_nbt (chest_items chest)))])\<rparr>"

definition plane_step :: "nat \<times> u16 \<Rightarrow> bytes \<times> bytes \<Rightarrow> bytes \<times> bytes" where
  "plane_step entry planes =
     (case (entry, planes) of ((index, state_id), (ids, data)) \<Rightarrow>
        let nibble = ucast (state_id AND 0x0f); i = drop_bit 1 index; byte = data ! i
        in (ids @ [ucast (drop_bit 4 state_id)],
            data[i := (if index AND 1 = 0 then (byte AND 0xf0) OR nibble else (byte AND 0x0f) OR push_bit 4 nibble)]))"

definition block_planes :: "u16 list \<Rightarrow> bytes \<times> bytes" where
  "block_planes sts = fold plane_step (enumerate 0 sts) ([], replicate NIBBLE_BYTES 0)"

definition snapshot_view :: "ChunkCoord \<Rightarrow> ChunkSnapshot \<Rightarrow> ChunkWireView" where
  "snapshot_view pos snap =
     (let d = snap_data snap; (ids, data) = block_planes (states d)
      in \<lparr>view_chunk_x = coord_x pos, view_chunk_z = coord_z pos, block_ids = ids, block_data = data,
          view_sky_light = sky_light d, view_block_light = block_light d, biome_words = biomes d,
          view_height_map = height_map d, view_extra_data = map (\<lambda>(key, v). (ucast key, v)) (extra_data d),
          block_entities = map chest_nbt (chest_block_entities d)\<rparr>)"

definition remember_packet :: "ChunkCoord \<Rightarrow> ChunkSnapshot \<Rightarrow> RawPacket
    \<Rightarrow> (ChunkCoord \<times> CachedChunkWire) list \<Rightarrow> (ChunkCoord \<times> CachedChunkWire) list" where
  "remember_packet pos snap packet entries =
     (let entries = (if length entries \<ge> MAX_CHUNK_WIRE_CACHE_ENTRIES \<and> hm_get entries pos = None
                     then [] else entries)
      in hm_insert pos \<lparr>cached_terrain_revision = snap_terrain_revision snap,
           cached_light_revision = snap_light_revision snap, cached_packet = packet\<rparr> entries)"

text \<open>The part of \<open>chunk_wire_packet\<close> after a cache miss.\<close>

definition chunk_wire_encode :: "ChunkCoord \<Rightarrow> ChunkSnapshot \<Rightarrow> NativeWorldState
    \<Rightarrow> (PhpError + RawPacket) \<times> NativeWorldState" where
  "chunk_wire_encode pos snap n =
     (case encode_full_chunk (snapshot_view pos snap) of
        Inl e \<Rightarrow> (Inl (PhpCodecError e), n)
      | Inr packet \<Rightarrow>
          (case fst (WorldStore_terrain_revision pos (world_store n)) of
             Inl e \<Rightarrow> (Inl (PhpStoreError e), n)
           | Inr current_terrain \<Rightarrow>
               (case fst (WorldStore_light_revision pos (world_store n)) of
                  Inl e \<Rightarrow> (Inl (PhpStoreError e), n)
                | Inr current_light \<Rightarrow>
                    (Inr packet,
                     if current_terrain = snap_terrain_revision snap \<and> current_light = snap_light_revision snap
                     then n\<lparr>chunk_wire_cache := remember_packet pos snap packet (chunk_wire_cache n)\<rparr>
                     else n))))"

definition chunk_wire_packet :: "ChunkCoord \<Rightarrow> NativeWorldState \<Rightarrow> (PhpError + RawPacket) \<times> NativeWorldState" where
  "chunk_wire_packet pos n =
     (case fst (WorldStore_snapshot pos (world_store n)) of
        Inl e \<Rightarrow> (Inl (PhpStoreError e), n)
      | Inr snap \<Rightarrow>
          (case hm_get (chunk_wire_cache n) pos of
             Some cached \<Rightarrow>
               if cached_terrain_revision cached = snap_terrain_revision snap
                  \<and> cached_light_revision cached = snap_light_revision snap
               then (Inr (cached_packet cached), n)
               else chunk_wire_encode pos snap n
           | None \<Rightarrow> chunk_wire_encode pos snap n))"

text \<open>The eviction entry point: the cached packet of an evicted chunk goes with it.\<close>

definition world_try_evict_chunk :: "ChunkCoord \<Rightarrow> NativeWorldState \<Rightarrow> (PhpError + nat) \<times> NativeWorldState" where
  "world_try_evict_chunk pos n =
     (case try_evict_chunk pos (world_store n) of
        (Inl e, s) \<Rightarrow> (Inl (PhpStoreError e), n\<lparr>world_store := s\<rparr>)
      | (Inr result, s) \<Rightarrow>
          let n = n\<lparr>world_store := s\<rparr>;
              n = (if result = Evicted then n\<lparr>chunk_wire_cache := hm_remove pos (chunk_wire_cache n)\<rparr> else n)
          in (Inr (case result of Missing \<Rightarrow> 0 | Pinned _ \<Rightarrow> 1 | Dirty \<Rightarrow> 2 | Evicted \<Rightarrow> 3), n))"

section \<open>Layout of the chunk packet\<close>

definition extra_bytes :: "(u32 \<times> u16) list \<Rightarrow> bytes" where
  "extra_bytes es = concat (map (\<lambda>(key, v). to_le_bytes key @ to_le_bytes v) es)"

definition entity_bytes :: "NbtDocument list \<Rightarrow> bytes" where
  "entity_bytes docs = concat (map (\<lambda>doc. named_bytes (nbt_root doc)) docs)"

definition plane_bytes :: "ChunkWireView \<Rightarrow> bytes" where
  "plane_bytes v = block_ids v @ block_data v @ view_sky_light v @ view_block_light v @ view_height_map v
     @ concat (map to_be_bytes (biome_words v))"

definition chunk_payload :: "ChunkWireView \<Rightarrow> bytes" where
  "chunk_payload v = plane_bytes v @ to_le_bytes (of_nat (length (view_extra_data v)) :: u32)
     @ extra_bytes (view_extra_data v) @ entity_bytes (block_entities v)"

definition extra_key_ok :: "u32 \<Rightarrow> bool" where
  "extra_key_ok key \<longleftrightarrow> key \<le> 0xffff \<and> key AND 0xff \<le> 127"

definition entity_ok :: "NbtDocument \<Rightarrow> bool" where
  "entity_ok doc \<longleftrightarrow> length (named_bytes (nbt_root doc)) \<le> 64 * 1024 \<and> named_fits chunk_nbt_limits 0 (nbt_root doc)"

definition view_ok :: "ChunkWireView \<Rightarrow> bool" where
  "view_ok v \<longleftrightarrow> length (block_ids v) = BLOCK_COUNT \<and> length (block_data v) = NIBBLE_BYTES
     \<and> length (view_sky_light v) = NIBBLE_BYTES \<and> length (view_block_light v) = NIBBLE_BYTES
     \<and> length (biome_words v) = COLUMN_COUNT \<and> length (view_height_map v) = COLUMN_COUNT
     \<and> list_all (\<lambda>(key, _). extra_key_ok key) (view_extra_data v) \<and> list_all entity_ok (block_entities v)
     \<and> length (chunk_payload v) < 2 ^ 32"

definition chunk_packet :: "ChunkWireView \<Rightarrow> RawPacket" where
  "chunk_packet v = RawPacket_new FULL_CHUNK_DATA_ID
     (to_be_bytes (view_chunk_x v) @ to_be_bytes (view_chunk_z v) @ [CHUNK_ORDER_LAYERED]
      @ to_be_bytes (of_nat (length (chunk_payload v)) :: u32) @ chunk_payload v)"

lemma require_len_iff [result_simps]: "require_len field bs n = Inr u \<longleftrightarrow> length bs = n"
  by (simp add: require_len_def)

lemma validate_extra_data_key_iff [result_simps]: "validate_extra_data_key key = Inr u \<longleftrightarrow> extra_key_ok key"
  by (auto simp: validate_extra_data_key_def extra_key_ok_def Let_def)

lemma encode_entity_iff:
  "encode_le doc chunk_nbt_limits = Inr bs \<longleftrightarrow> entity_ok doc \<and> bs = named_bytes (nbt_root doc)"
  by (auto simp: encode_le_iff chunk_nbt_limits_def NbtLimits_new_def usize_max_def entity_ok_def)

lemma encode_entities_iff:
  "collect_results (\<lambda>doc. encode_le doc chunk_nbt_limits) docs = Inr es \<longleftrightarrow>
   list_all entity_ok docs \<and> es = map (\<lambda>doc. named_bytes (nbt_root doc)) docs"
  by (induction docs arbitrary: es) (auto simp: result_simps encode_entity_iff)

lemma put_extras_iff:
  "for_each put_extra es payload = Inr out \<longleftrightarrow>
   list_all (\<lambda>(key, _). extra_key_ok key) es \<and> out = payload @ extra_bytes es"
  by (induction es arbitrary: payload) (auto simp: put_extra_def extra_bytes_def result_simps split: prod.splits)

lemma sum_lengths_iff:
  "for_each (\<lambda>bs sum. ok_or (usize_checked_add sum (length bs)) e) bss n = Inr m \<longleftrightarrow>
   m = n + length (concat bss) \<and> (bss = [] \<or> m \<le> usize_max)" (is "?f bss n = _ \<longleftrightarrow> _")
proof (induction bss arbitrary: n)
  case (Cons bs bss)
  have "?f (bs # bss) n = Inr m \<longleftrightarrow> n + length bs \<le> usize_max \<and> ?f bss (n + length bs) = Inr m"
    by (simp add: rbind_Inr_iff ok_or_Inr_iff usize_checked_add_Some_iff)
  also have "\<dots> \<longleftrightarrow> m = n + length (concat (bs # bss)) \<and> m \<le> usize_max"
    unfolding Cons.IH by (cases bss) auto
  finally show ?case by simp
qed auto

lemma length_extra_bytes [simp]: "length (extra_bytes es) = 6 * length es"
  by (induction es) (auto simp: extra_bytes_def)

lemma encode_full_chunk_iff: "encode_full_chunk v = Inr raw \<longleftrightarrow> view_ok v \<and> raw = chunk_packet v"
proof -
  have "length (view_extra_data v) * 6 \<le> usize_max" "length (entity_bytes (block_entities v)) \<le> usize_max"
      "length (view_extra_data v) < 2 ^ 32"
    if "length (chunk_payload v) < 2 ^ 32"
    using that by (auto simp: chunk_payload_def usize_max_def)
  then show ?thesis
    by (auto simp: encode_full_chunk_def result_simps Let_def encode_entities_iff put_extras_iff sum_lengths_iff view_ok_def
        chunk_packet_def chunk_payload_def plane_bytes_def entity_bytes_def
        simp del: length_append length_concat of_nat_add)
qed

section \<open>Revision-tracked changes\<close>

text \<open>
  The contract between the store and a cache keyed by revisions: a step may change the content of an item only
  under a newer version, and drops no item. Then an entry rendered from the content at some version
  stays right for as long as the version is the current one.
\<close>

definition entry_valid :: "('v \<Rightarrow> 'v \<Rightarrow> bool) \<Rightarrow> ('c \<Rightarrow> 'v) \<Rightarrow> ('c \<Rightarrow> 'p) \<Rightarrow> 'c option \<Rightarrow> 'v \<Rightarrow> 'p \<Rightarrow> bool" where
  "entry_valid newer version render item v p \<longleftrightarrow>
     (\<exists>c. item = Some c \<and> newer v (version c) \<and> (version c = v \<longrightarrow> render c = p))"

locale version_tracking =
  fixes step :: "'s \<Rightarrow> 's \<Rightarrow> bool"
    and inv :: "'s \<Rightarrow> bool"
    and item :: "'s \<Rightarrow> 'k \<Rightarrow> 'c option"
    and version :: "'c \<Rightarrow> 'v"
    and newer :: "'v \<Rightarrow> 'v \<Rightarrow> bool"
    and content :: "'c \<Rightarrow> 'd"
  assumes tracks: "inv s \<Longrightarrow> step s t \<Longrightarrow> item s k = Some c \<Longrightarrow>
      \<exists>c'. item t k = Some c' \<and> newer (version c) (version c') \<and> (version c' = version c \<longrightarrow> content c' = content c)"
    and newer_refl: "newer v v"
    and newer_trans: "newer u v \<Longrightarrow> newer v w \<Longrightarrow> newer u w"
    and newer_antisym: "newer u v \<Longrightarrow> newer v u \<Longrightarrow> u = v"
begin

lemma entry_valid_step:
  assumes "inv s" and "step s t" and "entry_valid newer version (\<lambda>c. render (content c)) (item s k) v p"
  shows "entry_valid newer version (\<lambda>c. render (content c)) (item t k) v p"
proof -
  from assms(3) obtain c where c: "item s k = Some c" "newer v (version c)"
      "version c = v \<Longrightarrow> render (content c) = p"
    by (auto simp: entry_valid_def)
  from tracks [OF assms(1,2) c(1)] obtain c' where c': "item t k = Some c'" "newer (version c) (version c')"
      "version c' = version c \<Longrightarrow> content c' = content c"
    by blast
  have "render (content c') = p" if "version c' = v"
  proof -
    have "version c = v" using c(2) c'(2) that by (auto intro: newer_antisym)
    with that c(3) c'(3) show ?thesis by simp
  qed
  with c(2) c'(1,2) show ?thesis by (auto simp: entry_valid_def intro: newer_trans)
qed

lemma entry_valid_now: "item s k = Some c \<Longrightarrow> entry_valid newer version render (item s k) (version c) (render c)"
  by (auto simp: entry_valid_def newer_refl)

end

text \<open>
  The operations that keep revisions and data together: patches, commits, residency, pins, flags, watermarks
  and the log. The scalar writes are not among them: they leave the revision to a later commit.
\<close>

inductive revision_step :: "WorldStore \<Rightarrow> WorldStore \<Rightarrow> bool" where
  rs_patch: "revision_step s (snd (apply_patch pos p s))"
| rs_commit_terrain: "revision_step s (snd (commit_terrain_revision pos r r' s))"
| rs_commit_light: "revision_step s (snd (commit_light_revision pos r r' s))"
| rs_ensure: "revision_step s (snd (ensure_chunk pos b s))"
| rs_import_absent: "bt_wf (imp_extra_data imp) \<Longrightarrow> revision_step s (snd (import_chunk_if_absent pos imp s))"
| rs_install: "bt_wf (imp_extra_data imp) \<Longrightarrow> revision_step s (snd (install_generated_chunk pos imp s))"
| rs_set_flags: "revision_step s (snd (set_lifecycle_flags pos f s))"
| rs_pin: "revision_step s (snd (pin_chunk pos s))"
| rs_unpin: "revision_step s (snd (unpin_chunk pos s))"
| rs_mark: "revision_step s (snd (mark_persisted pos tr lr f s))"
| rs_prune: "revision_step s (prune_changes_through q s)"

definition chunk_version :: "ChunkRecord \<Rightarrow> u64 \<times> u64" where
  "chunk_version c = (terrain_revision c, light_revision c)"

definition version_le :: "u64 \<times> u64 \<Rightarrow> u64 \<times> u64 \<Rightarrow> bool" where
  "version_le u v \<longleftrightarrow> fst u \<le> fst v \<and> snd u \<le> snd v"

definition advances :: "ChunkRecord \<Rightarrow> ChunkRecord \<Rightarrow> bool" where
  "advances c c' \<longleftrightarrow> version_le (chunk_version c) (chunk_version c')
     \<and> (chunk_version c' = chunk_version c \<longrightarrow> chunk_data c' = chunk_data c)"

definition tracked :: "WorldStore \<Rightarrow> WorldStore \<Rightarrow> bool" where
  "tracked s t \<longleftrightarrow> (\<forall>pos c. ws_chunk s pos = Some c \<longrightarrow> (\<exists>c'. ws_chunk t pos = Some c' \<and> advances c c'))"

lemma advances_refl [simp]: "advances c c"
  by (simp add: advances_def version_le_def)

lemma tracked_refl [simp]: "tracked s s"
  by (simp add: tracked_def)

lemma tracked_put: "(\<And>c. ws_chunk s pos = Some c \<Longrightarrow> advances c c') \<Longrightarrow> tracked s (put_chunk pos c' s)"
  by (auto simp: tracked_def)

lemma tracked_mut:
  assumes "\<And>c x c'. f c = Inr (x, c') \<Longrightarrow> advances c c'"
  shows "tracked s (snd (with_chunk_mut pos f s))"
  using assms by (auto simp: with_chunk_mut_alt split: option.splits sum.splits intro: tracked_put)

lemma tracked_same: "ws_chunk t = ws_chunk s \<Longrightarrow> tracked s t"
  by (simp add: tracked_def)

lemma bump_less: "checked_add (r :: u64) 1 = Some r' \<Longrightarrow> r \<le> r' \<and> r' \<noteq> r"
  using checked_add_1_less [of r r'] by auto

lemma patch_data_empty:
  assumes "\<not> patch_terrain_changed p" and "\<not> patch_light_changed p"
  shows "patch_data p d = d"
proof -
  have "fold (\<lambda>(column, t) d. if t then recalculate_column_height column d else d) (zip cs (replicate n False)) d = d" for cs n
    by (rule fold_invariant [where Q = "\<lambda>(_, t). \<not> t" and P = "\<lambda>x. x = d"])
      (auto dest!: set_zip_rightD)
  with assms show ?thesis
    by (simp add: patch_data_def patch_terrain_changed_def patch_light_changed_def)
qed

lemma record_change_chunks [simp]: "ws_chunk (snd (record_change pos kind s)) = ws_chunk s"
  by (simp add: record_change_def Let_def split: option.splits)

lemma apply_patch_tracked: "tracked s (snd (apply_patch pos p s))"
proof (cases rule: apply_patch_cases [of pos p s])
  case (accepted c c')
  have "advances c c'"
    using accepted(3) patch_data_empty [of p "chunk_data c"]
    by (auto simp: patch_chunk_Inr_iff advances_def version_le_def chunk_version_def split: if_splits dest!: bump_less)
  then have "tracked s (put_chunk pos c' s)" using accepted(1) by (auto intro: tracked_put)
  moreover have "ws_chunk (snd (log_patch pos p (put_chunk pos c' s))) = ws_chunk (put_chunk pos c' s)"
    by (simp add: log_patch_def split: option.splits)
  ultimately show ?thesis using accepted(4) by (simp add: tracked_def)
qed simp

lemma install_over_advances: "advances c (snd (install_over imp c))"
  by (auto simp: install_over_def Let_def advances_def version_le_def chunk_version_def result_simps
      split: sum.splits if_splits dest!: bump_less)

lemma revision_step_tracked:
  assumes inv: "world_inv s" and step: "revision_step s t"
  shows "tracked s t"
  using step
proof cases
  case (rs_patch pos p)
  then show ?thesis by (simp add: apply_patch_tracked)
next
  case (rs_commit_terrain pos r r')
  then show ?thesis
    by (auto simp: commit_terrain_revision_def result_simps advances_def version_le_def chunk_version_def
        split: if_splits dest!: bump_less intro!: tracked_mut)
next
  case (rs_commit_light pos r r')
  then show ?thesis
    by (auto simp: commit_light_revision_def result_simps advances_def version_le_def chunk_version_def
        split: if_splits dest!: bump_less intro!: tracked_mut)
next
  case (rs_ensure pos b)
  then show ?thesis by (auto simp: ensure_chunk_alt [OF inv] split: option.splits intro: tracked_put)
next
  case (rs_import_absent imp pos)
  then show ?thesis by (auto simp: import_if_absent_alt [OF inv] split: sum.splits intro: tracked_put)
next
  case (rs_install imp pos)
  then show ?thesis
    by (auto simp: install_generated_alt [OF inv] install_over_advances split: sum.splits option.splits intro!: tracked_put)
next
  case (rs_set_flags pos f)
  then show ?thesis
    by (auto simp: set_lifecycle_flags_def advances_def version_le_def chunk_version_def split: sum.splits intro!: tracked_mut)
next
  case (rs_mark pos tr lr f)
  then show ?thesis
    by (auto simp: mark_persisted_def result_simps advances_def version_le_def chunk_version_def
        split: sum.splits if_splits intro!: tracked_mut)
next
  case (rs_prune q)
  then show ?thesis by (simp add: prune_changes_through_def tracked_same)
qed (auto simp: pin_chunk_def unpin_chunk_def result_simps advances_def version_le_def chunk_version_def
    split: if_splits intro!: tracked_mut)

lemma revision_step_world: "revision_step s t \<Longrightarrow> world_step s t"
  by (induction rule: revision_step.induct) (auto intro: world_step.intros)

interpretation vt: version_tracking revision_step world_inv ws_chunk chunk_version version_le chunk_data
proof
  fix s t pos c
  assume "world_inv s" "revision_step s t" "ws_chunk s pos = Some c"
  then show "\<exists>c'. ws_chunk t pos = Some c' \<and> version_le (chunk_version c) (chunk_version c')
      \<and> (chunk_version c' = chunk_version c \<longrightarrow> chunk_data c' = chunk_data c)"
    using revision_step_tracked [of s t] by (auto simp: tracked_def advances_def)
qed (auto simp: version_le_def)

section \<open>The packet cache\<close>

definition NativeWorldState_new :: NativeWorldState where
  "NativeWorldState_new = \<lparr>world_store = WorldStore_new, chunk_wire_cache = []\<rparr>"

inductive wire_step :: "NativeWorldState \<Rightarrow> NativeWorldState \<Rightarrow> bool" where
  wst_store: "revision_step (world_store n) s \<Longrightarrow> wire_step n (n\<lparr>world_store := s\<rparr>)"
| wst_packet: "wire_step n (snd (chunk_wire_packet pos n))"
| wst_evict: "wire_step n (snd (world_try_evict_chunk pos n))"

definition packet_of :: "ChunkCoord \<Rightarrow> ChunkData \<Rightarrow> CodecError + RawPacket" where
  "packet_of pos d = encode_full_chunk (snapshot_view pos
     \<lparr>snap_position = pos, snap_terrain_revision = 0, snap_light_revision = 0, snap_lifecycle_flags = 0, snap_data = d\<rparr>)"

definition cache_entry_ok :: "WorldStore \<Rightarrow> ChunkCoord \<Rightarrow> CachedChunkWire \<Rightarrow> bool" where
  "cache_entry_ok s pos e \<longleftrightarrow> entry_valid version_le chunk_version (\<lambda>c. packet_of pos (chunk_data c)) (ws_chunk s pos)
     (cached_terrain_revision e, cached_light_revision e) (Inr (cached_packet e))"

definition wire_inv :: "NativeWorldState \<Rightarrow> bool" where
  "wire_inv n \<longleftrightarrow> world_inv (world_store n) \<and> hm_wf (chunk_wire_cache n)
     \<and> length (chunk_wire_cache n) \<le> MAX_CHUNK_WIRE_CACHE_ENTRIES
     \<and> (\<forall>pos e. hm_get (chunk_wire_cache n) pos = Some e \<longrightarrow> cache_entry_ok (world_store n) pos e)"

lemma packet_of_snapshot: "encode_full_chunk (snapshot_view pos (snapshot_of pos c)) = packet_of pos (chunk_data c)"
  by (simp add: packet_of_def snapshot_view_def snapshot_of_def)

lemma snapshot_of_sel [simp]:
  "snap_terrain_revision (snapshot_of pos c) = terrain_revision c"
  "snap_light_revision (snapshot_of pos c) = light_revision c"
  by (simp_all add: snapshot_of_def)

lemma length_hm_insert: "length (hm_insert k v m) = (if hm_get m k = None then Suc (length m) else length m)"
  by (induction m) auto

lemma length_hm_remove: "length (hm_remove k m) \<le> length m"
  by (simp add: AList.delete_eq)

lemma remember_packet_spec:
  assumes "hm_wf m" and "length m \<le> MAX_CHUNK_WIRE_CACHE_ENTRIES"
  shows "hm_wf (remember_packet pos snap p m)"
    and "length (remember_packet pos snap p m) \<le> MAX_CHUNK_WIRE_CACHE_ENTRIES"
    and "hm_get (remember_packet pos snap p m) q = Some e \<Longrightarrow>
      (if q = pos then e = \<lparr>cached_terrain_revision = snap_terrain_revision snap,
           cached_light_revision = snap_light_revision snap, cached_packet = p\<rparr> else hm_get m q = Some e)"
  using assms
  by (auto simp: remember_packet_def Let_def hm.wf_put length_hm_insert update_conv' MAX_CHUNK_WIRE_CACHE_ENTRIES_def
      split: if_splits)

text \<open>What \<open>chunk_wire_packet\<close> does on a resident chunk: a hit, or a fresh encoding that is remembered.\<close>

lemma chunk_wire_packet_alt:
  assumes "ws_chunk (world_store n) pos = Some c"
  shows "chunk_wire_packet pos n =
    (case hm_get (chunk_wire_cache n) pos of
       Some e \<Rightarrow> if (cached_terrain_revision e, cached_light_revision e) = chunk_version c
                 then (Inr (cached_packet e), n)
                 else (map_err PhpCodecError (packet_of pos (chunk_data c)),
                       case packet_of pos (chunk_data c) of Inl _ \<Rightarrow> n
                       | Inr p \<Rightarrow> n\<lparr>chunk_wire_cache := remember_packet pos (snapshot_of pos c) p (chunk_wire_cache n)\<rparr>)
     | None \<Rightarrow> (map_err PhpCodecError (packet_of pos (chunk_data c)),
                case packet_of pos (chunk_data c) of Inl _ \<Rightarrow> n
                | Inr p \<Rightarrow> n\<lparr>chunk_wire_cache := remember_packet pos (snapshot_of pos c) p (chunk_wire_cache n)\<rparr>))"
proof -
  have "chunk_wire_encode pos (snapshot_of pos c) n =
      (map_err PhpCodecError (packet_of pos (chunk_data c)),
       case packet_of pos (chunk_data c) of Inl _ \<Rightarrow> n
       | Inr p \<Rightarrow> n\<lparr>chunk_wire_cache := remember_packet pos (snapshot_of pos c) p (chunk_wire_cache n)\<rparr>)"
    using assms
    by (simp add: chunk_wire_encode_def packet_of_snapshot WorldStore_terrain_revision_def WorldStore_light_revision_def
        with_chunk_alt split: sum.splits)
  with assms show ?thesis
    by (auto simp: chunk_wire_packet_def WorldStore_snapshot_def with_chunk_alt chunk_version_def
        split: option.splits)
qed

lemma chunk_wire_packet_missing:
  "ws_chunk (world_store n) pos = None \<Longrightarrow> chunk_wire_packet pos n = (Inl (PhpStoreError (chunk_missing pos)), n)"
  by (simp add: chunk_wire_packet_def WorldStore_snapshot_def with_chunk_alt)

lemma wire_inv_packet:
  assumes inv: "wire_inv n"
  shows "wire_inv (snd (chunk_wire_packet pos n))"
proof (cases "ws_chunk (world_store n) pos")
  case None
  then show ?thesis using inv by (simp add: chunk_wire_packet_missing)
next
  case (Some c)
  have "wire_inv (n\<lparr>chunk_wire_cache := remember_packet pos (snapshot_of pos c) p (chunk_wire_cache n)\<rparr>)"
    if p: "packet_of pos (chunk_data c) = Inr p" for p
  proof -
    let ?m = "remember_packet pos (snapshot_of pos c) p (chunk_wire_cache n)"
    have m: "hm_wf (chunk_wire_cache n)" "length (chunk_wire_cache n) \<le> MAX_CHUNK_WIRE_CACHE_ENTRIES"
      using inv by (auto simp: wire_inv_def)
    have "cache_entry_ok (world_store n) q e" if "hm_get ?m q = Some e" for q e
    proof (cases "q = pos")
      case True
      with remember_packet_spec(3) [OF m that] p Some show ?thesis
        by (auto simp: cache_entry_ok_def entry_valid_def chunk_version_def version_le_def)
    next
      case False
      with remember_packet_spec(3) [OF m that] inv show ?thesis by (auto simp: wire_inv_def)
    qed
    with inv remember_packet_spec(1,2) [OF m] show ?thesis by (simp add: wire_inv_def)
  qed
  with inv show ?thesis by (auto simp: chunk_wire_packet_alt [OF Some] split: option.splits sum.splits)
qed

lemma wire_inv_evict:
  assumes inv: "wire_inv n"
  shows "wire_inv (snd (world_try_evict_chunk pos n))"
proof -
  let ?s = "world_store n"
  have world: "world_inv ?s" using inv by (simp add: wire_inv_def)
  obtain r s where ev: "try_evict_chunk pos ?s = (r, s)" by (cases "try_evict_chunk pos ?s")
  consider (same) "s = ?s" "r \<noteq> Inr Evicted" | (gone) c where "r = Inr Evicted" "ws_chunk ?s pos = Some c"
    using try_evict_alt [OF world, of pos] unfolding ev by (auto split: option.splits if_splits)
  then show ?thesis
  proof cases
    case same
    with inv ev show ?thesis by (auto simp: world_try_evict_chunk_def split: sum.splits)
  next
    case gone
    then have "ws_chunk s = (ws_chunk ?s)(pos := None)" "world_inv s"
      using ws_evict_spec [OF world gone(2)] ev by auto
    with inv gone ev length_hm_remove [of pos "chunk_wire_cache n"] show ?thesis
      by (auto simp: world_try_evict_chunk_def wire_inv_def hm.wf_del delete_conv' cache_entry_ok_def Let_def
          split: if_splits)
  qed
qed

interpretation cm: invariant_machine wire_step wire_inv
proof
  fix n n'
  assume inv: "wire_inv n" and "wire_step n n'"
  from this(2) show "wire_inv n'"
  proof cases
    case (wst_store s)
    have "cache_entry_ok s pos e" if "cache_entry_ok (world_store n) pos e" for pos e
      using vt.entry_valid_step [of "world_store n" s "packet_of pos"] that wst_store(2) inv
      by (auto simp: cache_entry_ok_def wire_inv_def)
    moreover have "world_inv s"
      using wm.inv_step [OF _ revision_step_world [OF wst_store(2)]] inv by (simp add: wire_inv_def)
    ultimately show ?thesis using inv wst_store(1) by (simp add: wire_inv_def)
  qed (use inv wire_inv_packet wire_inv_evict in auto)
qed

lemma wire_inv_new: "wire_inv NativeWorldState_new"
  by (simp add: wire_inv_def NativeWorldState_new_def world_inv_new)

section \<open>What the packets carry\<close>

text \<open>The id byte and the data nibble of a block state determine it, within the legacy range.\<close>

lemma state_bits: "(st :: u16) \<le> 0x0fff \<longleftrightarrow> (\<forall>n. bit st n \<longrightarrow> n < 12)"
proof -
  have "st \<le> 0x0fff \<longleftrightarrow> unat st < 2 ^ 12" by (auto simp: word_le_nat_alt)
  also have "\<dots> \<longleftrightarrow> take_bit 12 st = st"
    by (simp only: word_unat_eq_iff unsigned_take_bit_eq take_bit_nat_eq_self_iff)
  also have "\<dots> \<longleftrightarrow> (\<forall>n. bit st n \<longrightarrow> n < 12)"
    using bit_imp_le_length [of st] by (fastforce simp: bit_eq_iff bit_take_bit_iff)
  finally show ?thesis .
qed

lemma bit_0f_16: "bit (0x0f :: u16) n \<longleftrightarrow> n < 4"
proof -
  have "(0x0f :: u16) = mask 4" by (simp add: mask_eq_exp_minus_1)
  then show ?thesis unfolding \<open>(0x0f :: u16) = mask 4\<close> bit_mask_iff by auto
qed

definition join_state :: "u8 \<Rightarrow> u8 \<Rightarrow> u16" where
  "join_state i nibble = push_bit 4 (ucast i) OR ucast nibble"

lemma bit_state_parts:
  "bit (ucast ((st :: u16) AND 0x0f) :: u8) n \<longleftrightarrow> bit st n \<and> n < 4"
  "bit (ucast (drop_bit 4 (st :: u16)) :: u8) n \<longleftrightarrow> bit st (4 + n) \<and> n < 8"
  "bit (join_state a b) n \<longleftrightarrow> n < 16 \<and> (4 \<le> n \<and> bit a (n - 4) \<or> bit b n)"
  unfolding bit_ucast_iff bit_and_iff bit_0f_16 bit_drop_bit_eq join_state_def bit_or_iff bit_push_bit_iff
  by auto

lemma join_split_state:
  assumes "(st :: u16) \<le> 0x0fff"
  shows "join_state (ucast (drop_bit 4 st)) (ucast (st AND 0x0f)) = st"
proof (rule bit_word_eqI)
  fix n
  show "bit (join_state (ucast (drop_bit 4 st)) (ucast (st AND 0x0f))) n = bit st n" if "n < LENGTH(16)"
    unfolding bit_state_parts using assms that unfolding state_bits by (cases "n < 4") auto
qed

lemma state_nibble_bound: "(ucast ((st :: u16) AND 0x0f) :: u8) \<le> 0x0f"
  unfolding nibble_bits bit_state_parts by simp

lemma plane_step_alt:
  "plane_step (i, st) (ids, data) = (ids @ [ucast (drop_bit 4 st)], write_nibble i (ucast (st AND 0x0f)) data)"
  by (simp add: plane_step_def write_nibble_def Let_def)

lemma block_planes_fold:
  assumes "n + length sts \<le> 2 * length data"
  shows "\<exists>data'. fold plane_step (enumerate n sts) (ids, data) = (ids @ map (\<lambda>st. ucast (drop_bit 4 st)) sts, data')
    \<and> length data' = length data
    \<and> (\<forall>i. read_nibble data' i = (if n \<le> i \<and> i < n + length sts then ucast (sts ! (i - n) AND 0x0f) else read_nibble data i))"
  using assms
proof (induction sts arbitrary: n ids data)
  case Nil
  then show ?case by auto
next
  case (Cons st sts)
  let ?data = "write_nibble n (ucast (st AND 0x0f)) data"
  obtain data' where d: "fold plane_step (enumerate (Suc n) sts) (ids @ [ucast (drop_bit 4 st)], ?data)
        = ((ids @ [ucast (drop_bit 4 st)]) @ map (\<lambda>st. ucast (drop_bit 4 st)) sts, data')" "length data' = length data"
      "\<And>i. read_nibble data' i = (if Suc n \<le> i \<and> i < Suc n + length sts then ucast (sts ! (i - Suc n) AND 0x0f)
              else read_nibble ?data i)"
    using Cons.IH [of "Suc n" ?data "ids @ [ucast (drop_bit 4 st)]"] Cons.prems by auto
  have "read_nibble ?data i = (if n = i then ucast (st AND 0x0f) else read_nibble data i)" for i
    using Cons.prems by (simp add: read_write_nibble state_nibble_bound)
  then have "read_nibble data' i = (if n \<le> i \<and> i < n + length (st # sts) then ucast ((st # sts) ! (i - n) AND 0x0f)
      else read_nibble data i)" for i
    unfolding d(3) by (auto simp: nth_Cons' Suc_diff_le not_less_eq_eq Suc_le_eq)
  with d(1,2) show ?case by (auto simp: plane_step_alt)
qed

lemma block_planes_spec:
  assumes "length sts = BLOCK_COUNT"
  shows "fst (block_planes sts) = map (\<lambda>st. ucast (drop_bit 4 st)) sts"
    and "length (snd (block_planes sts)) = NIBBLE_BYTES"
    and "i < BLOCK_COUNT \<Longrightarrow> read_nibble (snd (block_planes sts)) i = ucast (sts ! i AND 0x0f)"
  using block_planes_fold [of 0 sts "replicate NIBBLE_BYTES 0" "[]"] assms
  by (auto simp: block_planes_def BLOCK_COUNT_eq(2))

lemma length_biome_bytes [simp]: "length (concat (map to_be_bytes (ws :: u32 list))) = 4 * length ws"
  by (induction ws) auto

lemma snapshot_view_planes:
  assumes "chunk_data_ok (chunk_data c)" and v: "v = snapshot_view pos (snapshot_of pos c)" and d: "d = chunk_data c"
  shows "length (block_ids v) = BLOCK_COUNT" "length (block_data v) = NIBBLE_BYTES"
    and "i < BLOCK_COUNT \<Longrightarrow> states d ! i = join_state (block_ids v ! i) (read_nibble (block_data v) i)"
    and "view_sky_light v = sky_light d" "view_block_light v = block_light d" "view_height_map v = height_map d"
    and "biome_words v = biomes d" "view_chunk_x v = coord_x pos" "view_chunk_z v = coord_z pos"
    and "view_extra_data v = map (\<lambda>(k, x). (ucast k, x)) (extra_data d)"
    and "block_entities v = map chest_nbt (chest_block_entities d)"
proof -
  have len: "length (states d) = BLOCK_COUNT" using assms by (simp add: chunk_data_ok_def)
  note planes = block_planes_spec [OF len]
  have v': "block_ids v = fst (block_planes (states d))" "block_data v = snd (block_planes (states d))"
    by (simp_all add: v d snapshot_view_def snapshot_of_def Let_def split: prod.splits)
  show "length (block_ids v) = BLOCK_COUNT" "length (block_data v) = NIBBLE_BYTES" using len planes by (simp_all add: v')
  show "states d ! i = join_state (block_ids v ! i) (read_nibble (block_data v) i)" if "i < BLOCK_COUNT"
  proof -
    have "world_block_state_id_is_supported (states d ! i)"
      using assms(1) that len by (simp add: chunk_data_ok_def d list_all_length)
    then have "states d ! i \<le> 0x0fff" by (simp add: world_block_state_id_is_supported_def MAX_BLOCK_STATE_ID_def)
    from join_split_state [OF this] planes(1) planes(3) [OF that] that len show ?thesis by (simp add: v')
  qed
qed (simp_all add: v d snapshot_view_def snapshot_of_def Let_def split: prod.splits)

text \<open>The NBT document of a chest fits the limits exactly when its item list does.\<close>

lemma item_nbt_bytes: "length (nbt_bytes (item_nbt item)) = 36"
  by (simp add: item_nbt_def nbt_string_def)

lemma chest_entity_ok: "length (chest_items chest) \<le> 256 \<Longrightarrow> entity_ok (chest_nbt chest)"
proof -
  assume n: "length (chest_items chest) \<le> 256"
  have "length (concat (map (nbt_bytes \<circ> item_nbt) items)) = 36 * length items" for items
    by (induction items) (simp_all add: item_nbt_bytes)
  with n show ?thesis
    by (auto simp: entity_ok_def chest_nbt_def nbt_fits_iffs nbt_fits.simps string_fits_def collection_fits_def nbt_string_def
        nbt_len_def chunk_nbt_limits_def NbtLimits_new_def item_nbt_def o_def)
qed

lemma chest_bytes_length: "length (named_bytes (nbt_root (chest_nbt chest))) = 53 + 36 * length (chest_items chest)"
proof -
  have "length (concat (map (nbt_bytes \<circ> item_nbt) items)) = 36 * length items" for items
    by (induction items) (simp_all add: item_nbt_bytes)
  then show ?thesis by (simp add: chest_nbt_def nbt_string_def nbt_len_def o_def)
qed

lemma entity_bytes_bound:
  "\<forall>chest \<in> set chests. length (chest_items chest) \<le> 256 \<Longrightarrow>
   length (entity_bytes (map chest_nbt chests)) \<le> 9269 * length chests"
  by (induction chests) (auto simp: entity_bytes_def chest_bytes_length)

lemma extra_count_bound: "bt_wf m \<Longrightarrow> length m \<le> 65536" for m :: "(u16 \<times> u16) list"
proof -
  assume "bt_wf m"
  then have "distinct (map fst m)" by (simp add: bt_wf_def strict_sorted_iff)
  then have "length m = card (set (map fst m))" by (metis distinct_card length_map)
  also have "\<dots> \<le> card (UNIV :: u16 set)" by (rule card_mono) simp_all
  finally show ?thesis by (simp add: card_word)
qed

lemma chunk_payload_length:
  "length (chunk_payload v) = length (block_ids v) + length (block_data v) + length (view_sky_light v)
     + length (view_block_light v) + length (view_height_map v) + 4 * length (biome_words v) + 4
     + 6 * length (view_extra_data v) + length (entity_bytes (block_entities v))"
  by (simp add: chunk_payload_def plane_bytes_def)

lemma extra_key_cast: "extra_key_ok (ucast (k :: u16)) \<longleftrightarrow> k AND 0xff \<le> 127"
proof -
  have "take_bit 32 (unat k) = unat k"
    using unat_u16_bound [of k] by (simp add: take_bit_nat_eq_self)
  then have "unat (ucast k :: u32) = unat k" by (simp add: unsigned_ucast_eq)
  with unat_u16_bound [of k] show ?thesis
    by (simp add: extra_key_ok_def word_le_nat_alt unsigned_and_eq)
qed

text \<open>A resident chunk with encodable extra data and chests has a packet.\<close>

definition wire_encodable :: "ChunkData \<Rightarrow> bool" where
  "wire_encodable d \<longleftrightarrow> (\<forall>(k, _) \<in> set (extra_data d). k AND 0xff \<le> 127)
     \<and> length (chest_block_entities d) \<le> BLOCK_COUNT
     \<and> (\<forall>chest \<in> set (chest_block_entities d). length (chest_items chest) \<le> 256)"

lemma low_nibble_bound: "(b :: u8) AND 0x0f \<le> 0x0f"
  unfolding nibble_bits bit_and_iff bit_0f by simp

lemma low_nibble_cast: "(ucast (st :: u16) AND 0x0f :: u8) = ucast (st AND 0x0f)"
  by (rule bit_word_eqI) (unfold bit_and_iff bit_0f bit_0f_16 bit_ucast_iff, auto)

lemma split_join_state:
  assumes "n \<le> 0x0f"
  shows "ucast (drop_bit 4 (join_state a n)) = a" and "ucast (join_state a n) AND 0x0f = n"
proof -
  have n: "bit n k \<Longrightarrow> k < 4" for k using assms unfolding nibble_bits by blast
  show "ucast (drop_bit 4 (join_state a n)) = a"
    by (rule bit_word_eqI) (unfold bit_state_parts, auto dest: n)
  show "ucast (join_state a n) AND 0x0f = n"
    unfolding low_nibble_cast by (rule bit_word_eqI) (unfold bit_state_parts, auto dest: n)
qed

lemma nibble_pair:
  shows "f \<le> 0x0f \<Longrightarrow> n \<le> 0x0f \<Longrightarrow> (push_bit 4 f OR n) AND 0x0f = (n :: u8)"
    and "f \<le> 0x0f \<Longrightarrow> n \<le> 0x0f \<Longrightarrow> drop_bit 4 (push_bit 4 f OR n) = (f :: u8)"
    and "push_bit 4 (drop_bit 4 b) OR (b AND 0x0f) = (b :: u8)"
  unfolding nibble_bits
  by (rule bit_word_eqI; unfold bit_and_iff bit_or_iff bit_push_bit_iff bit_drop_bit_eq bit_0f; fastforce)+

lemma update_body_split:
  assumes "length body = 11"
  shows "body = take 4 body @ take 4 (drop 4 body) @ [body ! 8, body ! 9] @ [body ! 10]"
proof -
  have "drop 8 body = [body ! 8, body ! 9] @ [body ! 10]"
    using assms Cons_nth_drop_Suc [of 8 body] Cons_nth_drop_Suc [of 9 body] Cons_nth_drop_Suc [of 10 body] by simp
  moreover have "drop 4 body = take 4 (drop 4 body) @ drop 8 body"
    using append_take_drop_id [of 4 "drop 4 body"] by simp
  ultimately show ?thesis by (metis append_take_drop_id)
qed

lemma put_extras_error:
  "for_each put_extra es payload = Inl e \<Longrightarrow> \<exists>(k, _) \<in> set es. \<not> extra_key_ok k \<and> e = InvalidChunkExtraDataKey k"
  by (induction es arbitrary: payload)
    (auto simp: put_extra_def result_simps validate_extra_data_key_def Let_def extra_key_ok_def split: if_splits)

text \<open>A view whose every part but the extra keys is fine.\<close>

definition view_shape :: "ChunkWireView \<Rightarrow> bool" where
  "view_shape v \<longleftrightarrow> length (block_ids v) = BLOCK_COUNT \<and> length (block_data v) = NIBBLE_BYTES
     \<and> length (view_sky_light v) = NIBBLE_BYTES \<and> length (view_block_light v) = NIBBLE_BYTES
     \<and> length (biome_words v) = COLUMN_COUNT \<and> length (view_height_map v) = COLUMN_COUNT
     \<and> list_all entity_ok (block_entities v) \<and> length (chunk_payload v) < 2 ^ 32"

lemma view_ok_shape: "view_ok v \<longleftrightarrow> view_shape v \<and> list_all (\<lambda>(key, _). extra_key_ok key) (view_extra_data v)"
  by (auto simp: view_ok_def view_shape_def)

lemma encode_full_chunk_extra_error:
  assumes shape: "view_shape v" and err: "for_each put_extra (view_extra_data v)
      (plane_bytes v @ to_le_bytes (of_nat (length (view_extra_data v)) :: u32)) = Inl e"
  shows "encode_full_chunk v = Inl e"
proof -
  have "length (view_extra_data v) * 6 \<le> usize_max" "length (entity_bytes (block_entities v)) \<le> usize_max"
      "length (view_extra_data v) < 2 ^ 32"
    using shape by (auto simp: view_shape_def chunk_payload_length usize_max_def)
  then have "usize_checked_mul (length (view_extra_data v)) 6 = Some (length (view_extra_data v) * 6)"
    "\<exists>m. for_each (\<lambda>bs sum. ok_or (usize_checked_add sum (length bs))
       (LengthOutOfRange ''chunk block entities'' usize_max (2 ^ 32 - 1)))
       (map (\<lambda>doc. named_bytes (nbt_root doc)) (block_entities v)) 0 = Inr m"
    "length (view_extra_data v) < 2 ^ 32"
    by (auto simp: usize_checked_mul_Some_iff sum_lengths_iff entity_bytes_def)
  moreover have "collect_results (\<lambda>doc. encode_le doc chunk_nbt_limits) (block_entities v)
      = Inr (map (\<lambda>doc. named_bytes (nbt_root doc)) (block_entities v))"
    using shape by (simp add: encode_entities_iff view_shape_def)
  ultimately show ?thesis
    using shape err by (auto simp: encode_full_chunk_def view_shape_def require_len_def plane_bytes_def Let_def)
qed

lemma snapshot_view_shape:
  assumes ok: "chunk_data_ok (chunk_data c)" and chests: "length (chest_block_entities (chunk_data c)) \<le> BLOCK_COUNT"
      "\<forall>chest \<in> set (chest_block_entities (chunk_data c)). length (chest_items chest) \<le> 256"
  shows "view_shape (snapshot_view pos (snapshot_of pos c))"
proof -
  let ?v = "snapshot_view pos (snapshot_of pos c)" and ?d = "chunk_data c"
  note v = snapshot_view_planes [OF ok refl refl, where pos = pos]
  have "length (entity_bytes (block_entities ?v)) \<le> 9269 * BLOCK_COUNT"
    using entity_bytes_bound [OF chests(2)] chests(1) by (auto simp: v intro: order_trans mult_le_mono2)
  moreover have "length (view_extra_data ?v) \<le> 65536"
    using extra_count_bound [of "extra_data ?d"] ok by (simp add: v chunk_data_ok_def)
  ultimately have "length (chunk_payload ?v) < 2 ^ 32"
    using ok by (simp add: chunk_payload_length v chunk_data_ok_def shape_numerals)
  moreover have "list_all entity_ok (block_entities ?v)"
    using chests(2) by (auto simp: v list_all_iff intro: chest_entity_ok)
  ultimately show ?thesis using ok by (simp add: view_shape_def v chunk_data_ok_def)
qed

lemma snapshot_view_ok:
  assumes ok: "chunk_data_ok (chunk_data c)" and enc: "wire_encodable (chunk_data c)"
  shows "view_ok (snapshot_view pos (snapshot_of pos c))"
proof -
  have "list_all (\<lambda>(key, _). extra_key_ok key) (view_extra_data (snapshot_view pos (snapshot_of pos c)))"
    using enc snapshot_view_planes(10) [OF ok refl refl]
    by (auto simp: list_all_iff wire_encodable_def extra_key_cast)
  with snapshot_view_shape [OF ok] enc show ?thesis by (simp add: view_ok_shape wire_encodable_def)
qed

section \<open>Properties\<close>

text \<open>
  C37: the packet cache is transparent. In every state that revision-tracked store operations, packet requests and
  evictions lead to, a packet request answers exactly what encoding the current chunk would, with the same error for
  a missing or unencodable chunk; so no client ever gets a packet of an earlier revision, nor of a
  chunk that was evicted and came back. The cache never grows over its capacity.
\<close>

theorem chunk_wire_cache_transparent:
  assumes reach: "wire_step\<^sup>*\<^sup>* NativeWorldState_new n"
  shows "fst (chunk_wire_packet pos n) =
      (case ws_chunk (world_store n) pos of
         None \<Rightarrow> Inl (PhpStoreError (ChunkMissing (coord_x pos) (coord_z pos)))
       | Some c \<Rightarrow> map_err PhpCodecError (encode_full_chunk (snapshot_view pos (snapshot_of pos c))))
    \<and> length (chunk_wire_cache (snd (chunk_wire_packet pos n))) \<le> MAX_CHUNK_WIRE_CACHE_ENTRIES"
proof -
  have inv: "wire_inv n" by (rule cm.inv_steps [OF reach wire_inv_new])
  have "fst (chunk_wire_packet pos n) = map_err PhpCodecError (packet_of pos (chunk_data c))"
    if c: "ws_chunk (world_store n) pos = Some c" for c
  proof (cases "hm_get (chunk_wire_cache n) pos")
    case None
    then show ?thesis by (simp add: chunk_wire_packet_alt [OF c])
  next
    case (Some e)
    with inv have "cache_entry_ok (world_store n) pos e" by (simp add: wire_inv_def)
    with c Some show ?thesis
      by (auto simp: chunk_wire_packet_alt [OF c] cache_entry_ok_def entry_valid_def)
  qed
  moreover have "wire_inv (snd (chunk_wire_packet pos n))" by (rule wire_inv_packet [OF inv])
  ultimately show ?thesis
    by (auto simp: wire_inv_def packet_of_snapshot chunk_wire_packet_missing chunk_missing_def split: option.splits)
qed

definition sample_native :: NativeWorldState where
  "sample_native = NativeWorldState_new\<lparr>world_store := sample_store\<rparr>"

lemma sample_native_reachable: "wire_step\<^sup>*\<^sup>* NativeWorldState_new (snd (chunk_wire_packet sample_pos sample_native))"
proof -
  have "revision_step (world_store NativeWorldState_new) sample_store"
    unfolding sample_store_def NativeWorldState_new_def by (auto intro: rs_ensure)
  from wst_store [OF this] have "wire_step NativeWorldState_new sample_native" by (simp add: sample_native_def)
  then show ?thesis by (meson wst_packet converse_rtranclp_into_rtranclp r_into_rtranclp)
qed

lemma sample_chunk_ok: "chunk_data_ok (chunk_data (ChunkRecord_empty 0x0192bc59))"
    "wire_encodable (chunk_data (ChunkRecord_empty 0x0192bc59))"
  using ws_chunk_ok [OF wm.inv_steps [OF sample_store_reachable world_inv_new] sample_store_eval(2)]
  by (auto simp: chunk_ok_def wire_encodable_def ChunkRecord_empty_def ChunkData_empty_def)

theorem chunk_wire_cache_transparent_witness:
  "fst (chunk_wire_packet sample_pos (snd (chunk_wire_packet sample_pos sample_native)))
   = Inr (chunk_packet (snapshot_view sample_pos (snapshot_of sample_pos (ChunkRecord_empty 0x0192bc59))))"
proof -
  have "world_store (snd (chunk_wire_packet sample_pos sample_native)) = sample_store"
    by (auto simp: chunk_wire_packet_def chunk_wire_encode_def sample_native_def split: option.splits sum.splits)
  then show ?thesis
    using chunk_wire_cache_transparent [OF sample_native_reachable, of sample_pos]
      snapshot_view_ok [OF sample_chunk_ok, of sample_pos]
    by (simp add: sample_store_eval encode_full_chunk_iff [THEN iffD2])
qed

text \<open>
  C38: the FullChunkData packet carries the whole chunk. In any reachable store, the packet built for a resident
  chunk has the fixed header (coordinates, order byte, payload length) and a payload from which every part of the
  chunk can be read back at its fixed offset: each block state from its id byte and data nibble, both light
  planes, the height map, the biome words, the extra data and the chest documents.
\<close>

theorem chunk_packet_contents:
  assumes reach: "world_step\<^sup>*\<^sup>* WorldStore_new s" and c: "ws_chunk s pos = Some c"
    and enc: "encode_full_chunk (snapshot_view pos (snapshot_of pos c)) = Inr raw"
  shows "let d = chunk_data c; body = packet_body raw; payload = drop 13 body;
             light = BLOCK_COUNT + NIBBLE_BYTES; heights = light + 2 * NIBBLE_BYTES; biome = heights + COLUMN_COUNT
    in packet_id raw = FULL_CHUNK_DATA_ID
     \<and> take 13 body = to_be_bytes (coord_x pos) @ to_be_bytes (coord_z pos) @ [CHUNK_ORDER_LAYERED]
          @ to_be_bytes (of_nat (length payload) :: u32)
     \<and> length payload < 2 ^ 32
     \<and> (\<forall>i < BLOCK_COUNT. states d ! i
          = join_state (payload ! i) (read_nibble (take NIBBLE_BYTES (drop BLOCK_COUNT payload)) i))
     \<and> take NIBBLE_BYTES (drop light payload) = sky_light d
     \<and> take NIBBLE_BYTES (drop (light + NIBBLE_BYTES) payload) = block_light d
     \<and> take COLUMN_COUNT (drop heights payload) = height_map d
     \<and> take (4 * COLUMN_COUNT) (drop biome payload) = concat (map to_be_bytes (biomes d))
     \<and> drop (biome + 4 * COLUMN_COUNT) payload
          = to_le_bytes (of_nat (length (extra_data d)) :: u32)
            @ extra_bytes (map (\<lambda>(k, x). (ucast k, x)) (extra_data d))
            @ entity_bytes (map chest_nbt (chest_block_entities d))"
proof -
  let ?v = "snapshot_view pos (snapshot_of pos c)"
  have ok: "chunk_data_ok (chunk_data c)"
    by (rule chunk_okD [OF ws_chunk_ok [OF wm.inv_steps [OF reach world_inv_new] c]])
  note v = snapshot_view_planes [OF ok refl refl, where pos = pos]
  have raw: "view_ok ?v" "raw = chunk_packet ?v" using enc by (simp_all add: encode_full_chunk_iff)
  have body: "drop 13 (packet_body raw) = chunk_payload ?v"
    "take 13 (packet_body raw) = to_be_bytes (coord_x pos) @ to_be_bytes (coord_z pos) @ [CHUNK_ORDER_LAYERED]
       @ to_be_bytes (of_nat (length (chunk_payload ?v)) :: u32)" "packet_id raw = FULL_CHUNK_DATA_ID"
    by (simp_all add: raw(2) chunk_packet_def RawPacket_new_def v)
  have payload: "chunk_payload ?v = block_ids ?v @ block_data ?v @ sky_light (chunk_data c) @ block_light (chunk_data c)
      @ height_map (chunk_data c) @ concat (map to_be_bytes (biomes (chunk_data c)))
      @ to_le_bytes (of_nat (length (extra_data (chunk_data c))) :: u32)
      @ extra_bytes (map (\<lambda>(k, x). (ucast k, x)) (extra_data (chunk_data c)))
      @ entity_bytes (map chest_nbt (chest_block_entities (chunk_data c)))"
    by (simp add: chunk_payload_def plane_bytes_def v)
  show ?thesis
    using raw(1) ok v(1-3) unfolding Let_def body
    by (auto simp: payload view_ok_def chunk_data_ok_def nth_append)
qed

abbreviation sample_chunk_packet :: RawPacket where
  "sample_chunk_packet \<equiv> chunk_packet (snapshot_view sample_pos (snapshot_of sample_pos (ChunkRecord_empty 0x0192bc59)))"

theorem chunk_packet_contents_witness:
  "packet_id sample_chunk_packet = FULL_CHUNK_DATA_ID
   \<and> take COLUMN_COUNT (drop (BLOCK_COUNT + NIBBLE_BYTES + 2 * NIBBLE_BYTES) (drop 13 (packet_body sample_chunk_packet)))
      = replicate COLUMN_COUNT 0"
proof -
  have "encode_full_chunk (snapshot_view sample_pos (snapshot_of sample_pos (ChunkRecord_empty 0x0192bc59)))
      = Inr sample_chunk_packet"
    using snapshot_view_ok [OF sample_chunk_ok, of sample_pos] by (simp add: encode_full_chunk_iff)
  from chunk_packet_contents [OF sample_store_reachable sample_store_eval(2) this] show ?thesis
    by (simp add: Let_def ChunkRecord_empty_def ChunkData_empty_def)
qed

text \<open>
  C39: which chunks can be sent. In any reachable store a resident chunk with at most one chest per block and
  at most 256 items per chest has a packet exactly when every extra-data key names a block of the
  world's height; the only other outcome is the error that names such a key.
\<close>

theorem chunk_packet_total:
  assumes reach: "world_step\<^sup>*\<^sup>* WorldStore_new s" and c: "ws_chunk s pos = Some c"
    and chests: "length (chest_block_entities (chunk_data c)) \<le> BLOCK_COUNT"
      "\<forall>chest \<in> set (chest_block_entities (chunk_data c)). length (chest_items chest) \<le> 256"
  shows "case encode_full_chunk (snapshot_view pos (snapshot_of pos c)) of
      Inr _ \<Rightarrow> \<forall>(k, _) \<in> set (extra_data (chunk_data c)). k AND 0xff \<le> 127
    | Inl e \<Rightarrow> \<exists>(k, _) \<in> set (extra_data (chunk_data c)). k AND 0xff > 127 \<and> e = InvalidChunkExtraDataKey (ucast k)"
proof -
  let ?v = "snapshot_view pos (snapshot_of pos c)" and ?d = "chunk_data c"
  have ok: "chunk_data_ok ?d"
    by (rule chunk_okD [OF ws_chunk_ok [OF wm.inv_steps [OF reach world_inv_new] c]])
  note v = snapshot_view_planes [OF ok refl refl, where pos = pos]
  note shape = snapshot_view_shape [OF ok chests, of pos]
  show ?thesis
  proof (cases "encode_full_chunk ?v")
    case (Inr raw)
    then have "view_ok ?v" by (simp add: encode_full_chunk_iff)
    then show ?thesis by (auto simp: Inr view_ok_def v list_all_iff extra_key_cast)
  next
    case (Inl e)
    then have "\<not> view_ok ?v" by (metis encode_full_chunk_iff sum.distinct(1))
    with shape obtain e' where e': "for_each put_extra (view_extra_data ?v)
        (plane_bytes ?v @ to_le_bytes (of_nat (length (view_extra_data ?v)) :: u32)) = Inl e'"
      by (cases "for_each put_extra (view_extra_data ?v)
          (plane_bytes ?v @ to_le_bytes (of_nat (length (view_extra_data ?v)) :: u32))")
        (auto simp: put_extras_iff view_ok_shape)
    with encode_full_chunk_extra_error [OF shape e'] Inl have "e = e'" by simp
    with put_extras_error [OF e'] show ?thesis by (fastforce simp: Inl v extra_key_cast not_le)
  qed
qed

theorem chunk_packet_total_witness:
  "\<exists>raw. encode_full_chunk (snapshot_view sample_pos (snapshot_of sample_pos (ChunkRecord_empty 0x0192bc59))) = Inr raw"
  using chunk_packet_total [OF sample_store_reachable sample_store_eval(2)]
  by (auto simp: ChunkRecord_empty_def ChunkData_empty_def split: sum.splits)

text \<open>
  The UpdateBlock packet is accepted exactly for a height, a state and flags in their ranges, and its eleven
  bytes determine all five arguments.
\<close>

theorem update_block_exact:
  "encode_update_block x y z st flags = Inr raw \<longleftrightarrow>
     y \<le> 127 \<and> st \<le> 0x0fff \<and> flags \<le> 0x0f
     \<and> packet_id raw = UPDATE_BLOCK \<and> length (packet_body raw) = 11
     \<and> take 4 (packet_body raw) = to_be_bytes x \<and> take 4 (drop 4 (packet_body raw)) = to_be_bytes z
     \<and> packet_body raw ! 8 = y
     \<and> st = join_state (packet_body raw ! 9) (packet_body raw ! 10 AND 0x0f)
     \<and> flags = drop_bit 4 (packet_body raw ! 10)" (is "?l = ?r")
proof
  assume l: ?l
  then have ranges: "y \<le> 127" "st \<le> 0x0fff" "flags \<le> 0x0f"
    and raw: "raw = RawPacket_new UPDATE_BLOCK (to_be_bytes x @ to_be_bytes z @ [y, ucast (drop_bit 4 st)]
        @ [push_bit 4 flags OR (ucast st AND 0x0f)])"
    by (auto simp: encode_update_block_def split: if_splits)
  then show ?r
    using nibble_pair(1,2) [OF ranges(3) state_nibble_bound [of st]] join_split_state [OF ranges(2)]
    by (simp add: RawPacket_new_def nth_append low_nibble_cast del: drop_bit_or)
next
  assume r: ?r
  let ?b = "packet_body raw"
  have body: "?b = take 4 ?b @ take 4 (drop 4 ?b) @ [?b ! 8, ?b ! 9] @ [?b ! 10]"
    using r by (intro update_body_split) simp
  have "?b ! 9 = ucast (drop_bit 4 st)" "?b ! 10 = push_bit 4 flags OR (ucast st AND 0x0f)"
    using r split_join_state [of "?b ! 10 AND 0x0f" "?b ! 9"] nibble_pair(3) [of "?b ! 10"] low_nibble_bound by auto
  with r body have "raw = RawPacket_new UPDATE_BLOCK (to_be_bytes x @ to_be_bytes z @ [y, ucast (drop_bit 4 st)]
      @ [push_bit 4 flags OR (ucast st AND 0x0f)])"
    by (cases raw) (simp add: RawPacket_new_def)
  with r show ?l by (auto simp: encode_update_block_def not_less)
qed

text \<open>
  The scalar writes leave the revision alone, so a packet cached before such a write is served after it:
  here a chunk is sent, a stone block is set, and the next request still answers the old packet.
\<close>

lemma scalar_write_serves_stale_packet:
  assumes sent: "chunk_wire_packet pos n = (Inr p, n1)"
    and edit: "set_block_state pos x y z st (world_store n1) = (Inr old, s)"
  shows "fst (chunk_wire_packet pos (n1\<lparr>world_store := s\<rparr>)) = Inr p"
proof -
  obtain c where c: "ws_chunk (world_store n) pos = Some c"
    using sent chunk_wire_packet_missing [of n pos] by (cases "ws_chunk (world_store n) pos") auto
  have "world_store n1 = world_store n \<and> (case hm_get (chunk_wire_cache n1) pos of None \<Rightarrow> False
      | Some e \<Rightarrow> cached_packet e = p \<and> (cached_terrain_revision e, cached_light_revision e) = chunk_version c)"
    using sent
    by (auto simp: chunk_wire_packet_alt [OF c] remember_packet_def Let_def update_conv' chunk_version_def result_simps
        split: option.splits if_splits sum.splits)
  then obtain e where e: "hm_get (chunk_wire_cache n1) pos = Some e" "cached_packet e = p"
      "(cached_terrain_revision e, cached_light_revision e) = chunk_version c" and store: "world_store n1 = world_store n"
    by (auto split: option.splits)
  obtain c' where "ws_chunk s pos = Some c'" "chunk_version c' = chunk_version c"
    using edit c
    by (auto simp: set_block_state_alt store set_block_chunk_def chunk_version_def map_data_def result_simps
        split: option.splits sum.splits if_splits)
  with e show ?thesis by (simp add: chunk_wire_packet_alt)
qed

end
