(* ===== verification/Float32.thy ===== *)
theory Float32
  imports Prelude
begin

text \<open>
  The single-precision arithmetic that \<open>native/session/src/view.rs\<close> and \<open>state.rs\<close> use on player positions.

  An \<open>f32\<close> is its IEEE 754 bit pattern. A finite value is a dyadic number \<open>m * 2 ^ e\<close>; the operations of Rust's
  \<open>f32\<close> used here (conversion from \<open>i32\<close>, \<open>+\<close>, \<open>-\<close>, \<open>*\<close>, \<open>mul_add\<close>, division by a power of two, \<open>sqrt\<close>,
  \<open>floor\<close>) are the exact result followed by one rounding to nearest, ties to even, with gradual underflow
  and overflow to infinity. Positions are checked to be finite before any arithmetic; on operands that are not
  finite the arithmetic here answers NaN. \<open>as i32\<close> truncates and saturates.
\<close>

section \<open>Finite values\<close>

definition f32_negative :: "f32 \<Rightarrow> bool" where
  "f32_negative x \<longleftrightarrow> bit x 31"

definition f32_exponent :: "f32 \<Rightarrow> nat" where
  "f32_exponent x = unat (drop_bit 23 x AND 0xff)"

definition f32_fraction :: "f32 \<Rightarrow> nat" where
  "f32_fraction x = unat (x AND 0x7fffff)"

definition is_finite :: "f32 \<Rightarrow> bool" where
  "is_finite x \<longleftrightarrow> f32_exponent x \<noteq> 255"

text \<open>A finite value is \<open>m * 2 ^ (k - 149)\<close> for the pair \<open>(m, k)\<close>; \<open>k\<close> is never negative.\<close>

definition f32_mantissa :: "f32 \<Rightarrow> nat" where
  "f32_mantissa x = (if f32_exponent x = 0 then f32_fraction x else f32_fraction x + 2 ^ 23)"

definition f32_scale :: "f32 \<Rightarrow> nat" where
  "f32_scale x = (if f32_exponent x = 0 then 0 else f32_exponent x - 1)"

definition f32_units :: "f32 \<Rightarrow> int" where
  "f32_units x = (if f32_negative x then - 1 else 1) * int (f32_mantissa x * 2 ^ f32_scale x)"

text \<open>So \<open>f32_units x\<close> is the value of \<open>x\<close> counted in units of the smallest subnormal, \<open>2 ^ -149\<close>.\<close>

definition f32_abs_exceeds :: "f32 \<Rightarrow> nat \<Rightarrow> bool" where
  "f32_abs_exceeds x limit \<longleftrightarrow> \<bar>f32_units x\<bar> > int limit * 2 ^ 149"

section \<open>Rounding\<close>

definition f32_nan :: f32 where "f32_nan = 0x7fc00000"
definition f32_infinity :: f32 where "f32_infinity = 0x7f800000"

text \<open>The quotient of \<open>n\<close> by \<open>2 ^ k\<close>, to nearest, ties to even.\<close>

definition round_shift :: "nat \<Rightarrow> nat \<Rightarrow> nat" where
  "round_shift n k =
     (let q = n div 2 ^ k; r = n mod 2 ^ k
      in if 2 * r > 2 ^ k \<or> (2 * r = 2 ^ k \<and> odd q) then q + 1 else q)"

fun bit_length :: "nat \<Rightarrow> nat" where
  "bit_length n = (if n = 0 then 0 else Suc (bit_length (n div 2)))"

declare bit_length.simps [simp del]

text \<open>
  Rounding the magnitude \<open>n * 2 ^ -(149 + g)\<close>, where \<open>g\<close> extra bits lie below the smallest subnormal. The bit
  pattern of a positive float is monotone in its value, so a carry out of the mantissa is an addition.
\<close>

definition f32_pack :: "nat \<Rightarrow> nat \<Rightarrow> f32" where
  "f32_pack n g =
     (let k = max g (bit_length n - 24); m = round_shift n k
      in if k - g = 0 then of_nat m
         else if m + (k - g) * 2 ^ 23 \<ge> 255 * 2 ^ 23 then f32_infinity
         else of_nat (m + (k - g) * 2 ^ 23))"

definition f32_round :: "bool \<Rightarrow> int \<Rightarrow> nat \<Rightarrow> f32" where
  "f32_round zero_negative n g =
     (let sign = (if n < 0 \<or> (n = 0 \<and> zero_negative) then 0x80000000 else 0)
      in sign OR f32_pack (nat \<bar>n\<bar>) g)"

section \<open>Operations\<close>

definition f32_of_int :: "int \<Rightarrow> f32" where
  "f32_of_int n = f32_round False (n * 2 ^ 149) 0"

definition f32_add :: "f32 \<Rightarrow> f32 \<Rightarrow> f32" where
  "f32_add x y =
     (if is_finite x \<and> is_finite y
      then f32_round (f32_negative x \<and> f32_negative y) (f32_units x + f32_units y) 0 else f32_nan)"

definition f32_neg :: "f32 \<Rightarrow> f32" where
  "f32_neg x = x XOR 0x80000000"

definition f32_sub :: "f32 \<Rightarrow> f32 \<Rightarrow> f32" where
  "f32_sub x y = f32_add x (f32_neg y)"

definition f32_mul :: "f32 \<Rightarrow> f32 \<Rightarrow> f32" where
  "f32_mul x y =
     (if is_finite x \<and> is_finite y
      then f32_round (f32_negative x \<noteq> f32_negative y) (f32_units x * f32_units y) 149 else f32_nan)"

text \<open>\<open>x.mul_add(y, z)\<close>: one rounding of \<open>x * y + z\<close>.\<close>

definition f32_mul_add :: "f32 \<Rightarrow> f32 \<Rightarrow> f32 \<Rightarrow> f32" where
  "f32_mul_add x y z =
     (if is_finite x \<and> is_finite y \<and> is_finite z
      then f32_round ((f32_negative x \<noteq> f32_negative y) \<and> f32_negative z)
             (f32_units x * f32_units y + f32_units z * 2 ^ 149) 149
      else f32_nan)"

definition f32_div_pow2 :: "f32 \<Rightarrow> nat \<Rightarrow> f32" where
  "f32_div_pow2 x k = (if is_finite x then f32_round (f32_negative x) (f32_units x) k else f32_nan)"

text \<open>The integer part of a square root, one bit per step from the top.\<close>

primrec isqrt_bits :: "nat \<Rightarrow> nat \<Rightarrow> nat \<Rightarrow> nat" where
  "isqrt_bits n 0 s = s"
| "isqrt_bits n (Suc b) s = isqrt_bits n b (if (s + 2 ^ b) ^ 2 \<le> n then s + 2 ^ b else s)"

definition isqrt :: "nat \<Rightarrow> nat" where
  "isqrt n = isqrt_bits n (bit_length n) 0"

text \<open>
  \<open>sqrt\<close>: with \<open>u\<close> units of \<open>2 ^ -149\<close>, the root is \<open>sqrt (u * 2 ^ 251) * 2 ^ -200\<close>; its integer part with one sticky
  bit below decides the rounding.
\<close>

definition f32_sqrt :: "f32 \<Rightarrow> f32" where
  "f32_sqrt x =
     (if \<not> is_finite x \<or> f32_units x < 0 then f32_nan
      else if f32_units x = 0 then x
      else
        let n = nat (f32_units x) * 2 ^ 251; s = isqrt n
        in f32_round False (int (2 * s + (if s ^ 2 < n then 1 else 0))) (201 - 149))"

definition f32_floor_int :: "f32 \<Rightarrow> int" where
  "f32_floor_int x = f32_units x div 2 ^ 149"

text \<open>\<open>x.floor() as i32\<close> and \<open>x as i32\<close>; NaN becomes 0.\<close>

definition i32_clamp :: "int \<Rightarrow> i32" where
  "i32_clamp n = word_of_int (max (- (2 ^ 31)) (min (2 ^ 31 - 1) n))"

definition f32_floor_to_i32 :: "f32 \<Rightarrow> i32" where
  "f32_floor_to_i32 x =
     (if is_finite x then i32_clamp (f32_floor_int x)
      else if f32_fraction x \<noteq> 0 then 0 else if f32_negative x then i32_clamp (- (2 ^ 31)) else i32_clamp (2 ^ 31))"

definition f32_to_i32 :: "f32 \<Rightarrow> i32" where
  "f32_to_i32 x =
     (if is_finite x then i32_clamp (sgn (f32_units x) * (\<bar>f32_units x\<bar> div 2 ^ 149))
      else if f32_fraction x \<noteq> 0 then 0 else if f32_negative x then i32_clamp (- (2 ^ 31)) else i32_clamp (2 ^ 31))"

section \<open>Rounding and roots are the nearest ones\<close>

lemma round_shift_nearest: "\<bar>2 * (int (round_shift n k) * 2 ^ k - int n)\<bar> \<le> 2 ^ k"
proof -
  let ?q = "n div 2 ^ k" and ?r = "n mod 2 ^ k"
  have "int n = int (?q * 2 ^ k + ?r)" by (simp only: div_mult_mod_eq)
  then have "int n = int ?q * 2 ^ k + int ?r" by (simp only: of_nat_add of_nat_mult of_nat_power of_nat_numeral)
  moreover have "int ?r < int (2 ^ k)" by (simp only: of_nat_less_iff) simp
  moreover have "2 * ?r > 2 ^ k \<longleftrightarrow> int (2 * ?r) > int (2 ^ k)" "2 * ?r = 2 ^ k \<longleftrightarrow> int (2 * ?r) = int (2 ^ k)"
    by (simp_all only: of_nat_less_iff of_nat_eq_iff)
  ultimately show ?thesis by (auto simp del: of_nat_mod of_nat_div simp: round_shift_def Let_def algebra_simps)
qed

lemma isqrt_bits_spec:
  "s ^ 2 \<le> n \<Longrightarrow> n < (s + 2 ^ b) ^ 2 \<Longrightarrow> (isqrt_bits n b s) ^ 2 \<le> n \<and> n < (isqrt_bits n b s + 1) ^ 2"
proof (induction b arbitrary: s)
  case (Suc b)
  then show ?case by (cases "(s + 2 ^ b) ^ 2 \<le> n") (auto simp: mult_2 add.assoc)
qed simp

lemma bit_length_bound: "n < 2 ^ bit_length n"
proof (induction n rule: bit_length.induct)
  case (1 n)
  then show ?case by (subst bit_length.simps) auto
qed

lemma isqrt_spec: "(isqrt n) ^ 2 \<le> n \<and> n < (isqrt n + 1) ^ 2"
proof -
  have "n < (0 + 2 ^ bit_length n) ^ 2"
    using bit_length_bound [of n] by (simp add: power2_eq_square) (meson le_less_trans le_square less_le_trans)
  then show ?thesis unfolding isqrt_def by (intro isqrt_bits_spec) simp_all
qed

end
