(* ===== verification/View.thy ===== *)
theory View
  imports WorldStore Float32
begin

text \<open>
  The chunk view of a session: \<open>native/session/src/view.rs\<close>. Geometry (which chunks a view holds and how a
  view moves), the order of preparation, and the chunk pins that a pending or an active view owns.

  An \<open>Arc<WorldStore>\<close> is the index of a store in the family \<open>stores\<close>; \<open>Arc::ptr_eq\<close> is equality of indices. A
  \<open>HashSet\<close> is a list without duplicates. The \<open>Drop\<close> implementations are functions that the model calls wherever
  the source drops a value. \<open>pin_ledger\<close> is the contract of the store that the owners of pins rely on.
\<close>

section \<open>Geometry\<close>

definition i32_range :: "i32 \<Rightarrow> i32 \<Rightarrow> i32 list" where
  "i32_range a b = map word_of_int [sint a..sint b]"

definition view_contains :: "ChunkCoord \<Rightarrow> i32 \<Rightarrow> ChunkCoord \<Rightarrow> bool" where
  "view_contains center radius pos \<longleftrightarrow>
     sint (coord_x pos) \<ge> sint (i32_saturating_sub (coord_x center) radius)
     \<and> sint (coord_x pos) \<le> sint (i32_saturating_add (coord_x center) radius)
     \<and> sint (coord_z pos) \<ge> sint (i32_saturating_sub (coord_z center) radius)
     \<and> sint (coord_z pos) \<le> sint (i32_saturating_add (coord_z center) radius)"

definition view_positions :: "ChunkCoord \<Rightarrow> i32 \<Rightarrow> ChunkCoord list" where
  "view_positions center radius =
     (let min_x = i32_saturating_sub (coord_x center) radius; max_x = i32_saturating_add (coord_x center) radius;
          min_z = i32_saturating_sub (coord_z center) radius; max_z = i32_saturating_add (coord_z center) radius
      in concat (map (\<lambda>z. map (\<lambda>x. ChunkCoord x z) (i32_range min_x max_x)) (i32_range min_z max_z)))"

definition initial_send_positions :: "ChunkCoord \<Rightarrow> i32 \<Rightarrow> ChunkCoord list" where
  "initial_send_positions center radius =
     (let min_x = i32_saturating_sub (coord_x center) radius; max_x = i32_saturating_add (coord_x center) radius;
          min_z = i32_saturating_sub (coord_z center) radius; max_z = i32_saturating_add (coord_z center) radius
      in concat (map (\<lambda>x. map (\<lambda>z. ChunkCoord x z) (i32_range min_z max_z)) (i32_range min_x max_x)))"

type_synonym position3 = "f32 \<times> f32 \<times> f32"

definition streaming_distance_priority :: "ChunkCoord \<Rightarrow> position3 \<Rightarrow> i32" where
  "streaming_distance_priority pos player =
     (case player of (px, _, pz) \<Rightarrow>
        let chunk_x = f32_mul (f32_of_int (sint (coord_x pos))) (f32_of_int (int EDGE));
            chunk_z = f32_mul (f32_of_int (sint (coord_z pos))) (f32_of_int (int EDGE));
            dx = f32_sub chunk_x px;
            dz = f32_sub chunk_z pz
        in f32_to_i32 (f32_sqrt (f32_mul_add dx dx (f32_mul dz dz))))"

definition prioritize_for_player :: "ChunkCoord list \<Rightarrow> position3 \<Rightarrow> ChunkCoord list" where
  "prioritize_for_player positions player = sort_key (\<lambda>pos. sint (streaming_distance_priority pos player)) positions"

record ChunkViewTransition =
  from_center :: ChunkCoord
  to_center :: ChunkCoord
  from_radius :: i32
  to_radius :: i32
  entering :: "ChunkCoord list"
  leaving :: "ChunkCoord list"

definition chunk_view_transition :: "ChunkCoord \<Rightarrow> i32 \<Rightarrow> ChunkCoord \<Rightarrow> i32 \<Rightarrow> ChunkViewTransition option" where
  "chunk_view_transition fc fr tc tr =
     (if fc = tc \<and> fr = tr then None
      else Some \<lparr>from_center = fc, to_center = tc, from_radius = fr, to_radius = tr,
             entering = filter (\<lambda>pos. \<not> view_contains fc fr pos) (view_positions tc tr),
             leaving = filter (\<lambda>pos. \<not> view_contains tc tr pos) (view_positions fc fr)\<rparr>)"

section \<open>Pins of a view\<close>

type_synonym stores = "nat \<Rightarrow> WorldStore"

record PreparedChunks =
  prep_store :: "nat option"
  prep_pinned :: "ChunkCoord list"

record WorldView =
  view_store :: nat
  view_center :: ChunkCoord
  view_radius :: i32
  view_cursor :: u64
  pinned_chunks :: "ChunkCoord list"

datatype ViewError = NotInPendingView ChunkCoord | ViewSpansStores | PinError WorldStoreError

definition PreparedChunks_new :: PreparedChunks where
  "PreparedChunks_new = \<lparr>prep_store = None, prep_pinned = []\<rparr>"

definition PreparedChunks_mark :: "ChunkCoord list \<Rightarrow> nat \<Rightarrow> ChunkCoord \<Rightarrow> PreparedChunks \<Rightarrow> stores
    \<Rightarrow> (ViewError + unit) \<times> PreparedChunks \<times> stores" where
  "PreparedChunks_mark expected store pos p h =
     (if pos \<notin> set expected then (Inl (NotInPendingView pos), p, h)
      else if pos \<in> set (prep_pinned p) then (Inr (), p, h)
      else if (case prep_store p of Some current \<Rightarrow> current \<noteq> store | None \<Rightarrow> False)
      then (Inl ViewSpansStores, p, h)
      else
        case pin_chunk pos (h store) of
          (Inl e, s) \<Rightarrow> (Inl (PinError e), p, h(store := s))
        | (Inr _, s) \<Rightarrow>
            (Inr (),
             p\<lparr>prep_store := (case prep_store p of Some current \<Rightarrow> Some current | None \<Rightarrow> Some store),
               prep_pinned := pos # prep_pinned p\<rparr>,
             h(store := s)))"

definition unprepared :: "PreparedChunks \<Rightarrow> ChunkCoord list \<Rightarrow> ChunkCoord list" where
  "unprepared p expected = filter (\<lambda>pos. pos \<notin> set (prep_pinned p)) expected"

definition is_complete :: "PreparedChunks \<Rightarrow> ChunkCoord list \<Rightarrow> bool" where
  "is_complete p expected \<longleftrightarrow> length (prep_pinned p) = length expected \<and> unprepared p expected = []"

definition matches_store :: "PreparedChunks \<Rightarrow> nat \<Rightarrow> bool" where
  "matches_store p store \<longleftrightarrow> (case prep_store p of None \<Rightarrow> True | Some current \<Rightarrow> current = store)"

definition take_store :: "PreparedChunks \<Rightarrow> nat option \<times> PreparedChunks" where
  "take_store p = (prep_store p, p\<lparr>prep_store := None\<rparr>)"

definition disarm :: "PreparedChunks \<Rightarrow> PreparedChunks" where
  "disarm p = p\<lparr>prep_pinned := [], prep_store := None\<rparr>"

text \<open>\<open>let _ = store.unpin_chunk(position)\<close> for each position: errors are ignored.\<close>

definition unpin_each :: "ChunkCoord list \<Rightarrow> WorldStore \<Rightarrow> WorldStore" where
  "unpin_each ps s = fold (\<lambda>pos s. snd (unpin_chunk pos s)) ps s"

definition PreparedChunks_drop :: "PreparedChunks \<Rightarrow> stores \<Rightarrow> stores" where
  "PreparedChunks_drop p h =
     (case prep_store p of None \<Rightarrow> h | Some store \<Rightarrow> h(store := unpin_each (prep_pinned p) (h store)))"

definition WorldView_drop :: "WorldView \<Rightarrow> stores \<Rightarrow> stores" where
  "WorldView_drop v h = h(view_store v := unpin_each (pinned_chunks v) (h (view_store v)))"

section \<open>Geometry lemmas\<close>

lemma sint_sclamp_i32: "sint (sclamp k :: i32) = max (- (2 ^ 31)) (min (2 ^ 31 - 1) k)"
proof -
  let ?k = "max (- (2 ^ 31)) (min (2 ^ 31 - 1) k)"
  have "sint (word_of_int ?k :: i32) = ?k" by (rule sint_of_i32) auto
  then show ?thesis by (simp add: sclamp_def)
qed

lemma set_i32_range: "x \<in> set (i32_range a b) \<longleftrightarrow> sint a \<le> sint x \<and> sint x \<le> sint b"
proof
  assume "x \<in> set (i32_range a b)"
  then obtain k where k: "x = word_of_int k" "sint a \<le> k" "k \<le> sint b" by (auto simp: i32_range_def)
  then have "- (2 ^ 31) \<le> k" "k < 2 ^ 31" using sint_ge [of a] sint_lt [of b] by auto
  then have "sint x = k" by (simp only: k(1) sint_of_i32)
  with k show "sint a \<le> sint x \<and> sint x \<le> sint b" by simp
next
  assume "sint a \<le> sint x \<and> sint x \<le> sint b"
  then show "x \<in> set (i32_range a b)" unfolding i32_range_def by (auto intro!: image_eqI [of _ _ "sint x"])
qed

lemma distinct_i32_range: "distinct (i32_range a b)"
proof -
  have "inj_on (word_of_int :: int \<Rightarrow> i32) {sint a..sint b}"
  proof (rule inj_onI)
    fix j k
    assume "j \<in> {sint a..sint b}" "k \<in> {sint a..sint b}" and eq: "(word_of_int j :: i32) = word_of_int k"
    then have "- (2 ^ 31) \<le> j \<and> j < 2 ^ 31" "- (2 ^ 31) \<le> k \<and> k < 2 ^ 31"
      using sint_ge [of a] sint_lt [of b] by auto
    moreover have "sint (word_of_int j :: i32) = sint (word_of_int k :: i32)" using eq by simp
    ultimately show "j = k" by (simp only: sint_of_i32)
  qed
  then show ?thesis by (simp add: i32_range_def distinct_map)
qed

lemma distinct_grid:
  assumes "distinct xs" and "distinct ys" and inj: "\<And>x y x' y'. f x y = f x' y' \<Longrightarrow> x = x' \<and> y = y'"
  shows "distinct (concat (map (\<lambda>y. map (\<lambda>x. f x y) xs) ys))"
  using assms(2)
proof (induction ys)
  case (Cons y ys)
  have "distinct (map (\<lambda>x. f x y) xs)" using assms(1) inj by (auto simp: distinct_map inj_on_def)
  with Cons inj show ?case by (auto dest: inj)
qed simp

lemma view_positions_spec:
  "set (view_positions center radius) = {pos. view_contains center radius pos}" "distinct (view_positions center radius)"
proof -
  show "set (view_positions center radius) = {pos. view_contains center radius pos}"
  proof (rule set_eqI)
    fix pos
    show "pos \<in> set (view_positions center radius) \<longleftrightarrow> pos \<in> {pos. view_contains center radius pos}"
      by (cases pos) (force simp: view_positions_def Let_def set_i32_range view_contains_def)
  qed
  show "distinct (view_positions center radius)"
    unfolding view_positions_def Let_def by (rule distinct_grid) (auto simp: distinct_i32_range)
qed

lemma initial_send_positions_spec:
  "set (initial_send_positions center radius) = {pos. view_contains center radius pos}"
  "distinct (initial_send_positions center radius)"
proof -
  show "set (initial_send_positions center radius) = {pos. view_contains center radius pos}"
  proof (rule set_eqI)
    fix pos
    show "pos \<in> set (initial_send_positions center radius) \<longleftrightarrow> pos \<in> {pos. view_contains center radius pos}"
      by (cases pos) (force simp: initial_send_positions_def Let_def set_i32_range view_contains_def)
  qed
  show "distinct (initial_send_positions center radius)"
    unfolding initial_send_positions_def Let_def
    using distinct_grid [OF distinct_i32_range distinct_i32_range, of "\<lambda>z x. ChunkCoord x z"] by simp
qed

lemma prioritize_spec [simp]:
  "set (prioritize_for_player ps player) = set ps" "length (prioritize_for_player ps player) = length ps"
  "distinct (prioritize_for_player ps player) = distinct ps"
  by (simp_all add: prioritize_for_player_def)

lemma transition_spec:
  assumes "chunk_view_transition fc fr tc tr = Some t"
  shows "set (entering t) = {pos. view_contains tc tr pos \<and> \<not> view_contains fc fr pos}"
    and "set (leaving t) = {pos. view_contains fc fr pos \<and> \<not> view_contains tc tr pos}"
    and "distinct (entering t)" "distinct (leaving t)"
    and "from_center t = fc" "to_center t = tc" "from_radius t = fr" "to_radius t = tr"
  using assms view_positions_spec by (auto simp: chunk_view_transition_def split: if_splits)

section \<open>The ledger of pins\<close>

text \<open>
  What the owners of pins rely on: a successful pin adds one to the count of its key, a failed one changes no
  count, and an unpin takes one away (from a count of zero nothing, the error that the callers ignore).
\<close>

locale pin_ledger =
  fixes pin :: "'k \<Rightarrow> 's \<Rightarrow> ('e + 'r) \<times> 's"
    and unpin :: "'k \<Rightarrow> 's \<Rightarrow> ('e + 'r) \<times> 's"
    and count :: "'s \<Rightarrow> 'k \<Rightarrow> nat"
  assumes pin_success: "fst (pin k s) = Inr r \<Longrightarrow> count (snd (pin k s)) = (count s)(k := count s k + 1)"
    and pin_failure: "fst (pin k s) = Inl e \<Longrightarrow> count (snd (pin k s)) = count s"
    and unpin_law: "count (snd (unpin k s)) = (count s)(k := count s k - 1)"
begin

lemma unpin_all:
  "distinct ks \<Longrightarrow> count (fold (\<lambda>k s. snd (unpin k s)) ks s) k = count s k - (if k \<in> set ks then 1 else 0)"
  by (induction ks arbitrary: s) (auto simp: unpin_law)

lemma unpin_after_pin:
  assumes "fst (pin k s) = Inr r"
  shows "count (snd (unpin k (snd (pin k s)))) = count s"
  by (simp add: unpin_law pin_success [OF assms])

end

definition store_pins :: "WorldStore \<Rightarrow> ChunkCoord \<Rightarrow> nat" where
  "store_pins s pos = (case ws_chunk s pos of None \<Rightarrow> 0 | Some c \<Rightarrow> unat (pin_count c))"

lemma store_pins_put [simp]: "store_pins (put_chunk pos c s) = (store_pins s)(pos := unat (pin_count c))"
  by (auto simp: store_pins_def)

lemma store_pins_unchanged:
  "ws_chunk s pos = Some c \<Longrightarrow> (store_pins s)(pos := unat (pin_count c)) = store_pins s"
  by (auto simp: store_pins_def)

lemma pin_chunk_pins:
  "store_pins (snd (pin_chunk pos s)) =
     (case fst (pin_chunk pos s) of Inl _ \<Rightarrow> store_pins s | Inr _ \<Rightarrow> (store_pins s)(pos := store_pins s pos + 1))"
proof (cases "ws_chunk s pos")
  case None
  then show ?thesis by (simp add: pin_chunk_def with_chunk_mut_alt)
next
  case (Some c)
  then show ?thesis
    by (cases "checked_add (pin_count c) 1")
      (auto simp: pin_chunk_def with_chunk_mut_alt result_simps store_pins_def checked_add_unat)
qed

lemma unpin_chunk_pins: "store_pins (snd (unpin_chunk pos s)) = (store_pins s)(pos := store_pins s pos - 1)"
proof (cases "ws_chunk s pos")
  case None
  then show ?thesis by (auto simp: unpin_chunk_def with_chunk_mut_alt store_pins_def)
next
  case (Some c)
  show ?thesis
  proof (cases "pin_count c = 0")
    case True
    then show ?thesis using Some by (auto simp: unpin_chunk_def with_chunk_mut_alt store_pins_def)
  next
    case False
    then have "unat (pin_count c - 1) = unat (pin_count c) - 1" by (rule unat_minus_one)
    then show ?thesis using Some False by (auto simp: unpin_chunk_def with_chunk_mut_alt store_pins_def)
  qed
qed

interpretation pl: pin_ledger pin_chunk unpin_chunk store_pins
  by unfold_locales (simp_all add: pin_chunk_pins unpin_chunk_pins)

lemma unpin_each_pins:
  "distinct ps \<Longrightarrow> store_pins (unpin_each ps s) pos = store_pins s pos - (if pos \<in> set ps then 1 else 0)"
  unfolding unpin_each_def by (rule pl.unpin_all)

lemma store_pins_resident: "0 < store_pins s pos \<Longrightarrow> contains_chunk s pos"
  by (auto simp: store_pins_def contains_chunk_alt split: option.splits)

text \<open>A chunk with a pin is never evicted.\<close>

lemma pinned_not_evicted:
  assumes "world_inv s" "0 < store_pins s pos"
  shows "\<exists>n. try_evict_chunk pos s = (Inr (Pinned n), s)"
  using assms(2) by (subst try_evict_alt [OF assms(1)]) (auto simp: store_pins_def split: option.splits)

lemma card_i32_range: "length (i32_range a b) = nat (sint b - sint a + 1)"
  by (simp add: i32_range_def)

lemma length_view_positions:
  "length (view_positions center radius) =
     nat (sint (i32_saturating_add (coord_z center) radius) - sint (i32_saturating_sub (coord_z center) radius) + 1)
     * nat (sint (i32_saturating_add (coord_x center) radius) - sint (i32_saturating_sub (coord_x center) radius) + 1)"
  by (simp add: view_positions_def Let_def length_concat comp_def sum_list_triv card_i32_range)

text \<open>
  C40: a view transition is exact. There is none exactly when the view does not move. Otherwise the entering and
  the leaving lists have no duplicates, and taking the leaving chunks out of the old view and putting the entering
  ones in gives the new view; no chunk that stays in view is in either list. Positions at the ends of the 32-bit
  range, where the bounds of a view saturate, are included.
\<close>

theorem view_transition_exact:
  "(case chunk_view_transition fc fr tc tr of
      None \<Rightarrow> fc = tc \<and> fr = tr
    | Some t \<Rightarrow> \<not> (fc = tc \<and> fr = tr) \<and> distinct (entering t) \<and> distinct (leaving t)
        \<and> set (entering t) \<inter> set (view_positions fc fr) = {}
        \<and> set (leaving t) \<inter> set (view_positions tc tr) = {}
        \<and> set (view_positions tc tr) = (set (view_positions fc fr) - set (leaving t)) \<union> set (entering t))"
proof (cases "chunk_view_transition fc fr tc tr")
  case None
  then show ?thesis by (simp add: chunk_view_transition_def split: if_splits)
next
  case (Some t)
  moreover have "\<not> (fc = tc \<and> fr = tr)" using Some by (auto simp: chunk_view_transition_def)
  ultimately show ?thesis using transition_spec [OF Some] by (auto simp: view_positions_spec)
qed

end
