(* ===== verification/Session.thy ===== *)
theory Session
  imports View Packet
begin

text \<open>
  One fixed-target session: \<open>native/session/src/state.rs\<close> (the join state machine, pending chunk work, view
  commits), \<open>packet.rs\<close>, \<open>id.rs\<close> and \<open>wire.rs\<close> (flattening of connected payloads).

  The methods of \<open>SessionState\<close> pass the state and, where they pin or drop pins, the family of stores. Error
  strings are the constructors of \<open>StateError\<close>. Assigning to \<open>self.pending\<close> or \<open>self.view\<close> drops the old value,
  and returning early from \<open>commit_pending\<close> drops the pending work it took: both are calls of the drop functions
  of \<open>View\<close>. \<open>held\<close> counts the pins a session owns; \<open>conserves\<close> says that an operation changes the pin counts of
  the stores exactly by what the session's own holdings change.
\<close>

section \<open>Packets and payloads\<close>

record SessionPacket =
  session_packet_id :: u8
  session_packet_body :: bytes

definition SessionPacket_new :: "u8 \<Rightarrow> bytes \<Rightarrow> SessionPacket" where
  "SessionPacket_new i body = \<lparr>session_packet_id = i, session_packet_body = body\<rparr>"

definition from_raw_packet :: "RawPacket \<Rightarrow> SessionPacket" where
  "from_raw_packet raw = \<lparr>session_packet_id = packet_id raw, session_packet_body = packet_body raw\<rparr>"

definition to_raw_packet :: "SessionPacket \<Rightarrow> RawPacket" where
  "to_raw_packet p = RawPacket_new (session_packet_id p) (session_packet_body p)"

type_synonym SessionId = u64

definition SessionId_new :: "u64 \<Rightarrow> SessionId option" where
  "SessionId_new v = (if v = 0 then None else Some v)"

definition decode_connected_payload :: "inflater \<Rightarrow> bytes \<Rightarrow> CodecLimits \<Rightarrow> CodecError + SessionPacket list" where
  "decode_connected_payload inflate payload limits =
     rbind (decode_game_frame payload limits) (\<lambda>raw.
     if packet_id raw \<noteq> BATCH then Inr [from_raw_packet raw]
     else
       rbind (decode_bootstrap_frame inflate payload limits) (\<lambda>p.
       case p of
         Batch batch \<Rightarrow>
           if batch_packets batch = [] then Inl EmptyPacket else Inr (map from_raw_packet (batch_packets batch))
       | _ \<Rightarrow> Inl (UnsupportedPacket (packet_id raw))))"

section \<open>State\<close>

definition MAX_DEFERRED_PACKETS :: nat where
  "MAX_DEFERRED_PACKETS = 16"

definition MAX_PLAYER_COORDINATE :: nat where
  "MAX_PLAYER_COORDINATE = 1000000"

datatype StateError =
    ExpectedLogin u8
  | NotLoginPacket
  | TooManyDeferred
  | ExpectedRequestChunkRadius u8
  | LostSpawnChunk
  | LostSpawnPosition
  | InitialChunksLoading u8
  | NoActiveRadius
  | NoPlayerChunk
  | NoPlayerPosition
  | NotAwaitingLogin
  | NoPendingWork
  | PendingDifferentStore
  | NotFullyPrepared
  | WorkDifferentStore
  | ViewDifferentStore
  | PacketCountMismatch nat nat
  | BatchLengthOverflow
  | LostInitialPins
  | NoNativeStore
  | LostActiveView
  | TransitionMismatch
  | PreparedDifferentStore
  | LostEnteringPins
  | PlanWithoutView
  | RadiusBodyLength nat
  | RadiusNotPositive
  | PositionOutOfRange
  | InvalidGenerator
  | InvalidSpawnHeight
  | CodecFailure CodecError
  | ViewFailure ViewError

record SessionWorldBootstrap =
  boot_seed :: i32
  boot_dimension :: WireDimensionId
  boot_generator :: i32
  boot_spawn :: "i32 \<times> i32 \<times> i32"
  boot_position :: position3
  boot_time :: i32
  boot_time_started :: bool
  boot_level_id :: bytes

datatype ChunkWorkKind = KindInitial | KindView

record ChunkWork =
  work_session :: SessionId
  work_kind :: ChunkWorkKind
  work_positions :: "ChunkCoord list"
  work_send_positions :: "ChunkCoord list"

record InitialViewResult =
  requested_radius :: i32
  effective_radius :: i32
  chunks_sent :: nat
  encoded_bytes :: nat

record WorldViewSnapshot =
  snap_session :: SessionId
  snap_store :: nat
  snap_center :: ChunkCoord
  snap_radius :: i32
  snap_cursor :: u64
  snap_pinned :: "ChunkCoord list"

definition WorldViewSnapshot_contains :: "WorldViewSnapshot \<Rightarrow> ChunkCoord \<Rightarrow> bool" where
  "WorldViewSnapshot_contains v pos = view_contains (snap_center v) (snap_radius v) pos"

datatype JoinPhase = WaitingLogin | LoginPending | WaitingChunkRadius | WaitingInitialChunks | Spawned

datatype InboundAction = LoginRequested | Forward SessionPacket | Consumed

datatype PendingWork =
    PendingInitial (initial_requested: i32) (initial_effective: i32) (initial_center: ChunkCoord)
      (initial_prepare: "ChunkCoord list") (initial_send: "ChunkCoord list") PreparedChunks
  | PendingView (pending_transition: ChunkViewTransition) PreparedChunks

fun PendingWork_kind :: "PendingWork \<Rightarrow> ChunkWorkKind" where
  "PendingWork_kind (PendingInitial _ _ _ _ _ _) = KindInitial"
| "PendingWork_kind (PendingView _ _) = KindView"

fun prepare_positions :: "PendingWork \<Rightarrow> ChunkCoord list" where
  "prepare_positions (PendingInitial _ _ _ ps _ _) = ps"
| "prepare_positions (PendingView t _) = entering t"

fun send_positions :: "PendingWork \<Rightarrow> ChunkCoord list" where
  "send_positions (PendingInitial _ _ _ _ ps _) = ps"
| "send_positions (PendingView t _) = entering t"

fun prepared :: "PendingWork \<Rightarrow> PreparedChunks" where
  "prepared (PendingInitial _ _ _ _ _ p) = p"
| "prepared (PendingView _ p) = p"

fun prepared_mut :: "PreparedChunks \<Rightarrow> PendingWork \<Rightarrow> PendingWork" where
  "prepared_mut p (PendingInitial r e c ps ss _) = PendingInitial r e c ps ss p"
| "prepared_mut p (PendingView t _) = PendingView t p"

record CompletionPlan =
  plan_packets :: "SessionPacket list"
  plan_initial :: "InitialViewResult option"

record SessionState =
  phase :: JoinPhase
  max_chunk_radius :: i32
  position :: "position3 option"
  player_chunk :: "ChunkCoord option"
  desired_radius :: "i32 option"
  view :: "WorldView option"
  pending :: "PendingWork option"
  deferred :: "SessionPacket list"

type_synonym 'a session_op = "SessionState \<Rightarrow> stores \<Rightarrow> (StateError + 'a) \<times> SessionState \<times> stores"

section \<open>Free functions\<close>

definition i32_min :: "i32 \<Rightarrow> i32 \<Rightarrow> i32" where
  "i32_min a b = (if sint b < sint a then b else a)"

definition validate_login :: "inflater \<Rightarrow> bytes \<Rightarrow> CodecLimits \<Rightarrow> StateError + unit" where
  "validate_login inflate body limits =
     rbind (map_err CodecFailure (decode_bootstrap_packet inflate (RawPacket_new LOGIN body) limits)) (\<lambda>p.
     case p of Login _ \<Rightarrow> Inr () | _ \<Rightarrow> Inl NotLoginPacket)"

definition requested_chunk_radius :: "bytes \<Rightarrow> StateError + i32" where
  "requested_chunk_radius body =
     (if length body \<noteq> 4 then Inl (RadiusBodyLength (length body))
      else let radius = from_be_bytes body in if sint radius \<le> 0 then Inl RadiusNotPositive else Inr radius)"

definition position_chunk :: "position3 \<Rightarrow> ChunkCoord" where
  "position_chunk p =
     (case p of (x, _, z) \<Rightarrow>
        ChunkCoord (f32_floor_to_i32 (f32_div_pow2 x 4)) (f32_floor_to_i32 (f32_div_pow2 z 4)))"

definition coordinate_ok :: "f32 \<Rightarrow> bool" where
  "coordinate_ok c \<longleftrightarrow> is_finite c \<and> \<not> f32_abs_exceeds c MAX_PLAYER_COORDINATE"

definition validate_position :: "position3 \<Rightarrow> StateError + ChunkCoord" where
  "validate_position p =
     (case p of (x, y, z) \<Rightarrow>
        if \<not> coordinate_ok x \<or> \<not> coordinate_ok y \<or> \<not> coordinate_ok z then Inl PositionOutOfRange
        else Inr (position_chunk p))"

definition f32_half :: f32 where
  "f32_half = 0x3f000000"

definition SessionWorldBootstrap_new ::
  "i32 \<Rightarrow> WireDimensionId \<Rightarrow> i32 \<Rightarrow> i32 \<times> i32 \<times> i32 \<Rightarrow> i32 \<Rightarrow> bool \<Rightarrow> bytes \<Rightarrow> StateError + SessionWorldBootstrap" where
  "SessionWorldBootstrap_new s d g sp t is_started level =
     (case sp of (x, y, z) \<Rightarrow>
        if \<not> (0 \<le> sint g \<and> sint g \<le> 2) then Inl InvalidGenerator
        else if \<not> (0 \<le> sint y \<and> sint y < int HEIGHT) then Inl InvalidSpawnHeight
        else
          let p = (f32_add (f32_of_int (sint x)) f32_half, f32_of_int (sint y), f32_add (f32_of_int (sint z)) f32_half)
          in rbind (validate_position p) (\<lambda>_.
             Inr \<lparr>boot_seed = s, boot_dimension = d, boot_generator = g, boot_spawn = sp, boot_position = p,
               boot_time = t, boot_time_started = is_started, boot_level_id = level\<rparr>))"

definition bootstrap_session_packet :: "deflater \<Rightarrow> CodecLimits \<Rightarrow> BootstrapPacket \<Rightarrow> StateError + SessionPacket" where
  "bootstrap_session_packet deflate limits p =
     rbind (map_err CodecFailure (encode_bootstrap_packet deflate p limits)) (\<lambda>raw.
     Inr (SessionPacket_new (packet_id raw) (packet_body raw)))"

definition bootstrap_sequence :: "SessionWorldBootstrap \<Rightarrow> BootstrapPacket list" where
  "bootstrap_sequence b =
     (case boot_spawn b of (x, y, z) \<Rightarrow>
        [PlayStatus (PlayStatusPacket_new 0),
         StartGame \<lparr>seed = boot_seed b, dimension = boot_dimension b, generator = boot_generator b, gamemode = 0,
           start_entity_id = 0, spawn = boot_spawn b, start_position = boot_position b, level_id = boot_level_id b\<rparr>,
         SetTime (SetTimePacket_new (boot_time b) (boot_time_started b)),
         SetSpawnPosition (SetSpawnPositionPacket_new x y z),
         SetDifficulty (SetDifficultyPacket_new 1),
         AdventureSettings (AdventureSettingsPacket_new 0x4e 2 2)])"

definition bootstrap_packets :: "deflater \<Rightarrow> SessionWorldBootstrap \<Rightarrow> CodecLimits \<Rightarrow> StateError + SessionPacket list" where
  "bootstrap_packets deflate b limits = collect_results (bootstrap_session_packet deflate limits) (bootstrap_sequence b)"

section \<open>Operations of the session state\<close>

definition SessionState_new :: "i32 \<Rightarrow> SessionState" where
  "SessionState_new r =
     \<lparr>phase = WaitingLogin, max_chunk_radius = r, position = None, player_chunk = None, desired_radius = None,
      view = None, pending = None, deferred = []\<rparr>"

definition pending_drop :: "PendingWork option \<Rightarrow> stores \<Rightarrow> stores" where
  "pending_drop w h = (case w of None \<Rightarrow> h | Some w \<Rightarrow> PreparedChunks_drop (prepared w) h)"

definition view_drop :: "WorldView option \<Rightarrow> stores \<Rightarrow> stores" where
  "view_drop v h = (case v of None \<Rightarrow> h | Some v \<Rightarrow> WorldView_drop v h)"

text \<open>Dropping a session drops its fields in declaration order.\<close>

definition SessionState_drop :: "SessionState \<Rightarrow> stores \<Rightarrow> stores" where
  "SessionState_drop st h = pending_drop (pending st) (view_drop (view st) h)"

definition same_transition :: "PendingWork option \<Rightarrow> ChunkViewTransition \<Rightarrow> bool" where
  "same_transition w t \<longleftrightarrow>
     (case w of
        Some (PendingView current _) \<Rightarrow>
          from_center current = from_center t \<and> from_radius current = from_radius t
          \<and> to_center current = to_center t \<and> to_radius current = to_radius t
      | _ \<Rightarrow> False)"

definition plan_view_transition :: "ChunkCoord \<Rightarrow> i32 \<Rightarrow> position3 \<Rightarrow> unit session_op" where
  "plan_view_transition tc tr player st h =
     (case view st of
        None \<Rightarrow> (Inl PlanWithoutView, st, h)
      | Some v \<Rightarrow>
          (case chunk_view_transition (view_center v) (view_radius v) tc tr of
             None \<Rightarrow> (Inr (), st\<lparr>pending := None, desired_radius := None\<rparr>, pending_drop (pending st) h)
           | Some t \<Rightarrow>
               let t = t\<lparr>entering := prioritize_for_player (entering t) player\<rparr>
               in if same_transition (pending st) t then (Inr (), st, h)
                  else (Inr (), st\<lparr>pending := Some (PendingView t PreparedChunks_new)\<rparr>, pending_drop (pending st) h)))"

definition handle_move_player :: "SessionPacket \<Rightarrow> unit session_op" where
  "handle_move_player p st h =
     (case map_err CodecFailure (decode_move_player (session_packet_body p)) of
        Inl e \<Rightarrow> (Inl e, st, h)
      | Inr movement \<Rightarrow>
          (case validate_position (move_position movement) of
             Inl e \<Rightarrow> (Inl e, st, h)
           | Inr chunk \<Rightarrow>
               let st = st\<lparr>position := Some (move_position movement), player_chunk := Some chunk\<rparr>
               in case (case desired_radius st of Some r \<Rightarrow> Some r | None \<Rightarrow> map_option view_radius (view st)) of
                    None \<Rightarrow> (Inl NoActiveRadius, st, h)
                  | Some radius \<Rightarrow> plan_view_transition chunk radius (move_position movement) st h))"

definition handle_request_radius :: "SessionPacket \<Rightarrow> unit session_op" where
  "handle_request_radius p st h =
     (case requested_chunk_radius (session_packet_body p) of
        Inl e \<Rightarrow> (Inl e, st, h)
      | Inr requested \<Rightarrow>
          let effective = i32_min requested (max_chunk_radius st);
              st = st\<lparr>desired_radius := Some effective\<rparr>
          in case player_chunk st of
               None \<Rightarrow> (Inl NoPlayerChunk, st, h)
             | Some chunk \<Rightarrow>
                 (case position st of
                    None \<Rightarrow> (Inl NoPlayerPosition, st, h)
                  | Some pos \<Rightarrow> plan_view_transition chunk effective pos st h))"

definition start_initial_view :: "SessionPacket \<Rightarrow> InboundAction session_op" where
  "start_initial_view p st h =
     (case requested_chunk_radius (session_packet_body p) of
        Inl e \<Rightarrow> (Inl e, st, h)
      | Inr requested \<Rightarrow>
          let effective = i32_min requested (max_chunk_radius st)
          in case player_chunk st of
               None \<Rightarrow> (Inl LostSpawnChunk, st, h)
             | Some center \<Rightarrow>
                 (case position st of
                    None \<Rightarrow> (Inl LostSpawnPosition, st, h)
                  | Some player \<Rightarrow>
                      (Inr Consumed,
                       st\<lparr>pending := Some (PendingInitial requested effective center
                            (prioritize_for_player (view_positions center effective) player)
                            (initial_send_positions center effective) PreparedChunks_new),
                          phase := WaitingInitialChunks\<rparr>,
                       pending_drop (pending st) h)))"

definition handle_packet :: "inflater \<Rightarrow> SessionPacket \<Rightarrow> CodecLimits \<Rightarrow> InboundAction session_op" where
  "handle_packet inflate p limits st h =
     (case phase st of
        WaitingLogin \<Rightarrow>
          if session_packet_id p \<noteq> LOGIN then (Inl (ExpectedLogin (session_packet_id p)), st, h)
          else (case validate_login inflate (session_packet_body p) limits of
                  Inl e \<Rightarrow> (Inl e, st, h)
                | Inr _ \<Rightarrow> (Inr LoginRequested, st\<lparr>phase := LoginPending\<rparr>, h))
      | LoginPending \<Rightarrow>
          if length (deferred st) \<ge> MAX_DEFERRED_PACKETS then (Inl TooManyDeferred, st, h)
          else (Inr Consumed, st\<lparr>deferred := deferred st @ [p]\<rparr>, h)
      | WaitingChunkRadius \<Rightarrow>
          if session_packet_id p \<noteq> REQUEST_CHUNK_RADIUS
          then (Inl (ExpectedRequestChunkRadius (session_packet_id p)), st, h)
          else start_initial_view p st h
      | WaitingInitialChunks \<Rightarrow>
          if session_packet_id p = REQUEST_CHUNK_RADIUS then (Inr Consumed, st, h)
          else (Inl (InitialChunksLoading (session_packet_id p)), st, h)
      | Spawned \<Rightarrow>
          (case (if session_packet_id p = MOVE_PLAYER then handle_move_player p st h
                 else if session_packet_id p = REQUEST_CHUNK_RADIUS then handle_request_radius p st h
                 else (Inr (), st, h)) of
             (Inl e, st, h) \<Rightarrow> (Inl e, st, h)
           | (Inr _, st, h) \<Rightarrow> (Inr (Forward p), st, h)))"

definition take_deferred :: "SessionState \<Rightarrow> SessionPacket option \<times> SessionState" where
  "take_deferred st =
     (if phase st = LoginPending then (None, st)
      else case deferred st of [] \<Rightarrow> (None, st) | p # ps \<Rightarrow> (Some p, st\<lparr>deferred := ps\<rparr>))"

definition SessionState_accept_login ::
  "deflater \<Rightarrow> SessionWorldBootstrap \<Rightarrow> CodecLimits \<Rightarrow> SessionState \<Rightarrow> (StateError + SessionPacket list) \<times> SessionState" where
  "SessionState_accept_login deflate b limits st =
     (if phase st \<noteq> LoginPending then (Inl NotAwaitingLogin, st)
      else case bootstrap_packets deflate b limits of
             Inl e \<Rightarrow> (Inl e, st)
           | Inr packets \<Rightarrow>
               (Inr packets,
                st\<lparr>position := Some (boot_position b), player_chunk := Some (position_chunk (boot_position b)),
                   phase := WaitingChunkRadius\<rparr>))"

definition rollback_login_acceptance :: "SessionState \<Rightarrow> SessionState" where
  "rollback_login_acceptance st =
     (if phase st = WaitingChunkRadius \<and> pending st = None \<and> view st = None
      then st\<lparr>phase := LoginPending, position := None, player_chunk := None\<rparr> else st)"

definition SessionState_chunk_work :: "SessionId \<Rightarrow> SessionState \<Rightarrow> ChunkWork option" where
  "SessionState_chunk_work sid st =
     map_option (\<lambda>w. \<lparr>work_session = sid, work_kind = PendingWork_kind w,
       work_positions = unprepared (prepared w) (prepare_positions w), work_send_positions = send_positions w\<rparr>)
       (pending st)"

definition mark_prepared_chunk :: "nat \<Rightarrow> ChunkCoord \<Rightarrow> unit session_op" where
  "mark_prepared_chunk store pos st h =
     (case pending st of
        None \<Rightarrow> (Inl NoPendingWork, st, h)
      | Some w \<Rightarrow>
          if (case view st of Some v \<Rightarrow> view_store v \<noteq> store | None \<Rightarrow> False)
          then (Inl PendingDifferentStore, st, h)
          else
            case PreparedChunks_mark (prepare_positions w) store pos (prepared w) h of
              (r, p, h) \<Rightarrow> (map_err ViewFailure r, st\<lparr>pending := Some (prepared_mut p w)\<rparr>, h))"

definition radius_packet_body :: "i32 \<Rightarrow> bytes" where
  "radius_packet_body r = to_be_bytes r"

fun plan_packets_for :: "deflater \<Rightarrow> RawPacket list \<Rightarrow> CodecLimits \<Rightarrow> PendingWork \<Rightarrow> StateError + CompletionPlan" where
  "plan_packets_for deflate raw_chunks limits (PendingInitial requested effective center ps ss p) =
     rbind (bootstrap_session_packet deflate limits (Batch \<lparr>batch_packets = raw_chunks\<rparr>)) (\<lambda>batch.
     rbind (ok_or (usize_checked_add (length (session_packet_body batch)) 1) BatchLengthOverflow) (\<lambda>n.
     rbind (bootstrap_session_packet deflate limits (PlayStatus (PlayStatusPacket_new 3))) (\<lambda>spawn_status.
     Inr \<lparr>plan_packets = [SessionPacket_new CHUNK_RADIUS_UPDATED (radius_packet_body effective), batch, spawn_status],
       plan_initial = Some \<lparr>requested_radius = requested, effective_radius = effective, chunks_sent = length ss,
         encoded_bytes = n\<rparr>\<rparr>)))"
| "plan_packets_for deflate raw_chunks limits (PendingView t p) =
     (let packets = (if from_radius t \<noteq> to_radius t
                     then [RawPacket_new CHUNK_RADIUS_UPDATED (radius_packet_body (to_radius t))] else []) @ raw_chunks
      in rbind (bootstrap_session_packet deflate limits (Batch \<lparr>batch_packets = packets\<rparr>)) (\<lambda>batch.
         Inr \<lparr>plan_packets = [batch], plan_initial = None\<rparr>))"

definition completion_plan :: "deflater \<Rightarrow> nat \<Rightarrow> RawPacket list \<Rightarrow> CodecLimits \<Rightarrow> SessionState \<Rightarrow> StateError + CompletionPlan" where
  "completion_plan deflate store raw_chunks limits st =
     (case pending st of
        None \<Rightarrow> Inl NoPendingWork
      | Some w \<Rightarrow>
          if \<not> is_complete (prepared w) (prepare_positions w) then Inl NotFullyPrepared
          else if \<not> matches_store (prepared w) store then Inl WorkDifferentStore
          else if (case view st of Some v \<Rightarrow> view_store v \<noteq> store | None \<Rightarrow> False) then Inl ViewDifferentStore
          else if length raw_chunks \<noteq> length (send_positions w)
          then Inl (PacketCountMismatch (length (send_positions w)) (length raw_chunks))
          else plan_packets_for deflate raw_chunks limits w)"

definition commit_initial ::
  "i32 \<Rightarrow> i32 \<Rightarrow> ChunkCoord \<Rightarrow> ChunkCoord list \<Rightarrow> PreparedChunks \<Rightarrow> InitialViewResult option session_op" where
  "commit_initial requested effective center ss p st h =
     (if \<not> is_complete p ss \<and> \<not> is_complete p (view_positions center effective)
      then (Inl LostInitialPins, st, PreparedChunks_drop p h)
      else
        case take_store p of
          (None, p) \<Rightarrow> (Inl NoNativeStore, st, PreparedChunks_drop p h)
        | (Some store, p) \<Rightarrow>
            let v = \<lparr>view_store = store, view_center = center, view_radius = effective,
                     view_cursor = current_change_sequence (h store),
                     pinned_chunks = view_positions center effective\<rparr>
            in (Inr (Some \<lparr>requested_radius = requested, effective_radius = effective, chunks_sent = length ss,
                  encoded_bytes = 0\<rparr>),
                st\<lparr>view := Some v, phase := Spawned, desired_radius := None\<rparr>,
                PreparedChunks_drop (disarm p) (view_drop (view st) h)))"

definition commit_view :: "ChunkViewTransition \<Rightarrow> PreparedChunks \<Rightarrow> InitialViewResult option session_op" where
  "commit_view t p st h =
     (case view st of
        None \<Rightarrow> (Inl LostActiveView, st, PreparedChunks_drop p h)
      | Some v \<Rightarrow>
          if view_center v \<noteq> from_center t \<or> view_radius v \<noteq> from_radius t
          then (Inl TransitionMismatch, st, PreparedChunks_drop p h)
          else if \<not> matches_store p (view_store v) then (Inl PreparedDifferentStore, st, PreparedChunks_drop p h)
          else if \<not> is_complete p (entering t) then (Inl LostEnteringPins, st, PreparedChunks_drop p h)
          else
            let h = h(view_store v := unpin_each (leaving t) (h (view_store v)));
                v = v\<lparr>view_center := to_center t, view_radius := to_radius t,
                      pinned_chunks := view_positions (to_center t) (to_radius t)\<rparr>
            in (Inr None, st\<lparr>view := Some v, desired_radius := None\<rparr>, PreparedChunks_drop (disarm p) h))"

definition commit_pending :: "InitialViewResult option session_op" where
  "commit_pending st h =
     (case pending st of
        None \<Rightarrow> (Inl NoPendingWork, st, h)
      | Some (PendingInitial requested effective center ps ss p) \<Rightarrow>
          commit_initial requested effective center ss p (st\<lparr>pending := None\<rparr>) h
      | Some (PendingView t p) \<Rightarrow> commit_view t p (st\<lparr>pending := None\<rparr>) h)"

definition view_snapshot :: "SessionId \<Rightarrow> SessionState \<Rightarrow> WorldViewSnapshot option" where
  "view_snapshot sid st =
     map_option (\<lambda>v. \<lparr>snap_session = sid, snap_store = view_store v, snap_center = view_center v,
       snap_radius = view_radius v, snap_cursor = view_cursor v, snap_pinned = pinned_chunks v\<rparr>) (view st)"

definition SessionState_update_view_cursor :: "nat \<Rightarrow> u64 \<Rightarrow> SessionState \<Rightarrow> bool \<times> SessionState" where
  "SessionState_update_view_cursor store cursor st =
     (case view st of
        None \<Rightarrow> (False, st)
      | Some v \<Rightarrow> if view_store v \<noteq> store then (False, st)
                  else (True, st\<lparr>view := Some (v\<lparr>view_cursor := cursor\<rparr>)\<rparr>))"

section \<open>Invariant and holdings\<close>

definition prep_pins :: "PreparedChunks \<Rightarrow> nat \<Rightarrow> ChunkCoord \<Rightarrow> nat" where
  "prep_pins p i pos = (if prep_store p = Some i \<and> pos \<in> set (prep_pinned p) then 1 else 0)"

definition view_pins :: "WorldView \<Rightarrow> nat \<Rightarrow> ChunkCoord \<Rightarrow> nat" where
  "view_pins v i pos = (if view_store v = i \<and> pos \<in> set (pinned_chunks v) then 1 else 0)"

definition held :: "SessionState \<Rightarrow> nat \<Rightarrow> ChunkCoord \<Rightarrow> nat" where
  "held st i pos =
     (case pending st of None \<Rightarrow> 0 | Some w \<Rightarrow> prep_pins (prepared w) i pos)
     + (case view st of None \<Rightarrow> 0 | Some v \<Rightarrow> view_pins v i pos)"

definition prep_ok :: "ChunkCoord list \<Rightarrow> PreparedChunks \<Rightarrow> bool" where
  "prep_ok expected p \<longleftrightarrow> distinct (prep_pinned p) \<and> set (prep_pinned p) \<subseteq> set expected
     \<and> (prep_store p = None \<longleftrightarrow> prep_pinned p = [])"

definition world_view_ok :: "WorldView \<Rightarrow> bool" where
  "world_view_ok v \<longleftrightarrow> 0 < sint (view_radius v) \<and> pinned_chunks v = view_positions (view_center v) (view_radius v)"

text \<open>Pending work is about the whole initial view, or about the way from the active view to the next.\<close>

fun work_ok :: "WorldView option \<Rightarrow> PendingWork \<Rightarrow> bool" where
  "work_ok vo (PendingInitial requested effective center ps ss p) \<longleftrightarrow>
     vo = None \<and> 0 < sint effective \<and> distinct ps \<and> set ps = set (view_positions center effective)
     \<and> ss = initial_send_positions center effective \<and> prep_ok ps p"
| "work_ok vo (PendingView t p) \<longleftrightarrow>
     (case vo of None \<Rightarrow> False | Some v \<Rightarrow>
        from_center t = view_center v \<and> from_radius t = view_radius v \<and> 0 < sint (to_radius t)
        \<and> distinct (entering t) \<and> distinct (leaving t)
        \<and> set (entering t) = set (view_positions (to_center t) (to_radius t)) - set (view_positions (from_center t) (from_radius t))
        \<and> set (leaving t) = set (view_positions (from_center t) (from_radius t)) - set (view_positions (to_center t) (to_radius t))
        \<and> prep_ok (entering t) p \<and> matches_store p (view_store v))"

definition session_inv :: "SessionState \<Rightarrow> bool" where
  "session_inv st \<longleftrightarrow>
     0 < sint (max_chunk_radius st) \<and> length (deferred st) \<le> MAX_DEFERRED_PACKETS
     \<and> player_chunk st = map_option position_chunk (position st)
     \<and> (case desired_radius st of None \<Rightarrow> True | Some r \<Rightarrow> 0 < sint r)
     \<and> (case phase st of
          WaitingLogin \<Rightarrow> position st = None \<and> view st = None \<and> pending st = None \<and> desired_radius st = None \<and> deferred st = []
        | LoginPending \<Rightarrow> position st = None \<and> view st = None \<and> pending st = None \<and> desired_radius st = None
        | WaitingChunkRadius \<Rightarrow> position st \<noteq> None \<and> view st = None \<and> pending st = None \<and> desired_radius st = None
        | WaitingInitialChunks \<Rightarrow> position st \<noteq> None \<and> view st = None \<and> desired_radius st = None
            \<and> (case pending st of None \<Rightarrow> False | Some w \<Rightarrow> PendingWork_kind w = KindInitial \<and> work_ok None w)
        | Spawned \<Rightarrow> position st \<noteq> None
            \<and> (case view st of None \<Rightarrow> False | Some v \<Rightarrow> world_view_ok v
                \<and> (case pending st of None \<Rightarrow> True | Some w \<Rightarrow> work_ok (Some v) w)))"

text \<open>An operation that owns its pins: the counts change by what the holdings change, and nothing else changes.\<close>

definition conserves :: "SessionState \<Rightarrow> stores \<Rightarrow> SessionState \<Rightarrow> stores \<Rightarrow> bool" where
  "conserves st h st' h' \<longleftrightarrow>
     (\<forall>i pos. held st i pos \<le> store_pins (h i) pos
        \<longrightarrow> store_pins (h' i) pos + held st i pos = store_pins (h i) pos + held st' i pos)"

definition unpinned_chunk :: "WorldStore \<Rightarrow> ChunkCoord \<Rightarrow> ChunkRecord option" where
  "unpinned_chunk s pos = map_option (\<lambda>c. c\<lparr>pin_count := 0\<rparr>) (ws_chunk s pos)"

definition same_world :: "WorldStore \<Rightarrow> WorldStore \<Rightarrow> bool" where
  "same_world s s' \<longleftrightarrow> (world_inv s \<longrightarrow> world_inv s') \<and> changes s' = changes s \<and> unpinned_chunk s' = unpinned_chunk s"

definition same_worlds :: "stores \<Rightarrow> stores \<Rightarrow> bool" where
  "same_worlds h h' \<longleftrightarrow> (\<forall>i. same_world (h i) (h' i))"

lemma same_world_refl [simp]: "same_world s s"
  by (simp add: same_world_def)

lemma same_worlds_refl [simp]: "same_worlds h h"
  by (simp add: same_worlds_def)

lemma same_world_trans: "same_world s t \<Longrightarrow> same_world t u \<Longrightarrow> same_world s u"
  by (simp add: same_world_def)

lemma same_worlds_trans: "same_worlds h g \<Longrightarrow> same_worlds g k \<Longrightarrow> same_worlds h k"
  unfolding same_worlds_def by (blast intro: same_world_trans)

lemma same_worlds_upd: "same_world (h i) s \<Longrightarrow> same_worlds h (h(i := s))"
  by (simp add: same_worlds_def)

lemma pin_same_world: "same_world s (snd (pin_chunk pos s))"
proof -
  have "changes (snd (pin_chunk pos s)) = changes s"
    by (auto simp: pin_chunk_def with_chunk_mut_alt split: option.splits sum.splits)
  moreover have "unpinned_chunk (snd (pin_chunk pos s)) = unpinned_chunk s"
    by (cases "ws_chunk s pos")
      (auto simp: pin_chunk_def with_chunk_mut_alt unpinned_chunk_def result_simps fun_eq_iff split: sum.splits option.splits)
  ultimately show ?thesis by (simp add: same_world_def keepsD [OF pin_inv])
qed

lemma unpin_same_world: "same_world s (snd (unpin_chunk pos s))"
proof -
  have "changes (snd (unpin_chunk pos s)) = changes s"
    by (auto simp: unpin_chunk_def with_chunk_mut_alt split: option.splits)
  moreover have "unpinned_chunk (snd (unpin_chunk pos s)) = unpinned_chunk s"
    by (cases "ws_chunk s pos") (auto simp: unpin_chunk_def with_chunk_mut_alt unpinned_chunk_def fun_eq_iff)
  ultimately show ?thesis by (simp add: same_world_def keepsD [OF unpin_inv])
qed

lemma unpin_each_same_world: "same_world s (unpin_each ps s)"
  unfolding unpin_each_def
proof (induction ps arbitrary: s)
  case (Cons pos ps)
  show ?case unfolding fold_simps by (rule same_world_trans [OF unpin_same_world Cons.IH])
qed simp

lemma drops_same_worlds:
  "same_worlds h (PreparedChunks_drop p h)" "same_worlds h (pending_drop w h)"
  "same_worlds h (WorldView_drop v h)" "same_worlds h (view_drop vo h)" "same_worlds h (SessionState_drop st h)"
proof -
  show prep: "same_worlds h (PreparedChunks_drop p h)" for p h
    by (auto simp: PreparedChunks_drop_def intro!: same_worlds_upd unpin_each_same_world split: option.splits)
  show pend: "same_worlds h (pending_drop w h)" for w h
    by (auto simp: pending_drop_def prep split: option.splits)
  show view: "same_worlds h (WorldView_drop v h)" for v h
    by (auto simp: WorldView_drop_def intro!: same_worlds_upd unpin_each_same_world)
  show vo: "same_worlds h (view_drop vo h)" for vo h
    by (auto simp: view_drop_def view split: option.splits)
  show "same_worlds h (SessionState_drop st h)"
    unfolding SessionState_drop_def by (rule same_worlds_trans [OF vo pend])
qed

lemma prepared_drop_pins:
  "distinct (prep_pinned p) \<Longrightarrow> store_pins (PreparedChunks_drop p h i) pos = store_pins (h i) pos - prep_pins p i pos"
  by (auto simp: PreparedChunks_drop_def prep_pins_def unpin_each_pins split: option.splits)

lemma view_drop_pins:
  "distinct (pinned_chunks v) \<Longrightarrow> store_pins (WorldView_drop v h i) pos = store_pins (h i) pos - view_pins v i pos"
  by (auto simp: WorldView_drop_def view_pins_def unpin_each_pins)

lemma world_view_distinct: "world_view_ok v \<Longrightarrow> distinct (pinned_chunks v)"
  by (simp add: world_view_ok_def view_positions_spec)

lemma work_distinct: "work_ok vo w \<Longrightarrow> distinct (prep_pinned (prepared w))"
  by (cases w) (auto simp: prep_ok_def split: option.splits)

lemma session_invD:
  assumes "session_inv st"
  shows "pending st = Some w \<Longrightarrow> work_ok (view st) w" and "view st = Some v \<Longrightarrow> world_view_ok v"
  using assms by (auto simp: session_inv_def split: JoinPhase.splits option.splits)

text \<open>What each operation guarantees to its caller.\<close>

definition session_step_ok :: "SessionState \<Rightarrow> stores \<Rightarrow> SessionState \<Rightarrow> stores \<Rightarrow> bool" where
  "session_step_ok st h st' h' \<longleftrightarrow>
     session_inv st' \<and> conserves st h st' h' \<and> same_worlds h h' \<and> max_chunk_radius st' = max_chunk_radius st"

lemma step_ok_pure:
  assumes "session_inv st'" "pending st' = pending st" "view st' = view st" "max_chunk_radius st' = max_chunk_radius st"
  shows "session_step_ok st h st' h"
  using assms by (simp add: session_step_ok_def conserves_def held_def)

lemma conserves_replace_pending:
  assumes inv: "session_inv st" and w: "case pending st' of None \<Rightarrow> True | Some w \<Rightarrow> prep_pinned (prepared w) = []"
    and v: "view st' = view st"
  shows "conserves st h st' (pending_drop (pending st) h)"
proof (cases "pending st")
  case None
  with w v show ?thesis
    by (auto simp: conserves_def held_def pending_drop_def prep_pins_def split: option.splits)
next
  case (Some w0)
  have d: "distinct (prep_pinned (prepared w0))" using session_invD(1) [OF inv Some] by (rule work_distinct)
  show ?thesis
    using w v Some
    by (auto simp: conserves_def held_def pending_drop_def prepared_drop_pins [OF d] split: option.splits)
      (auto simp: prep_pins_def)
qed

lemma transition_work_ok:
  assumes "chunk_view_transition (view_center v) (view_radius v) tc tr = Some t" "0 < sint tr"
  shows "work_ok (Some v) (PendingView (t\<lparr>entering := prioritize_for_player (entering t) player\<rparr>) PreparedChunks_new)"
  using transition_spec [OF assms(1)] assms(2)
  by (auto simp: prep_ok_def PreparedChunks_new_def matches_store_def view_positions_spec)

lemma plan_view_transition_ok:
  assumes inv: "session_inv st" and ph: "phase st = Spawned" and tr: "0 < sint tr"
    and plan: "plan_view_transition tc tr player st h = (r, st', h')"
  shows "session_step_ok st h st' h'" and "r = Inr ()" and "phase st' = Spawned"
    and "position st' = position st" and "deferred st' = deferred st"
proof -
  obtain v where v: "view st = Some v" "world_view_ok v"
    using inv ph by (auto simp: session_inv_def split: option.splits)
  note defs = plan [unfolded plan_view_transition_def]
  show "r = Inr ()" "phase st' = Spawned" "position st' = position st" "deferred st' = deferred st"
    using defs v ph by (auto simp: Let_def split: option.splits if_splits)
  show "session_step_ok st h st' h'"
  proof (cases "chunk_view_transition (view_center v) (view_radius v) tc tr")
    case None
    then have st': "st' = st\<lparr>pending := None, desired_radius := None\<rparr>" "h' = pending_drop (pending st) h"
      using defs v by auto
    have "conserves st h st' h'" unfolding st' by (rule conserves_replace_pending [OF inv]) auto
    then show ?thesis using inv ph v by (simp add: st' session_step_ok_def drops_same_worlds session_inv_def)
  next
    case (Some t)
    let ?t = "t\<lparr>entering := prioritize_for_player (entering t) player\<rparr>"
    show ?thesis
    proof (cases "same_transition (pending st) ?t")
      case True
      then have "st' = st" "h' = h" using defs v Some by (auto simp: Let_def)
      then show ?thesis using inv by (simp add: step_ok_pure)
    next
      case False
      then have st': "st' = st\<lparr>pending := Some (PendingView ?t PreparedChunks_new)\<rparr>" "h' = pending_drop (pending st) h"
        using defs v Some by (auto simp: Let_def)
      have "conserves st h st' h'" unfolding st'
        by (rule conserves_replace_pending [OF inv]) (auto simp: PreparedChunks_new_def)
      then show ?thesis using inv ph v transition_work_ok [OF Some tr, of player]
        by (simp add: st' session_step_ok_def drops_same_worlds session_inv_def)
    qed
  qed
qed

lemma step_ok_after:
  assumes "session_step_ok st1 h st' h'"
    and "pending st1 = pending st" "view st1 = view st" "max_chunk_radius st1 = max_chunk_radius st"
  shows "session_step_ok st h st' h'"
  using assms by (simp add: session_step_ok_def conserves_def held_def)

lemma handle_move_player_ok:
  assumes inv: "session_inv st" and ph: "phase st = Spawned" and run: "handle_move_player p st h = (r, st', h')"
  shows "session_step_ok st h st' h' \<and> phase st' = Spawned \<and> deferred st' = deferred st"
proof -
  note defs = run [unfolded handle_move_player_def]
  consider "st' = st" "h' = h"
    | m chunk where "decode_move_player (session_packet_body p) = Inr m" "validate_position (move_position m) = Inr chunk"
    using defs by (auto simp: map_err_def split: sum.splits)
  then show ?thesis
  proof cases
    case 1
    then show ?thesis using inv ph by (simp add: step_ok_pure)
  next
    case 2
    let ?st = "st\<lparr>position := Some (move_position m), player_chunk := Some chunk\<rparr>"
    have "chunk = position_chunk (move_position m)"
      using 2(2) by (auto simp: validate_position_def split: prod.splits if_splits)
    then have inv1: "session_inv ?st" and ph1: "phase ?st = Spawned"
      using inv ph by (auto simp: session_inv_def split: option.splits)
    obtain radius where radius: "(case desired_radius st of Some r \<Rightarrow> Some r | None \<Rightarrow> map_option view_radius (view st)) = Some radius"
        "0 < sint radius"
      using inv ph by (auto simp: session_inv_def world_view_ok_def split: option.splits)
    then have "plan_view_transition chunk radius (move_position m) ?st h = (r, st', h')"
      using defs 2 by (simp add: map_err_def Let_def split: option.splits)
    from plan_view_transition_ok [OF inv1 ph1 radius(2) this] show ?thesis by (auto intro: step_ok_after)
  qed
qed

lemma handle_request_radius_ok:
  assumes inv: "session_inv st" and ph: "phase st = Spawned" and run: "handle_request_radius p st h = (r, st', h')"
  shows "session_step_ok st h st' h' \<and> phase st' = Spawned \<and> deferred st' = deferred st"
proof (cases "requested_chunk_radius (session_packet_body p)")
  case (Inl e)
  then show ?thesis using run inv ph by (auto simp: handle_request_radius_def intro: step_ok_pure)
next
  case (Inr requested)
  let ?st = "st\<lparr>desired_radius := Some (i32_min requested (max_chunk_radius st))\<rparr>"
  have "0 < sint requested" using Inr by (auto simp: requested_chunk_radius_def Let_def split: if_splits)
  moreover have "0 < sint (max_chunk_radius st)" using inv by (simp add: session_inv_def)
  ultimately have rad: "0 < sint (i32_min requested (max_chunk_radius st))" by (simp add: i32_min_def)
  then have inv1: "session_inv ?st" and ph1: "phase ?st = Spawned"
    using inv ph by (auto simp: session_inv_def split: option.splits)
  obtain pos where "position st = Some pos" "player_chunk st = Some (position_chunk pos)"
    using inv ph by (auto simp: session_inv_def)
  then obtain tc pos where "plan_view_transition tc (i32_min requested (max_chunk_radius st)) pos ?st h = (r, st', h')"
    using run Inr by (auto simp: handle_request_radius_def Let_def)
  from plan_view_transition_ok [OF inv1 ph1 rad this] show ?thesis by (auto intro: step_ok_after)
qed

lemma start_initial_view_ok:
  assumes inv: "session_inv st" and ph: "phase st = WaitingChunkRadius"
    and run: "start_initial_view p st h = (r, st', h')"
  shows "session_step_ok st h st' h'"
proof -
  consider "st' = st" "h' = h"
    | requested center player where "requested_chunk_radius (session_packet_body p) = Inr requested"
        "player_chunk st = Some center" "position st = Some player"
    using run by (auto simp: start_initial_view_def Let_def split: sum.splits option.splits)
  then show ?thesis
  proof cases
    case 1
    then show ?thesis using inv by (simp add: step_ok_pure)
  next
    case 2
    let ?e = "i32_min requested (max_chunk_radius st)"
    have none: "pending st = None" "view st = None" using inv ph by (auto simp: session_inv_def)
    have "0 < sint requested" using 2(1) by (auto simp: requested_chunk_radius_def Let_def split: if_splits)
    moreover have "0 < sint (max_chunk_radius st)" using inv by (simp add: session_inv_def)
    ultimately have pos: "0 < sint ?e" by (simp add: i32_min_def)
    have st': "st' = st\<lparr>pending := Some (PendingInitial requested ?e center
          (prioritize_for_player (view_positions center ?e) player) (initial_send_positions center ?e) PreparedChunks_new),
        phase := WaitingInitialChunks\<rparr>" "h' = h"
      using run 2 none by (auto simp: start_initial_view_def Let_def pending_drop_def)
    show ?thesis using inv ph pos none
      by (auto simp: st' session_step_ok_def conserves_def held_def prep_pins_def PreparedChunks_new_def prep_ok_def
          session_inv_def view_positions_spec)
  qed
qed

lemma handle_packet_ok:
  assumes inv: "session_inv st" and run: "handle_packet inflate p limits st h = (r, st', h')"
  shows "session_step_ok st h st' h'"
proof (cases "phase st")
  case WaitingLogin
  then show ?thesis using inv run
    by (auto simp: handle_packet_def split: if_splits sum.splits intro!: step_ok_pure) (auto simp: session_inv_def)
next
  case LoginPending
  then show ?thesis using inv run
    by (auto simp: handle_packet_def split: if_splits intro!: step_ok_pure) (auto simp: session_inv_def)
next
  case WaitingChunkRadius
  then show ?thesis using inv run start_initial_view_ok [OF inv WaitingChunkRadius]
    by (auto simp: handle_packet_def split: if_splits intro!: step_ok_pure)
next
  case WaitingInitialChunks
  then show ?thesis using inv run by (auto simp: handle_packet_def split: if_splits intro!: step_ok_pure)
next
  case Spawned
  then consider r' where "handle_move_player p st h = (r', st', h')"
    | r' where "handle_request_radius p st h = (r', st', h')" | "st' = st" "h' = h"
    using run by (auto simp: handle_packet_def split: if_splits sum.splits prod.splits)
  then show ?thesis
    using handle_move_player_ok [OF inv Spawned] handle_request_radius_ok [OF inv Spawned] step_ok_pure [OF inv]
    by cases auto
qed

lemma take_deferred_ok:
  assumes "session_inv st" and "take_deferred st = (r, st')"
  shows "session_step_ok st h st' h"
proof (rule step_ok_pure)
  show "session_inv st'" using assms
    by (auto simp: take_deferred_def session_inv_def split: if_splits list.splits JoinPhase.splits option.splits)
qed (use assms in \<open>auto simp: take_deferred_def split: if_splits list.splits\<close>)

lemma accept_login_ok:
  assumes "session_inv st" and "SessionState_accept_login deflate b limits st = (r, st')"
  shows "session_step_ok st h st' h"
proof (rule step_ok_pure)
  show "session_inv st'" using assms
    by (auto simp: SessionState_accept_login_def session_inv_def split: if_splits sum.splits)
qed (use assms in \<open>auto simp: SessionState_accept_login_def split: if_splits sum.splits\<close>)

lemma rollback_ok: "session_inv st \<Longrightarrow> session_step_ok st h (rollback_login_acceptance st) h"
  by (auto simp: rollback_login_acceptance_def session_inv_def intro!: step_ok_pure)

lemma work_ok_cursor: "work_ok (Some (v\<lparr>view_cursor := c\<rparr>)) w = work_ok (Some v) w"
  by (cases w) auto

lemma session_inv_view: "session_inv st \<Longrightarrow> view st = Some v \<Longrightarrow> phase st = Spawned"
  by (auto simp: session_inv_def split: JoinPhase.splits)

lemma update_cursor_ok:
  assumes inv: "session_inv st" and run: "SessionState_update_view_cursor store cursor st = (r, st')"
  shows "session_step_ok st h st' h"
proof -
  consider "st' = st" | v where "view st = Some v" "st' = st\<lparr>view := Some (v\<lparr>view_cursor := cursor\<rparr>)\<rparr>"
    using run by (auto simp: SessionState_update_view_cursor_def split: option.splits if_splits)
  then show ?thesis
  proof cases
    case 1
    then show ?thesis using inv by (simp add: step_ok_pure)
  next
    case 2
    note ph = session_inv_view [OF inv 2(1)]
    have "session_inv st'" using inv ph
      by (auto simp: 2 session_inv_def world_view_ok_def work_ok_cursor split: option.splits)
    then show ?thesis by (auto simp: 2 session_step_ok_def conserves_def held_def view_pins_def)
  qed
qed

lemma PreparedChunks_mark_alt:
  "PreparedChunks_mark expected store pos p h =
     (if pos \<notin> set expected then (Inl (NotInPendingView pos), p, h)
      else if pos \<in> set (prep_pinned p) then (Inr (), p, h)
      else if \<not> matches_store p store then (Inl ViewSpansStores, p, h)
      else case pin_chunk pos (h store) of
          (Inl e, s) \<Rightarrow> (Inl (PinError e), p, h(store := s))
        | (Inr _, s) \<Rightarrow> (Inr (), p\<lparr>prep_store := Some store, prep_pinned := pos # prep_pinned p\<rparr>, h(store := s)))"
  by (cases "prep_store p"; cases "pin_chunk pos (h store)"; cases "fst (pin_chunk pos (h store))")
    (simp_all add: PreparedChunks_mark_def matches_store_def)

lemma mark_pins:
  assumes p: "prep_ok expected p" and run: "PreparedChunks_mark expected store pos p h = (r, p', h')"
  shows "prep_ok expected p' \<and> same_worlds h h' \<and> (p' \<noteq> p \<longrightarrow> matches_store p' store)
    \<and> (\<forall>i q. store_pins (h' i) q + prep_pins p i q = store_pins (h i) q + prep_pins p' i q)"
proof (cases "pos \<in> set expected \<and> pos \<notin> set (prep_pinned p) \<and> matches_store p store")
  case False
  then have "p' = p" "h' = h" using run by (auto simp: PreparedChunks_mark_alt split: if_splits)
  then show ?thesis using p by simp
next
  case True
  obtain res s where pin: "pin_chunk pos (h store) = (res, s)" by (cases "pin_chunk pos (h store)")
  have world: "same_worlds h (h(store := s))"
    using pin_same_world [of "h store" pos] pin by (simp add: same_worlds_upd)
  have pins: "store_pins s = (case res of Inl _ \<Rightarrow> store_pins (h store)
      | Inr _ \<Rightarrow> (store_pins (h store))(pos := store_pins (h store) pos + 1))"
    using pin_chunk_pins [of pos "h store"] pin by simp
  show ?thesis
  proof (cases res)
    case (Inl e)
    then have "p' = p" "h' = h(store := s)" using run True pin by (auto simp: PreparedChunks_mark_alt)
    then show ?thesis using p world pins Inl by simp
  next
    case (Inr n)
    then have p': "p' = p\<lparr>prep_store := Some store, prep_pinned := pos # prep_pinned p\<rparr>" "h' = h(store := s)"
      using run True pin by (auto simp: PreparedChunks_mark_alt)
    have "prep_ok expected p'" using p True by (auto simp: p' prep_ok_def)
    moreover have "prep_store p = None \<and> prep_pinned p = [] \<or> prep_store p = Some store"
      using p True by (auto simp: prep_ok_def matches_store_def split: option.splits)
    ultimately show ?thesis using world pins Inr True by (auto simp: p' prep_pins_def matches_store_def)
  qed
qed

lemma mark_prepared_chunk_ok:
  assumes inv: "session_inv st" and run: "mark_prepared_chunk store pos st h = (r, st', h')"
  shows "session_step_ok st h st' h'"
proof -
  consider "st' = st" "h' = h"
    | w res p' where "pending st = Some w" "PreparedChunks_mark (prepare_positions w) store pos (prepared w) h = (res, p', h')"
        "st' = st\<lparr>pending := Some (prepared_mut p' w)\<rparr>" "\<And>v. view st = Some v \<Longrightarrow> view_store v = store"
    using run by (auto simp: mark_prepared_chunk_def split: option.splits if_splits prod.splits)
  then show ?thesis
  proof cases
    case 1
    then show ?thesis using inv by (simp add: step_ok_pure)
  next
    case 2
    have w: "work_ok (view st) w" by (rule session_invD(1) [OF inv 2(1)])
    have p: "prep_ok (prepare_positions w) (prepared w)" using w by (cases w) (auto split: option.splits)
    note m = mark_pins [OF p 2(2)]
    have prep [simp]: "prepared (prepared_mut p' w) = p'" "PendingWork_kind (prepared_mut p' w) = PendingWork_kind w"
      by (cases w; simp)+
    have w': "work_ok (view st) (prepared_mut p' w)" using w m 2(4)
      by (cases w; cases "p' = prepared w") (auto split: option.splits)
    have "session_inv st'" using inv w' 2(1)
      by (auto simp: 2(3) session_inv_def split: JoinPhase.splits option.splits)
    moreover have "conserves st h st' h'" using m 2(1) by (auto simp: conserves_def held_def 2(3))
    ultimately show ?thesis using m by (simp add: session_step_ok_def 2(3))
  qed
qed

lemma is_complete_set:
  assumes "prep_ok expected p" "is_complete p expected"
  shows "set (prep_pinned p) = set expected"
  using assms by (auto simp: prep_ok_def is_complete_def unprepared_def filter_empty_conv)

lemma is_complete_perm:
  assumes "is_complete p xs" "distinct xs" "distinct ys" "set xs = set ys"
  shows "is_complete p ys"
proof -
  have "length xs = length ys" using assms(2-4) by (metis distinct_card)
  then show ?thesis using assms(1,4) by (auto simp: is_complete_def unprepared_def filter_empty_conv)
qed

lemma view_contains_center: "0 \<le> sint r \<Longrightarrow> view_contains c r c"
  using sint_ge [of "coord_x c"] sint_lt [of "coord_x c"] sint_ge [of "coord_z c"] sint_lt [of "coord_z c"]
  by (auto simp: view_contains_def i32_saturating_add_def i32_saturating_sub_def sint_sclamp_i32)

lemma commit_initial_ok:
  assumes inv: "session_inv st" and w: "pending st = Some (PendingInitial rq e c ps ss p)" and full: "is_complete p ps"
    and run: "commit_pending st h = (r, st', h')"
  shows "session_step_ok st h st' h'" and "phase st' = Spawned" and "\<exists>res. r = Inr (Some res)" and "pending st' = None"
proof -
  have wk: "0 < sint e" "distinct ps" "set ps = set (view_positions c e)" "prep_ok ps p" and vn: "view st = None"
    using session_invD(1) [OF inv w] by auto
  have ph: "phase st = WaitingInitialChunks" "desired_radius st = None" "position st \<noteq> None"
    using inv w vn by (auto simp: session_inv_def split: JoinPhase.splits)
  have pinned: "set (prep_pinned p) = set (view_positions c e)" using is_complete_set [OF wk(4) full] wk(3) by simp
  moreover have "c \<in> set (view_positions c e)" using view_contains_center [of e c] wk(1) by (simp add: view_positions_spec)
  ultimately obtain store where store: "prep_store p = Some store" using wk(4) by (auto simp: prep_ok_def)
  have "is_complete p (view_positions c e)" by (rule is_complete_perm [OF full wk(2) _ wk(3)]) (simp add: view_positions_spec)
  then have eqs: "st' = st\<lparr>pending := None, view := Some \<lparr>view_store = store, view_center = c, view_radius = e,
        view_cursor = current_change_sequence (h store), pinned_chunks = view_positions c e\<rparr>,
      phase := Spawned, desired_radius := None\<rparr>" "h' = h" "\<exists>res. r = Inr (Some res)"
    using run store vn
    by (auto simp: commit_pending_def w commit_initial_def take_store_def Let_def PreparedChunks_drop_def disarm_def view_drop_def)
  then show "phase st' = Spawned" "\<exists>res. r = Inr (Some res)" "pending st' = None" by simp_all
  have "session_inv st'" using inv ph wk(1) by (auto simp: eqs session_inv_def world_view_ok_def)
  moreover have "held st' = held st"
    using pinned store by (auto simp: held_def w vn eqs prep_pins_def view_pins_def fun_eq_iff)
  ultimately show "session_step_ok st h st' h'" by (auto simp: eqs(2) session_step_ok_def conserves_def) (simp add: eqs)
qed

lemma commit_view_ok:
  assumes inv: "session_inv st" and w: "pending st = Some (PendingView t p)" and full: "is_complete p (entering t)"
    and run: "commit_pending st h = (r, st', h')"
  shows "session_step_ok st h st' h'" and "phase st' = Spawned" and "r = Inr None" and "pending st' = None"
proof -
  obtain v where v: "view st = Some v" using session_invD(1) [OF inv w] by (auto split: option.splits)
  have wk: "from_center t = view_center v" "from_radius t = view_radius v" "distinct (leaving t)"
      "prep_ok (entering t) p" "matches_store p (view_store v)"
      "set (entering t) = set (view_positions (to_center t) (to_radius t)) - set (pinned_chunks v)"
      "set (leaving t) = set (pinned_chunks v) - set (view_positions (to_center t) (to_radius t))" "0 < sint (to_radius t)"
    using session_invD(1) [OF inv w] session_invD(2) [OF inv v] v by (auto simp: world_view_ok_def)
  note ph = session_inv_view [OF inv v]
  let ?v = "v\<lparr>view_center := to_center t, view_radius := to_radius t,
      pinned_chunks := view_positions (to_center t) (to_radius t)\<rparr>"
  let ?h = "h(view_store v := unpin_each (leaving t) (h (view_store v)))"
  have eqs: "st' = st\<lparr>pending := None, view := Some ?v, desired_radius := None\<rparr>" "h' = ?h" "r = Inr None"
    using run wk(1,2,5) v full
    by (auto simp: commit_pending_def w commit_view_def Let_def PreparedChunks_drop_def disarm_def)
  then show "phase st' = Spawned" "r = Inr None" "pending st' = None" using ph by simp_all
  have "session_inv st'" using inv ph wk(8) by (auto simp: eqs session_inv_def world_view_ok_def)
  moreover have "same_worlds h h'" unfolding eqs by (rule same_worlds_upd [OF unpin_each_same_world])
  moreover have "conserves st h st' h'"
    unfolding conserves_def
  proof (intro allI impI)
    fix i pos
    assume le: "held st i pos \<le> store_pins (h i) pos"
    have pinned: "set (prep_pinned p) = set (entering t)" by (rule is_complete_set [OF wk(4) full])
    have store: "prep_pinned p = [] \<or> prep_store p = Some (view_store v)"
      using wk(4,5) by (auto simp: prep_ok_def matches_store_def split: option.splits)
    have "prep_pins p i pos = (if i = view_store v \<and> pos \<in> set (entering t) then 1 else 0)"
      using store pinned by (auto simp: prep_pins_def)
    then show "store_pins (h' i) pos + held st i pos = store_pins (h i) pos + held st' i pos"
      using le wk(6,7) by (auto simp: eqs held_def w v view_pins_def unpin_each_pins [OF wk(3)])
  qed
  ultimately show "session_step_ok st h st' h'" by (simp add: session_step_ok_def eqs)
qed

lemma commit_pending_ok:
  assumes "session_inv st" "pending st = Some w" "is_complete (prepared w) (prepare_positions w)"
    and "commit_pending st h = (r, st', h')"
  shows "session_step_ok st h st' h' \<and> phase st' = Spawned \<and> pending st' = None
    \<and> (\<exists>res. r = Inr res \<and> (res \<noteq> None \<longleftrightarrow> PendingWork_kind w = KindInitial))"
  using assms commit_initial_ok [of st _ _ _ _ _ _ h r st' h'] commit_view_ok [of st _ _ h r st' h']
  by (cases w) fastforce+

lemma drop_releases:
  assumes inv: "session_inv st"
  shows "store_pins (SessionState_drop st h i) pos = store_pins (h i) pos - held st i pos"
proof -
  have v: "store_pins (view_drop (view st) h i) pos
      = store_pins (h i) pos - (case view st of None \<Rightarrow> 0 | Some v \<Rightarrow> view_pins v i pos)"
    using session_invD(2) [OF inv] by (auto simp: view_drop_def view_drop_pins world_view_distinct split: option.splits)
  show ?thesis
    using session_invD(1) [OF inv, THEN work_distinct]
    by (auto simp: SessionState_drop_def pending_drop_def prepared_drop_pins v held_def split: option.splits)
qed

section \<open>Preparing a view\<close>

text \<open>The owner's loop: every position of the work snapshot is made ready and marked.\<close>

fun mark_all :: "nat \<Rightarrow> ChunkCoord list \<Rightarrow> SessionState \<Rightarrow> stores \<Rightarrow> SessionState \<times> stores" where
  "mark_all i [] st h = (st, h)"
| "mark_all i (pos # ps) st h = (case mark_prepared_chunk i pos st h of (_, st, h) \<Rightarrow> mark_all i ps st h)"

definition pinnable :: "WorldStore \<Rightarrow> ChunkCoord \<Rightarrow> bool" where
  "pinnable s pos \<longleftrightarrow> (case ws_chunk s pos of None \<Rightarrow> False | Some c \<Rightarrow> pin_count c \<noteq> - 1)"

definition work_in_store :: "nat \<Rightarrow> SessionState \<Rightarrow> bool" where
  "work_in_store i st \<longleftrightarrow>
     (case view st of None \<Rightarrow> True | Some v \<Rightarrow> view_store v = i)
     \<and> (case pending st of None \<Rightarrow> False | Some w \<Rightarrow> matches_store (prepared w) i)"

lemma pin_chunk_pinnable:
  assumes "pinnable s pos"
  shows "\<exists>n s'. pin_chunk pos s = (Inr n, s') \<and> (\<forall>q. q \<noteq> pos \<longrightarrow> ws_chunk s' q = ws_chunk s q)"
proof -
  obtain c where c: "ws_chunk s pos = Some c" "pin_count c \<noteq> - 1"
    using assms by (auto simp: pinnable_def split: option.splits)
  have "unat (- 1 :: u32) = 2 ^ 32 - 1" by (simp add: unsigned_minus_1_eq_mask mask_eq_exp_minus_1)
  then have "unat (pin_count c) \<noteq> 2 ^ 32 - 1" using c(2) by (metis unsigned_word_eqI)
  moreover have "unat (pin_count c) < 2 ^ 32" using unsigned_less [of "pin_count c"] by simp
  ultimately have "checked_add (pin_count c) 1 = Some (pin_count c + 1)" by (simp add: checked_add_def)
  then show ?thesis using c by (simp add: pin_chunk_def with_chunk_mut_alt)
qed

lemma mark_one:
  assumes w: "pending st = Some w" and store: "work_in_store i st"
    and pos: "pos \<in> set (prepare_positions w)" "pos \<notin> set (prep_pinned (prepared w))" and pin: "pinnable (h i) pos"
  shows "\<exists>w' s. mark_prepared_chunk i pos st h = (Inr (), st\<lparr>pending := Some w'\<rparr>, h(i := s))
    \<and> prepare_positions w' = prepare_positions w \<and> send_positions w' = send_positions w
    \<and> set (prep_pinned (prepared w')) = insert pos (set (prep_pinned (prepared w)))
    \<and> work_in_store i (st\<lparr>pending := Some w'\<rparr>) \<and> (\<forall>q. q \<noteq> pos \<longrightarrow> ws_chunk s q = ws_chunk (h i) q)"
proof -
  from pin_chunk_pinnable [OF pin] obtain n s where
    s: "pin_chunk pos (h i) = (Inr n, s)" "\<And>q. q \<noteq> pos \<Longrightarrow> ws_chunk s q = ws_chunk (h i) q" by blast
  have m: "matches_store (prepared w) i" "\<And>v. view st = Some v \<Longrightarrow> view_store v = i"
    using store w by (auto simp: work_in_store_def)
  let ?p = "(prepared w)\<lparr>prep_store := Some i, prep_pinned := pos # prep_pinned (prepared w)\<rparr>"
  have "mark_prepared_chunk i pos st h = (Inr (), st\<lparr>pending := Some (prepared_mut ?p w)\<rparr>, h(i := s))"
    using pos m s(1) by (auto simp: mark_prepared_chunk_def w PreparedChunks_mark_alt map_err_def split: option.splits)
  moreover have "prepared (prepared_mut ?p w) = ?p" "prepare_positions (prepared_mut ?p w) = prepare_positions w"
      "send_positions (prepared_mut ?p w) = send_positions w"
    by (cases w; simp)+
  ultimately show ?thesis
    using s(2) m(2) by (intro exI [of _ "prepared_mut ?p w"] exI [of _ s]) (auto simp: work_in_store_def matches_store_def split: option.splits)
qed

lemma mark_all_pins:
  assumes "pending st = Some w" "work_in_store i st" "distinct ps" "set ps \<subseteq> set (prepare_positions w)"
    and "set ps \<inter> set (prep_pinned (prepared w)) = {}" "\<forall>pos \<in> set ps. pinnable (h i) pos"
    and "session_inv st" and "mark_all i ps st h = (st', h')"
  shows "\<exists>w'. pending st' = Some w' \<and> session_inv st' \<and> work_in_store i st'
    \<and> prepare_positions w' = prepare_positions w \<and> send_positions w' = send_positions w
    \<and> set (prep_pinned (prepared w')) = set (prep_pinned (prepared w)) \<union> set ps"
  using assms
proof (induction ps arbitrary: st h w)
  case (Cons pos ps)
  from mark_one [OF Cons.prems(1,2), of pos h] Cons.prems(4-6) obtain w1 s where
    one: "mark_prepared_chunk i pos st h = (Inr (), st\<lparr>pending := Some w1\<rparr>, h(i := s))"
      "prepare_positions w1 = prepare_positions w" "send_positions w1 = send_positions w"
      "set (prep_pinned (prepared w1)) = insert pos (set (prep_pinned (prepared w)))"
      "work_in_store i (st\<lparr>pending := Some w1\<rparr>)" "\<And>q. q \<noteq> pos \<Longrightarrow> ws_chunk s q = ws_chunk (h i) q"
    by auto
  have "session_inv (st\<lparr>pending := Some w1\<rparr>)"
    using mark_prepared_chunk_ok [OF Cons.prems(7) one(1)] by (simp add: session_step_ok_def)
  moreover have "\<forall>q \<in> set ps. pinnable ((h(i := s)) i) q"
  proof
    fix q
    assume q: "q \<in> set ps"
    then have "ws_chunk s q = ws_chunk (h i) q" using Cons.prems(3) by (intro one(6)) auto
    then show "pinnable ((h(i := s)) i) q" using Cons.prems(6) q by (simp add: pinnable_def)
  qed
  moreover have "mark_all i ps (st\<lparr>pending := Some w1\<rparr>) (h(i := s)) = (st', h')" using Cons.prems(8) one(1) by simp
  ultimately have "\<exists>w'. pending st' = Some w' \<and> session_inv st' \<and> work_in_store i st'
      \<and> prepare_positions w' = prepare_positions w1 \<and> send_positions w' = send_positions w1
      \<and> set (prep_pinned (prepared w')) = set (prep_pinned (prepared w1)) \<union> set ps"
    using Cons.prems(3-5) one(2,4,5) by (intro Cons.IH) auto
  then show ?case using one(2-4) by auto
qed auto

lemma work_facts:
  assumes "work_ok vo w"
  shows "distinct (prepare_positions w)" and "prep_ok (prepare_positions w) (prepared w)"
    and "length (send_positions w) = length (prepare_positions w)"
proof -
  have "length ss = length ps" if "distinct ps" "set ps = set (view_positions c e)" "ss = initial_send_positions c e" for ps ss c e
    using that distinct_card [of ps] distinct_card [of ss] by (simp add: view_positions_spec initial_send_positions_spec)
  then show "length (send_positions w) = length (prepare_positions w)" using assms by (cases w) auto
  show "distinct (prepare_positions w)" "prep_ok (prepare_positions w) (prepared w)"
    using assms by (cases w; auto split: option.splits)+
qed

lemma complete_iff_pinned:
  assumes "distinct expected" "prep_ok expected p"
  shows "is_complete p expected \<longleftrightarrow> set (prep_pinned p) = set expected"
proof
  assume "set (prep_pinned p) = set expected"
  then have "length (prep_pinned p) = length expected" using assms by (metis distinct_card prep_ok_def)
  then show "is_complete p expected" using \<open>set (prep_pinned p) = set expected\<close>
    by (simp add: is_complete_def unprepared_def)
qed (rule is_complete_set [OF assms(2)])

lemma mark_all_completes:
  assumes inv: "session_inv st" and w: "pending st = Some w" and store: "work_in_store i st"
    and ready: "\<forall>pos \<in> set (unprepared (prepared w) (prepare_positions w)). pinnable (h i) pos"
    and marks: "mark_all i (unprepared (prepared w) (prepare_positions w)) st h = (st', h')"
  shows "map_option work_positions (SessionState_chunk_work sid st') = Some []
    \<and> (\<exists>w'. pending st' = Some w' \<and> send_positions w' = send_positions w
        \<and> (\<forall>deflate limits raw. length raw = length (send_positions w)
             \<longrightarrow> completion_plan deflate i raw limits st' = plan_packets_for deflate raw limits w'))
    \<and> (\<exists>res st'' h''. commit_pending st' h' = (Inr res, st'', h'') \<and> phase st'' = Spawned \<and> pending st'' = None)"
proof -
  note f = work_facts [OF session_invD(1) [OF inv w]]
  have "\<exists>w'. pending st' = Some w' \<and> session_inv st' \<and> work_in_store i st'
    \<and> prepare_positions w' = prepare_positions w \<and> send_positions w' = send_positions w
    \<and> set (prep_pinned (prepared w'))
      = set (prep_pinned (prepared w)) \<union> set (unprepared (prepared w) (prepare_positions w))"
    by (rule mark_all_pins [OF w store _ _ _ ready inv marks]) (use f in \<open>auto simp: unprepared_def\<close>)
  then obtain w' where w': "pending st' = Some w'" "session_inv st'" "work_in_store i st'"
    "prepare_positions w' = prepare_positions w" "send_positions w' = send_positions w"
    "set (prep_pinned (prepared w')) = set (prep_pinned (prepared w)) \<union> set (unprepared (prepared w) (prepare_positions w))"
    by blast
  note f' = work_facts [OF session_invD(1) [OF w'(2,1)]]
  have "set (prep_pinned (prepared w')) = set (prepare_positions w')"
    using f(2) w'(4,6) by (auto simp: unprepared_def prep_ok_def)
  then have full: "is_complete (prepared w') (prepare_positions w')" using complete_iff_pinned [OF f'(1,2)] by simp
  obtain r st'' h'' where commit: "commit_pending st' h' = (r, st'', h'')" by (metis prod_cases3)
  have "completion_plan deflate i raw limits st' = plan_packets_for deflate raw limits w'"
    if "length raw = length (send_positions w)" for deflate limits raw
    using that full w'(1,3,5) by (auto simp: completion_plan_def work_in_store_def split: option.splits)
  moreover have "map_option work_positions (SessionState_chunk_work sid st') = Some []"
    using full w'(1) by (simp add: SessionState_chunk_work_def is_complete_def)
  ultimately show ?thesis using commit_pending_ok [OF w'(2,1) full commit] commit w'(1,5) by auto
qed

text \<open>
  C9: prepared work always completes. For any pending work, once the owner has made the missing chunks of its snapshot
  resident in one store and marks each of them, no mark is refused: afterwards the snapshot lists nothing more,
  the completion plan depends only on encoding as many packets as there are positions to send, and the commit succeeds and leaves
  the session spawned.
\<close>

theorem prepared_work_completes:
  assumes inv: "session_inv st" and w: "pending st = Some w" and store: "work_in_store i st"
    and ready: "\<forall>pos \<in> set (unprepared (prepared w) (prepare_positions w)). pinnable (h i) pos"
    and marks: "mark_all i (unprepared (prepared w) (prepare_positions w)) st h = (st', h')"
  shows "map_option work_positions (SessionState_chunk_work sid st') = Some []
    \<and> (\<exists>w'. pending st' = Some w' \<and> send_positions w' = send_positions w
        \<and> (\<forall>deflate limits raw. length raw = length (send_positions w)
             \<longrightarrow> completion_plan deflate i raw limits st' = plan_packets_for deflate raw limits w'))
    \<and> (\<exists>res st'' h''. commit_pending st' h' = (Inr res, st'', h'') \<and> phase st'' = Spawned \<and> pending st'' = None)"
  by (rule mark_all_completes [OF assms])

definition resident_store :: "ChunkCoord list \<Rightarrow> WorldStore" where
  "resident_store ps = fold (\<lambda>pos s. snd (ensure_chunk pos 1 s)) ps WorldStore_new"

lemma ensure_fold:
  assumes "world_inv s" "\<And>pos c. ws_chunk s pos = Some c \<Longrightarrow> pin_count c = 0"
  shows "world_inv (fold (\<lambda>pos s. snd (ensure_chunk pos 1 s)) ps s)
    \<and> (\<forall>pos. pos \<in> set ps \<or> ws_chunk s pos \<noteq> None \<longrightarrow> pinnable (fold (\<lambda>pos s. snd (ensure_chunk pos 1 s)) ps s) pos)"
  using assms
proof (induction ps arbitrary: s)
  case (Cons pos ps)
  let ?s = "snd (ensure_chunk pos 1 s)"
  have s: "ws_chunk ?s = (if ws_chunk s pos = None then (ws_chunk s)(pos \<mapsto> ChunkRecord_empty 0x0192bc59) else ws_chunk s)"
    using ensure_chunk_alt [OF Cons.prems(1), of pos 1] plains_word by simp
  have inv: "world_inv ?s" by (rule keepsD [OF ensure_chunk_inv Cons.prems(1)])
  have pins: "pin_count c = 0" if "ws_chunk ?s q = Some c" for q c
    using that Cons.prems(2) [of q c] by (auto simp: s ChunkRecord_empty_def split: if_splits)
  show ?case using Cons.IH [of ?s, OF inv pins] by (auto simp: s split: if_splits)
qed (auto simp: pinnable_def)

lemma resident_store_ok: "world_inv (resident_store ps)" "pos \<in> set ps \<Longrightarrow> pinnable (resident_store ps) pos"
  using ensure_fold [OF world_inv_new, of ps] by (auto simp: resident_store_def ws_chunk_def WorldStore_new_def)

text \<open>A session that has asked for its first view, of radius 1 around the origin.\<close>

definition sample_initial :: PendingWork where
  "sample_initial = PendingInitial 1 1 (ChunkCoord 0 0) (view_positions (ChunkCoord 0 0) 1)
     (initial_send_positions (ChunkCoord 0 0) 1) PreparedChunks_new"

definition sample_waiting :: SessionState where
  "sample_waiting = (SessionState_new 1)\<lparr>phase := WaitingInitialChunks, position := Some (0, 0, 0),
     player_chunk := Some (position_chunk (0, 0, 0)), pending := Some sample_initial\<rparr>"

lemma sample_waiting_ok: "session_inv sample_waiting" "pending sample_waiting = Some sample_initial" "work_in_store 0 sample_waiting"
  by (auto simp: session_inv_def sample_waiting_def sample_initial_def SessionState_new_def prep_ok_def PreparedChunks_new_def
      view_positions_spec work_in_store_def matches_store_def)

theorem prepared_work_completes_witness:
  "\<exists>st' h' res st'' h''. mark_all 0 (unprepared PreparedChunks_new (view_positions (ChunkCoord 0 0) 1)) sample_waiting
       (\<lambda>_. resident_store (view_positions (ChunkCoord 0 0) 1)) = (st', h')
     \<and> commit_pending st' h' = (Inr res, st'', h'') \<and> phase st'' = Spawned"
proof -
  let ?h = "\<lambda>_. resident_store (view_positions (ChunkCoord 0 0) 1)"
  obtain st' h' where run: "mark_all 0 (unprepared (prepared sample_initial) (prepare_positions sample_initial)) sample_waiting ?h
      = (st', h')"
    by fastforce
  have "\<forall>pos \<in> set (unprepared (prepared sample_initial) (prepare_positions sample_initial)). pinnable (?h 0) pos"
    by (auto simp: unprepared_def sample_initial_def intro: resident_store_ok)
  from prepared_work_completes [OF sample_waiting_ok(1,2,3) this run] run show ?thesis
    by (fastforce simp: sample_initial_def)
qed

text \<open>
  C22: connected payloads are flattened without loss. A frame made from a packet that is not a Batch is delivered as that
  one packet; a Batch frame is delivered as exactly its packets in order, given a lossless compressor, and an empty
  Batch is refused. What is delivered is never empty, so a receiver that got a payload has a packet to return.
\<close>

theorem connected_payload_roundtrip:
  assumes "zlib_law deflate inflate" and "max_batch_decompressed_bytes limits \<le> usize_max"
  shows "(encode_game_frame (to_raw_packet p) limits = Inr frame \<and> session_packet_id p \<noteq> BATCH
      \<longrightarrow> decode_connected_payload inflate frame limits = Inr [p])
    \<and> (encode_bootstrap_frame deflate (Batch batch) limits = Inr frame
      \<longrightarrow> decode_connected_payload inflate frame limits =
        (if batch_packets batch = [] then Inl EmptyPacket else Inr (map from_raw_packet (batch_packets batch))))
    \<and> decode_connected_payload inflate frame limits \<noteq> Inr []"
proof (intro conjI impI; (elim conjE)?)
  assume enc: "encode_game_frame (to_raw_packet p) limits = Inr frame" "session_packet_id p \<noteq> BATCH"
  then have "decode_game_frame frame limits = Inr (to_raw_packet p)"
    by (auto simp: encode_game_frame_Inr_iff decode_game_frame_Inr_iff)
  then show "decode_connected_payload inflate frame limits = Inr [p]"
    using enc(2) by (simp add: decode_connected_payload_def to_raw_packet_def from_raw_packet_def RawPacket_new_def)
next
  assume enc: "encode_bootstrap_frame deflate (Batch batch) limits = Inr frame"
  then obtain body where body: "encode_body deflate batch limits = Inr body"
      "encode_game_frame (RawPacket_new BATCH body) limits = Inr frame"
    by (auto simp: encode_bootstrap_frame_def result_simps)
  then have frame: "decode_game_frame frame limits = Inr (RawPacket_new BATCH body)"
    by (auto simp: encode_game_frame_Inr_iff decode_game_frame_Inr_iff)
  moreover have "decode_bootstrap_packet inflate (RawPacket_new BATCH body) limits = Inr (Batch batch)"
    using batch_decodes [OF assms body(1)] by (simp add: decode_bootstrap_packet_def RawPacket_new_def packet_id_defs map_ok_def)
  ultimately show "decode_connected_payload inflate frame limits =
      (if batch_packets batch = [] then Inl EmptyPacket else Inr (map from_raw_packet (batch_packets batch)))"
    by (simp add: decode_connected_payload_def decode_bootstrap_frame_def RawPacket_new_def)
next
  show "decode_connected_payload inflate frame limits \<noteq> Inr []"
    by (auto simp: decode_connected_payload_def result_simps split: if_splits BootstrapPacket.splits)
qed

theorem connected_payload_roundtrip_witness:
  "\<exists>frame. encode_bootstrap_frame stored_deflate (Batch sample_batch) sample_limits = Inr frame
     \<and> decode_connected_payload stored_inflate frame sample_limits = Inr (map from_raw_packet (batch_packets sample_batch))"
proof -
  have "\<exists>frame. encode_bootstrap_frame stored_deflate (Batch sample_batch) sample_limits = Inr frame"
    by (simp add: encode_bootstrap_frame_def sample_batch_encodes)
      (simp add: encode_game_frame_Inr_iff sample_limits_def CodecLimits_new_def packet_bytes_def RawPacket_new_def usize_max_def)
  then obtain frame where "encode_bootstrap_frame stored_deflate (Batch sample_batch) sample_limits = Inr frame" ..
  moreover have "batch_packets sample_batch \<noteq> []" by (simp add: sample_batch_def)
  ultimately show ?thesis
    using connected_payload_roundtrip [OF stored_zlib_law, of sample_limits _ frame sample_batch]
    by (auto simp: sample_limits_def CodecLimits_new_def usize_max_def)
qed

lemma validate_login_accepts:
  assumes "validate_login inflate body limits = Inr u"
  shows "\<exists>login. decode_bootstrap_packet inflate (RawPacket_new LOGIN body) limits = Inr (Login login) \<and> login_ok login"
proof -
  obtain p where p: "decode_bootstrap_packet inflate (RawPacket_new LOGIN body) limits = Inr p"
      "(case p of Login _ \<Rightarrow> Inr () | _ \<Rightarrow> Inl NotLoginPacket) = Inr u"
    using assms by (auto simp: validate_login_def result_simps)
  then obtain login where "p = Login login" by (cases p) auto
  then show ?thesis using p(1) by (auto simp: decode_bootstrap_packet_iff decode_login_iff)
qed

text \<open>
  C10: the join protocol. The owner sees a packet only of a spawned session, and unchanged; it sees a login request only
  for a Login of the supported protocol on a fresh session. While the login is pending, packets are kept in order up to
  the bound of 16; then only a chunk radius request is taken until the session is spawned. A packet that is refused before
  that changes nothing.
\<close>

theorem join_protocol:
  assumes "session_inv st" and "handle_packet inflate p limits st h = (r, st', h')"
  shows "case r of
      Inr (Forward p') \<Rightarrow> p' = p \<and> phase st = Spawned \<and> phase st' = Spawned
    | Inr LoginRequested \<Rightarrow>
        phase st = WaitingLogin \<and> session_packet_id p = LOGIN \<and> st' = st\<lparr>phase := LoginPending\<rparr> \<and> h' = h
        \<and> (\<exists>login. decode_bootstrap_packet inflate (to_raw_packet p) limits = Inr (Login login) \<and> login_ok login)
    | Inr Consumed \<Rightarrow>
        (phase st = LoginPending \<and> length (deferred st) < MAX_DEFERRED_PACKETS
           \<and> st' = st\<lparr>deferred := deferred st @ [p]\<rparr> \<and> h' = h)
        \<or> ((phase st = WaitingChunkRadius \<or> phase st = WaitingInitialChunks)
           \<and> session_packet_id p = REQUEST_CHUNK_RADIUS \<and> phase st' = WaitingInitialChunks)
    | Inl e \<Rightarrow> phase st = Spawned \<or> (st' = st \<and> h' = h)"
proof (cases "phase st")
  case WaitingLogin
  show ?thesis using assms(2) WaitingLogin validate_login_accepts [of inflate "session_packet_body p" limits]
    by (auto simp: handle_packet_def to_raw_packet_def split: if_splits sum.splits)
next
  case Spawned
  show ?thesis
    using assms(2) Spawned handle_move_player_ok [OF assms(1) Spawned, of p h] handle_request_radius_ok [OF assms(1) Spawned, of p h]
    by (auto simp: handle_packet_def split: if_splits sum.splits prod.splits)
qed (use assms(2) in \<open>auto simp: handle_packet_def start_initial_view_def Let_def split: if_splits sum.splits option.splits\<close>)

definition sample_login_packet :: SessionPacket where
  "sample_login_packet = SessionPacket_new LOGIN [0, 0, 0, 84, 0, 0, 0, 12, 0x78, 2, 0, 0, 0, 0x7b, 0x7d, 1, 0, 0, 0, 0x2e]"

lemma sample_login_handled:
  assumes "12 \<le> max_login_compressed_bytes limits" "max_batch_decompressed_bytes limits \<le> usize_max"
  shows "handle_packet stored_inflate sample_login_packet limits (SessionState_new r) h
   = (Inr LoginRequested, (SessionState_new r)\<lparr>phase := LoginPending\<rparr>, h)"
proof -
  let ?raw = "RawPacket_new LOGIN (session_packet_body sample_login_packet)"
  have enc: "encode_bootstrap_packet stored_deflate sample_login limits = Inr ?raw"
    using assms(1) by (simp add: sample_login_def result_simps encode_login_iff sample_login_packet_def SessionPacket_new_def
        LoginPacket_new_def login_ok_def login_inner_def login_outer_def stored_deflate_def
        LOGIN_MAX_DECOMPRESSED_BYTES_def to_be_bytes_def to_le_bytes_def upt_rec GAME_PROTOCOL_def)
  have "wire_form stored_inflate limits sample_login ?raw"
    by (rule encode_bootstrap_wire_form [OF stored_zlib_law assms(2) _ enc]) (simp add: sample_login_def)
  then have "validate_login stored_inflate (session_packet_body sample_login_packet) limits = Inr ()"
    by (simp add: validate_login_def decode_bootstrap_packet_iff [symmetric] sample_login_def)
  then show ?thesis by (simp add: handle_packet_def SessionState_new_def sample_login_packet_def SessionPacket_new_def)
qed

theorem join_protocol_witness:
  "\<exists>login. decode_bootstrap_packet stored_inflate (to_raw_packet sample_login_packet) sample_limits = Inr (Login login)
     \<and> login_ok login"
proof -
  have "session_inv (SessionState_new 1)" by (simp add: session_inv_def SessionState_new_def)
  from join_protocol [OF this sample_login_handled [of sample_limits 1 "\<lambda>_. WorldStore_new"]] show ?thesis
    by (simp add: sample_limits_def CodecLimits_new_def usize_max_def)
qed

end
