(* ===== verification/Host.thy ===== *)
theory Host
  imports Session
begin

text \<open>
  The session host: \<open>native/session/src/host.rs\<close> (the owner's entry points), \<open>host/runner.rs\<close> (accepting
  sessions, inbound packets, the end of a session, shutdown), \<open>server.rs\<close> (session ids), \<open>session.rs\<close> (receiving and
  sending on a connection) and \<open>delivery.rs\<close>.

  A \<open>SessionState\<close> behind its \<open>Arc<Mutex<_>>\<close> is an entry of \<open>session_states\<close>, kept by the task that runs the session;
  a slot of \<open>sessions\<close> is the command queue of a session that the owner can still reach. Each entry point
  takes the locks it needs for its whole duration, so it is one step. The bounded queues of the channel crates and
  the RakNet connection are not in the repository: \<open>host_env\<close> carries them as functions of abstract queue types.
  \<open>channel_law\<close> is what a property may assume of a queue. Texts of disconnect reasons are constructors.
\<close>

section \<open>Types\<close>

datatype SessionDelivery = Unreliable | UnreliableSequenced | Reliable | ReliableOrdered | ReliableSequenced

datatype SessionCommand =
    SendCommand SessionPacket SessionDelivery
  | SendMany "(SessionPacket \<times> SessionDelivery) list"
  | DisconnectCommand

datatype TrySend = SendOk | SendFull | SendClosed

datatype SessionHostError =
    UnknownSession SessionId
  | HostState SessionId StateError
  | CommandBackpressure SessionId
  | CommandClosed SessionId

datatype SessionError = MalformedInput CodecError | OutboundCodec CodecError | TransportLost | IdExhausted

datatype EndReason =
    StateRejected StateError
  | EventBackpressure
  | EventChannelClosed
  | SendFailed SessionError
  | OwnerDisconnect
  | CommandChannelClosed
  | ReceiveFailed SessionError

datatype SessionHostEvent =
    Connected SessionId string
  | LoginRequestedEvent SessionId
  | PacketEvent SessionId SessionPacket
  | Disconnected SessionId EndReason

datatype ChunkWorkCompletion = CompletedSpawned InitialViewResult | Complete | Backpressured | Gone

record ('q, 'e) host_env =
  env_deflate :: deflater
  env_inflate :: inflater
  env_limits :: CodecLimits
  env_max_radius :: i32
  env_channel :: 'q
  env_try_send :: "'q \<Rightarrow> SessionCommand \<Rightarrow> TrySend \<times> 'q"
  env_try_event :: "'e \<Rightarrow> SessionHostEvent \<Rightarrow> TrySend \<times> 'e"

record ('q, 'e) SessionHost =
  sessions :: "(SessionId \<times> 'q) list"
  session_states :: "(SessionId \<times> SessionState) list"
  stores_of :: stores
  next_id :: u64
  events :: 'e

text \<open>What is documented of a bounded queue: an accepted item goes to the end, a refused one changes nothing.\<close>

definition channel_law :: "('q \<Rightarrow> 'c \<Rightarrow> TrySend \<times> 'q) \<Rightarrow> ('q \<Rightarrow> 'c list) \<Rightarrow> bool" where
  "channel_law send contents \<longleftrightarrow>
     (\<forall>q c. case send q c of
        (SendOk, q') \<Rightarrow> contents q' = contents q @ [c]
      | (_, q') \<Rightarrow> q' = q)"

section \<open>Connections\<close>

text \<open>
  \<open>Session::recv\<close>: the packets of a payload are handed out one by one. The argument \<open>arrived\<close> is what
  the connection would deliver next, an error when it is lost.
\<close>

definition Session_recv ::
  "inflater \<Rightarrow> CodecLimits \<Rightarrow> (SessionError + bytes) \<Rightarrow> SessionPacket list \<Rightarrow> (SessionError + SessionPacket) \<times> SessionPacket list" where
  "Session_recv inflate limits arrived queue =
     (case queue of
        p # ps \<Rightarrow> (Inr p, ps)
      | [] \<Rightarrow>
          (case arrived of
             Inl e \<Rightarrow> (Inl e, [])
           | Inr payload \<Rightarrow>
               (case decode_connected_payload inflate payload limits of
                  Inl source \<Rightarrow> (Inl (MalformedInput source), [])
                | Inr [] \<Rightarrow> (Inl (MalformedInput EmptyPacket), [])
                | Inr (p # ps) \<Rightarrow> (Inr p, ps))))"

text \<open>\<open>Session::send\<close>: \<open>transport\<close> tells whether the connection takes the frame.\<close>

definition Session_send ::
  "CodecLimits \<Rightarrow> (bytes \<Rightarrow> SessionDelivery \<Rightarrow> bool) \<Rightarrow> SessionPacket \<Rightarrow> SessionDelivery \<Rightarrow> SessionError + bytes" where
  "Session_send limits transport p d =
     rbind (map_err OutboundCodec (encode_game_frame (to_raw_packet p) limits)) (\<lambda>frame.
     if transport frame d then Inr frame else Inl TransportLost)"

text \<open>\<open>SessionServer::accept\<close>: the identity given to an accepted connection.\<close>

definition accept_id :: "u64 \<Rightarrow> (SessionError + SessionId) \<times> u64" where
  "accept_id next =
     (case SessionId_new next of
        None \<Rightarrow> (Inl IdExhausted, next)
      | Some sid \<Rightarrow> (Inr sid, (case checked_add next 1 of Some n \<Rightarrow> n | None \<Rightarrow> 0)))"

section \<open>Entry points of the owner\<close>

definition host_slot :: "SessionId \<Rightarrow> ('q, 'e) SessionHost \<Rightarrow> SessionHostError + 'q \<times> SessionState" where
  "host_slot sid H =
     (case (hm_get (sessions H) sid, hm_get (session_states H) sid) of
        (Some q, Some st) \<Rightarrow> Inr (q, st)
      | _ \<Rightarrow> Inl (UnknownSession sid))"

definition put_slot :: "SessionId \<Rightarrow> 'q \<Rightarrow> SessionState \<Rightarrow> stores \<Rightarrow> ('q, 'e) SessionHost \<Rightarrow> ('q, 'e) SessionHost" where
  "put_slot sid q st h H =
     H\<lparr>sessions := hm_insert sid q (sessions H), session_states := hm_insert sid st (session_states H), stores_of := h\<rparr>"

definition try_command ::
  "('q, 'e) host_env \<Rightarrow> SessionId \<Rightarrow> SessionCommand \<Rightarrow> ('q, 'e) SessionHost \<Rightarrow> (SessionHostError + unit) \<times> ('q, 'e) SessionHost" where
  "try_command env sid c H =
     (case host_slot sid H of
        Inl e \<Rightarrow> (Inl e, H)
      | Inr (q, st) \<Rightarrow>
          (case env_try_send env q c of
             (SendOk, q) \<Rightarrow> (Inr (), put_slot sid q st (stores_of H) H)
           | (SendFull, q) \<Rightarrow> (Inl (CommandBackpressure sid), put_slot sid q st (stores_of H) H)
           | (SendClosed, q) \<Rightarrow> (Inl (CommandClosed sid), put_slot sid q st (stores_of H) H)))"

definition host_try_send ::
  "('q, 'e) host_env \<Rightarrow> SessionId \<Rightarrow> SessionPacket \<Rightarrow> SessionDelivery \<Rightarrow> ('q, 'e) SessionHost
    \<Rightarrow> (SessionHostError + unit) \<times> ('q, 'e) SessionHost" where
  "host_try_send env sid p d = try_command env sid (SendCommand p d)"

definition try_disconnect ::
  "('q, 'e) host_env \<Rightarrow> SessionId \<Rightarrow> ('q, 'e) SessionHost \<Rightarrow> (SessionHostError + unit) \<times> ('q, 'e) SessionHost" where
  "try_disconnect env sid = try_command env sid DisconnectCommand"

definition send_many :: "SessionPacket list \<Rightarrow> SessionCommand" where
  "send_many ps = SendMany (map (\<lambda>p. (p, ReliableOrdered)) ps)"

definition host_accept_login ::
  "('q, 'e) host_env \<Rightarrow> SessionId \<Rightarrow> SessionWorldBootstrap \<Rightarrow> ('q, 'e) SessionHost
    \<Rightarrow> (SessionHostError + unit) \<times> ('q, 'e) SessionHost" where
  "host_accept_login env sid b H =
     (case host_slot sid H of
        Inl e \<Rightarrow> (Inl e, H)
      | Inr (q, st) \<Rightarrow>
          (case SessionState_accept_login (env_deflate env) b (env_limits env) st of
             (Inl message, st) \<Rightarrow> (Inl (HostState sid message), put_slot sid q st (stores_of H) H)
           | (Inr packets, st) \<Rightarrow>
               (case env_try_send env q (send_many packets) of
                  (SendOk, q) \<Rightarrow> (Inr (), put_slot sid q st (stores_of H) H)
                | (SendFull, q) \<Rightarrow>
                    (Inl (CommandBackpressure sid), put_slot sid q (rollback_login_acceptance st) (stores_of H) H)
                | (SendClosed, q) \<Rightarrow>
                    (Inl (CommandClosed sid), put_slot sid q (rollback_login_acceptance st) (stores_of H) H))))"

fun first_work :: "SessionId option \<Rightarrow> ('q, 'e) SessionHost \<Rightarrow> SessionId list \<Rightarrow> ChunkWork option" where
  "first_work after H [] = None"
| "first_work after H (sid # ids) =
     (if (case after of None \<Rightarrow> False | Some a \<Rightarrow> sid \<le> a) then first_work after H ids
      else case host_slot sid H of
             Inl _ \<Rightarrow> first_work after H ids
           | Inr (_, st) \<Rightarrow>
               (case SessionState_chunk_work sid st of Some work \<Rightarrow> Some work | None \<Rightarrow> first_work after H ids))"

definition next_chunk_work :: "SessionId option \<Rightarrow> ('q, 'e) SessionHost \<Rightarrow> ChunkWork option" where
  "next_chunk_work after H = first_work after H (sort (map fst (sessions H)))"

definition host_chunk_work :: "SessionId \<Rightarrow> ('q, 'e) SessionHost \<Rightarrow> SessionHostError + ChunkWork option" where
  "host_chunk_work sid H = rbind (host_slot sid H) (\<lambda>(_, st). Inr (SessionState_chunk_work sid st))"

definition mark_chunk_prepared ::
  "SessionId \<Rightarrow> nat \<Rightarrow> ChunkCoord \<Rightarrow> ('q, 'e) SessionHost \<Rightarrow> (SessionHostError + unit) \<times> ('q, 'e) SessionHost" where
  "mark_chunk_prepared sid store pos H =
     (case host_slot sid H of
        Inl e \<Rightarrow> (Inl e, H)
      | Inr (q, st) \<Rightarrow>
          (case mark_prepared_chunk store pos st (stores_of H) of
             (r, st, h) \<Rightarrow> (map_err (HostState sid) r, put_slot sid q st h H)))"

definition try_complete_chunk_work ::
  "('q, 'e) host_env \<Rightarrow> SessionId \<Rightarrow> nat \<Rightarrow> RawPacket list \<Rightarrow> ('q, 'e) SessionHost
    \<Rightarrow> (SessionHostError + ChunkWorkCompletion) \<times> ('q, 'e) SessionHost" where
  "try_complete_chunk_work env sid store raw_chunks H =
     (case host_slot sid H of
        Inl e \<Rightarrow> (Inl e, H)
      | Inr (q, st) \<Rightarrow>
          (case completion_plan (env_deflate env) store raw_chunks (env_limits env) st of
             Inl message \<Rightarrow> (Inl (HostState sid message), H)
           | Inr plan \<Rightarrow>
               (case env_try_send env q (send_many (plan_packets plan)) of
                  (SendOk, q) \<Rightarrow>
                    (case commit_pending st (stores_of H) of
                       (Inl message, st, h) \<Rightarrow> (Inl (HostState sid message), put_slot sid q st h H)
                     | (Inr _, st, h) \<Rightarrow>
                         (Inr (case plan_initial plan of Some result \<Rightarrow> CompletedSpawned result | None \<Rightarrow> Complete),
                          put_slot sid q st h H))
                | (SendFull, q) \<Rightarrow> (Inr Backpressured, put_slot sid q st (stores_of H) H)
                | (SendClosed, q) \<Rightarrow> (Inr Gone, put_slot sid q st (stores_of H) H))))"

definition world_view_snapshots :: "nat \<Rightarrow> ('q, 'e) SessionHost \<Rightarrow> WorldViewSnapshot list" where
  "world_view_snapshots store H =
     List.map_filter (\<lambda>(sid, _).
       case host_slot sid H of
         Inl _ \<Rightarrow> None
       | Inr (_, st) \<Rightarrow>
           (case view_snapshot sid st of
              None \<Rightarrow> None
            | Some snap \<Rightarrow> if snap_store snap = store then Some snap else None)) (sessions H)"

definition host_update_view_cursor ::
  "SessionId \<Rightarrow> nat \<Rightarrow> u64 \<Rightarrow> ('q, 'e) SessionHost \<Rightarrow> bool \<times> ('q, 'e) SessionHost" where
  "host_update_view_cursor sid store cursor H =
     (case host_slot sid H of
        Inl _ \<Rightarrow> (False, H)
      | Inr (q, st) \<Rightarrow>
          (case SessionState_update_view_cursor store cursor st of (r, st) \<Rightarrow> (r, put_slot sid q st (stores_of H) H)))"

section \<open>The host thread\<close>

text \<open>The accept arm of \<open>run_host\<close>: the new session is published only when the owner was told about it.\<close>

definition accept_session ::
  "('q, 'e) host_env \<Rightarrow> string \<Rightarrow> ('q, 'e) SessionHost \<Rightarrow> (SessionError + bool) \<times> ('q, 'e) SessionHost" where
  "accept_session env peer H =
     (case accept_id (next_id H) of
        (Inl e, n) \<Rightarrow> (Inl e, H\<lparr>next_id := n\<rparr>)
      | (Inr sid, n) \<Rightarrow>
          (case env_try_event env (events H) (Connected sid peer) of
             (SendOk, ev) \<Rightarrow>
               (Inr True,
                H\<lparr>next_id := n, events := ev, sessions := hm_insert sid (env_channel env) (sessions H),
                  session_states := hm_insert sid (SessionState_new (env_max_radius env)) (session_states H)\<rparr>)
           | (_, ev) \<Rightarrow> (Inr False, H\<lparr>next_id := n, events := ev\<rparr>)))"

definition put_state :: "SessionId \<Rightarrow> SessionState \<Rightarrow> stores \<Rightarrow> ('q, 'e) SessionHost \<Rightarrow> ('q, 'e) SessionHost" where
  "put_state sid st h H = H\<lparr>session_states := hm_insert sid st (session_states H), stores_of := h\<rparr>"

definition inbound_event :: "SessionId \<Rightarrow> InboundAction \<Rightarrow> SessionHostEvent option" where
  "inbound_event sid a =
     (case a of LoginRequested \<Rightarrow> Some (LoginRequestedEvent sid) | Forward p \<Rightarrow> Some (PacketEvent sid p) | Consumed \<Rightarrow> None)"

definition process_inbound ::
  "('q, 'e) host_env \<Rightarrow> SessionId \<Rightarrow> SessionPacket \<Rightarrow> SessionState \<Rightarrow> ('q, 'e) SessionHost
    \<Rightarrow> (EndReason + unit) \<times> ('q, 'e) SessionHost" where
  "process_inbound env sid p st H =
     (case handle_packet (env_inflate env) p (env_limits env) st (stores_of H) of
        (Inl e, st, h) \<Rightarrow> (Inl (StateRejected e), put_state sid st h H)
      | (Inr action, st, h) \<Rightarrow>
          let H = put_state sid st h H
          in case inbound_event sid action of
               None \<Rightarrow> (Inr (), H)
             | Some event \<Rightarrow>
                 (case env_try_event env (events H) event of
                    (SendOk, ev) \<Rightarrow> (Inr (), H\<lparr>events := ev\<rparr>)
                  | (SendFull, ev) \<Rightarrow> (Inl EventBackpressure, H\<lparr>events := ev\<rparr>)
                  | (SendClosed, ev) \<Rightarrow> (Inl EventChannelClosed, H\<lparr>events := ev\<rparr>)))"

text \<open>The tail of \<open>run_session\<close>: unpublish, drop the state with its pins, then tell the owner.\<close>

definition end_session :: "('q, 'e) host_env \<Rightarrow> SessionId \<Rightarrow> EndReason \<Rightarrow> ('q, 'e) SessionHost \<Rightarrow> ('q, 'e) SessionHost" where
  "end_session env sid reason H =
     (let H = H\<lparr>sessions := hm_remove sid (sessions H)\<rparr>;
          H = (case hm_get (session_states H) sid of
                 None \<Rightarrow> H
               | Some st \<Rightarrow> H\<lparr>session_states := hm_remove sid (session_states H), stores_of := SessionState_drop st (stores_of H)\<rparr>)
      in H\<lparr>events := snd (env_try_event env (events H) (Disconnected sid reason))\<rparr>)"

text \<open>One inbound packet of the loop in \<open>run_session\<close>, deferred or received; an error ends the session.\<close>

definition inbound_turn :: "('q, 'e) host_env \<Rightarrow> SessionId \<Rightarrow> SessionPacket \<Rightarrow> ('q, 'e) SessionHost \<Rightarrow> ('q, 'e) SessionHost" where
  "inbound_turn env sid p H =
     (case hm_get (session_states H) sid of
        None \<Rightarrow> H
      | Some st \<Rightarrow>
          (case process_inbound env sid p st H of
             (Inr _, H) \<Rightarrow> H
           | (Inl reason, H) \<Rightarrow> end_session env sid reason H))"

definition deferred_turn :: "('q, 'e) host_env \<Rightarrow> SessionId \<Rightarrow> ('q, 'e) SessionHost \<Rightarrow> ('q, 'e) SessionHost" where
  "deferred_turn env sid H =
     (case hm_get (session_states H) sid of
        None \<Rightarrow> H
      | Some st \<Rightarrow>
          (case take_deferred st of
             (None, st) \<Rightarrow> put_state sid st (stores_of H) H
           | (Some p, st) \<Rightarrow> inbound_turn env sid p (put_state sid st (stores_of H) H)))"

text \<open>The end of the loop of \<open>run_host\<close>: every session is unpublished at once, the tasks end later.\<close>

definition unpublish_all :: "('q, 'e) SessionHost \<Rightarrow> ('q, 'e) SessionHost" where
  "unpublish_all H = H\<lparr>sessions := []\<rparr>"

text \<open>The command arm of \<open>run_session\<close>: what is sent, and whether the session goes on.\<close>

fun send_all ::
  "CodecLimits \<Rightarrow> (bytes \<Rightarrow> SessionDelivery \<Rightarrow> bool) \<Rightarrow> (SessionPacket \<times> SessionDelivery) list
    \<Rightarrow> (EndReason + unit) \<times> bytes list" where
  "send_all limits transport [] = (Inr (), [])"
| "send_all limits transport ((p, d) # ps) =
     (case Session_send limits transport p d of
        Inl e \<Rightarrow> (Inl (SendFailed e), [])
      | Inr frame \<Rightarrow> (case send_all limits transport ps of (r, frames) \<Rightarrow> (r, frame # frames)))"

fun run_command ::
  "CodecLimits \<Rightarrow> (bytes \<Rightarrow> SessionDelivery \<Rightarrow> bool) \<Rightarrow> SessionCommand option \<Rightarrow> (EndReason + unit) \<times> bytes list" where
  "run_command limits transport (Some (SendCommand p d)) = send_all limits transport [(p, d)]"
| "run_command limits transport (Some (SendMany ps)) = send_all limits transport ps"
| "run_command limits transport (Some DisconnectCommand) = (Inl OwnerDisconnect, [])"
| "run_command limits transport None = (Inl CommandChannelClosed, [])"

section \<open>Steps and invariant\<close>

text \<open>
  \<open>others\<close> counts the pins that are not the sessions': those taken through the world API. Such a pin is released
  only by its holder, and the remaining store operations leave pins alone (\<open>world_step_pins\<close>; the exception is
  \<open>import_chunk\<close>, which no caller uses on a live store).
\<close>

type_synonym pin_book = "nat \<Rightarrow> ChunkCoord \<Rightarrow> nat"

inductive host_step ::
  "('q, 'e) host_env \<Rightarrow> ('q, 'e) SessionHost \<times> pin_book \<Rightarrow> ('q, 'e) SessionHost \<times> pin_book \<Rightarrow> bool"
  for env :: "('q, 'e) host_env" where
  hs_command: "host_step env (H, b) (snd (try_command env sid c H), b)"
| hs_login: "host_step env (H, b) (snd (host_accept_login env sid boot H), b)"
| hs_mark: "host_step env (H, b) (snd (mark_chunk_prepared sid i pos H), b)"
| hs_complete: "host_step env (H, b) (snd (try_complete_chunk_work env sid i raw H), b)"
| hs_cursor: "host_step env (H, b) (snd (host_update_view_cursor sid i cur H), b)"
| hs_accept: "host_step env (H, b) (snd (accept_session env peer H), b)"
| hs_inbound: "host_step env (H, b) (inbound_turn env sid p H, b)"
| hs_deferred: "host_step env (H, b) (deferred_turn env sid H, b)"
| hs_end: "host_step env (H, b) (end_session env sid reason H, b)"
| hs_shutdown: "host_step env (H, b) (unpublish_all H, b)"
| hs_world: "world_step (stores_of H i) s \<Longrightarrow> store_pins s = store_pins (stores_of H i)
    \<Longrightarrow> host_step env (H, b) (H\<lparr>stores_of := (stores_of H)(i := s)\<rparr>, b)"
| hs_pin: "pin_chunk pos (stores_of H i) = (Inr n, s)
    \<Longrightarrow> host_step env (H, b) (H\<lparr>stores_of := (stores_of H)(i := s)\<rparr>, b(i := (b i)(pos := b i pos + 1)))"
| hs_unpin: "0 < b i pos
    \<Longrightarrow> host_step env (H, b) (H\<lparr>stores_of := (stores_of H)(i := snd (unpin_chunk pos (stores_of H i)))\<rparr>,
          b(i := (b i)(pos := b i pos - 1)))"

definition total_held :: "(SessionId \<times> SessionState) list \<Rightarrow> nat \<Rightarrow> ChunkCoord \<Rightarrow> nat" where
  "total_held sts i pos = sum_list (map (\<lambda>(_, st). held st i pos) sts)"

definition pins_exact :: "('q, 'e) SessionHost \<Rightarrow> pin_book \<Rightarrow> bool" where
  "pins_exact H b \<longleftrightarrow> (\<forall>i pos. store_pins (stores_of H i) pos = b i pos + total_held (session_states H) i pos)"

definition host_inv :: "('q, 'e) host_env \<Rightarrow> ('q, 'e) SessionHost \<times> pin_book \<Rightarrow> bool" where
  "host_inv env HB \<longleftrightarrow>
     (case HB of (H, b) \<Rightarrow>
        hm_wf (sessions H) \<and> hm_wf (session_states H)
        \<and> (\<forall>sid. hm_get (sessions H) sid \<noteq> None \<longrightarrow> hm_get (session_states H) sid \<noteq> None)
        \<and> (\<forall>sid st. hm_get (session_states H) sid = Some st \<longrightarrow> session_inv st
             \<and> sid \<noteq> 0 \<and> (next_id H = 0 \<or> sid < next_id H))
        \<and> (\<forall>i. world_inv (stores_of H i)) \<and> pins_exact H b)"

lemma total_held_insert:
  assumes "hm_get sts sid = Some st"
  shows "total_held (hm_insert sid st' sts) i pos + held st i pos = total_held sts i pos + held st' i pos"
  using assms by (induction sts) (auto simp: total_held_def split: if_splits)

lemma total_held_fresh:
  "hm_get sts sid = None \<Longrightarrow> total_held (hm_insert sid st sts) i pos = total_held sts i pos + held st i pos"
  by (induction sts) (auto simp: total_held_def split: if_splits)

lemma total_held_remove:
  assumes "hm_wf sts" "hm_get sts sid = Some st"
  shows "total_held (hm_remove sid sts) i pos + held st i pos = total_held sts i pos"
  using assms
proof (induction sts)
  case (Cons x sts)
  show ?case
  proof (cases "fst x = sid")
    case True
    then have "hm_remove sid sts = sts"
      using Cons.prems(1) by (auto simp: hm_wf_def intro!: delete_idem split: prod.splits)
    then show ?thesis using True Cons.prems by (cases x) (auto simp: total_held_def)
  next
    case False
    then show ?thesis using Cons by (cases x) (auto simp: total_held_def hm_wf_def)
  qed
qed simp

lemma held_le_total: "hm_get sts sid = Some st \<Longrightarrow> held st i pos \<le> total_held sts i pos"
  by (induction sts) (auto simp: total_held_def split: if_splits intro: trans_le_add2)

lemma host_invD:
  assumes "host_inv env (H, b)"
  shows "hm_wf (sessions H)" "hm_wf (session_states H)" "world_inv (stores_of H i)" "pins_exact H b"
    and "hm_get (session_states H) sid = Some st \<Longrightarrow> session_inv st"
    and "hm_get (session_states H) sid = Some st \<Longrightarrow> sid \<noteq> 0 \<and> (next_id H = 0 \<or> sid < next_id H)"
    and "hm_get (sessions H) sid = Some q \<Longrightarrow> \<exists>st. hm_get (session_states H) sid = Some st"
  using assms by (auto simp: host_inv_def)

lemma host_inv_put_state:
  assumes inv: "host_inv env (H, b)" and st: "hm_get (session_states H) sid = Some st"
    and ok: "session_step_ok st (stores_of H) st' h'"
  shows "host_inv env (put_state sid st' h' H, b)"
proof -
  note I = host_invD [OF inv]
  have ok': "session_inv st'" "conserves st (stores_of H) st' h'" "same_worlds (stores_of H) h'"
    using ok by (auto simp: session_step_ok_def)
  have "pins_exact (put_state sid st' h' H) b"
    unfolding pins_exact_def
  proof (intro allI)
    fix i pos
    have led: "store_pins (stores_of H i) pos = b i pos + total_held (session_states H) i pos"
      using I(4) by (simp add: pins_exact_def)
    have "held st i pos \<le> store_pins (stores_of H i) pos" using held_le_total [OF st, of i pos] led by simp
    then have "store_pins (h' i) pos + held st i pos = store_pins (stores_of H i) pos + held st' i pos"
      using ok'(2) by (simp add: conserves_def)
    then show "store_pins (stores_of (put_state sid st' h' H) i) pos
        = b i pos + total_held (session_states (put_state sid st' h' H)) i pos"
      using led total_held_insert [OF st, of st' i pos] by (simp add: put_state_def)
  qed
  moreover have "world_inv (h' i)" for i
    using I(3) [of i] ok'(3) by (auto simp: same_worlds_def same_world_def)
  ultimately show ?thesis
    using I ok'(1) st by (auto simp: host_inv_def put_state_def hm.wf_put hm.get_put)
qed

lemma put_slot_eq: "put_slot sid q st h H = put_state sid st h H\<lparr>sessions := hm_insert sid q (sessions H)\<rparr>"
  by (simp add: put_slot_def put_state_def)

lemma host_inv_put_slot:
  assumes inv: "host_inv env (H, b)" and slot: "host_slot sid H = Inr (q0, st)"
    and ok: "session_step_ok st (stores_of H) st' h'"
  shows "host_inv env (put_slot sid q st' h' H, b)"
proof -
  have st: "hm_get (session_states H) sid = Some st" using slot by (auto simp: host_slot_def split: option.splits)
  from host_inv_put_state [OF inv st ok] show ?thesis
    by (auto simp: put_slot_eq host_inv_def put_state_def hm.wf_put update_conv' pins_exact_def)
qed

lemma slot_inv: "host_inv env (H, b) \<Longrightarrow> host_slot sid H = Inr (q, st) \<Longrightarrow> session_inv st"
  by (auto simp: host_slot_def dest: host_invD(5) split: option.splits)

lemma step_ok_refl: "session_inv st \<Longrightarrow> session_step_ok st h st h"
  by (rule step_ok_pure) simp_all

lemma session_step_okD: "session_step_ok st h st' h' \<Longrightarrow> session_inv st'"
  by (simp add: session_step_ok_def)

lemma try_command_inv:
  assumes "host_inv env (H, b)"
  shows "host_inv env (snd (try_command env sid c H), b)"
  using assms host_inv_put_slot [OF assms] slot_inv [OF assms]
  by (auto simp: try_command_def step_ok_refl split: sum.splits prod.splits TrySend.splits)

lemma mark_chunk_prepared_inv:
  assumes "host_inv env (H, b)"
  shows "host_inv env (snd (mark_chunk_prepared sid i pos H), b)"
  using assms host_inv_put_slot [OF assms] slot_inv [OF assms] mark_prepared_chunk_ok
  by (fastforce simp: mark_chunk_prepared_def split: sum.splits prod.splits)

lemma update_view_cursor_inv:
  assumes "host_inv env (H, b)"
  shows "host_inv env (snd (host_update_view_cursor sid i cur H), b)"
  using assms host_inv_put_slot [OF assms] slot_inv [OF assms] update_cursor_ok
  by (fastforce simp: host_update_view_cursor_def split: sum.splits prod.splits)

lemma rollback_after_accept:
  assumes inv: "session_inv st" and acc: "SessionState_accept_login deflate b limits st = (Inr ps, st')"
  shows "rollback_login_acceptance st' = st"
proof -
  have "phase st = LoginPending" "st' = st\<lparr>position := Some (boot_position b),
      player_chunk := Some (position_chunk (boot_position b)), phase := WaitingChunkRadius\<rparr>"
    using acc by (auto simp: SessionState_accept_login_def split: if_splits sum.splits)
  moreover from this have "position st = None" "player_chunk st = None" "pending st = None" "view st = None"
    using inv by (auto simp: session_inv_def)
  ultimately show ?thesis by (simp add: rollback_login_acceptance_def)
qed

lemma host_accept_login_inv:
  assumes inv: "host_inv env (H, b)"
  shows "host_inv env (snd (host_accept_login env sid boot H), b)"
proof (cases "host_slot sid H")
  case (Inl e)
  then show ?thesis using inv by (simp add: host_accept_login_def)
next
  case (Inr slot)
  obtain q st where slot: "host_slot sid H = Inr (q, st)" using Inr by (cases slot) auto
  note st = slot_inv [OF inv slot]
  obtain r st' where acc: "SessionState_accept_login (env_deflate env) boot (env_limits env) st = (r, st')"
    by (cases "SessionState_accept_login (env_deflate env) boot (env_limits env) st")
  note put = host_inv_put_slot [OF inv slot]
  have "host_inv env (put_slot sid q' st' (stores_of H) H, b)" for q'
    by (rule put [OF accept_login_ok [OF st acc]])
  moreover have "host_inv env (put_slot sid q' st (stores_of H) H, b)" for q' by (rule put [OF step_ok_refl [OF st]])
  ultimately show ?thesis
    using rollback_after_accept [OF st] acc
    by (auto simp: host_accept_login_def slot split: sum.splits prod.splits TrySend.splits)
qed

lemma completion_plan_complete:
  assumes "completion_plan deflate store raw limits st = Inr plan"
  obtains w where "pending st = Some w" "is_complete (prepared w) (prepare_positions w)"
    "plan_packets_for deflate raw limits w = Inr plan" "length raw = length (send_positions w)"
    "matches_store (prepared w) store"
  using assms by (auto simp: completion_plan_def split: option.splits if_splits)

lemma try_complete_inv:
  assumes inv: "host_inv env (H, b)"
  shows "host_inv env (snd (try_complete_chunk_work env sid i raw H), b)"
proof (cases "host_slot sid H")
  case (Inl e)
  then show ?thesis using inv by (simp add: try_complete_chunk_work_def)
next
  case (Inr slot)
  obtain q st where slot: "host_slot sid H = Inr (q, st)" using Inr by (cases slot) auto
  note st = slot_inv [OF inv slot]
  note put = host_inv_put_slot [OF inv slot]
  show ?thesis
  proof (cases "completion_plan (env_deflate env) i raw (env_limits env) st")
    case (Inl e)
    then show ?thesis using inv by (simp add: try_complete_chunk_work_def slot)
  next
    case (Inr plan)
    from completion_plan_complete [OF Inr] obtain w where
      w: "pending st = Some w" "is_complete (prepared w) (prepare_positions w)" by blast
    obtain r st' h' where commit: "commit_pending st (stores_of H) = (r, st', h')" by (metis prod_cases3)
    have "session_step_ok st (stores_of H) st' h'" using commit_pending_ok [OF st w commit] by simp
    then show ?thesis using Inr commit put step_ok_refl [OF st]
      by (auto simp: try_complete_chunk_work_def slot split: sum.splits prod.splits TrySend.splits)
  qed
qed

lemma session_inv_new: "0 < sint r \<Longrightarrow> session_inv (SessionState_new r)"
  by (simp add: session_inv_def SessionState_new_def)

lemma held_new: "held (SessionState_new r) i pos = 0"
  by (simp add: held_def SessionState_new_def)

lemma accept_id_cases:
  assumes "accept_id n = (r, n')"
  shows "(r = Inl IdExhausted \<and> n = 0 \<and> n' = 0) \<or> (r = Inr n \<and> n \<noteq> 0 \<and> (n' = 0 \<or> n < n'))"
proof (cases "n = 0")
  case True
  then show ?thesis using assms by (auto simp: accept_id_def SessionId_new_def)
next
  case False
  have "n < n + 1" if "unat n + 1 < 2 ^ 64"
    using that by (simp add: word_less_nat_alt unat_word_ariths)
  then show ?thesis using assms False
    by (auto simp: accept_id_def SessionId_new_def checked_add_def split: if_splits)
qed

lemma host_inv_events [simp]: "host_inv env (H\<lparr>events := ev\<rparr>, b) = host_inv env (H, b)"
  by (simp add: host_inv_def pins_exact_def)

lemma accept_session_inv:
  assumes inv: "host_inv env (H, b)" and radius: "0 < sint (env_max_radius env)"
  shows "host_inv env (snd (accept_session env peer H), b)"
proof -
  obtain r n' where acc: "accept_id (next_id H) = (r, n')" by (cases "accept_id (next_id H)")
  note I = host_invD [OF inv]
  consider "r = Inl IdExhausted" "next_id H = 0" "n' = 0"
    | "r = Inr (next_id H)" "next_id H \<noteq> 0" "n' = 0 \<or> next_id H < n'"
    using accept_id_cases [OF acc] by blast
  then show ?thesis
  proof cases
    case 1
    then show ?thesis using inv acc by (simp add: accept_session_def host_inv_def pins_exact_def)
  next
    case 2
    have fresh: "hm_get (session_states H) (next_id H) = None"
      using I(6) [of "next_id H"] 2(2) by (cases "hm_get (session_states H) (next_id H)") auto
    have older: "sid \<noteq> 0 \<and> (n' = 0 \<or> sid < n')" if "hm_get (session_states H) sid = Some st" for sid st
      using I(6) [OF that] 2(2,3) by auto
    have base: "host_inv env (H\<lparr>next_id := n'\<rparr>, b)"
      using inv older by (auto simp: host_inv_def pins_exact_def)
    have "host_inv env (H\<lparr>next_id := n', events := ev, sessions := hm_insert (next_id H) q (sessions H),
        session_states := hm_insert (next_id H) (SessionState_new (env_max_radius env)) (session_states H)\<rparr>, b)" for q ev
      using base 2 fresh I(1,2)
      by (auto simp: host_inv_def pins_exact_def hm.wf_put hm.get_put total_held_fresh held_new session_inv_new radius)
    then show ?thesis using base 2(1) acc
      by (auto simp: accept_session_def split: prod.splits TrySend.splits)
  qed
qed

lemma end_session_inv:
  assumes inv: "host_inv env (H, b)"
  shows "host_inv env (end_session env sid reason H, b)"
proof -
  note I = host_invD [OF inv]
  have unpub: "host_inv env (H\<lparr>sessions := hm_remove sid (sessions H)\<rparr>, b)"
    using inv by (auto simp: host_inv_def pins_exact_def hm.wf_del delete_conv' split: if_splits)
  show ?thesis
  proof (cases "hm_get (session_states H) sid")
    case None
    then show ?thesis using unpub by (simp add: end_session_def Let_def)
  next
    case (Some st)
    have "store_pins (SessionState_drop st (stores_of H) i) pos = b i pos + total_held (hm_remove sid (session_states H)) i pos"
      for i pos
      using drop_releases [OF I(5) [OF Some], of "stores_of H" i pos] I(4) total_held_remove [OF I(2) Some, of i pos]
      by (simp add: pins_exact_def)
    moreover have "world_inv (SessionState_drop st (stores_of H) i)" for i
      using drops_same_worlds(5) [of "stores_of H" st] I(3) [of i] by (auto simp: same_worlds_def same_world_def)
    ultimately show ?thesis using unpub I(1,2) Some
      by (auto simp: end_session_def Let_def host_inv_def pins_exact_def hm.wf_del delete_conv' split: if_splits)
  qed
qed

lemma process_inbound_inv:
  assumes inv: "host_inv env (H, b)" and st: "hm_get (session_states H) sid = Some st"
  shows "host_inv env (snd (process_inbound env sid p st H), b)"
proof -
  obtain r st' h' where run: "handle_packet (env_inflate env) p (env_limits env) st (stores_of H) = (r, st', h')"
    by (metis prod_cases3)
  have "host_inv env (put_state sid st' h' H, b)"
    by (rule host_inv_put_state [OF inv st handle_packet_ok [OF host_invD(5) [OF inv st] run]])
  then show ?thesis using run
    by (auto simp: process_inbound_def Let_def split: sum.splits option.splits prod.splits TrySend.splits)
qed

lemma inbound_turn_inv:
  assumes inv: "host_inv env (H, b)"
  shows "host_inv env (inbound_turn env sid p H, b)"
proof (cases "hm_get (session_states H) sid")
  case None
  then show ?thesis using inv by (simp add: inbound_turn_def)
next
  case (Some st)
  obtain r H' where run: "process_inbound env sid p st H = (r, H')" by (cases "process_inbound env sid p st H")
  have "host_inv env (H', b)" using process_inbound_inv [OF inv Some, of p] run by simp
  then show ?thesis using Some run end_session_inv by (cases r) (auto simp: inbound_turn_def)
qed

lemma deferred_turn_inv:
  assumes inv: "host_inv env (H, b)"
  shows "host_inv env (deferred_turn env sid H, b)"
proof (cases "hm_get (session_states H) sid")
  case None
  then show ?thesis using inv by (simp add: deferred_turn_def)
next
  case (Some st)
  obtain r st' where run: "take_deferred st = (r, st')" by (cases "take_deferred st")
  have "host_inv env (put_state sid st' (stores_of H) H, b)"
    by (rule host_inv_put_state [OF inv Some take_deferred_ok [OF host_invD(5) [OF inv Some] run]])
  then show ?thesis using run Some inbound_turn_inv by (auto simp: deferred_turn_def split: option.splits)
qed

subsection \<open>Store operations and pins\<close>

definition pins_kept :: "'a world_op \<Rightarrow> bool" where
  "pins_kept op \<longleftrightarrow> (\<forall>s. world_inv s \<longrightarrow> store_pins (snd (op s)) = store_pins s)"

lemma pins_keptD: "pins_kept op \<Longrightarrow> world_inv s \<Longrightarrow> store_pins (snd (op s)) = store_pins s"
  by (simp add: pins_kept_def)

lemma pins_kept_lift: "pins_kept (op_lift r)"
  by (simp add: pins_kept_def)

lemma pins_kept_lift_bind: "(\<And>x. pins_kept (f x)) \<Longrightarrow> pins_kept (op_bind (op_lift r) f)"
  by (auto simp: pins_kept_def split: sum.splits)

lemma pins_kept_with_chunk: "pins_kept (with_chunk pos f)"
  by (simp add: pins_kept_def with_chunk_alt)

lemma pins_kept_mut:
  assumes "\<And>c x c'. f c = Inr (x, c') \<Longrightarrow> pin_count c' = pin_count c"
  shows "pins_kept (with_chunk_mut pos f)"
  using assms by (auto simp: pins_kept_def with_chunk_mut_alt store_pins_unchanged split: option.splits sum.splits)

lemma pins_kept_bind:
  assumes "pins_kept m" "keeps world_inv m" "\<And>x. pins_kept (f x)"
  shows "pins_kept (op_bind m f)"
  unfolding pins_kept_def
proof (intro allI impI)
  fix s
  assume "world_inv s"
  then show "store_pins (snd (op_bind m f s)) = store_pins s"
    using pins_keptD [OF assms(1), of s] keepsD [OF assms(2), of s] pins_keptD [OF assms(3)]
    by (cases "m s"; cases "fst (m s)") auto
qed

lemmas pins_kept_intros = pins_kept_lift pins_kept_lift_bind pins_kept_with_chunk pins_kept_mut

lemma pins_kept_writes:
  "pins_kept (set_block_state p x y z v)" "pins_kept (fill_layers p y n v)" "pins_kept (set_biome_word p x z w)"
  "pins_kept (fill_biome p b)" "pins_kept (set_sky_light p x y z l)" "pins_kept (fill_sky_light_from p y l)"
  "pins_kept (set_block_light p x y z l)" "pins_kept (recalculate_height_map p)"
  "pins_kept (set_block_extra_data p x y z e)" "pins_kept (set_lifecycle_flags p f)"
  unfolding set_block_state_def fill_layers_def set_biome_word_def fill_biome_def set_sky_light_def Let_def
    fill_sky_light_from_def set_block_light_def recalculate_height_map_def set_block_extra_data_def set_lifecycle_flags_def
  by ((intro pins_kept_intros, auto simp: map_data_def Let_def))+

lemma pins_kept_commits:
  "pins_kept (commit_terrain_revision p r r')" "pins_kept (commit_light_revision p r r')" "pins_kept (mark_persisted p tr lr f)"
  unfolding commit_terrain_revision_def commit_light_revision_def mark_persisted_def
  by ((intro pins_kept_intros, auto simp: result_simps split: if_splits))+

lemma biome_word_pins: "pins_kept (biome_word p x z)"
  unfolding biome_word_def by (intro pins_kept_intros)

lemma pins_kept_biomes: "pins_kept (set_biome p x z v)" "pins_kept (set_biome_color p x z col)"
  unfolding set_biome_def set_biome_color_def
  by (intro pins_kept_lift_bind pins_kept_bind [OF biome_word_pins biome_word_keeps]
      pins_kept_bind [OF pins_kept_writes(3) set_biome_word_inv] pins_kept_lift)+

lemma pins_kept_patch: "pins_kept (apply_patch p pa)"
proof -
  have logged: "pins_kept (record_change p k)" for k
    by (auto simp: pins_kept_def record_change_def Let_def store_pins_def split: option.splits)
  have chunk: "pins_kept (with_chunk_mut p (patch_chunk pa))"
    by (rule pins_kept_mut) (auto simp: patch_chunk_Inr_iff)
  show ?thesis
  proof (cases "validate_patch pa")
    case (Inl e)
    then show ?thesis by (simp add: apply_patch_def pins_kept_def)
  next
    case (Inr u)
    have "keeps world_inv (with_chunk_mut p (patch_chunk pa))"
      using Inr by (intro keeps_mut_inv) (auto intro: patch_chunk_ok)
    then show ?thesis unfolding apply_patch_def
      using logged chunk by (intro pins_kept_lift_bind pins_kept_bind) (auto split: option.splits intro: pins_kept_lift)
  qed
qed

lemma pins_kept_residency:
  "pins_kept (ensure_chunk p v)" "pins_kept (import_chunk_if_absent p imp)" "pins_kept (install_generated_chunk p imp)"
proof -
  have fresh: "(store_pins s)(p := 0) = store_pins s" if "ws_chunk s p = None" for s
    using that by (auto simp: store_pins_def)
  have over: "pin_count (snd (install_over imp c)) = pin_count c" for c
    by (auto simp: install_over_def Let_def split: sum.splits)
  show "pins_kept (ensure_chunk p v)"
    by (auto simp: pins_kept_def ensure_chunk_alt fresh ChunkRecord_empty_def split: option.splits)
  show "pins_kept (import_chunk_if_absent p imp)"
    by (auto simp: pins_kept_def import_if_absent_alt fresh ChunkRecord_from_import_def split: sum.splits)
  show "pins_kept (install_generated_chunk p imp)"
    by (auto simp: pins_kept_def install_generated_alt fresh over store_pins_unchanged generated_record_def
        split: sum.splits option.splits)
qed

lemma evict_pins: "pins_kept (try_evict_chunk p)"
  unfolding pins_kept_def
proof (intro allI impI)
  fix s
  assume inv: "world_inv s"
  obtain r s' where ev: "try_evict_chunk p s = (r, s')" by (cases "try_evict_chunk p s")
  show "store_pins (snd (try_evict_chunk p s)) = store_pins s"
  proof (cases "s' = s")
    case False
    then obtain c where c: "ws_chunk s p = Some c" "pin_count c = 0" "r = Inr Evicted"
      using try_evict_alt [OF inv, of p] unfolding ev by (auto split: option.splits if_splits)
    then show ?thesis using ws_evict_spec(1) [OF inv c(1)] ev by (auto simp: store_pins_def fun_eq_iff)
  qed (simp add: ev)
qed

text \<open>Which store operations change pins: \<open>pin_chunk\<close>, \<open>unpin_chunk\<close> and the replacing \<open>import_chunk\<close> only.\<close>

lemma world_step_pins:
  assumes "world_inv s" and "world_step s t"
  shows "store_pins t = store_pins s \<or> (\<exists>p. t = snd (pin_chunk p s)) \<or> (\<exists>p. t = snd (unpin_chunk p s))
    \<or> (\<exists>p imp. t = snd (import_chunk p imp s))"
  using assms(2)
proof cases
  case (ws_prune q)
  have "store_pins t = store_pins s" by (rule ext) (simp add: ws_prune prune_changes_through_def store_pins_def)
  then show ?thesis ..
qed (use pins_kept_writes [THEN pins_keptD, OF assms(1)] pins_kept_commits [THEN pins_keptD, OF assms(1)]
      pins_kept_biomes [THEN pins_keptD, OF assms(1)] pins_kept_patch [THEN pins_keptD, OF assms(1)]
      pins_kept_residency [THEN pins_keptD, OF assms(1)] evict_pins [THEN pins_keptD, OF assms(1)] in auto)

lemma host_inv_stores:
  assumes inv: "host_inv env (H, b)" and s: "world_inv s"
    and pins: "\<And>pos. store_pins s pos + b i pos = store_pins (stores_of H i) pos + b' i pos"
    and same: "\<And>j. j \<noteq> i \<Longrightarrow> b' j = b j"
  shows "host_inv env (H\<lparr>stores_of := (stores_of H)(i := s)\<rparr>, b')"
proof -
  have "store_pins s pos = b' i pos + total_held (session_states H) i pos" for pos
    using pins [of pos] host_invD(4) [OF inv] by (simp add: pins_exact_def)
  then show ?thesis using inv s same by (auto simp: host_inv_def pins_exact_def)
qed

definition host_live :: "('q, 'e) SessionHost \<times> pin_book \<Rightarrow> SessionId \<Rightarrow> bool" where
  "host_live HB sid \<longleftrightarrow> hm_get (session_states (fst HB)) sid \<noteq> None"

definition host_spent :: "('q, 'e) SessionHost \<times> pin_book \<Rightarrow> SessionId \<Rightarrow> bool" where
  "host_spent HB sid \<longleftrightarrow> \<not> host_live HB sid \<and> (next_id (fst HB) = 0 \<or> sid < next_id (fst HB))"

lemma host_step_inv:
  assumes radius: "0 < sint (env_max_radius env)" and inv: "host_inv env s" and step: "host_step env s t"
  shows "host_inv env t"
  using step inv
proof cases
  case (hs_world H i s' b)
  have inv': "host_inv env (H, b)" using inv hs_world by simp
  show ?thesis unfolding hs_world(2)
    by (rule host_inv_stores [OF inv']) (use wm.inv_step [OF host_invD(3) [OF inv'] hs_world(3)] hs_world(4) in auto)
next
  case (hs_pin pos H i n s' b)
  have inv': "host_inv env (H, b)" using inv hs_pin by simp
  have "world_inv s'" using keepsD [OF pin_inv host_invD(3) [OF inv'], of pos i] hs_pin(3) by simp
  moreover have "store_pins s' = (store_pins (stores_of H i))(pos := store_pins (stores_of H i) pos + 1)"
    using pin_chunk_pins [of pos "stores_of H i"] hs_pin(3) by simp
  ultimately show ?thesis unfolding hs_pin(2) by (intro host_inv_stores [OF inv']) auto
next
  case (hs_unpin b i pos H)
  have inv': "host_inv env (H, b)" using inv hs_unpin by simp
  have "0 < store_pins (stores_of H i) pos" using hs_unpin(3) host_invD(4) [OF inv'] by (simp add: pins_exact_def)
  then show ?thesis unfolding hs_unpin(2) using hs_unpin(3)
    by (intro host_inv_stores [OF inv'] keepsD [OF unpin_inv host_invD(3) [OF inv']]) (auto simp: unpin_chunk_pins)
next
  case (hs_shutdown H b)
  then show ?thesis using inv by (simp add: host_inv_def unpublish_all_def pins_exact_def)
qed (auto intro: try_command_inv host_accept_login_inv mark_chunk_prepared_inv try_complete_inv update_view_cursor_inv
    accept_session_inv [OF _ radius] inbound_turn_inv deferred_turn_inv end_session_inv)

text \<open>Only the accept arm adds a session, under the next id.\<close>

definition ids_shrink :: "('q, 'e) SessionHost \<Rightarrow> ('q, 'e) SessionHost \<Rightarrow> bool" where
  "ids_shrink H H' \<longleftrightarrow> next_id H' = next_id H
     \<and> (\<forall>sid. hm_get (session_states H') sid \<noteq> None \<longrightarrow> hm_get (session_states H) sid \<noteq> None)"

lemma ids_shrink_refl [simp]: "ids_shrink H H"
  by (simp add: ids_shrink_def)

lemma ids_shrink_trans: "ids_shrink H H' \<Longrightarrow> ids_shrink H' H'' \<Longrightarrow> ids_shrink H H''"
  by (auto simp: ids_shrink_def)

lemma ids_shrink_events [simp]: "ids_shrink H (H'\<lparr>events := ev\<rparr>) = ids_shrink H H'"
  by (simp add: ids_shrink_def)

lemma ids_shrink_stores [simp]: "ids_shrink H (H'\<lparr>stores_of := h\<rparr>) = ids_shrink H H'"
  by (simp add: ids_shrink_def)

lemma ids_shrink_put_state: "hm_get (session_states H) sid = Some st \<Longrightarrow> ids_shrink H (put_state sid st' h H)"
  by (auto simp: ids_shrink_def put_state_def update_conv')

lemma ids_shrink_put_slot: "host_slot sid H = Inr (q, st) \<Longrightarrow> ids_shrink H (put_slot sid q' st' h H)"
  by (auto simp: ids_shrink_def put_slot_def update_conv' host_slot_def split: option.splits)

lemma ids_shrink_end: "ids_shrink H (end_session env sid reason H)"
  by (auto simp: end_session_def Let_def ids_shrink_def delete_conv' split: option.splits if_splits)

lemma ids_shrink_process:
  "hm_get (session_states H) sid = Some st \<Longrightarrow> ids_shrink H (snd (process_inbound env sid p st H))"
  by (auto simp: process_inbound_def Let_def intro: ids_shrink_put_state
      split: prod.splits sum.splits option.splits TrySend.splits)

lemma ids_shrink_inbound: "ids_shrink H (inbound_turn env sid p H)"
proof (cases "hm_get (session_states H) sid")
  case (Some st)
  obtain r H' where run: "process_inbound env sid p st H = (r, H')" by (cases "process_inbound env sid p st H")
  have "ids_shrink H H'" using ids_shrink_process [OF Some, of env p] run by simp
  then show ?thesis using Some run ids_shrink_trans [OF _ ids_shrink_end] by (cases r) (auto simp: inbound_turn_def)
qed (simp add: inbound_turn_def)

lemma ids_shrink_deferred: "ids_shrink H (deferred_turn env sid H)"
  by (auto simp: deferred_turn_def split: option.splits prod.splits
      intro: ids_shrink_put_state ids_shrink_trans [OF ids_shrink_put_state ids_shrink_inbound])

lemma ids_shrink_owner:
  "ids_shrink H (snd (try_command env sid c H))" "ids_shrink H (snd (host_accept_login env sid boot H))"
  "ids_shrink H (snd (mark_chunk_prepared sid i pos H))" "ids_shrink H (snd (try_complete_chunk_work env sid i raw H))"
  "ids_shrink H (snd (host_update_view_cursor sid i cur H))"
  by (auto simp: try_command_def host_accept_login_def mark_chunk_prepared_def try_complete_chunk_work_def
      host_update_view_cursor_def ids_shrink_put_slot split: sum.splits prod.splits TrySend.splits)

lemma host_step_ids:
  assumes "host_step env (H, b) (H', b')"
  shows "ids_shrink H H' \<or> (\<exists>peer. H' = snd (accept_session env peer H))"
  using assms
proof cases
  case hs_shutdown
  then show ?thesis by (simp add: ids_shrink_def unpublish_all_def)
qed (auto simp: ids_shrink_owner ids_shrink_inbound ids_shrink_deferred ids_shrink_end)

definition host_ok :: "('q, 'e) host_env \<Rightarrow> ('q, 'e) SessionHost \<times> pin_book \<Rightarrow> bool" where
  "host_ok env s \<longleftrightarrow> 0 < sint (env_max_radius env) \<and> host_inv env s"

lemma accept_keeps_spent:
  assumes inv: "host_inv env (H, b)" and "host_spent (H, b) sid"
  shows "host_spent (snd (accept_session env peer H), b') sid"
proof -
  obtain r n' where acc: "accept_id (next_id H) = (r, n')" by (cases "accept_id (next_id H)")
  have spent: "hm_get (session_states H) sid = None" "next_id H = 0 \<or> sid < next_id H"
    using assms(2) by (auto simp: host_spent_def host_live_def)
  show ?thesis using accept_id_cases [OF acc]
  proof
    assume "r = Inl IdExhausted \<and> next_id H = 0 \<and> n' = 0"
    then show ?thesis using acc spent by (simp add: accept_session_def host_spent_def host_live_def)
  next
    assume new: "r = Inr (next_id H) \<and> next_id H \<noteq> 0 \<and> (n' = 0 \<or> next_id H < n')"
    then have "sid \<noteq> next_id H" "n' = 0 \<or> sid < n'" using spent by auto
    then show ?thesis using acc spent new
      by (auto simp: accept_session_def host_spent_def host_live_def update_conv' split: prod.splits TrySend.splits)
  qed
qed

interpretation ht: token_machine "host_step env" "host_ok env" host_live host_spent
proof
  fix s t :: "('a, 'b) SessionHost \<times> pin_book" and sid
  assume ok: "host_ok env s" and step: "host_step env s t"
  show "host_ok env t" using ok host_step_inv [OF _ _ step] by (auto simp: host_ok_def)
  assume spent: "host_spent s sid"
  obtain H b H' b' where st: "s = (H, b)" "t = (H', b')" by (cases s; cases t)
  show "host_spent t sid" using host_step_ids [OF step [unfolded st]]
  proof
    assume "ids_shrink H H'"
    then show ?thesis using spent by (auto simp: st ids_shrink_def host_spent_def host_live_def)
  next
    assume "\<exists>peer. H' = snd (accept_session env peer H)"
    then show ?thesis using accept_keeps_spent [of env H b] spent ok by (auto simp: st host_ok_def)
  qed
qed (simp add: host_spent_def)

section \<open>Properties\<close>

definition SessionHost_new :: "stores \<Rightarrow> 'e \<Rightarrow> ('q, 'e) SessionHost" where
  "SessionHost_new h ev = \<lparr>sessions = [], session_states = [], stores_of = h, next_id = 1, events = ev\<rparr>"

text \<open>What runs of the host start from: valid stores, whose pins are all the world owner's.\<close>

definition host_reachable :: "('q, 'e) host_env \<Rightarrow> ('q, 'e) SessionHost \<Rightarrow> pin_book \<Rightarrow> bool" where
  "host_reachable env H b \<longleftrightarrow> 0 < sint (env_max_radius env)
     \<and> (\<exists>h ev. (\<forall>i. world_inv (h i)) \<and> (host_step env)\<^sup>*\<^sup>* (SessionHost_new h ev, \<lambda>i. store_pins (h i)) (H, b))"

lemma host_ok_new:
  assumes "0 < sint (env_max_radius env)" "\<And>i. world_inv (h i)"
  shows "host_ok env (SessionHost_new h ev, \<lambda>i. store_pins (h i))"
  using assms by (simp add: host_ok_def host_inv_def SessionHost_new_def pins_exact_def total_held_def)

lemma reachable_ok: "host_reachable env H b \<Longrightarrow> host_ok env (H, b)"
  unfolding host_reachable_def by (elim conjE exE) (erule ht.inv_steps, rule host_ok_new, simp_all)

lemma reachable_inv: "host_reachable env H b \<Longrightarrow> host_inv env (H, b)"
  by (drule reachable_ok) (simp add: host_ok_def)

lemma viewed_held:
  assumes "session_inv st" "view st = Some v" "view_contains (view_center v) (view_radius v) pos"
  shows "0 < held st (view_store v) pos"
  using session_invD(2) [OF assms(1,2)] assms(2,3)
  by (simp add: held_def view_pins_def world_view_ok_def view_positions_spec)

text \<open>
  C6: pins are exact and viewed chunks stay resident. In every state the host can reach, whatever the interleaving of
  clients' packets, owner calls, session ends, shutdown and world operations, the pin count of each chunk is the
  number of pins the world owner holds plus the number the live sessions hold, so none is lost or leaked; and every chunk
  in the active view of a session is resident in its store and refused by eviction.
\<close>

theorem host_pins_exact:
  assumes "host_reachable env H b"
  shows "(\<forall>i pos. store_pins (stores_of H i) pos = b i pos + total_held (session_states H) i pos)
    \<and> (\<forall>sid st v pos. hm_get (session_states H) sid = Some st \<and> view st = Some v
          \<and> view_contains (view_center v) (view_radius v) pos
        \<longrightarrow> contains_chunk (stores_of H (view_store v)) pos
          \<and> (\<exists>n. try_evict_chunk pos (stores_of H (view_store v)) = (Inr (Pinned n), stores_of H (view_store v))))"
proof (intro conjI allI impI; (elim conjE)?)
  note I = host_invD [OF reachable_inv [OF assms]]
  show ledger: "store_pins (stores_of H i) pos = b i pos + total_held (session_states H) i pos" for i pos
    using I(4) by (simp add: pins_exact_def)
  fix sid st v pos
  assume st: "hm_get (session_states H) sid = Some st"
    and v: "view st = Some v" "view_contains (view_center v) (view_radius v) pos"
  have pinned: "0 < store_pins (stores_of H (view_store v)) pos"
    using ledger [of "view_store v" pos] viewed_held [OF I(5) [OF st] v] held_le_total [OF st, of "view_store v" pos] by simp
  show "contains_chunk (stores_of H (view_store v)) pos" by (rule store_pins_resident [OF pinned])
  show "\<exists>n. try_evict_chunk pos (stores_of H (view_store v)) = (Inr (Pinned n), stores_of H (view_store v))"
    by (rule pinned_not_evicted [OF I(3) pinned])
qed

text \<open>
  C7: the end of a session releases exactly its pins. When the task of a session ends, for whatever reason, each pin
  count drops by what that session held and by nothing else, no other session changes, no chunk's data changes, and the
  session is gone for the owner. Once no session is left, the only pins are the world owner's.
\<close>

theorem session_end_releases_pins:
  assumes "host_reachable env H b" and "hm_get (session_states H) sid = Some st"
    and "H' = end_session env sid reason H"
  shows "(\<forall>i pos. store_pins (stores_of H' i) pos + held st i pos = store_pins (stores_of H i) pos)
    \<and> (\<forall>i. unpinned_chunk (stores_of H' i) = unpinned_chunk (stores_of H i))
    \<and> hm_get (session_states H') = (hm_get (session_states H))(sid := None)
    \<and> host_slot sid H' = Inl (UnknownSession sid)
    \<and> (session_states H' = [] \<longrightarrow> (\<forall>i. store_pins (stores_of H' i) = b i))"
proof -
  note I = host_invD [OF reachable_inv [OF assms(1)]]
  have H': "stores_of H' = SessionState_drop st (stores_of H)" "session_states H' = hm_remove sid (session_states H)"
      "sessions H' = hm_remove sid (sessions H)"
    using assms(2,3) by (simp_all add: end_session_def Let_def)
  have "held st i pos \<le> store_pins (stores_of H i) pos" for i pos
    using I(4) held_le_total [OF assms(2), of i pos] by (simp add: pins_exact_def trans_le_add2)
  then have "store_pins (stores_of H' i) pos + held st i pos = store_pins (stores_of H i) pos" for i pos
    using drop_releases [OF I(5) [OF assms(2)], of "stores_of H" i pos] by (simp add: H')
  moreover have "unpinned_chunk (stores_of H' i) = unpinned_chunk (stores_of H i)" for i
    using drops_same_worlds(5) [of "stores_of H" st] by (auto simp: H' same_worlds_def same_world_def)
  moreover have "store_pins (stores_of H' i) = b i" if "session_states H' = []" for i
    using end_session_inv [OF reachable_inv [OF assms(1)], of sid reason, folded assms(3), THEN host_invD(4)] that
    by (auto simp: pins_exact_def total_held_def)
  ultimately show ?thesis by (simp add: H' host_slot_def delete_conv')
qed

text \<open>
  C12: session ids are never reused. Once a session has ended, no later step of the host makes its id known again, even
  when the id space runs out; every owner call with that id keeps answering that the session is unknown.
\<close>

theorem session_id_never_reused:
  assumes "host_reachable env H b" and "hm_get (session_states H) sid = Some st"
    and "(host_step env)\<^sup>*\<^sup>* (end_session env sid reason H, b) (H', b')"
  shows "hm_get (session_states H') sid = None \<and> host_slot sid H' = Inl (UnknownSession sid)"
proof -
  have ok: "host_ok env (end_session env sid reason H, b)"
    using ht.inv_step [OF reachable_ok [OF assms(1)] hs_end] .
  have "host_spent (end_session env sid reason H, b) sid"
    using host_invD(6) [OF reachable_inv [OF assms(1)] assms(2)] assms(2)
    by (simp add: host_spent_def host_live_def end_session_def Let_def delete_conv')
  from ht.spent_never_live [OF assms(3) ok this] show ?thesis
    by (simp add: host_live_def host_slot_def split: option.splits)
qed

lemma channel_lawD:
  assumes "channel_law send contents"
  shows "send q c = (SendOk, q') \<Longrightarrow> contents q' = contents q @ [c]" and "send q c = (SendFull, q') \<Longrightarrow> q' = q"
    and "send q c = (SendClosed, q') \<Longrightarrow> q' = q"
  using assms by (auto simp: channel_law_def dest!: spec [of _ q] spec [of _ c])

lemma put_slot_same: "host_slot sid H = Inr (q, st) \<Longrightarrow> host_slot sid' (put_slot sid q st h H) = host_slot sid' H"
  by (auto simp: host_slot_def put_slot_def update_conv' split: option.splits if_splits)

lemma put_slot_get [simp]: "host_slot sid (put_slot sid q st h H) = Inr (q, st)" "stores_of (put_slot sid q st h H) = h"
  by (simp_all add: host_slot_def put_slot_def update_conv')

text \<open>
  C11: accepting a Login is all or nothing. It succeeds exactly when the session awaits it, the bootstrap packets can be
  encoded and the command queue takes them: then the queue got exactly those packets as one reliable ordered group and
  the session waits for a chunk radius at the spawn position. In every other case, a full or closed queue included, the
  session and its queue are as before, so the owner can retry. Stores and other sessions are never touched.
\<close>

theorem accept_login_all_or_nothing:
  assumes "host_reachable env H b" and "channel_law (env_try_send env) contents"
    and "host_slot sid H = Inr (q, st)" and "host_accept_login env sid boot H = (r, H')"
  shows "stores_of H' = stores_of H
    \<and> (case r of
         Inl e \<Rightarrow> (\<forall>sid'. host_slot sid' H' = host_slot sid' H)
       | Inr _ \<Rightarrow> phase st = LoginPending
           \<and> (\<exists>ps q' st'. bootstrap_packets (env_deflate env) boot (env_limits env) = Inr ps
                \<and> host_slot sid H' = Inr (q', st') \<and> contents q' = contents q @ [send_many ps]
                \<and> phase st' = WaitingChunkRadius \<and> position st' = Some (boot_position boot)
                \<and> player_chunk st' = Some (position_chunk (boot_position boot))))"
proof -
  note inv = slot_inv [OF reachable_inv [OF assms(1)] assms(3)]
  obtain ra st' where acc: "SessionState_accept_login (env_deflate env) boot (env_limits env) st = (ra, st')"
    by (cases "SessionState_accept_login (env_deflate env) boot (env_limits env) st")
  show ?thesis
  proof (cases ra)
    case (Inl e)
    then have "st' = st" using acc by (auto simp: SessionState_accept_login_def split: if_splits sum.splits)
    then show ?thesis using assms(3,4) acc Inl by (auto simp: host_accept_login_def put_slot_same)
  next
    case (Inr ps)
    have st': "phase st = LoginPending" "bootstrap_packets (env_deflate env) boot (env_limits env) = Inr ps"
        "phase st' = WaitingChunkRadius" "position st' = Some (boot_position boot)"
        "player_chunk st' = Some (position_chunk (boot_position boot))"
      using acc Inr by (auto simp: SessionState_accept_login_def split: if_splits sum.splits)
    have rb: "rollback_login_acceptance st' = st" by (rule rollback_after_accept [OF inv acc [unfolded Inr]])
    obtain res q' where send: "env_try_send env q (send_many ps) = (res, q')" by fastforce
    show ?thesis
    proof (cases res)
      case SendOk
      have "contents q' = contents q @ [send_many ps]" by (rule channel_lawD(1) [OF assms(2) send [unfolded SendOk]])
      then show ?thesis using assms(3,4) acc Inr send SendOk st' by (auto simp: host_accept_login_def)
    next
      case SendFull
      have "q' = q" by (rule channel_lawD(2) [OF assms(2) send [unfolded SendFull]])
      then show ?thesis using assms(3,4) acc Inr send SendFull rb by (auto simp: host_accept_login_def put_slot_same)
    next
      case SendClosed
      have "q' = q" by (rule channel_lawD(3) [OF assms(2) send [unfolded SendClosed]])
      then show ?thesis using assms(3,4) acc Inr send SendClosed rb by (auto simp: host_accept_login_def put_slot_same)
    qed
  qed
qed

definition work_target :: "PendingWork \<Rightarrow> ChunkCoord \<times> i32" where
  "work_target w =
     (case w of PendingInitial _ e c _ _ _ \<Rightarrow> (c, e) | PendingView t _ \<Rightarrow> (to_center t, to_radius t))"

definition view_committed :: "PendingWork \<Rightarrow> SessionState \<Rightarrow> bool" where
  "view_committed w st \<longleftrightarrow> phase st = Spawned \<and> pending st = None
     \<and> (case view st of
          None \<Rightarrow> False
        | Some v \<Rightarrow> (view_center v, view_radius v) = work_target w
            \<and> (\<forall>j pos. held st j pos =
                 (if j = view_store v \<and> view_contains (view_center v) (view_radius v) pos then 1 else 0)))"

lemma commit_target:
  assumes "session_inv st" "pending st = Some w" "is_complete (prepared w) (prepare_positions w)"
    and "commit_pending st h = (r, st', h')"
  shows "\<exists>v. view st' = Some v \<and> (view_center v, view_radius v) = work_target w"
  using assms(4) commit_pending_ok [OF assms]
  by (cases w) (auto simp: commit_pending_def assms(2) commit_initial_def commit_view_def work_target_def Let_def take_store_def
      split: if_splits option.splits)

text \<open>
  C8: completing chunk work is all or nothing and never fails after the packets were queued. When the queue is full or
  closed, or the work is not fully prepared, nothing changes and the prepared pins are kept for the retry. When the queue
  takes the packets, the commit succeeds: the session is spawned with no pending work, and its view is the
  initial view or the target of the transition, with exactly the chunks of that view pinned for it.
\<close>

theorem complete_work_all_or_nothing:
  assumes "host_reachable env H b" and "channel_law (env_try_send env) contents"
    and "host_slot sid H = Inr (q, st)" and "try_complete_chunk_work env sid i raw H = (r, H')"
  shows "(case r of
       Inl e \<Rightarrow> H' = H
     | Inr Backpressured \<Rightarrow> stores_of H' = stores_of H \<and> (\<forall>sid'. host_slot sid' H' = host_slot sid' H)
     | Inr Gone \<Rightarrow> stores_of H' = stores_of H \<and> (\<forall>sid'. host_slot sid' H' = host_slot sid' H)
     | Inr _ \<Rightarrow>
         (\<exists>w plan q' st'. pending st = Some w \<and> is_complete (prepared w) (prepare_positions w)
            \<and> plan_packets_for (env_deflate env) raw (env_limits env) w = Inr plan
            \<and> host_slot sid H' = Inr (q', st') \<and> contents q' = contents q @ [send_many (plan_packets plan)]
            \<and> view_committed w st'))"
proof -
  note inv = slot_inv [OF reachable_inv [OF assms(1)] assms(3)]
  show ?thesis
  proof (cases "completion_plan (env_deflate env) i raw (env_limits env) st")
    case (Inl e)
    then show ?thesis using assms(3,4) by (auto simp: try_complete_chunk_work_def)
  next
    case (Inr plan)
    from completion_plan_complete [OF Inr] obtain w where w: "pending st = Some w"
      "is_complete (prepared w) (prepare_positions w)" "plan_packets_for (env_deflate env) raw (env_limits env) w = Inr plan"
      by blast
    obtain rc st' h' where commit: "commit_pending st (stores_of H) = (rc, st', h')" by (metis prod_cases3)
    from commit_pending_ok [OF inv w(1,2) commit] obtain res where
      ok: "session_inv st'" "phase st' = Spawned" "pending st' = None" "rc = Inr res"
      by (auto dest: session_step_okD)
    from commit_target [OF inv w(1,2) commit] obtain v where
      v: "view st' = Some v" "(view_center v, view_radius v) = work_target w" by blast
    have target: "view_committed w st'"
      using session_invD(2) [OF ok(1) v(1)] ok(2,3) v
      by (auto simp: view_committed_def held_def view_pins_def world_view_ok_def view_positions_spec)
    obtain out q' where send: "env_try_send env q (send_many (plan_packets plan)) = (out, q')" by fastforce
    show ?thesis
    proof (cases out)
      case SendOk
      have "contents q' = contents q @ [send_many (plan_packets plan)]"
        by (rule channel_lawD(1) [OF assms(2) send [unfolded SendOk]])
      moreover have "r = Inr (case plan_initial plan of Some result \<Rightarrow> CompletedSpawned result | None \<Rightarrow> Complete)"
          "H' = put_slot sid q' st' h' H"
        using assms(3,4) Inr send SendOk commit ok(4) by (auto simp: try_complete_chunk_work_def)
      ultimately show ?thesis using w target by (cases "plan_initial plan") auto
    next
      case SendFull
      have "q' = q" by (rule channel_lawD(2) [OF assms(2) send [unfolded SendFull]])
      then show ?thesis using assms(3,4) Inr send SendFull by (auto simp: try_complete_chunk_work_def put_slot_same)
    next
      case SendClosed
      have "q' = q" by (rule channel_lawD(3) [OF assms(2) send [unfolded SendClosed]])
      then show ?thesis using assms(3,4) Inr send SendClosed by (auto simp: try_complete_chunk_work_def put_slot_same)
    qed
  qed
qed

section \<open>A run to a spawned session\<close>

definition bounded_send :: "SessionCommand list \<Rightarrow> SessionCommand \<Rightarrow> TrySend \<times> SessionCommand list" where
  "bounded_send q c = (if length q < 2 then (SendOk, q @ [c]) else (SendFull, q))"

lemma bounded_send_law: "channel_law bounded_send (\<lambda>q. q)"
  by (simp add: channel_law_def bounded_send_def)

definition sample_env :: "(SessionCommand list, unit) host_env" where
  "sample_env = \<lparr>env_deflate = stored_deflate, env_inflate = stored_inflate,
     env_limits = CodecLimits_new 4096 4096 4096 4096 1024 16, env_max_radius = 1, env_channel = [],
     env_try_send = bounded_send, env_try_event = (\<lambda>e _. (SendOk, e))\<rparr>"

definition sample_boot :: SessionWorldBootstrap where
  "sample_boot = \<lparr>boot_seed = 7, boot_dimension = WireOverworld, boot_generator = 1, boot_spawn = (0, 64, 0),
     boot_position = (0x3f000000, 0x42800000, 0x3f000000), boot_time = 0, boot_time_started = True, boot_level_id = [0x77]\<rparr>"

definition sample_view :: "ChunkCoord list" where
  "sample_view = view_positions (position_chunk (boot_position sample_boot)) 1"

definition sample_stores :: stores where
  "sample_stores = (\<lambda>_. resident_store sample_view)"

definition sample_book :: pin_book where
  "sample_book = (\<lambda>i. store_pins (sample_stores i))"

abbreviation reaches :: "(SessionCommand list, unit) SessionHost \<Rightarrow> bool" where
  "reaches H \<equiv> (host_step sample_env)\<^sup>*\<^sup>* (SessionHost_new sample_stores (), sample_book) (H, sample_book)"

lemma sample_reachable: "reaches H \<Longrightarrow> host_reachable sample_env H sample_book"
  unfolding host_reachable_def sample_book_def
  by (auto simp: sample_env_def sample_stores_def intro!: exI [of _ "\<lambda>_. resident_store sample_view"] resident_store_ok(1))

lemma inbound_turn_put:
  assumes "host_slot sid H = Inr (q, st)"
    and "handle_packet stored_inflate p (env_limits sample_env) st (stores_of H) = (Inr a, st', h')"
  shows "inbound_turn sample_env sid p H = put_state sid st' h' H"
proof -
  have "hm_get (session_states H) sid = Some st" using assms(1) by (auto simp: host_slot_def split: option.splits)
  then show ?thesis using assms(2)
    by (auto simp: inbound_turn_def process_inbound_def Let_def put_state_def sample_env_def split: option.splits)
qed

lemma slot_put_state [simp]:
  "host_slot sid H = Inr (q, st) \<Longrightarrow> host_slot sid (put_state sid st' h' H) = Inr (q, st')" "stores_of (put_state sid st' h' H) = h'"
  by (auto simp: host_slot_def put_state_def update_conv' split: option.splits)

lemma reaches_inbound:
  assumes "reaches H" "host_slot sid H = Inr (q, st)"
    and "handle_packet stored_inflate p (env_limits sample_env) st (stores_of H) = (Inr a, st', h')"
  shows "\<exists>H'. reaches H' \<and> host_slot sid H' = Inr (q, st') \<and> stores_of H' = h'"
  using rtranclp.rtrancl_into_rtrancl [OF assms(1) hs_inbound [of sample_env H sample_book sid p]]
    inbound_turn_put [OF assms(2,3)] assms(2) by auto

lemma reaches_mark_all:
  assumes "reaches H" "host_slot sid H = Inr (q, st)" "mark_all i ps st (stores_of H) = (st', h')"
  shows "\<exists>H'. reaches H' \<and> host_slot sid H' = Inr (q, st') \<and> stores_of H' = h'"
  using assms
proof (induction ps arbitrary: H st)
  case (Cons pos ps)
  obtain r st1 h1 where one: "mark_prepared_chunk i pos st (stores_of H) = (r, st1, h1)" by (metis prod_cases3)
  have "snd (mark_chunk_prepared sid i pos H) = put_slot sid q st1 h1 H"
    using Cons.prems(2) one by (simp add: mark_chunk_prepared_def)
  then have "reaches (put_slot sid q st1 h1 H)"
    using rtranclp.rtrancl_into_rtrancl [OF Cons.prems(1) hs_mark [of sample_env H sample_book sid i pos]] by simp
  from Cons.IH [OF this] show ?case using Cons.prems(3) one by simp
qed auto

lemma sample_bootstrap: "\<exists>ps. bootstrap_packets stored_deflate sample_boot (env_limits sample_env) = Inr ps"
  by (simp add: bootstrap_packets_def bootstrap_sequence_def sample_boot_def bootstrap_session_packet_def result_simps
      map_err_def write_start_game_def Let_def put_string_u16_def split: sum.splits)

lemma sample_pending_login:
  "\<exists>H. reaches H \<and> host_slot 1 H = Inr ([], (SessionState_new 1)\<lparr>phase := LoginPending\<rparr>) \<and> stores_of H = sample_stores"
proof -
  let ?H = "snd (accept_session sample_env ''peer'' (SessionHost_new sample_stores ()))"
  have slot: "host_slot 1 ?H = Inr ([], SessionState_new 1)" "stores_of ?H = sample_stores"
    by (simp_all add: accept_session_def accept_id_def SessionId_new_def SessionHost_new_def sample_env_def host_slot_def)
  have "reaches ?H"
    using hs_accept [of sample_env "SessionHost_new sample_stores ()" sample_book "''peer''"] by (rule r_into_rtranclp)
  moreover have "12 \<le> max_login_compressed_bytes (env_limits sample_env)"
      "max_batch_decompressed_bytes (env_limits sample_env) \<le> usize_max"
    by (simp_all add: sample_env_def CodecLimits_new_def usize_max_def)
  ultimately show ?thesis using reaches_inbound [OF _ slot(1) sample_login_handled] slot(2) by auto
qed

definition sample_radius_packet :: SessionPacket where
  "sample_radius_packet = SessionPacket_new REQUEST_CHUNK_RADIUS [0, 0, 0, 1]"

definition sample_accepted :: SessionState where
  "sample_accepted = (SessionState_new 1)\<lparr>phase := WaitingChunkRadius, position := Some (boot_position sample_boot),
     player_chunk := Some (position_chunk (boot_position sample_boot))\<rparr>"

definition sample_work :: PendingWork where
  "sample_work = (let c = position_chunk (boot_position sample_boot)
     in PendingInitial 1 1 c (prioritize_for_player (view_positions c 1) (boot_position sample_boot))
          (initial_send_positions c 1) PreparedChunks_new)"

definition sample_requested :: SessionState where
  "sample_requested = sample_accepted\<lparr>phase := WaitingInitialChunks, pending := Some sample_work\<rparr>"

lemma sample_login_accepted: "\<exists>H q. reaches H \<and> length q < 2 \<and> host_slot 1 H = Inr (q, sample_accepted) \<and> stores_of H = sample_stores"
proof -
  obtain H where H: "reaches H" "host_slot 1 H = Inr ([], (SessionState_new 1)\<lparr>phase := LoginPending\<rparr>)" "stores_of H = sample_stores"
    using sample_pending_login by blast
  obtain ps where ps: "bootstrap_packets stored_deflate sample_boot (env_limits sample_env) = Inr ps" using sample_bootstrap by blast
  have "snd (host_accept_login sample_env 1 sample_boot H) = put_slot 1 [send_many ps] sample_accepted sample_stores H"
    using H ps by (simp add: host_accept_login_def SessionState_accept_login_def SessionState_new_def sample_accepted_def
        sample_env_def bounded_send_def)
  then have "reaches (put_slot 1 [send_many ps] sample_accepted sample_stores H)"
    using rtranclp.rtrancl_into_rtrancl [OF H(1) hs_login [of sample_env H sample_book 1 sample_boot]] by simp
  then show ?thesis by (intro exI [of _ "put_slot 1 [send_many ps] sample_accepted sample_stores H"] exI [of _ "[send_many ps]"]) simp
qed

lemma sample_radius_handled:
  "handle_packet inflate sample_radius_packet limits sample_accepted h = (Inr Consumed, sample_requested, h)"
proof -
  have "requested_chunk_radius [0, 0, 0, 1] = Inr 1"
    by (simp add: requested_chunk_radius_def from_be_bytes_def from_le_bytes_def)
  then show ?thesis
    by (simp add: handle_packet_def sample_radius_packet_def SessionPacket_new_def sample_accepted_def SessionState_new_def
        start_initial_view_def i32_min_def pending_drop_def sample_requested_def sample_work_def Let_def)
qed

lemma sample_prepared:
  "\<exists>H q st' h' w'. reaches H \<and> length q < 2 \<and> host_slot 1 H = Inr (q, st') \<and> stores_of H = h'
     \<and> pending st' = Some w' \<and> length (send_positions w') = length (send_positions sample_work)
     \<and> (\<forall>raw. length raw = length (send_positions sample_work)
          \<longrightarrow> completion_plan stored_deflate 0 raw (env_limits sample_env) st'
              = plan_packets_for stored_deflate raw (env_limits sample_env) w')
     \<and> (\<exists>res st'' h''. commit_pending st' h' = (Inr res, st'', h'') \<and> phase st'' = Spawned)"
proof -
  obtain H0 q where H0: "reaches H0" "length q < 2" "host_slot 1 H0 = Inr (q, sample_accepted)" "stores_of H0 = sample_stores"
    using sample_login_accepted by blast
  obtain H where H: "reaches H" "host_slot 1 H = Inr (q, sample_requested)" "stores_of H = sample_stores"
    using reaches_inbound [OF H0(1,3) sample_radius_handled] H0(4) by auto
  have inv: "session_inv sample_requested" by (rule slot_inv [OF reachable_inv [OF sample_reachable [OF H(1)]] H(2)])
  have w: "pending sample_requested = Some sample_work" "work_in_store 0 sample_requested"
    by (simp_all add: sample_requested_def sample_accepted_def SessionState_new_def work_in_store_def sample_work_def Let_def
        matches_store_def PreparedChunks_new_def)
  let ?ps = "unprepared (prepared sample_work) (prepare_positions sample_work)"
  obtain st' h' where run: "mark_all 0 ?ps sample_requested sample_stores = (st', h')" by fastforce
  have "\<forall>pos \<in> set ?ps. pinnable (sample_stores 0) pos"
    by (auto simp: unprepared_def sample_work_def Let_def sample_stores_def sample_view_def intro: resident_store_ok)
  note complete = mark_all_completes [OF inv w this run]
  obtain H' where "reaches H'" "host_slot 1 H' = Inr (q, st')" "stores_of H' = h'"
    using reaches_mark_all [OF H(1,2)] H(3) run by metis
  then show ?thesis using complete H0(2) by (intro exI [of _ H'] exI [of _ q] exI [of _ st'] exI [of _ h']) fastforce
qed

lemma sample_send_count: "length (send_positions sample_work) \<le> 9"
proof -
  have side: "nat (sint (i32_saturating_add a 1) - sint (i32_saturating_sub a 1) + 1) \<le> 3" for a
    by (simp add: i32_saturating_add_def i32_saturating_sub_def sint_sclamp_i32)
  have "length (initial_send_positions c 1) = length (view_positions c 1)" for c
    using distinct_card [OF initial_send_positions_spec(2), of c 1] distinct_card [OF view_positions_spec(2), of c 1]
    by (simp add: view_positions_spec initial_send_positions_spec)
  moreover have "length (view_positions c 1) \<le> 3 * 3" for c
    unfolding length_view_positions by (rule mult_le_mono [OF side side])
  ultimately show ?thesis by (simp add: sample_work_def Let_def)
qed

lemma sample_batch_fits:
  assumes "length raw \<le> 10" "\<forall>p \<in> set raw. length (packet_body p) \<le> 4"
  shows "\<exists>body. encode_body stored_deflate \<lparr>batch_packets = raw\<rparr> (env_limits sample_env) = Inr body \<and> length body < usize_max"
proof -
  have "length (concat (map inner_frame raw)) \<le> length raw * 9"
    using assms(2) by (induction raw) (auto simp: inner_frame_def packet_bytes_def)
  then have "length (concat (map inner_frame raw)) \<le> 90" using assms(1) by simp
  then show ?thesis using assms
    by (auto simp: encode_body_Inr_iff batch_ok_def inner_ok_def list_all_iff encoded_len_def sample_env_def
        CodecLimits_new_def stored_deflate_def usize_max_def simp del: length_concat)
qed

lemma sample_plan_exists:
  assumes "length raw \<le> 9" "\<forall>p \<in> set raw. packet_body p = []"
  shows "\<exists>plan. plan_packets_for stored_deflate raw (env_limits sample_env) w = Inr plan"
proof (cases w)
  case (PendingInitial r e c ps ss p)
  obtain body where "encode_body stored_deflate \<lparr>batch_packets = raw\<rparr> (env_limits sample_env) = Inr body" "length body < usize_max"
    using sample_batch_fits [of raw] assms by auto
  then show ?thesis using PendingInitial
    by (auto simp: bootstrap_session_packet_def result_simps map_err_def usize_checked_add_def SessionPacket_new_def RawPacket_new_def)
next
  case (PendingView t p)
  let ?raw = "(if from_radius t \<noteq> to_radius t then [RawPacket_new CHUNK_RADIUS_UPDATED (radius_packet_body (to_radius t))] else []) @ raw"
  obtain body where "encode_body stored_deflate \<lparr>batch_packets = ?raw\<rparr> (env_limits sample_env) = Inr body"
    using sample_batch_fits [of ?raw] assms by (cases "from_radius t = to_radius t") (auto simp: RawPacket_new_def radius_packet_body_def)
  then show ?thesis using PendingView by (auto simp: bootstrap_session_packet_def result_simps map_err_def Let_def)
qed

lemma sample_spawned:
  "\<exists>H q st raw res. reaches H \<and> host_slot 1 H = Inr (q, st)
     \<and> fst (try_complete_chunk_work sample_env 1 0 raw H) = Inr res \<and> res \<noteq> Backpressured \<and> res \<noteq> Gone"
proof -
  let ?raw = "replicate (length (send_positions sample_work)) (RawPacket_new 0x3a [])"
  obtain H q st' h' w' res st'' h'' where H: "reaches H" "length q < 2" "host_slot 1 H = Inr (q, st')" "stores_of H = h'"
      "completion_plan stored_deflate 0 ?raw (env_limits sample_env) st' = plan_packets_for stored_deflate ?raw (env_limits sample_env) w'"
      "commit_pending st' h' = (Inr res, st'', h'')"
    using sample_prepared by (metis length_replicate)
  obtain plan where "plan_packets_for stored_deflate ?raw (env_limits sample_env) w' = Inr plan"
    using sample_plan_exists [of ?raw w'] sample_send_count by (auto simp: RawPacket_new_def)
  then have "fst (try_complete_chunk_work sample_env 1 0 ?raw H)
      = Inr (case plan_initial plan of Some result \<Rightarrow> CompletedSpawned result | None \<Rightarrow> Complete)"
    using H by (simp add: try_complete_chunk_work_def sample_env_def bounded_send_def)
  then show ?thesis using H(1,3) by (intro exI [of _ H] exI [of _ q] exI [of _ st'] exI [of _ ?raw]) (auto split: option.splits)
qed

lemma sample_channel: "channel_law (env_try_send sample_env) (\<lambda>q. q)"
  using bounded_send_law by (simp add: sample_env_def)

lemma sample_slot_state: "host_slot sid H = Inr (q, st) \<Longrightarrow> hm_get (session_states H) sid = Some st"
  by (auto simp: host_slot_def split: option.splits)

theorem accept_login_all_or_nothing_witness:
  "\<exists>H r H'. host_accept_login sample_env 1 sample_boot H = (Inr r, H') \<and> stores_of H' = stores_of H
     \<and> (\<exists>q st. host_slot 1 H' = Inr (q, st) \<and> phase st = WaitingChunkRadius)"
proof -
  obtain H where H: "reaches H" "host_slot 1 H = Inr ([], (SessionState_new 1)\<lparr>phase := LoginPending\<rparr>)"
    using sample_pending_login by blast
  obtain ps where "bootstrap_packets stored_deflate sample_boot (env_limits sample_env) = Inr ps" using sample_bootstrap by blast
  then have "fst (host_accept_login sample_env 1 sample_boot H) = Inr ()"
    using H(2) by (simp add: host_accept_login_def SessionState_accept_login_def SessionState_new_def sample_env_def bounded_send_def)
  then obtain H' where run: "host_accept_login sample_env 1 sample_boot H = (Inr (), H')" by (metis prod.collapse)
  from accept_login_all_or_nothing [OF sample_reachable [OF H(1)] sample_channel H(2) run] run show ?thesis by auto
qed

theorem complete_work_all_or_nothing_witness:
  "\<exists>H raw H' res q st w. try_complete_chunk_work sample_env 1 0 raw H = (Inr res, H')
     \<and> host_slot 1 H' = Inr (q, st) \<and> view_committed w st"
proof -
  obtain H q st raw res where H: "reaches H" "host_slot 1 H = Inr (q, st)"
      "fst (try_complete_chunk_work sample_env 1 0 raw H) = Inr res" "res \<noteq> Backpressured" "res \<noteq> Gone"
    using sample_spawned by blast
  obtain H' where run: "try_complete_chunk_work sample_env 1 0 raw H = (Inr res, H')" using H(3) by (metis prod.collapse)
  from complete_work_all_or_nothing [OF sample_reachable [OF H(1)] sample_channel H(2) run] H(4,5) run show ?thesis
    by (cases res) (auto, blast+)
qed

lemma sample_viewing:
  "\<exists>H q st. reaches H \<and> host_slot 1 H = Inr (q, st) \<and> session_inv st \<and> view st \<noteq> None \<and> pending st = None"
proof -
  obtain H q st raw res where H: "reaches H" "host_slot 1 H = Inr (q, st)"
      "fst (try_complete_chunk_work sample_env 1 0 raw H) = Inr res" "res \<noteq> Backpressured" "res \<noteq> Gone"
    using sample_spawned by blast
  let ?H = "snd (try_complete_chunk_work sample_env 1 0 raw H)"
  have reach: "reaches ?H"
    using rtranclp.rtrancl_into_rtrancl [OF H(1) hs_complete [of sample_env H sample_book 1 0 raw]] .
  obtain plan where plan: "completion_plan (env_deflate sample_env) 0 raw (env_limits sample_env) st = Inr plan"
    using H(2,3) by (auto simp: try_complete_chunk_work_def split: sum.splits)
  obtain w where w: "pending st = Some w" "is_complete (prepared w) (prepare_positions w)"
    using completion_plan_complete [OF plan] by blast
  obtain rc st' h' where commit: "commit_pending st (stores_of H) = (rc, st', h')" by (metis prod_cases3)
  have inv: "session_inv st" by (rule slot_inv [OF reachable_inv [OF sample_reachable [OF H(1)]] H(2)])
  have "pending st' = None" "session_inv st'" "\<exists>res. rc = Inr res"
    using commit_pending_ok [OF inv w commit] by (auto dest: session_step_okD)
  moreover have "\<exists>q'. host_slot 1 ?H = Inr (q', st')"
    using H(2-5) plan commit \<open>\<exists>res. rc = Inr res\<close>
    by (auto simp: try_complete_chunk_work_def split: prod.splits TrySend.splits)
  ultimately show ?thesis using reach commit_target [OF inv w commit] by blast
qed

theorem host_pins_exact_witness:
  "\<exists>(H :: (SessionCommand list, unit) SessionHost) st v n.
     hm_get (session_states H) 1 = Some st \<and> view st = Some v
     \<and> contains_chunk (stores_of H (view_store v)) (view_center v)
     \<and> try_evict_chunk (view_center v) (stores_of H (view_store v)) = (Inr (Pinned n), stores_of H (view_store v))"
proof -
  obtain H q st where H: "reaches H" "host_slot 1 H = Inr (q, st)" "session_inv st" "view st \<noteq> None"
    using sample_viewing by blast
  then obtain v where v: "view st = Some v" by auto
  have "view_contains (view_center v) (view_radius v) (view_center v)"
    using session_invD(2) [OF H(3) v] by (intro view_contains_center) (simp add: world_view_ok_def)
  then show ?thesis
    using host_pins_exact [OF sample_reachable [OF H(1)]] sample_slot_state [OF H(2)] v by blast
qed

theorem session_end_releases_pins_witness:
  "\<exists>H st v. hm_get (session_states H) 1 = Some st \<and> view st = Some v \<and> held st (view_store v) (view_center v) = 1
     \<and> store_pins (stores_of (end_session sample_env 1 OwnerDisconnect H) (view_store v)) (view_center v) + 1
       = store_pins (stores_of H (view_store v)) (view_center v)"
proof -
  obtain H q st where H: "reaches H" "host_slot 1 H = Inr (q, st)" "session_inv st" "view st \<noteq> None" "pending st = None"
    using sample_viewing by blast
  then obtain v where v: "view st = Some v" by auto
  have "view_contains (view_center v) (view_radius v) (view_center v)"
    using session_invD(2) [OF H(3) v] by (intro view_contains_center) (simp add: world_view_ok_def)
  then have "view_pins v (view_store v) (view_center v) = 1"
    using session_invD(2) [OF H(3) v] by (simp add: view_pins_def world_view_ok_def view_positions_spec)
  then have "held st (view_store v) (view_center v) = 1" using v H(5) by (simp add: held_def)
  then show ?thesis
    using session_end_releases_pins [OF sample_reachable [OF H(1)] sample_slot_state [OF H(2)] refl, of OwnerDisconnect]
      sample_slot_state [OF H(2)] v by metis
qed

theorem session_id_never_reused_witness:
  "\<exists>H st. hm_get (session_states H) 1 = Some st
     \<and> host_slot 1 (snd (accept_session sample_env ''later'' (end_session sample_env 1 OwnerDisconnect H))) = Inl (UnknownSession 1)"
proof -
  obtain H q st where H: "reaches H" "host_slot 1 H = Inr (q, st)" using sample_viewing by blast
  have "(host_step sample_env)\<^sup>*\<^sup>* (end_session sample_env 1 OwnerDisconnect H, sample_book)
      (snd (accept_session sample_env ''later'' (end_session sample_env 1 OwnerDisconnect H)), sample_book)"
    using hs_accept [of sample_env "end_session sample_env 1 OwnerDisconnect H" sample_book "''later''"] by (rule r_into_rtranclp)
  from session_id_never_reused [OF sample_reachable [OF H(1)] sample_slot_state [OF H(2)] this] sample_slot_state [OF H(2)]
  show ?thesis by blast
qed

end
