(* ===== verification/Payload.thy ===== *)
theory Payload
  imports ChunkWire
begin

text \<open>
  The semantic payload of a stored chunk: \<open>native/storage/src/record/payload.rs\<close>, with the constants, the error type
  (\<open>lib.rs\<close>) and the types (\<open>record.rs\<close>) of the storage crate.

  A reading helper is a function of the payload and the cursor that returns the value with the advanced cursor.
  The tuple returned by \<open>decode_semantic_payload\<close> is a \<open>ChunkData\<close> (the same seven fields, in the same order) with the
  extension sections. \<open>found p c bs c'\<close> says that the bytes \<open>bs\<close> stand at cursor \<open>c\<close> of \<open>p\<close> and end at \<open>c'\<close>: every reader
  is specified by it, and a counted loop by \<open>repeat_found\<close>.
\<close>

section \<open>Types and constants of the storage crate\<close>

definition STORAGE_FORMAT_VERSION :: u16 where "STORAGE_FORMAT_VERSION = 1"
definition CHUNK_RECORD_VERSION :: u16 where "CHUNK_RECORD_VERSION = 1"
definition LEGACY_SEMANTIC_PAYLOAD_VERSION :: u16 where "LEGACY_SEMANTIC_PAYLOAD_VERSION = 1"
definition BIOME_WORD_SEMANTIC_PAYLOAD_VERSION :: u16 where "BIOME_WORD_SEMANTIC_PAYLOAD_VERSION = 2"
definition SEMANTIC_PAYLOAD_VERSION :: u16 where "SEMANTIC_PAYLOAD_VERSION = 3"
definition MAX_CHUNK_PAYLOAD_BYTES :: nat where "MAX_CHUNK_PAYLOAD_BYTES = 4 * 1024 * 1024"
definition MAX_CHUNK_RECORD_BYTES :: nat where "MAX_CHUNK_RECORD_BYTES = MAX_CHUNK_PAYLOAD_BYTES + 64 * 1024"

datatype StorageError =
    Io
  | InvalidRegionHeader string
  | WorldMismatch
  | WorldMetadataAlreadyExists
  | InvalidWorldMetadata string
  | WorldMetadataTooLarge nat nat
  | MetadataGenerationExhausted
  | InvalidGeneratorState string
  | GeneratorStateTooLarge nat nat
  | GeneratorStateGeneratorMismatch u32 u32
  | RegionCoordinateMismatch i32 i32 i32 i32
  | InvalidIndexPages
  | IndexGenerationExhausted
  | ChunkOutsideRegion i32 i32 i32 i32
  | DuplicateChunkInCommit i32 i32
  | CorruptChunkRecord string
  | CorruptChunkPayload string
  | UnsupportedCompression u8
  | PayloadTooLarge nat nat
  | RecordTooLarge nat nat
  | InvalidSnapshot string
  | IndexRecordRevisionMismatch
  | IndexRecordCoordinateMismatch

datatype Compression = NoCompression | Zstd

datatype CompressionPolicy = PolicyNone | PolicyZstd | PolicyAdaptive

definition ADAPTIVE_COMPRESSION_MIN_SAVINGS :: nat where "ADAPTIVE_COMPRESSION_MIN_SAVINGS = 4096"

fun Compression_to_byte :: "Compression \<Rightarrow> u8" where
  "Compression_to_byte NoCompression = 0"
| "Compression_to_byte Zstd = 1"

definition Compression_from_byte :: "u8 \<Rightarrow> StorageError + Compression" where
  "Compression_from_byte v =
     (if v = 0 then Inr NoCompression else if v = 1 then Inr Zstd else Inl (UnsupportedCompression v))"

record ExtensionSection =
  section_tag :: u16
  section_version :: u16
  section_payload :: bytes

record StoredChunk =
  stored_position :: ChunkCoord
  stored_compression :: Compression
  stored_import :: ChunkImport
  stored_extensions :: "ExtensionSection list"

definition SEMANTIC_PREFIX_BYTES :: nat where "SEMANTIC_PREFIX_BYTES = BLOCK_COUNT + NIBBLE_BYTES * 3"
definition LEGACY_BIOME_BYTES :: nat where "LEGACY_BIOME_BYTES = COLUMN_COUNT"
definition BIOME_WORD_BYTES :: nat where "BIOME_WORD_BYTES = COLUMN_COUNT * 4"
definition SEMANTIC_BASE_BYTES :: nat where
  "SEMANTIC_BASE_BYTES = SEMANTIC_PREFIX_BYTES + BIOME_WORD_BYTES + COLUMN_COUNT + 4"

section \<open>Encoding\<close>

text \<open>The slot loop of the chest checks: the table of slots seen so far.\<close>

definition check_item :: "ChestItemStack \<Rightarrow> bool list \<Rightarrow> StorageError + bool list" where
  "check_item item seen =
     (if chest_slot item \<ge> 27 \<or> seen ! unat (chest_slot item)
      then Inl (InvalidSnapshot ''invalid or duplicate chest slot'')
      else let seen = seen[unat (chest_slot item) := True]
           in if chest_count item = 0 then Inl (InvalidSnapshot ''zero-count chest item'') else Inr seen)"

definition validate_chest_block_entity :: "ChestBlockEntity \<Rightarrow> StorageError + unit" where
  "validate_chest_block_entity entity =
     (if \<not> (0 \<le> sint (chest_y entity) \<and> sint (chest_y entity) < int HEIGHT)
      then Inl (InvalidSnapshot ''chest block-entity Y is out of range'')
      else if length (chest_items entity) > 27
      then Inl (InvalidSnapshot ''chest item count exceeds slot count'')
      else rbind (for_each check_item (chest_items entity) (replicate 27 False)) (\<lambda>_. Inr ()))"

definition extra_key_to_linear :: "u16 \<Rightarrow> StorageError + u16" where
  "extra_key_to_linear key =
     (let z = drop_bit 12 key AND 0x0f; x = drop_bit 8 key AND 0x0f; y = key AND 0x00ff
      in if unat y \<ge> HEIGHT then Inl (InvalidSnapshot ''extra-data internal Y is out of range'')
         else Inr (push_bit 8 y OR push_bit 4 z OR x))"

definition linear_to_extra_key :: "u16 \<Rightarrow> u16" where
  "linear_to_extra_key index =
     (let x = index AND 0x0f; z = drop_bit 4 index AND 0x0f; y = drop_bit 8 index AND 0x7f
      in push_bit 12 z OR push_bit 8 x OR y)"

definition payload_overflow :: StorageError where
  "payload_overflow = PayloadTooLarge usize_max MAX_CHUNK_PAYLOAD_BYTES"

text \<open>The size computation at the head of \<open>encode_semantic_payload\<close>.\<close>

definition payload_capacity :: "ChunkData \<Rightarrow> ExtensionSection list \<Rightarrow> StorageError + nat" where
  "payload_capacity d extensions =
     rbind (for_each (\<lambda>sec total.
              ok_or (Option.bind (usize_checked_add total 8)
                       (\<lambda>v. usize_checked_add v (length (section_payload sec)))) payload_overflow)
              extensions 0) (\<lambda>extension_bytes.
     rbind (ok_or (usize_checked_mul (length (extra_data d)) 4) payload_overflow) (\<lambda>extra_bytes.
     rbind (for_each (\<lambda>entity total.
              rbind (validate_chest_block_entity entity) (\<lambda>_.
              ok_or (Option.bind (usize_checked_add total 13)
                       (\<lambda>v. Option.bind (usize_checked_mul (length (chest_items entity)) 6) (usize_checked_add v)))
                payload_overflow))
              (chest_block_entities d) 4) (\<lambda>chest_bytes.
     ok_or (Option.bind (usize_checked_add SEMANTIC_BASE_BYTES extra_bytes)
              (\<lambda>v. Option.bind (usize_checked_add v chest_bytes) (\<lambda>v. usize_checked_add v extension_bytes)))
       payload_overflow)))"

definition state_plane_step :: "nat \<times> u16 \<Rightarrow> bytes \<times> bytes \<Rightarrow> StorageError + bytes \<times> bytes" where
  "state_plane_step entry planes =
     (case (entry, planes) of ((index, state), (payload, nibbles)) \<Rightarrow>
        if state > MAX_BLOCK_STATE_ID then Inl (InvalidSnapshot ''state exceeds fixed-target 12-bit range'')
        else let nibble = ucast (state AND 0x0f); i = drop_bit 1 index; byte = nibbles ! i
             in Inr (payload @ [ucast (drop_bit 4 state)],
                  nibbles[i := (if index AND 1 = 0 then (byte AND 0xf0) OR nibble
                                   else (byte AND 0x0f) OR push_bit 4 nibble)]))"

definition put_extra_entry :: "u16 \<times> u16 \<Rightarrow> bytes \<Rightarrow> StorageError + bytes" where
  "put_extra_entry kv payload =
     rbind (extra_key_to_linear (fst kv)) (\<lambda>linear. Inr (payload @ to_le_bytes linear @ to_le_bytes (snd kv)))"

definition item_bytes :: "ChestItemStack \<Rightarrow> bytes" where
  "item_bytes item =
     [chest_slot item] @ to_le_bytes (chest_item_id item) @ to_le_bytes (chest_damage item) @ [chest_count item]"

definition chest_bytes :: "ChestBlockEntity \<Rightarrow> bytes" where
  "chest_bytes entity =
     to_le_bytes (chest_x entity) @ to_le_bytes (chest_y entity) @ to_le_bytes (chest_z entity)
     @ [of_nat (length (chest_items entity))] @ concat (map item_bytes (chest_items entity))"

definition put_section :: "ExtensionSection \<Rightarrow> bytes \<Rightarrow> StorageError + bytes" where
  "put_section sec payload =
     rbind (ensure (length (section_payload sec) < 2 ^ 32)
              (PayloadTooLarge (length (section_payload sec)) (2 ^ 32 - 1))) (\<lambda>_.
     Inr (payload @ to_le_bytes (section_tag sec) @ to_le_bytes (section_version sec)
       @ to_le_bytes (of_nat (length (section_payload sec)) :: u32) @ section_payload sec))"

definition encode_semantic_payload :: "ChunkSnapshot \<Rightarrow> ExtensionSection list \<Rightarrow> StorageError + bytes" where
  "encode_semantic_payload snap extensions =
     (let d = snap_data snap
      in rbind (ensure (\<not> (length (states d) \<noteq> BLOCK_COUNT \<or> length (sky_light d) \<noteq> NIBBLE_BYTES
              \<or> length (block_light d) \<noteq> NIBBLE_BYTES \<or> length (biomes d) \<noteq> COLUMN_COUNT
              \<or> length (height_map d) \<noteq> COLUMN_COUNT)) (InvalidSnapshot ''plane length mismatch'')) (\<lambda>_.
         rbind (payload_capacity d extensions) (\<lambda>capacity.
         rbind (ensure (\<not> capacity > MAX_CHUNK_PAYLOAD_BYTES)
                  (PayloadTooLarge capacity MAX_CHUNK_PAYLOAD_BYTES)) (\<lambda>_.
         rbind (for_each state_plane_step (enumerate 0 (states d)) ([], replicate NIBBLE_BYTES 0)) (\<lambda>(ids, nibbles).
         let payload = ids @ nibbles @ sky_light d @ block_light d @ concat (map to_be_bytes (biomes d)) @ height_map d
         in rbind (ensure (length (extra_data d) < 2 ^ 32) (InvalidSnapshot ''extra-data count exceeds u32'')) (\<lambda>_.
            rbind (for_each put_extra_entry (extra_data d)
                     (payload @ to_le_bytes (of_nat (length (extra_data d)) :: u32))) (\<lambda>payload.
            rbind (ensure (length (chest_block_entities d) < 2 ^ 32)
                     (InvalidSnapshot ''chest block-entity count exceeds u32'')) (\<lambda>_.
            let payload = payload @ to_le_bytes (of_nat (length (chest_block_entities d)) :: u32)
                  @ concat (map chest_bytes (chest_block_entities d))
            in for_each put_section extensions payload))))))))"

section \<open>Decoding\<close>

definition read_payload_u8 :: "bytes \<Rightarrow> nat \<Rightarrow> StorageError + u8 \<times> nat" where
  "read_payload_u8 payload cursor =
     (if cursor < length payload then Inr (payload ! cursor, cursor + 1) else Inl (CorruptChunkPayload ''truncated u8''))"

definition read_payload_u16 :: "bytes \<Rightarrow> nat \<Rightarrow> StorageError + u16 \<times> nat" where
  "read_payload_u16 payload cursor =
     rbind (ok_or (usize_checked_add cursor 2) (CorruptChunkPayload ''payload offset overflow'')) (\<lambda>stop.
     if stop \<le> length payload then Inr (from_le_bytes (take 2 (drop cursor payload)), stop)
     else Inl (CorruptChunkPayload ''truncated u16''))"

definition read_payload_u32 :: "bytes \<Rightarrow> nat \<Rightarrow> StorageError + u32 \<times> nat" where
  "read_payload_u32 payload cursor =
     rbind (ok_or (usize_checked_add cursor 4) (CorruptChunkPayload ''payload offset overflow'')) (\<lambda>stop.
     if stop \<le> length payload then Inr (from_le_bytes (take 4 (drop cursor payload)), stop)
     else Inl (CorruptChunkPayload ''truncated u32''))"

definition read_payload_i16 :: "bytes \<Rightarrow> nat \<Rightarrow> StorageError + i16 \<times> nat" where
  "read_payload_i16 payload cursor = read_payload_u16 payload cursor"

definition read_payload_i32 :: "bytes \<Rightarrow> nat \<Rightarrow> StorageError + i32 \<times> nat" where
  "read_payload_i32 payload cursor = read_payload_u32 payload cursor"

text \<open>\<open>for _ in 0..n\<close> with a body that may return early.\<close>

fun repeat_n :: "nat \<Rightarrow> ('s \<Rightarrow> 'e + 's) \<Rightarrow> 's \<Rightarrow> 'e + 's" where
  "repeat_n 0 f s = Inr s"
| "repeat_n (Suc n) f s = rbind (f s) (repeat_n n f)"

fun as_chunks_4 :: "bytes \<Rightarrow> bytes list" where
  "as_chunks_4 (a # b # c # d # bs) = [a, b, c, d] # as_chunks_4 bs"
| "as_chunks_4 bs = []"

definition decode_state :: "bytes \<Rightarrow> bytes \<Rightarrow> nat \<Rightarrow> u16" where
  "decode_state ids data index =
     (let nibble = (if index AND 1 = 0 then data ! drop_bit 1 index AND 0x0f else drop_bit 4 (data ! drop_bit 1 index))
      in push_bit 4 (ucast (ids ! index)) OR ucast nibble)"

definition decode_biomes :: "u16 \<Rightarrow> bytes \<Rightarrow> StorageError + u32 list" where
  "decode_biomes semantic_version bs =
     (if semantic_version = LEGACY_SEMANTIC_PAYLOAD_VERSION
      then collect_results (\<lambda>i. ok_or (default_biome_word i) (CorruptChunkPayload ''unsupported legacy biome id'')) bs
      else Inr (map from_be_bytes (as_chunks_4 bs)))"

definition read_extra_entry :: "bytes \<Rightarrow> nat \<times> (u16 \<times> u16) list \<Rightarrow> StorageError + nat \<times> (u16 \<times> u16) list" where
  "read_extra_entry payload s =
     (case s of (cursor, extra) \<Rightarrow>
        rbind (read_payload_u16 payload cursor) (\<lambda>(linear, cursor).
        rbind (read_payload_u16 payload cursor) (\<lambda>(v, cursor).
        if unat linear \<ge> BLOCK_COUNT then Inl (CorruptChunkPayload ''extra-data block index out of range'')
        else let key = linear_to_extra_key linear
             in if map_of extra key \<noteq> None then Inl (CorruptChunkPayload ''duplicate extra-data block index'')
                else Inr (cursor, bt_insert key v extra))))"

definition read_item :: "bytes \<Rightarrow> nat \<times> bool list \<times> ChestItemStack list \<Rightarrow> StorageError + nat \<times> bool list \<times> ChestItemStack list" where
  "read_item payload s =
     (case s of (cursor, seen, items) \<Rightarrow>
        rbind (read_payload_u8 payload cursor) (\<lambda>(slot, cursor).
        if slot \<ge> 27 \<or> seen ! unat slot then Inl (CorruptChunkPayload ''invalid or duplicate chest slot'')
        else let seen = seen[unat slot := True]
             in rbind (read_payload_i16 payload cursor) (\<lambda>(item_id, cursor).
                rbind (read_payload_i16 payload cursor) (\<lambda>(damage, cursor).
                rbind (read_payload_u8 payload cursor) (\<lambda>(count, cursor).
                if count = 0 then Inl (CorruptChunkPayload ''zero-count chest item'')
                else Inr (cursor, seen, items @ [\<lparr>chest_slot = slot, chest_item_id = item_id,
                       chest_damage = damage, chest_count = count\<rparr>]))))))"

definition read_chest :: "bytes \<Rightarrow> nat \<times> ChestBlockEntity list \<Rightarrow> StorageError + nat \<times> ChestBlockEntity list" where
  "read_chest payload s =
     (case s of (cursor, chests) \<Rightarrow>
        rbind (read_payload_i32 payload cursor) (\<lambda>(x, cursor).
        rbind (read_payload_i32 payload cursor) (\<lambda>(y, cursor).
        rbind (read_payload_i32 payload cursor) (\<lambda>(z, cursor).
        if \<not> (0 \<le> sint y \<and> sint y < int HEIGHT)
        then Inl (CorruptChunkPayload ''chest block-entity Y is out of range'')
        else rbind (read_payload_u8 payload cursor) (\<lambda>(item_count, cursor).
             if unat item_count > 27 then Inl (CorruptChunkPayload ''chest item count exceeds slot count'')
             else rbind (repeat_n (unat item_count) (read_item payload) (cursor, replicate 27 False, [])) (\<lambda>(cursor, _, items).
                  Inr (cursor, chests @ [\<lparr>chest_x = x, chest_y = y, chest_z = z, chest_items = items\<rparr>])))))))"

text \<open>The body of the extension loop, and the loop: every turn moves the cursor on by at least eight bytes.\<close>

definition read_section :: "bytes \<Rightarrow> nat \<Rightarrow> StorageError + ExtensionSection \<times> nat" where
  "read_section payload cursor =
     (if length payload - cursor < 8 then Inl (CorruptChunkPayload ''truncated extension header'')
      else rbind (read_payload_u16 payload cursor) (\<lambda>(tag, cursor).
           rbind (read_payload_u16 payload cursor) (\<lambda>(version, cursor).
           rbind (read_payload_u32 payload cursor) (\<lambda>(len, cursor).
           rbind (ok_or (usize_checked_add cursor (unat len)) (CorruptChunkPayload ''extension length overflow'')) (\<lambda>stop.
           if stop > length payload then Inl (CorruptChunkPayload ''truncated extension payload'')
           else Inr (\<lparr>section_tag = tag, section_version = version,
                  section_payload = take (stop - cursor) (drop cursor payload)\<rparr>, stop))))))"

lemma read_payload_u16_Inr:
  "read_payload_u16 p c = Inr (v, c') \<longleftrightarrow> c' = c + 2 \<and> c' \<le> usize_max \<and> c' \<le> length p \<and> v = from_le_bytes (take 2 (drop c p))"
  by (auto simp: read_payload_u16_def result_simps split: if_splits)

lemma read_payload_u32_Inr:
  "read_payload_u32 p c = Inr (v, c') \<longleftrightarrow> c' = c + 4 \<and> c' \<le> usize_max \<and> c' \<le> length p \<and> v = from_le_bytes (take 4 (drop c p))"
  by (auto simp: read_payload_u32_def result_simps split: if_splits)

lemma read_section_advances: "read_section p c = Inr (s, c') \<Longrightarrow> c + 8 \<le> c' \<and> c' \<le> length p"
  by (auto simp: read_section_def result_simps read_payload_u16_Inr read_payload_u32_Inr split: if_splits prod.splits)

function read_extensions :: "bytes \<Rightarrow> nat \<Rightarrow> ExtensionSection list \<Rightarrow> StorageError + ExtensionSection list" where
  "read_extensions payload cursor acc =
     (if cursor < length payload
      then case read_section payload cursor of
             Inl e \<Rightarrow> Inl e
           | Inr (sec, cursor) \<Rightarrow> read_extensions payload cursor (acc @ [sec])
      else Inr acc)"
  by pat_completeness auto
termination
  by (relation "measure (\<lambda>(payload, cursor, _). length payload - cursor)") (auto dest: read_section_advances)

declare read_extensions.simps [simp del]

definition read_extra :: "bytes \<Rightarrow> nat \<Rightarrow> StorageError + nat \<times> (u16 \<times> u16) list" where
  "read_extra payload cursor =
     rbind (read_payload_u32 payload cursor) (\<lambda>(extra_count, cursor).
     if unat extra_count > BLOCK_COUNT then Inl (CorruptChunkPayload ''extra-data count exceeds block count'')
     else rbind (ok_or (usize_checked_mul (unat extra_count) 4) (CorruptChunkPayload ''extra-data size overflow'')) (\<lambda>extra_bytes.
          if length payload - cursor < extra_bytes then Inl (CorruptChunkPayload ''truncated extra-data entries'')
          else repeat_n (unat extra_count) (read_extra_entry payload) (cursor, [])))"

definition read_chests :: "bytes \<Rightarrow> nat \<Rightarrow> StorageError + nat \<times> ChestBlockEntity list" where
  "read_chests payload cursor =
     rbind (read_payload_u32 payload cursor) (\<lambda>(chest_count, cursor).
     if unat chest_count > BLOCK_COUNT then Inl (CorruptChunkPayload ''chest block-entity count exceeds block count'')
     else repeat_n (unat chest_count) (read_chest payload) (cursor, []))"

definition slice_of :: "nat \<Rightarrow> nat \<Rightarrow> 'a list \<Rightarrow> 'a list" where
  "slice_of start stop xs = take (stop - start) (drop start xs)"

definition decode_semantic_payload :: "bytes \<Rightarrow> u16 \<Rightarrow> StorageError + ChunkData \<times> ExtensionSection list" where
  "decode_semantic_payload payload semantic_version =
     rbind (if semantic_version = LEGACY_SEMANTIC_PAYLOAD_VERSION then Inr LEGACY_BIOME_BYTES
            else if semantic_version = BIOME_WORD_SEMANTIC_PAYLOAD_VERSION \<or> semantic_version = SEMANTIC_PAYLOAD_VERSION
            then Inr BIOME_WORD_BYTES
            else Inl (CorruptChunkPayload ''unsupported semantic payload version'')) (\<lambda>biome_bytes.
     rbind (ensure (\<not> length payload < SEMANTIC_PREFIX_BYTES + biome_bytes + COLUMN_COUNT + 4)
              (CorruptChunkPayload ''truncated base planes'')) (\<lambda>_.
     let ids_end = BLOCK_COUNT; data_end = ids_end + NIBBLE_BYTES; sky_end = data_end + NIBBLE_BYTES;
         block_end = sky_end + NIBBLE_BYTES; biome_end = block_end + biome_bytes; height_end = biome_end + COLUMN_COUNT;
         ids = slice_of 0 ids_end payload; data = slice_of ids_end data_end payload
     in rbind (decode_biomes semantic_version (slice_of block_end biome_end payload)) (\<lambda>words.
        rbind (read_extra payload height_end) (\<lambda>(cursor, extra).
        rbind (if semantic_version = SEMANTIC_PAYLOAD_VERSION then read_chests payload cursor else Inr (cursor, [])) (\<lambda>(cursor, chests).
        rbind (read_extensions payload cursor []) (\<lambda>extensions.
        Inr (\<lparr>states = map (decode_state ids data) [0..<BLOCK_COUNT], sky_light = slice_of data_end sky_end payload,
              block_light = slice_of sky_end block_end payload, biomes = words,
              height_map = slice_of biome_end height_end payload, extra_data = extra,
              chest_block_entities = chests\<rparr>, extensions)))))))"

section \<open>Bytes found at a cursor\<close>

definition found :: "bytes \<Rightarrow> nat \<Rightarrow> bytes \<Rightarrow> nat \<Rightarrow> bool" where
  "found p c bs c' \<longleftrightarrow> c' = c + length bs \<and> c' \<le> length p \<and> take (length bs) (drop c p) = bs"

lemma found_append: "found p c (a @ b) c' \<longleftrightarrow> (\<exists>m. found p c a m \<and> found p m b c')"
  by (auto simp: found_def take_add add.commute add.left_commute)

lemma found_Nil [simp]: "found p c [] c' \<longleftrightarrow> c' = c \<and> c \<le> length p"
  by (auto simp: found_def)

lemma found_middle: "found (a @ bs @ z) (length a) bs (length a + length bs)"
  by (simp add: found_def)

lemma found_le: "found p c bs c' \<Longrightarrow> c' \<le> length p"
  by (simp add: found_def)

lemma read_u8_found: "found p c [b] c' \<Longrightarrow> read_payload_u8 p c = Inr (b, c')"
  by (auto simp: found_def read_payload_u8_def take_Suc_conv_app_nth)

lemma read_u16_found:
  "found p c (to_le_bytes (v :: u16)) c' \<Longrightarrow> length p \<le> usize_max \<Longrightarrow> read_payload_u16 p c = Inr (v, c')"
  "found p c (to_le_bytes (v :: u16)) c' \<Longrightarrow> length p \<le> usize_max \<Longrightarrow> read_payload_i16 p c = Inr (v, c')"
  by (auto simp: found_def read_payload_u16_Inr read_payload_i16_def)

lemma read_u32_found:
  "found p c (to_le_bytes (v :: u32)) c' \<Longrightarrow> length p \<le> usize_max \<Longrightarrow> read_payload_u32 p c = Inr (v, c')"
  "found p c (to_le_bytes (v :: u32)) c' \<Longrightarrow> length p \<le> usize_max \<Longrightarrow> read_payload_i32 p c = Inr (v, c')"
  by (auto simp: found_def read_payload_u32_Inr read_payload_i32_def)

lemmas reads_found = read_u8_found read_u16_found read_u32_found

text \<open>
  A counted loop over consecutive encodings: \<open>acc pre\<close> is the loop state after the elements \<open>pre\<close>, and the body, run at
  the encoding of the next element, steps to the state after it.
\<close>

lemma repeat_found:
  assumes "\<And>pre x suf c c1. xs = pre @ x # suf \<Longrightarrow> found p c (enc x) c1 \<Longrightarrow> f (c, acc pre) = Inr (c1, acc (pre @ [x]))"
    and "found p c (concat (map enc xs)) c'"
  shows "repeat_n (length xs) f (c, acc []) = Inr (c', acc xs)"
proof -
  have "repeat_n (length suf) f (c, acc pre) = Inr (c', acc xs)"
    if "xs = pre @ suf" "found p c (concat (map enc suf)) c'" for pre suf c
    using that
  proof (induction suf arbitrary: pre c)
    case Nil
    then show ?case by simp
  next
    case (Cons x suf)
    then obtain m where m: "found p c (enc x) m" "found p m (concat (map enc suf)) c'" by (auto simp: found_append)
    from assms(1) [OF Cons.prems(1) m(1)] Cons.IH [of "pre @ [x]", OF _ m(2)] Cons.prems(1) show ?case by simp
  qed
  from this [of "[]" xs c] assms(2) show ?thesis by simp
qed

section \<open>Chest items\<close>

definition items_ok :: "ChestItemStack list \<Rightarrow> bool" where
  "items_ok items \<longleftrightarrow> distinct (map chest_slot items) \<and> (\<forall>it \<in> set items. chest_slot it < 27 \<and> chest_count it \<noteq> 0)"

definition slot_table :: "ChestItemStack list \<Rightarrow> bool list" where
  "slot_table items = map (\<lambda>i. i \<in> (unat \<circ> chest_slot) ` set items) [0..<27]"

lemma slot_table_Nil: "slot_table [] = replicate 27 False"
  by (simp add: slot_table_def map_replicate_const)

lemma slot_table_nth: "slot < 27 \<Longrightarrow> slot_table items ! unat slot \<longleftrightarrow> slot \<in> chest_slot ` set items"
  by (auto simp: slot_table_def word_less_nat_alt word_unat_eq_iff image_iff)

lemma slot_table_snoc:
  "chest_slot it < 27 \<Longrightarrow> (slot_table items)[unat (chest_slot it) := True] = slot_table (items @ [it])"
  by (rule nth_equalityI) (auto simp: slot_table_def word_less_nat_alt nth_list_update)

lemma check_item_Inr:
  "check_item it (slot_table pre) = Inr t \<longleftrightarrow>
     chest_slot it < 27 \<and> chest_slot it \<notin> chest_slot ` set pre \<and> chest_count it \<noteq> 0 \<and> t = slot_table (pre @ [it])"
  by (auto simp: check_item_def Let_def not_le slot_table_nth slot_table_snoc)

lemma for_each_check_item:
  "for_each check_item suf (slot_table pre) = Inr t \<Longrightarrow> items_ok pre \<Longrightarrow> items_ok (pre @ suf)"
proof (induction suf arbitrary: pre)
  case Nil
  then show ?case by simp
next
  case (Cons it suf)
  then have "items_ok (pre @ [it])" and "for_each check_item suf (slot_table (pre @ [it])) = Inr t"
    by (auto simp: rbind_Inr_iff check_item_Inr items_ok_def)
  with Cons.IH [of "pre @ [it]"] show ?case by simp
qed

definition chest_ok :: "ChestBlockEntity \<Rightarrow> bool" where
  "chest_ok e \<longleftrightarrow> 0 \<le> sint (chest_y e) \<and> sint (chest_y e) < int HEIGHT \<and> length (chest_items e) \<le> 27 \<and> items_ok (chest_items e)"

lemma validate_chest_ok: "validate_chest_block_entity e = Inr u \<Longrightarrow> chest_ok e"
  using for_each_check_item [of "chest_items e" "[]"]
  by (auto simp: validate_chest_block_entity_def chest_ok_def rbind_Inr_iff slot_table_Nil items_ok_def split: if_splits)

lemma for_each_check_item_ok: "items_ok (pre @ suf) \<Longrightarrow> \<exists>t. for_each check_item suf (slot_table pre) = Inr t"
proof (induction suf arbitrary: pre)
  case Nil
  then show ?case by simp
next
  case (Cons it suf)
  then have "check_item it (slot_table pre) = Inr (slot_table (pre @ [it]))" by (auto simp: check_item_Inr items_ok_def)
  moreover obtain t where "for_each check_item suf (slot_table (pre @ [it])) = Inr t" using Cons.IH [of "pre @ [it]"] Cons.prems by auto
  ultimately show ?case by simp
qed

lemma validate_chest_ok_iff: "validate_chest_block_entity e = Inr u \<longleftrightarrow> chest_ok e"
  using for_each_check_item_ok [of "[]" "chest_items e"] validate_chest_ok [of e]
  by (auto simp: validate_chest_block_entity_def chest_ok_def slot_table_Nil split: if_splits)

lemma read_item_found:
  assumes "found p c (item_bytes it) c'" and "length p \<le> usize_max"
    and ok: "chest_slot it < 27" "chest_slot it \<notin> chest_slot ` set pre" "chest_count it \<noteq> 0"
  shows "read_item p (c, slot_table pre, pre) = Inr (c', slot_table (pre @ [it]), pre @ [it])"
proof -
  obtain m1 m2 m3 where "found p c [chest_slot it] m1" "found p m1 (to_le_bytes (chest_item_id it)) m2"
      "found p m2 (to_le_bytes (chest_damage it)) m3" "found p m3 [chest_count it] c'"
    using assms(1) unfolding item_bytes_def found_append by blast
  then show ?thesis
    using ok by (simp add: read_item_def reads_found assms(2) Let_def slot_table_nth slot_table_snoc not_le)
qed

lemma read_items_found:
  assumes "found p c (concat (map item_bytes items)) c'" and "length p \<le> usize_max" and "items_ok items"
  shows "repeat_n (length items) (read_item p) (c, replicate 27 False, []) = Inr (c', slot_table items, items)"
proof -
  have "repeat_n (length items) (read_item p) (c, (\<lambda>pre. (slot_table pre, pre)) []) = Inr (c', (\<lambda>pre. (slot_table pre, pre)) items)"
    by (rule repeat_found [OF _ assms(1)]) (use assms(3) in \<open>auto simp: items_ok_def intro!: read_item_found [OF _ assms(2)]\<close>)
  then show ?thesis by (simp add: slot_table_Nil)
qed

lemma read_chest_found:
  assumes "found p c (chest_bytes e) c'" and len: "length p \<le> usize_max" and "chest_ok e"
  shows "read_chest p (c, pre) = Inr (c', pre @ [e])"
proof -
  obtain m1 m2 m3 m4 where m: "found p c (to_le_bytes (chest_x e)) m1" "found p m1 (to_le_bytes (chest_y e)) m2"
      "found p m2 (to_le_bytes (chest_z e)) m3" "found p m3 [of_nat (length (chest_items e))] m4"
      "found p m4 (concat (map item_bytes (chest_items e))) c'"
    using assms(1) unfolding chest_bytes_def found_append by blast
  have "unat (of_nat (length (chest_items e)) :: u8) = length (chest_items e)"
    using assms(3) by (simp add: chest_ok_def unat_of_nat)
  then show ?thesis
    using assms(3) read_items_found [OF m(5) len] by (simp add: read_chest_def read_u32_found [OF m(1) len] read_u32_found [OF m(2) len] read_u32_found [OF m(3) len] read_u8_found [OF m(4)] chest_ok_def)
qed

section \<open>Extra-data keys\<close>

lemma key_bits:
  "bit (0x0f :: u16) n \<longleftrightarrow> n < 4" "bit (0x7f :: u16) n \<longleftrightarrow> n < 7" "bit (0x00ff :: u16) n \<longleftrightarrow> n < 8"
proof -
  have "(0x0f :: u16) = mask 4" "(0x7f :: u16) = mask 7" "(0x00ff :: u16) = mask 8" by (simp_all add: mask_eq_exp_minus_1)
  then show "bit (0x0f :: u16) n \<longleftrightarrow> n < 4" "bit (0x7f :: u16) n \<longleftrightarrow> n < 7" "bit (0x00ff :: u16) n \<longleftrightarrow> n < 8"
    by (simp_all only: bit_mask_iff) auto
qed

lemma word_bits_bound: "unat (w :: 'w::len word) < 2 ^ k \<longleftrightarrow> (\<forall>n. bit w n \<longrightarrow> n < k)"
proof -
  have "unat w < 2 ^ k \<longleftrightarrow> take_bit k w = w"
    by (simp only: word_unat_eq_iff unsigned_take_bit_eq take_bit_nat_eq_self_iff)
  also have "\<dots> \<longleftrightarrow> (\<forall>n. bit w n \<longrightarrow> n < k)"
    using bit_imp_le_length [of w] by (fastforce simp: bit_eq_iff bit_take_bit_iff)
  finally show ?thesis .
qed

lemma bit_key_linear:
  "bit (push_bit 8 (key AND 0x00ff) OR push_bit 4 (drop_bit 12 key AND 0x0f) OR (drop_bit 8 key AND 0x0f) :: u16) n \<longleftrightarrow>
     n < 16 \<and> (if n < 4 then bit key (n + 8) else if n < 8 then bit key (n + 8) else bit key (n - 8))"
  using bit_imp_le_length [of key "n + 8"]
  unfolding bit_or_iff bit_push_bit_iff bit_and_iff bit_drop_bit_eq key_bits by (auto simp: not_less add.commute)

lemma bit_linear_key:
  "bit (linear_to_extra_key l) n \<longleftrightarrow>
     n < 16 \<and> (if n < 8 then n < 7 \<and> bit l (n + 8) else bit l (n - 8))"
  unfolding linear_to_extra_key_def Let_def bit_or_iff bit_push_bit_iff bit_and_iff bit_drop_bit_eq key_bits
  by (auto simp: not_less add.commute)

lemma extra_key_roundtrip:
  assumes "extra_key_to_linear key = Inr l"
  shows "linear_to_extra_key l = key" and "unat l < BLOCK_COUNT"
proof -
  have y: "unat (key AND 0x00ff) < 2 ^ 7"
    and l: "l = push_bit 8 (key AND 0x00ff) OR push_bit 4 (drop_bit 12 key AND 0x0f) OR (drop_bit 8 key AND 0x0f)"
    using assms by (auto simp: extra_key_to_linear_def Let_def shape_numerals split: if_splits)
  have key7: "\<not> bit key 7" using y unfolding word_bits_bound bit_and_iff key_bits by auto
  show "linear_to_extra_key l = key"
  proof (rule bit_word_eqI)
    fix n assume "n < LENGTH(16)"
    then show "bit (linear_to_extra_key l) n = bit key n"
      unfolding bit_linear_key l bit_key_linear using key7 by (cases "n = 7") auto
  qed
  have "unat l < 2 ^ 15"
    unfolding word_bits_bound l bit_key_linear using key7 by (auto simp: less_Suc_eq numeral_eq_Suc)
  then show "unat l < BLOCK_COUNT" by (simp add: shape_numerals)
qed

section \<open>The layout of a payload\<close>

definition extra_entry_bytes :: "u16 \<times> u16 \<Rightarrow> bytes" where
  "extra_entry_bytes kv = to_le_bytes (projr (extra_key_to_linear (fst kv))) @ to_le_bytes (snd kv)"

definition section_bytes :: "ExtensionSection \<Rightarrow> bytes" where
  "section_bytes sec = to_le_bytes (section_tag sec) @ to_le_bytes (section_version sec)
     @ to_le_bytes (of_nat (length (section_payload sec)) :: u32) @ section_payload sec"

definition base_bytes :: "ChunkData \<Rightarrow> bytes" where
  "base_bytes d = fst (block_planes (states d)) @ snd (block_planes (states d)) @ sky_light d @ block_light d
     @ concat (map to_be_bytes (biomes d)) @ height_map d"

definition semantic_layout :: "ChunkData \<Rightarrow> ExtensionSection list \<Rightarrow> bytes" where
  "semantic_layout d extensions =
     base_bytes d
     @ (to_le_bytes (of_nat (length (extra_data d)) :: u32) @ concat (map extra_entry_bytes (extra_data d)))
     @ (to_le_bytes (of_nat (length (chest_block_entities d)) :: u32) @ concat (map chest_bytes (chest_block_entities d)))
     @ concat (map section_bytes extensions)"

definition planes_sized :: "ChunkData \<Rightarrow> bool" where
  "planes_sized d \<longleftrightarrow> length (states d) = BLOCK_COUNT \<and> length (sky_light d) = NIBBLE_BYTES
     \<and> length (block_light d) = NIBBLE_BYTES \<and> length (biomes d) = COLUMN_COUNT \<and> length (height_map d) = COLUMN_COUNT"

text \<open>What the encoder accepts, apart from the size limit.\<close>

definition encodable :: "ChunkData \<Rightarrow> ExtensionSection list \<Rightarrow> bool" where
  "encodable d extensions \<longleftrightarrow> planes_sized d \<and> list_all (\<lambda>st. st \<le> MAX_BLOCK_STATE_ID) (states d)
     \<and> list_all (\<lambda>kv. \<not> isl (extra_key_to_linear (fst kv))) (extra_data d) \<and> list_all chest_ok (chest_block_entities d)
     \<and> length (chest_block_entities d) < 2 ^ 32 \<and> list_all (\<lambda>sec. length (section_payload sec) < 2 ^ 32) extensions"

lemma for_each_fold:
  assumes "for_each f xs s = Inr t" and "\<And>x s t. f x s = Inr t \<Longrightarrow> t = g x s \<and> Q x"
  shows "t = fold g xs s \<and> list_all Q xs"
  using assms(1)
proof (induction xs arbitrary: s)
  case Nil
  then show ?case by simp
next
  case (Cons x xs)
  then obtain u where u: "f x s = Inr u" "for_each f xs u = Inr t" by (auto simp: rbind_Inr_iff)
  with Cons.IH [OF u(2)] assms(2) [OF u(1)] show ?case by simp
qed

lemma fold_append_bytes: "fold (\<lambda>x p. p @ enc x) xs p = p @ concat (map enc xs)"
  by (induction xs arbitrary: p) auto

lemma fold_add_length: "fold (\<lambda>x n. n + length (enc x)) xs n = n + length (concat (map enc xs))"
  by (induction xs arbitrary: n) auto

lemma for_each_state_plane:
  assumes "for_each state_plane_step (enumerate n sts) planes = Inr r"
  shows "r = fold plane_step (enumerate n sts) planes \<and> list_all (\<lambda>st. st \<le> MAX_BLOCK_STATE_ID) sts"
proof -
  have "r = fold plane_step (enumerate n sts) planes \<and> list_all (\<lambda>(_, st). st \<le> MAX_BLOCK_STATE_ID) (enumerate n sts)"
    by (rule for_each_fold [OF assms])
      (auto simp: state_plane_step_def plane_step_def Let_def not_less split: prod.splits if_splits)
  moreover have "list_all (\<lambda>(_, st). P st) (enumerate n sts) \<longleftrightarrow> list_all P sts" for P
    by (auto simp: list_all_length nth_enumerate_eq)
  ultimately show ?thesis by blast
qed

lemma for_each_put_extra:
  "for_each put_extra_entry es p0 = Inr p \<Longrightarrow>
     p = p0 @ concat (map extra_entry_bytes es) \<and> list_all (\<lambda>kv. \<not> isl (extra_key_to_linear (fst kv))) es"
  unfolding fold_append_bytes [symmetric]
  by (erule for_each_fold) (auto simp: rbind_Inr_iff put_extra_entry_def extra_entry_bytes_def)

lemma for_each_put_section:
  "for_each put_section es p0 = Inr p \<Longrightarrow>
     p = p0 @ concat (map section_bytes es) \<and> list_all (\<lambda>sec. length (section_payload sec) < 2 ^ 32) es"
  unfolding fold_append_bytes [symmetric]
  by (erule for_each_fold) (auto simp: rbind_Inr_iff ensure_Inr_iff put_section_def section_bytes_def)

lemma for_each_sections_size:
  "for_each (\<lambda>sec total. ok_or (Option.bind (usize_checked_add total 8)
       (\<lambda>v. usize_checked_add v (length (section_payload sec)))) e) es n = Inr t
     \<Longrightarrow> t = n + length (concat (map section_bytes es)) \<and> list_all (\<lambda>_. True) es"
  unfolding fold_add_length [symmetric]
  by (erule for_each_fold) (auto simp: result_simps section_bytes_def bind_eq_Some_conv)

lemma length_chest_bytes: "length (chest_bytes e) = 13 + length (chest_items e) * 6"
proof -
  have "length (concat (map item_bytes items)) = length items * 6" for items
    by (induction items) (simp_all add: item_bytes_def)
  then show ?thesis by (simp add: chest_bytes_def)
qed

lemma for_each_chests_size:
  "for_each (\<lambda>entity total. rbind (validate_chest_block_entity entity) (\<lambda>_.
       ok_or (Option.bind (usize_checked_add total 13)
         (\<lambda>v. Option.bind (usize_checked_mul (length (chest_items entity)) 6) (usize_checked_add v))) e)) es n = Inr t
     \<Longrightarrow> t = n + length (concat (map chest_bytes es)) \<and> list_all chest_ok es"
  unfolding fold_add_length [symmetric]
  by (erule for_each_fold) (auto simp: result_simps length_chest_bytes bind_eq_Some_conv dest: validate_chest_ok)

lemma length_base_bytes:
  assumes "planes_sized d"
  shows "length (base_bytes d) = SEMANTIC_PREFIX_BYTES + BIOME_WORD_BYTES + COLUMN_COUNT"
  using assms block_planes_spec(1,2) [of "states d"]
  by (simp add: base_bytes_def planes_sized_def SEMANTIC_PREFIX_BYTES_def BIOME_WORD_BYTES_def)

lemma length_extra_entries: "length (concat (map extra_entry_bytes es)) = 4 * length es"
  by (induction es) (auto simp: extra_entry_bytes_def)

lemma payload_capacity_Inr:
  assumes "payload_capacity d es = Inr n" and "planes_sized d"
  shows "n = length (semantic_layout d es)" and "list_all chest_ok (chest_block_entities d)"
  using assms(1) length_base_bytes [OF assms(2)]
  by (auto simp: payload_capacity_def result_simps semantic_layout_def SEMANTIC_BASE_BYTES_def length_extra_entries
      bind_eq_Some_conv
      dest!: for_each_sections_size for_each_chests_size)

text \<open>An encoded payload is exactly the layout, and it fits.\<close>

lemma encode_semantic_payload_Inr:
  assumes "encode_semantic_payload snap es = Inr p"
  shows "p = semantic_layout (snap_data snap) es" and "encodable (snap_data snap) es" and "length p \<le> MAX_CHUNK_PAYLOAD_BYTES"
proof -
  let ?d = "snap_data snap"
  from assms obtain n planes p1 where sized: "planes_sized ?d" and cap: "payload_capacity ?d es = Inr n" "n \<le> MAX_CHUNK_PAYLOAD_BYTES"
    and planes: "for_each state_plane_step (enumerate 0 (states ?d)) ([], replicate NIBBLE_BYTES 0) = Inr planes"
    and extra: "for_each put_extra_entry (extra_data ?d) ((fst planes @ snd planes @ sky_light ?d @ block_light ?d
          @ concat (map to_be_bytes (biomes ?d)) @ height_map ?d) @ to_le_bytes (of_nat (length (extra_data ?d)) :: u32)) = Inr p1"
    and sec: "for_each put_section es (p1 @ to_le_bytes (of_nat (length (chest_block_entities ?d)) :: u32)
          @ concat (map chest_bytes (chest_block_entities ?d))) = Inr p"
    and chests: "length (chest_block_entities ?d) < 2 ^ 32"
    by (auto simp: encode_semantic_payload_def Let_def rbind_Inr_iff ensure_Inr_iff planes_sized_def split: prod.splits)
  note parts = for_each_state_plane [OF planes] for_each_put_extra [OF extra] for_each_put_section [OF sec]
  show p: "p = semantic_layout ?d es" using parts by (simp add: semantic_layout_def base_bytes_def block_planes_def)
  show "encodable ?d es" using parts sized chests payload_capacity_Inr(2) [OF cap(1) sized] by (simp add: encodable_def)
  show "length p \<le> MAX_CHUNK_PAYLOAD_BYTES" using payload_capacity_Inr(1) [OF cap(1) sized] cap(2) p by simp
qed

section \<open>Decoding a layout\<close>

lemma drop_bit_4_mask: "drop_bit 4 (b :: u8) AND 0x0f = drop_bit 4 b"
  by (rule bit_word_eqI) (use bit_imp_le_length [of b] in \<open>unfold bit_and_iff bit_0f bit_drop_bit_eq, force\<close>)

lemma decode_state_alt: "decode_state ids data i = join_state (ids ! i) (read_nibble data i)"
  by (simp add: decode_state_def join_state_def read_nibble_def Let_def drop_bit_4_mask)

lemma decode_states:
  assumes "length sts = BLOCK_COUNT" and "list_all (\<lambda>st. st \<le> MAX_BLOCK_STATE_ID) sts"
  shows "map (decode_state (fst (block_planes sts)) (snd (block_planes sts))) [0..<BLOCK_COUNT] = sts"
  using assms block_planes_spec [OF assms(1)]
  by (intro nth_equalityI) (auto simp: decode_state_alt join_split_state list_all_length MAX_BLOCK_STATE_ID_def)

lemma as_chunks_4_append: "length x = 4 \<Longrightarrow> as_chunks_4 (x @ bs) = x # as_chunks_4 bs"
  by (auto simp: numeral_eq_Suc length_Suc_conv)

lemma decode_biome_words: "map from_be_bytes (as_chunks_4 (concat (map to_be_bytes ws))) = (ws :: u32 list)"
  by (induction ws) (auto simp: as_chunks_4_append)

lemma read_extra_entry_found:
  assumes "found p c (extra_entry_bytes kv) c'" and len: "length p \<le> usize_max"
    and key: "\<not> isl (extra_key_to_linear (fst kv))" and above: "\<forall>k \<in> fst ` set pre. k < fst kv"
  shows "read_extra_entry p (c, pre) = Inr (c', pre @ [kv])"
proof -
  obtain l where l: "extra_key_to_linear (fst kv) = Inr l" using key by (cases "extra_key_to_linear (fst kv)") auto
  obtain m where m: "found p c (to_le_bytes l) m" "found p m (to_le_bytes (snd kv)) c'"
    using assms(1) by (auto simp: extra_entry_bytes_def l found_append)
  have "map_of pre (fst kv) = None" using above by (auto simp: map_of_eq_None_iff)
  then show ?thesis
    using extra_key_roundtrip [OF l] bt_insert_last [OF above, of "snd kv"]
    by (simp add: read_extra_entry_def read_u16_found [OF m(1) len] read_u16_found [OF m(2) len] Let_def)
qed

lemma payload_extra_bound:
  assumes "bt_wf es" and "list_all (\<lambda>kv. \<not> isl (extra_key_to_linear (fst kv))) es"
  shows "length es \<le> BLOCK_COUNT"
proof -
  let ?f = "\<lambda>k. unat (projr (extra_key_to_linear k))"
  have ok: "\<exists>l. extra_key_to_linear k = Inr l" if "k \<in> fst ` set es" for k
    using that assms(2) by (auto simp: list_all_iff isl_def) (metis fst_conv old.sum.exhaust)
  have inj: "inj_on ?f (fst ` set es)"
    by (rule inj_onI) (metis ok extra_key_roundtrip(1) sum.sel(2) word_unat_eq_iff)
  have "distinct (map fst es)" using assms(1) by (simp add: bt_wf_def strict_sorted_iff)
  then have "length es = card (fst ` set es)" by (metis distinct_card length_map list.set_map)
  also have "\<dots> \<le> card {..<BLOCK_COUNT}"
    by (rule card_inj_on_le [OF inj]) (use ok extra_key_roundtrip(2) in \<open>force+\<close>)
  finally show ?thesis by simp
qed

lemma read_extra_found:
  assumes found: "found p c (to_le_bytes (of_nat (length es) :: u32) @ concat (map extra_entry_bytes es)) c'"
    and len: "length p \<le> usize_max" and wf: "bt_wf es" and keys: "list_all (\<lambda>kv. \<not> isl (extra_key_to_linear (fst kv))) es"
  shows "read_extra p c = Inr (c', es)"
proof -
  obtain m where m: "found p c (to_le_bytes (of_nat (length es) :: u32)) m" "found p m (concat (map extra_entry_bytes es)) c'"
    using found by (auto simp: found_append)
  have bound: "length es \<le> BLOCK_COUNT" by (rule payload_extra_bound [OF wf keys])
  then have count: "unat (of_nat (length es) :: u32) = length es" by (simp add: unat_of_nat shape_numerals)
  have "repeat_n (length es) (read_extra_entry p) (m, (\<lambda>x. x) []) = Inr (c', (\<lambda>x. x) es)"
    by (rule repeat_found [OF _ m(2)])
      (use wf keys in \<open>auto simp: bt_wf_def sorted_wrt_append intro!: read_extra_entry_found [OF _ len]\<close>)
  moreover have "4 * length es \<le> length p - m" using m(2) by (auto simp: found_def length_extra_entries)
  ultimately show ?thesis
    using bound by (simp add: read_extra_def read_u32_found [OF m(1) len] count usize_checked_mul_def usize_max_def shape_numerals)
qed

lemma read_chests_found:
  assumes found: "found p c (to_le_bytes (of_nat (length es) :: u32) @ concat (map chest_bytes es)) c'"
    and len: "length p \<le> usize_max" and ok: "list_all chest_ok es" "length es < 2 ^ 32"
  shows "read_chests p c = (if length es \<le> BLOCK_COUNT then Inr (c', es)
    else Inl (CorruptChunkPayload ''chest block-entity count exceeds block count''))"
proof -
  obtain m where m: "found p c (to_le_bytes (of_nat (length es) :: u32)) m" "found p m (concat (map chest_bytes es)) c'"
    using found by (auto simp: found_append)
  have count: "unat (of_nat (length es) :: u32) = length es" using ok(2) by (simp add: unat_of_nat)
  have "repeat_n (length es) (read_chest p) (m, (\<lambda>x. x) []) = Inr (c', (\<lambda>x. x) es)"
    by (rule repeat_found [OF _ m(2)]) (use ok(1) in \<open>auto intro!: read_chest_found [OF _ len]\<close>)
  then show ?thesis by (simp add: read_chests_def read_u32_found [OF m(1) len] count)
qed

lemma read_section_found:
  assumes "found p c (section_bytes sec) c'" and len: "length p \<le> usize_max" and small: "length (section_payload sec) < 2 ^ 32"
  shows "read_section p c = Inr (sec, c')"
proof -
  obtain m1 m2 m3 where m: "found p c (to_le_bytes (section_tag sec)) m1" "found p m1 (to_le_bytes (section_version sec)) m2"
      "found p m2 (to_le_bytes (of_nat (length (section_payload sec)) :: u32)) m3" "found p m3 (section_payload sec) c'"
    using assms(1) unfolding section_bytes_def found_append by blast
  have head: "\<not> length p - c < 8" using m by (auto simp: found_def)
  have count: "unat (of_nat (length (section_payload sec)) :: u32) = length (section_payload sec)" using small by (simp add: unat_of_nat)
  show ?thesis
    using m(4) head len
    by (simp add: read_section_def read_u16_found [OF m(1) len] read_u16_found [OF m(2) len] read_u32_found [OF m(3) len]
        count found_def usize_checked_add_def)
qed

lemma read_extensions_found:
  assumes "found p c (concat (map section_bytes es)) (length p)" and len: "length p \<le> usize_max"
    and "list_all (\<lambda>sec. length (section_payload sec) < 2 ^ 32) es"
  shows "read_extensions p c acc = Inr (acc @ es)"
  using assms(1,3)
proof (induction es arbitrary: c acc)
  case Nil
  then show ?case by (simp add: read_extensions.simps)
next
  case (Cons sec es)
  then obtain m where m: "found p c (section_bytes sec) m" "found p m (concat (map section_bytes es)) (length p)"
    by (auto simp: found_append)
  have "c < length p" using m(1) by (auto simp: found_def section_bytes_def)
  with Cons.IH [OF m(2)] Cons.prems(2) read_section_found [OF m(1) len] show ?case
    by (subst read_extensions.simps) simp
qed

lemma base_slices:
  assumes "planes_sized d" and p: "p = base_bytes d @ z"
  shows "slice_of 0 BLOCK_COUNT p = fst (block_planes (states d))"
    and "slice_of BLOCK_COUNT (BLOCK_COUNT + NIBBLE_BYTES) p = snd (block_planes (states d))"
    and "slice_of (BLOCK_COUNT + NIBBLE_BYTES) (BLOCK_COUNT + NIBBLE_BYTES + NIBBLE_BYTES) p = sky_light d"
    and "slice_of (BLOCK_COUNT + NIBBLE_BYTES + NIBBLE_BYTES) (BLOCK_COUNT + NIBBLE_BYTES + NIBBLE_BYTES + NIBBLE_BYTES) p = block_light d"
    and "slice_of (BLOCK_COUNT + NIBBLE_BYTES + NIBBLE_BYTES + NIBBLE_BYTES) (BLOCK_COUNT + NIBBLE_BYTES + NIBBLE_BYTES + NIBBLE_BYTES + BIOME_WORD_BYTES) p
      = concat (map to_be_bytes (biomes d))"
    and "slice_of (BLOCK_COUNT + NIBBLE_BYTES + NIBBLE_BYTES + NIBBLE_BYTES + BIOME_WORD_BYTES)
      (BLOCK_COUNT + NIBBLE_BYTES + NIBBLE_BYTES + NIBBLE_BYTES + BIOME_WORD_BYTES + COLUMN_COUNT) p = height_map d"
  using assms(1) block_planes_spec(1,2) [of "states d"]
  by (simp_all add: p base_bytes_def slice_of_def planes_sized_def BIOME_WORD_BYTES_def)

text \<open>The decoder on a layout: it gives back what was laid out, unless there are more chests than blocks.\<close>

lemma decode_semantic_layout:
  assumes ok: "encodable d es" and wf: "bt_wf (extra_data d)" and len: "length (semantic_layout d es) \<le> usize_max"
  shows "decode_semantic_payload (semantic_layout d es) SEMANTIC_PAYLOAD_VERSION =
    (if length (chest_block_entities d) \<le> BLOCK_COUNT then Inr (d, es)
     else Inl (CorruptChunkPayload ''chest block-entity count exceeds block count''))"
proof -
  define p where "p = semantic_layout d es"
  have sized: "planes_sized d" using ok by (simp add: encodable_def)
  have base: "length (base_bytes d) = BLOCK_COUNT + NIBBLE_BYTES + NIBBLE_BYTES + NIBBLE_BYTES + BIOME_WORD_BYTES + COLUMN_COUNT"
    by (simp add: length_base_bytes [OF sized] SEMANTIC_PREFIX_BYTES_def)
  have "found p (length (base_bytes d)) (drop (length (base_bytes d)) p) (length p)" by (simp add: found_def p_def semantic_layout_def)
  then obtain m1 m2 where
      m: "found p (length (base_bytes d)) (to_le_bytes (of_nat (length (extra_data d)) :: u32) @ concat (map extra_entry_bytes (extra_data d))) m1"
      "found p m1 (to_le_bytes (of_nat (length (chest_block_entities d)) :: u32) @ concat (map chest_bytes (chest_block_entities d))) m2"
      "found p m2 (concat (map section_bytes es)) (length p)"
    by (auto simp: p_def semantic_layout_def found_append)
  have len': "length p \<le> usize_max" using len by (simp add: p_def)
  have versions: "SEMANTIC_PAYLOAD_VERSION \<noteq> LEGACY_SEMANTIC_PAYLOAD_VERSION"
    by (simp add: SEMANTIC_PAYLOAD_VERSION_def LEGACY_SEMANTIC_PAYLOAD_VERSION_def)
  have enough: "\<not> length p < SEMANTIC_PREFIX_BYTES + BIOME_WORD_BYTES + COLUMN_COUNT + 4"
    using length_base_bytes [OF sized] by (simp add: p_def semantic_layout_def)
  have p: "p = base_bytes d @ drop (length (base_bytes d)) p" by (simp add: p_def semantic_layout_def)
  note slices = base_slices [OF sized p]
  have states: "map (decode_state (fst (block_planes (states d))) (snd (block_planes (states d)))) [0..<BLOCK_COUNT] = states d"
    using ok by (intro decode_states) (simp_all add: encodable_def planes_sized_def)
  note reads = read_extra_found [OF m(1) len' wf, unfolded base] read_chests_found [OF m(2) len'] read_extensions_found [OF m(3) len']
  show ?thesis
    unfolding p_def [symmetric] decode_semantic_payload_def Let_def decode_biomes_def
    using reads ok versions enough by (simp add: slices states encodable_def decode_biome_words)
qed

section \<open>What the encoder accepts\<close>

lemma for_each_fold_ok: "(\<And>x s. x \<in> set xs \<Longrightarrow> f x s = Inr (g x s)) \<Longrightarrow> for_each f xs s = Inr (fold g xs s)"
  by (induction xs arbitrary: s) auto

lemma for_each_sections_size_ok:
  "n + length (concat (map section_bytes es)) \<le> usize_max \<Longrightarrow>
   for_each (\<lambda>sec total. ok_or (Option.bind (usize_checked_add total 8)
       (\<lambda>v. usize_checked_add v (length (section_payload sec)))) e) es n = Inr (n + length (concat (map section_bytes es)))"
  by (induction es arbitrary: n) (auto simp: section_bytes_def usize_checked_add_def algebra_simps)

lemma for_each_chests_size_ok:
  "list_all chest_ok es \<Longrightarrow> n + length (concat (map chest_bytes es)) \<le> usize_max \<Longrightarrow>
   for_each (\<lambda>entity total. rbind (validate_chest_block_entity entity) (\<lambda>_.
       ok_or (Option.bind (usize_checked_add total 13)
         (\<lambda>v. Option.bind (usize_checked_mul (length (chest_items entity)) 6) (usize_checked_add v))) e)) es n
     = Inr (n + length (concat (map chest_bytes es)))"
proof (induction es arbitrary: n)
  case Nil
  then show ?case by simp
next
  case (Cons x es)
  then have "validate_chest_block_entity x = Inr ()" by (simp add: validate_chest_ok_iff)
  with Cons show ?case
    by (auto simp: length_chest_bytes usize_checked_add_def usize_checked_mul_def algebra_simps)
qed

lemma encode_semantic_payload_ok:
  assumes ok: "encodable (snap_data snap) es" and wf: "bt_wf (extra_data (snap_data snap))"
    and size: "length (semantic_layout (snap_data snap) es) \<le> MAX_CHUNK_PAYLOAD_BYTES"
  shows "encode_semantic_payload snap es = Inr (semantic_layout (snap_data snap) es)"
proof -
  define d where "d = snap_data snap"
  note ok = ok [folded d_def] and wf = wf [folded d_def] and size = size [folded d_def]
  have sized: "planes_sized d" using ok by (simp add: encodable_def)
  have total: "length (semantic_layout d es) = SEMANTIC_BASE_BYTES + length (extra_data d) * 4
      + (4 + length (concat (map chest_bytes (chest_block_entities d)))) + length (concat (map section_bytes es))"
    by (simp add: semantic_layout_def length_base_bytes [OF sized] SEMANTIC_BASE_BYTES_def length_extra_entries)
  have big: "MAX_CHUNK_PAYLOAD_BYTES \<le> usize_max" by (simp add: MAX_CHUNK_PAYLOAD_BYTES_def usize_max_def)
  have chests: "list_all chest_ok (chest_block_entities d)" using ok by (simp add: encodable_def)
  have cap: "payload_capacity d es = Inr (length (semantic_layout d es))"
    using total size big unfolding payload_capacity_def
    by (subst for_each_sections_size_ok for_each_chests_size_ok [OF chests], linarith)+
      (simp add: usize_checked_add_def usize_checked_mul_def)
  have in_range: "\<not> MAX_BLOCK_STATE_ID < st" if "(i, st) \<in> set (enumerate 0 (states d))" for i st
    using ok that by (auto simp: encodable_def list_all_length in_set_enumerate_eq not_less)
  have planes: "for_each state_plane_step (enumerate 0 (states d)) ([], replicate NIBBLE_BYTES 0)
      = Inr (fold plane_step (enumerate 0 (states d)) ([], replicate NIBBLE_BYTES 0))"
    by (intro for_each_fold_ok) (auto simp: state_plane_step_def plane_step_def Let_def dest: in_range split: prod.splits)
  have extra: "for_each put_extra_entry (extra_data d) p = Inr (p @ concat (map extra_entry_bytes (extra_data d)))" for p
    unfolding fold_append_bytes [symmetric] using ok
    by (intro for_each_fold_ok) (auto simp: encodable_def list_all_iff put_extra_entry_def extra_entry_bytes_def isl_def rbind_def split: sum.splits)
  have secs: "for_each put_section es p = Inr (p @ concat (map section_bytes es))" for p
    unfolding fold_append_bytes [symmetric] using ok
    by (intro for_each_fold_ok) (auto simp: encodable_def list_all_iff put_section_def section_bytes_def)
  have small: "length (extra_data d) < 2 ^ 32" "length (chest_block_entities d) < 2 ^ 32"
    using payload_extra_bound [OF wf] ok by (simp_all add: encodable_def shape_numerals)
  show ?thesis
    unfolding encode_semantic_payload_def d_def [symmetric] Let_def planes cap rbind_simps
    using sized size small
    by (simp add: planes_sized_def extra secs semantic_layout_def base_bytes_def block_planes_def split: prod.splits)
qed

end
