(* ===== verification/RecordCodec.thy ===== *)
theory RecordCodec
  imports Payload
begin

text \<open>
  Stored chunk records: \<open>native/storage/src/record/codec.rs\<close>. A record is a 64-byte header with two CRC-32C checksums,
  followed by the payload, possibly compressed.

  The checksum and the compressor are crates outside the repository: \<open>storage_env\<close> carries them as functions. No law of
  the checksum is needed to read back what was written; \<open>zstd_law\<close> is the documented inverse of the compressor.
  Fixed-size arrays are lists, written with \<open>copy_at\<close> (\<open>copy_from_slice\<close>) and read with \<open>slice_of\<close>; the rules
  \<open>array_simps\<close> read a field through later writes to other fields.
\<close>

section \<open>Fixed-size byte arrays\<close>

named_theorems array_simps \<open>reading a field of an array through writes\<close>

definition copy_at :: "nat \<Rightarrow> bytes \<Rightarrow> bytes \<Rightarrow> bytes" where
  "copy_at k bs xs = take k xs @ bs @ drop (k + length bs) xs"

definition put_u16 :: "nat \<Rightarrow> u16 \<Rightarrow> bytes \<Rightarrow> bytes" where "put_u16 k v xs = copy_at k (to_le_bytes v) xs"
definition put_u32 :: "nat \<Rightarrow> u32 \<Rightarrow> bytes \<Rightarrow> bytes" where "put_u32 k v xs = copy_at k (to_le_bytes v) xs"
definition put_u64 :: "nat \<Rightarrow> u64 \<Rightarrow> bytes \<Rightarrow> bytes" where "put_u64 k v xs = copy_at k (to_le_bytes v) xs"
definition put_i32 :: "nat \<Rightarrow> i32 \<Rightarrow> bytes \<Rightarrow> bytes" where "put_i32 k v xs = copy_at k (to_le_bytes v) xs"

definition read_u16 :: "bytes \<Rightarrow> nat \<Rightarrow> u16" where "read_u16 xs k = from_le_bytes (slice_of k (k + 2) xs)"
definition read_u32 :: "bytes \<Rightarrow> nat \<Rightarrow> u32" where "read_u32 xs k = from_le_bytes (slice_of k (k + 4) xs)"
definition read_u64 :: "bytes \<Rightarrow> nat \<Rightarrow> u64" where "read_u64 xs k = from_le_bytes (slice_of k (k + 8) xs)"
definition read_i32 :: "bytes \<Rightarrow> nat \<Rightarrow> i32" where "read_i32 xs k = from_le_bytes (slice_of k (k + 4) xs)"

lemma length_copy_at [array_simps]: "k + length bs \<le> length xs \<Longrightarrow> length (copy_at k bs xs) = length xs"
  by (simp add: copy_at_def)

lemma length_slice_of [array_simps]: "stop \<le> length xs \<Longrightarrow> length (slice_of start stop xs) = stop - start"
  by (simp add: slice_of_def)

lemma slice_copy_same [array_simps]:
  "k + length bs \<le> length xs \<Longrightarrow> stop = k + length bs \<Longrightarrow> slice_of k stop (copy_at k bs xs) = bs"
  by (simp add: slice_of_def copy_at_def)

lemma slice_copy_other [array_simps]:
  assumes "stop \<le> k \<or> k + length bs \<le> start" and "k + length bs \<le> length xs"
  shows "slice_of start stop (copy_at k bs xs) = slice_of start stop xs"
  using assms(1)
proof
  assume "stop \<le> k"
  then have "take stop (copy_at k bs xs) = take stop xs" using assms(2) by (simp add: copy_at_def)
  then show ?thesis by (simp add: slice_of_def take_drop [symmetric] drop_take [symmetric])
next
  assume "k + length bs \<le> start"
  then have "drop start (copy_at k bs xs) = drop start xs" using assms(2) by (simp add: copy_at_def)
  then show ?thesis by (simp add: slice_of_def)
qed

lemma take_copy_other [array_simps]: "n \<le> k \<Longrightarrow> k \<le> length xs \<Longrightarrow> take n (copy_at k bs xs) = take n xs"
  by (simp add: copy_at_def)

lemma list_update_copy_at: "k < length xs \<Longrightarrow> xs[k := v] = copy_at k [v] xs"
  by (simp add: copy_at_def upd_conv_take_nth_drop)

lemma nth_slice_of: "i < length xs \<Longrightarrow> slice_of i (i + 1) xs = [xs ! i]"
  by (simp add: slice_of_def take_Suc_conv_app_nth)

text \<open>A sequence of writes to disjoint fields, in the order of their offsets.\<close>

definition write_fields :: "(nat \<times> bytes) list \<Rightarrow> bytes \<Rightarrow> bytes" where
  "write_fields fs xs = fold (\<lambda>(k, bs). copy_at k bs) fs xs"

definition fields_ok :: "nat \<Rightarrow> (nat \<times> bytes) list \<Rightarrow> bool" where
  "fields_ok n fs \<longleftrightarrow> list_all (\<lambda>(k, bs). k + length bs \<le> n) fs \<and> sorted_wrt (\<lambda>(k, bs) (k', _). k + length bs \<le> k') fs"

lemma length_write_fields: "fields_ok (length xs) fs \<Longrightarrow> length (write_fields fs xs) = length xs"
  by (induction fs arbitrary: xs) (auto simp: write_fields_def fields_ok_def length_copy_at)

lemma slice_write_fields_other:
  assumes "fields_ok (length xs) fs" and "list_all (\<lambda>(k, bs). stop \<le> k \<or> k + length bs \<le> start) fs"
  shows "slice_of start stop (write_fields fs xs) = slice_of start stop xs"
  using assms by (induction fs arbitrary: xs) (auto simp: write_fields_def fields_ok_def length_copy_at slice_copy_other)

lemma slice_write_fields:
  assumes "fields_ok (length xs) fs" and "(k, bs) \<in> set fs" and "stop = k + length bs"
  shows "slice_of k stop (write_fields fs xs) = bs"
  using assms
proof (induction fs arbitrary: xs)
  case Nil
  then show ?case by simp
next
  case (Cons f fs)
  obtain k0 bs0 where f: "f = (k0, bs0)" by (cases f)
  have k0: "k0 + length bs0 \<le> length xs" and fs: "fields_ok (length xs) fs" and above: "\<forall>(k', _) \<in> set fs. k0 + length bs0 \<le> k'"
    using Cons.prems(1) by (auto simp: fields_ok_def f)
  have step: "write_fields ((k0, bs0) # fs) xs = write_fields fs (copy_at k0 bs0 xs)" by (simp add: write_fields_def)
  have fs': "fields_ok (length (copy_at k0 bs0 xs)) fs" using fs k0 by (simp add: length_copy_at)
  show ?case
  proof (cases "(k, bs) = f")
    case True
    have "slice_of k stop (write_fields fs (copy_at k0 bs0 xs)) = slice_of k stop (copy_at k0 bs0 xs)"
      using above True Cons.prems(3) by (intro slice_write_fields_other [OF fs']) (auto simp: list_all_iff f)
    then show ?thesis using True k0 Cons.prems(3) by (simp add: step f slice_copy_same)
  next
    case False
    then show ?thesis using Cons.IH [OF fs'] Cons.prems by (auto simp: step f)
  qed
qed

text \<open>A checksum over the first \<open>n\<close> bytes, stored behind them.\<close>

lemma sealed_fields:
  assumes "fields_ok (length xs) fs" and "list_all (\<lambda>(k, bs). k + length bs \<le> n) fs" and "n + 4 \<le> length xs"
    and h: "h = put_u32 n c (write_fields fs xs)"
  shows "length h = length xs" and "take n h = take n (write_fields fs xs)" and "slice_of n (n + 4) h = to_le_bytes c"
    and "(k, bs) \<in> set fs \<Longrightarrow> stop = k + length bs \<Longrightarrow> slice_of k stop h = bs"
    and "(k, [b]) \<in> set fs \<Longrightarrow> h ! k = b"
proof -
  have len: "length (write_fields fs xs) = length xs" by (rule length_write_fields [OF assms(1)])
  show lh: "length h = length xs" and "take n h = take n (write_fields fs xs)" and "slice_of n (n + 4) h = to_le_bytes c"
    using assms(3) len by (simp_all add: h put_u32_def array_simps)
  have field: "slice_of k stop h = bs" if "(k, bs) \<in> set fs" "stop = k + length bs" for k bs stop
  proof -
    have "slice_of k stop h = slice_of k stop (write_fields fs xs)"
      using assms(2,3) that len unfolding h put_u32_def by (intro slice_copy_other) (auto simp: list_all_iff)
    then show ?thesis using slice_write_fields [OF assms(1) that] by simp
  qed
  then show "(k, bs) \<in> set fs \<Longrightarrow> stop = k + length bs \<Longrightarrow> slice_of k stop h = bs" .
  show "h ! k = b" if "(k, [b]) \<in> set fs"
  proof -
    have "k < length h" using that assms(2,3) by (auto simp: list_all_iff lh)
    with field [OF that] nth_slice_of [of k h] show ?thesis by simp
  qed
qed

lemmas put_defs [array_simps] = put_u16_def put_u32_def put_u64_def put_i32_def
lemmas read_defs [array_simps] = read_u16_def read_u32_def read_u64_def read_i32_def

section \<open>Records\<close>

record storage_env =
  crc32c :: "bytes \<Rightarrow> u32"
  zstd_encode :: "bytes \<Rightarrow> StorageError + bytes"
  zstd_read :: "bytes \<Rightarrow> nat \<Rightarrow> StorageError + bytes"

text \<open>
  \<open>zstd_read c n\<close> is a decoder on \<open>c\<close> read to its end through \<open>take(n)\<close>. Documented: the decoder of a frame made by the
  encoder produces the encoder's input.
\<close>

definition zstd_law :: "storage_env \<Rightarrow> bool" where
  "zstd_law env \<longleftrightarrow> (\<forall>p c n. zstd_encode env p = Inr c \<longrightarrow> zstd_read env c n = Inr (take n p))"

definition RECORD_MAGIC :: bytes where "RECORD_MAGIC = [0x43, 0x42, 0x43, 0x48]"
definition RECORD_HEADER_BYTES :: nat where "RECORD_HEADER_BYTES = 64"

definition compress_payload :: "storage_env \<Rightarrow> CompressionPolicy \<Rightarrow> bytes \<Rightarrow> StorageError + Compression \<times> bytes" where
  "compress_payload env policy payload =
     (case policy of
        PolicyNone \<Rightarrow> Inr (NoCompression, payload)
      | PolicyZstd \<Rightarrow> rbind (zstd_encode env payload) (\<lambda>c. Inr (Zstd, c))
      | PolicyAdaptive \<Rightarrow>
          rbind (zstd_encode env payload) (\<lambda>compressed.
          if min usize_max (length compressed + ADAPTIVE_COMPRESSION_MIN_SAVINGS) \<le> length payload
          then Inr (Zstd, compressed) else Inr (NoCompression, payload)))"

definition record_header ::
  "storage_env \<Rightarrow> ChunkSnapshot \<Rightarrow> Compression \<Rightarrow> u32 \<Rightarrow> u32 \<Rightarrow> u32 \<Rightarrow> bytes" where
  "record_header env snap compression uncompressed_len stored_len payload_crc =
     (let header = replicate RECORD_HEADER_BYTES 0;
          header = copy_at 0 RECORD_MAGIC header;
          header = put_u16 4 CHUNK_RECORD_VERSION header;
          header = put_u16 6 (of_nat RECORD_HEADER_BYTES) header;
          header = put_i32 8 (coord_x (snap_position snap)) header;
          header = put_i32 12 (coord_z (snap_position snap)) header;
          header = put_u64 16 (snap_terrain_revision snap) header;
          header = put_u64 24 (snap_light_revision snap) header;
          header = header[32 := snap_lifecycle_flags snap];
          header = header[33 := Compression_to_byte compression];
          header = put_u16 34 SEMANTIC_PAYLOAD_VERSION header;
          header = put_u32 36 uncompressed_len header;
          header = put_u32 40 stored_len header;
          header = put_u32 44 payload_crc header;
          header_crc = crc32c env (take 60 header)
      in put_u32 60 header_crc header)"

definition encode_chunk_record_with_policy ::
  "storage_env \<Rightarrow> ChunkSnapshot \<Rightarrow> CompressionPolicy \<Rightarrow> ExtensionSection list \<Rightarrow> StorageError + bytes" where
  "encode_chunk_record_with_policy env snap policy extensions =
     rbind (encode_semantic_payload snap extensions) (\<lambda>payload.
     let payload_len = length payload; payload_crc = crc32c env payload
     in rbind (compress_payload env policy payload) (\<lambda>(compression, stored).
        rbind (ensure (\<not> length stored > MAX_CHUNK_PAYLOAD_BYTES)
                 (PayloadTooLarge (length stored) MAX_CHUNK_PAYLOAD_BYTES)) (\<lambda>_.
        rbind (ensure (payload_len < 2 ^ 32) (PayloadTooLarge payload_len (2 ^ 32 - 1))) (\<lambda>_.
        rbind (ensure (length stored < 2 ^ 32) (PayloadTooLarge (length stored) (2 ^ 32 - 1))) (\<lambda>_.
        let header = record_header env snap compression (of_nat payload_len) (of_nat (length stored)) payload_crc
        in rbind (ok_or (usize_checked_add RECORD_HEADER_BYTES (length stored))
                    (RecordTooLarge usize_max MAX_CHUNK_RECORD_BYTES)) (\<lambda>record_len.
           rbind (ensure (\<not> record_len > MAX_CHUNK_RECORD_BYTES) (RecordTooLarge record_len MAX_CHUNK_RECORD_BYTES)) (\<lambda>_.
           Inr (header @ stored))))))))"

definition encode_chunk_record ::
  "storage_env \<Rightarrow> ChunkSnapshot \<Rightarrow> Compression \<Rightarrow> ExtensionSection list \<Rightarrow> StorageError + bytes" where
  "encode_chunk_record env snap compression extensions =
     encode_chunk_record_with_policy env snap
       (case compression of NoCompression \<Rightarrow> PolicyNone | Zstd \<Rightarrow> PolicyZstd) extensions"

text \<open>The checks on the header, in the order of the source; \<open>Inr\<close> carries the flags, the method and both lengths.\<close>

definition check_record_header :: "storage_env \<Rightarrow> bytes \<Rightarrow> StorageError + u16 \<times> Compression \<times> nat \<times> nat" where
  "check_record_header env header =
     rbind (ensure (slice_of 0 4 header = RECORD_MAGIC) (CorruptChunkRecord ''bad magic'')) (\<lambda>_.
     rbind (ensure (read_u16 header 4 = CHUNK_RECORD_VERSION) (CorruptChunkRecord ''unsupported record version'')) (\<lambda>_.
     rbind (ensure (unat (read_u16 header 6) = RECORD_HEADER_BYTES) (CorruptChunkRecord ''bad header length'')) (\<lambda>_.
     let semantic_version = read_u16 header 34
     in rbind (ensure (\<not> (semantic_version \<noteq> LEGACY_SEMANTIC_PAYLOAD_VERSION
                 \<and> semantic_version \<noteq> BIOME_WORD_SEMANTIC_PAYLOAD_VERSION
                 \<and> semantic_version \<noteq> SEMANTIC_PAYLOAD_VERSION)) (CorruptChunkRecord ''unsupported semantic payload version'')) (\<lambda>_.
        rbind (ensure (crc32c env (take 60 header) = read_u32 header 60) (CorruptChunkRecord ''header checksum mismatch'')) (\<lambda>_.
        rbind (ensure (header ! 32 AND NOT CHUNK_LIFECYCLE_MASK = 0) (CorruptChunkRecord ''invalid lifecycle flags'')) (\<lambda>_.
        rbind (Compression_from_byte (header ! 33)) (\<lambda>compression.
        let uncompressed_len = unat (read_u32 header 36); stored_len = unat (read_u32 header 40)
        in rbind (ensure (\<not> (uncompressed_len > MAX_CHUNK_PAYLOAD_BYTES \<or> stored_len > MAX_CHUNK_PAYLOAD_BYTES))
                    (PayloadTooLarge (max uncompressed_len stored_len) MAX_CHUNK_PAYLOAD_BYTES)) (\<lambda>_.
           Inr (semantic_version, compression, uncompressed_len, stored_len)))))))))"

definition decompress_payload :: "storage_env \<Rightarrow> Compression \<Rightarrow> bytes \<Rightarrow> nat \<Rightarrow> nat \<Rightarrow> StorageError + bytes" where
  "decompress_payload env compression stored stored_len uncompressed_len =
     (case compression of
        NoCompression \<Rightarrow>
          if stored_len \<noteq> uncompressed_len then Inl (CorruptChunkRecord ''uncompressed payload length mismatch'')
          else Inr stored
      | Zstd \<Rightarrow>
          rbind (zstd_read env stored (uncompressed_len + 1)) (\<lambda>decoded.
          if length decoded \<noteq> uncompressed_len then Inl (CorruptChunkRecord ''zstd output length mismatch'')
          else Inr decoded))"

definition decode_chunk_record :: "storage_env \<Rightarrow> bytes \<Rightarrow> StorageError + StoredChunk" where
  "decode_chunk_record env data =
     rbind (ensure (\<not> length data < RECORD_HEADER_BYTES) (CorruptChunkRecord ''truncated header'')) (\<lambda>_.
     rbind (ensure (\<not> length data > MAX_CHUNK_RECORD_BYTES) (RecordTooLarge (length data) MAX_CHUNK_RECORD_BYTES)) (\<lambda>_.
     let header = take RECORD_HEADER_BYTES data
     in rbind (check_record_header env header) (\<lambda>(semantic_version, compression, uncompressed_len, stored_len).
        rbind (ensure (length data = RECORD_HEADER_BYTES + stored_len) (CorruptChunkRecord ''stored payload length mismatch'')) (\<lambda>_.
        rbind (decompress_payload env compression (drop RECORD_HEADER_BYTES data) stored_len uncompressed_len) (\<lambda>payload.
        rbind (ensure (crc32c env payload = read_u32 header 44) (CorruptChunkRecord ''payload checksum mismatch'')) (\<lambda>_.
        rbind (decode_semantic_payload payload semantic_version) (\<lambda>(d, extensions).
        Inr \<lparr>stored_position = ChunkCoord (read_i32 header 8) (read_i32 header 12), stored_compression = compression,
             stored_import = \<lparr>imp_terrain_revision = read_u64 header 16, imp_light_revision = read_u64 header 24,
               imp_lifecycle_flags = header ! 32, imp_states = states d, imp_sky_light = sky_light d,
               imp_block_light = block_light d, imp_biomes = biomes d, imp_height_map = height_map d,
               imp_extra_data = extra_data d, imp_chest_block_entities = chest_block_entities d\<rparr>,
             stored_extensions = extensions\<rparr>)))))))"

section \<open>Header fields\<close>

definition record_fields :: "ChunkSnapshot \<Rightarrow> Compression \<Rightarrow> u32 \<Rightarrow> u32 \<Rightarrow> u32 \<Rightarrow> (nat \<times> bytes) list" where
  "record_fields snap compression ulen slen pcrc =
     [(0, RECORD_MAGIC), (4, to_le_bytes CHUNK_RECORD_VERSION), (6, to_le_bytes (of_nat RECORD_HEADER_BYTES :: u16)),
      (8, to_le_bytes (coord_x (snap_position snap))), (12, to_le_bytes (coord_z (snap_position snap))),
      (16, to_le_bytes (snap_terrain_revision snap)), (24, to_le_bytes (snap_light_revision snap)),
      (32, [snap_lifecycle_flags snap]), (33, [Compression_to_byte compression]), (34, to_le_bytes SEMANTIC_PAYLOAD_VERSION),
      (36, to_le_bytes ulen), (40, to_le_bytes slen), (44, to_le_bytes pcrc)]"

lemma record_fields_ok:
  "fields_ok 64 (record_fields snap c u s p)" "list_all (\<lambda>(k, bs). k + length bs \<le> 60) (record_fields snap c u s p)"
  by (simp_all add: fields_ok_def record_fields_def RECORD_MAGIC_def)

lemma record_header_alt:
  "record_header env snap c u s p =
     (let h = write_fields (record_fields snap c u s p) (replicate 64 0) in put_u32 60 (crc32c env (take 60 h)) h)"
proof -
  have len: "length (copy_at k bs xs) = 64" if "length xs = 64" "k + length bs \<le> 64" for k bs xs
    using that by (simp add: length_copy_at)
  show ?thesis
    unfolding record_header_def record_fields_def write_fields_def Let_def put_defs RECORD_HEADER_BYTES_def
    by (simp add: list_update_copy_at len RECORD_MAGIC_def)
qed

lemma record_header_fields:
  assumes "h = record_header env snap compression ulen slen pcrc"
  shows "length h = RECORD_HEADER_BYTES" "slice_of 0 4 h = RECORD_MAGIC" "read_u16 h 4 = CHUNK_RECORD_VERSION"
    and "read_u16 h 6 = of_nat RECORD_HEADER_BYTES" "read_i32 h 8 = coord_x (snap_position snap)"
    and "read_i32 h 12 = coord_z (snap_position snap)" "read_u64 h 16 = snap_terrain_revision snap"
    and "read_u64 h 24 = snap_light_revision snap" "h ! 32 = snap_lifecycle_flags snap"
    and "h ! 33 = Compression_to_byte compression" "read_u16 h 34 = SEMANTIC_PAYLOAD_VERSION"
    and "read_u32 h 36 = ulen" "read_u32 h 40 = slen" "read_u32 h 44 = pcrc"
    and "read_u32 h 60 = crc32c env (take 60 h)"
proof -
  let ?fs = "record_fields snap compression ulen slen pcrc"
  note ok = record_fields_ok [of snap compression ulen slen pcrc]
  have h: "h = put_u32 60 (crc32c env (take 60 (write_fields ?fs (replicate 64 0)))) (write_fields ?fs (replicate 64 0))"
    by (simp add: assms record_header_alt Let_def)
  note F = sealed_fields [OF _ ok(2) _ h, simplified, OF ok(1)]
  note in_fields = record_fields_def RECORD_MAGIC_def
  have slices: "slice_of 4 6 h = to_le_bytes CHUNK_RECORD_VERSION" "slice_of 6 8 h = to_le_bytes (of_nat RECORD_HEADER_BYTES :: u16)"
      "slice_of 8 12 h = to_le_bytes (coord_x (snap_position snap))" "slice_of 12 16 h = to_le_bytes (coord_z (snap_position snap))"
      "slice_of 16 24 h = to_le_bytes (snap_terrain_revision snap)" "slice_of 24 32 h = to_le_bytes (snap_light_revision snap)"
      "slice_of 34 36 h = to_le_bytes SEMANTIC_PAYLOAD_VERSION" "slice_of 36 40 h = to_le_bytes ulen"
      "slice_of 40 44 h = to_le_bytes slen" "slice_of 44 48 h = to_le_bytes pcrc"
    by (rule F(4); simp add: record_fields_def)+
  show "length h = RECORD_HEADER_BYTES" using F(1) by (simp add: RECORD_HEADER_BYTES_def)
  show "slice_of 0 4 h = RECORD_MAGIC" by (rule F(4)) (simp_all add: in_fields)
  show "h ! 32 = snap_lifecycle_flags snap" "h ! 33 = Compression_to_byte compression"
    by (rule F(5); simp add: record_fields_def)+
  show "read_u32 h 60 = crc32c env (take 60 h)" using F(2,3) by (simp add: read_u32_def)
  show "read_u16 h 4 = CHUNK_RECORD_VERSION" "read_u16 h 6 = of_nat RECORD_HEADER_BYTES"
    "read_i32 h 8 = coord_x (snap_position snap)" "read_i32 h 12 = coord_z (snap_position snap)"
    "read_u64 h 16 = snap_terrain_revision snap" "read_u64 h 24 = snap_light_revision snap"
    "read_u16 h 34 = SEMANTIC_PAYLOAD_VERSION" "read_u32 h 36 = ulen" "read_u32 h 40 = slen" "read_u32 h 44 = pcrc"
    by (simp_all add: read_defs slices)
qed

section \<open>Reading back a record\<close>

definition snapshot_import :: "ChunkSnapshot \<Rightarrow> ChunkImport" where
  "snapshot_import snap =
     (let d = snap_data snap
      in \<lparr>imp_terrain_revision = snap_terrain_revision snap, imp_light_revision = snap_light_revision snap,
          imp_lifecycle_flags = snap_lifecycle_flags snap, imp_states = states d, imp_sky_light = sky_light d,
          imp_block_light = block_light d, imp_biomes = biomes d, imp_height_map = height_map d,
          imp_extra_data = extra_data d, imp_chest_block_entities = chest_block_entities d\<rparr>)"

definition stored_of :: "ChunkSnapshot \<Rightarrow> Compression \<Rightarrow> ExtensionSection list \<Rightarrow> StoredChunk" where
  "stored_of snap c es = \<lparr>stored_position = snap_position snap, stored_compression = c,
     stored_import = snapshot_import snap, stored_extensions = es\<rparr>"

text \<open>A snapshot the format can hold: what the encoder checks, plus the decoder's bound on the number of chests.\<close>

definition storable :: "ChunkSnapshot \<Rightarrow> ExtensionSection list \<Rightarrow> bool" where
  "storable snap es \<longleftrightarrow> encodable (snap_data snap) es \<and> bt_wf (extra_data (snap_data snap))
     \<and> length (chest_block_entities (snap_data snap)) \<le> BLOCK_COUNT \<and> flags_ok (snap_lifecycle_flags snap)
     \<and> length (semantic_layout (snap_data snap) es) \<le> MAX_CHUNK_PAYLOAD_BYTES"

lemma Compression_from_to_byte [simp]: "Compression_from_byte (Compression_to_byte c) = Inr c"
  by (cases c) (simp_all add: Compression_from_byte_def)

lemma decompress_compress:
  assumes "zstd_law env" and "compress_payload env policy p = Inr (c, stored)"
  shows "decompress_payload env c stored (length stored) (length p) = Inr p"
  using assms
  by (auto simp: compress_payload_def decompress_payload_def zstd_law_def rbind_Inr_iff
      split: CompressionPolicy.splits if_splits)

lemma encode_record_Inr:
  assumes "encode_chunk_record_with_policy env snap policy es = Inr r"
  obtains p c stored where "encode_semantic_payload snap es = Inr p" "compress_payload env policy p = Inr (c, stored)"
    "length stored \<le> MAX_CHUNK_PAYLOAD_BYTES"
    "r = record_header env snap c (of_nat (length p)) (of_nat (length stored)) (crc32c env p) @ stored"
  using assms
  by (auto simp: encode_chunk_record_with_policy_def Let_def rbind_Inr_iff ensure_Inr_iff not_less split: prod.splits)

lemma record_bounds: "MAX_CHUNK_PAYLOAD_BYTES < 2 ^ 32" "RECORD_HEADER_BYTES + MAX_CHUNK_PAYLOAD_BYTES \<le> MAX_CHUNK_RECORD_BYTES"
  "MAX_CHUNK_RECORD_BYTES < 2 ^ 32" "MAX_CHUNK_PAYLOAD_BYTES \<le> usize_max"
  by (simp_all add: MAX_CHUNK_PAYLOAD_BYTES_def RECORD_HEADER_BYTES_def MAX_CHUNK_RECORD_BYTES_def usize_max_def)

lemma encoded_record_length:
  assumes "encode_chunk_record_with_policy env snap policy es = Inr r"
  shows "RECORD_HEADER_BYTES \<le> length r \<and> length r \<le> MAX_CHUNK_RECORD_BYTES"
  using assms record_bounds(2)
  by (elim encode_record_Inr) (simp add: record_header_fields(1) [OF refl])

text \<open>Every check of the record's envelope passes on an encoded record; what is left is the payload decoder.\<close>

lemma decode_encoded_record:
  assumes zstd: "zstd_law env" and flags: "flags_ok (snap_lifecycle_flags snap)"
    and enc: "encode_chunk_record_with_policy env snap policy es = Inr r"
  obtains c p where "encode_semantic_payload snap es = Inr p"
    and "decode_chunk_record env r = map_ok (\<lambda>(d, es). stored_of (snap\<lparr>snap_data := d\<rparr>) c es)
           (decode_semantic_payload p SEMANTIC_PAYLOAD_VERSION)"
    and "\<exists>stored. compress_payload env policy p = Inr (c, stored)"
proof -
  from enc obtain p c stored where p: "encode_semantic_payload snap es = Inr p"
    and c: "compress_payload env policy p = Inr (c, stored)" and st: "length stored \<le> MAX_CHUNK_PAYLOAD_BYTES"
    and r: "r = record_header env snap c (of_nat (length p)) (of_nat (length stored)) (crc32c env p) @ stored"
    by (rule encode_record_Inr)
  define h where "h = record_header env snap c (of_nat (length p)) (of_nat (length stored)) (crc32c env p)"
  note H = record_header_fields [OF h_def]
  have pl: "length p \<le> MAX_CHUNK_PAYLOAD_BYTES" by (rule encode_semantic_payload_Inr(3) [OF p])
  have lens: "unat (of_nat (length p) :: u32) = length p" "unat (of_nat (length stored) :: u32) = length stored"
    using pl st record_bounds(1) by (simp_all add: unat_of_nat)
  have hd: "unat (of_nat RECORD_HEADER_BYTES :: u16) = RECORD_HEADER_BYTES" by (simp add: RECORD_HEADER_BYTES_def)
  have header: "check_record_header env h = Inr (SEMANTIC_PAYLOAD_VERSION, c, length p, length stored)"
    unfolding check_record_header_def Let_def H(2,3,4,9,10,11,12,13,15) using flags pl st by (simp add: lens hd flags_ok_def)
  have "decode_chunk_record env r = map_ok (\<lambda>(d, es). stored_of (snap\<lparr>snap_data := d\<rparr>) c es)
      (decode_semantic_payload p SEMANTIC_PAYLOAD_VERSION)"
    unfolding decode_chunk_record_def r h_def [symmetric] Let_def
    using H(1) st record_bounds(2) decompress_compress [OF zstd c]
    by (simp add: header H(5-9,14) stored_of_def snapshot_import_def Let_def map_ok_def rbind_def split: sum.splits)
  with p c show thesis by (auto intro: that)
qed

lemma decode_storable:
  assumes "zstd_law env" and ok: "storable snap es" and enc: "encode_chunk_record_with_policy env snap policy es = Inr r"
  obtains c stored where "decode_chunk_record env r = Inr (stored_of snap c es)"
    and "compress_payload env policy (semantic_layout (snap_data snap) es) = Inr (c, stored)"
proof -
  have "flags_ok (snap_lifecycle_flags snap)" using ok by (simp add: storable_def)
  from decode_encoded_record [OF assms(1) this enc] obtain c p where p: "encode_semantic_payload snap es = Inr p"
    and dec: "decode_chunk_record env r = map_ok (\<lambda>(d, es). stored_of (snap\<lparr>snap_data := d\<rparr>) c es)
           (decode_semantic_payload p SEMANTIC_PAYLOAD_VERSION)"
    and c: "\<exists>stored. compress_payload env policy p = Inr (c, stored)" by blast
  note P = encode_semantic_payload_Inr [OF p]
  have "decode_semantic_payload p SEMANTIC_PAYLOAD_VERSION = Inr (snap_data snap, es)"
    using ok P record_bounds(4) by (simp add: decode_semantic_layout storable_def)
  then show thesis using that dec c P(1) by auto
qed

text \<open>The encoder accepts more chests than the decoder: such a record can never be read back.\<close>

lemma too_many_chests_unreadable:
  assumes "zstd_law env" and "flags_ok (snap_lifecycle_flags snap)" and "bt_wf (extra_data (snap_data snap))"
    and "BLOCK_COUNT < length (chest_block_entities (snap_data snap))"
    and "encode_chunk_record_with_policy env snap policy es = Inr r"
  shows "decode_chunk_record env r = Inl (CorruptChunkPayload ''chest block-entity count exceeds block count'')"
proof -
  from decode_encoded_record [OF assms(1,2,5)] obtain c p where p: "encode_semantic_payload snap es = Inr p"
    and dec: "decode_chunk_record env r = map_ok (\<lambda>(d, es). stored_of (snap\<lparr>snap_data := d\<rparr>) c es)
           (decode_semantic_payload p SEMANTIC_PAYLOAD_VERSION)" by blast
  note P = encode_semantic_payload_Inr [OF p]
  show ?thesis using dec assms(3,4) P record_bounds(4) by (simp add: decode_semantic_layout)
qed

lemma encode_record_total:
  assumes ok: "storable snap es"
  shows "encode_chunk_record_with_policy env snap policy es =
    (case compress_payload env policy (semantic_layout (snap_data snap) es) of
       Inl e \<Rightarrow> Inl e
     | Inr (c, stored) \<Rightarrow>
         if length stored > MAX_CHUNK_PAYLOAD_BYTES then Inl (PayloadTooLarge (length stored) MAX_CHUNK_PAYLOAD_BYTES)
         else Inr (record_header env snap c (of_nat (length (semantic_layout (snap_data snap) es)))
                (of_nat (length stored)) (crc32c env (semantic_layout (snap_data snap) es)) @ stored))"
proof -
  have enc: "encode_semantic_payload snap es = Inr (semantic_layout (snap_data snap) es)"
    using ok by (intro encode_semantic_payload_ok) (simp_all add: storable_def)
  have size: "length (semantic_layout (snap_data snap) es) \<le> MAX_CHUNK_PAYLOAD_BYTES" using ok by (simp add: storable_def)
  show ?thesis
    unfolding encode_chunk_record_with_policy_def enc rbind_simps Let_def
    using record_bounds size
    by (auto simp: rbind_def ensure_def usize_checked_add_def RECORD_HEADER_BYTES_def MAX_CHUNK_RECORD_BYTES_def
        MAX_CHUNK_PAYLOAD_BYTES_def usize_max_def split: sum.splits)
qed

text \<open>
  C17: A snapshot the format can hold is written under every compression policy, unless the compressor itself fails or
  makes it larger than the limit; and the record that is written, envelope and checksums included, decodes to exactly
  the snapshot: its position, both revisions, the lifecycle flags, all planes, the extra data, the chests and the
  extension sections. Without compression the write never fails.
\<close>

theorem chunk_record_roundtrip:
  assumes "zstd_law env" and ok: "storable snap es"
  shows "case encode_chunk_record_with_policy env snap policy es of
      Inr r \<Rightarrow> (\<exists>c. decode_chunk_record env r = Inr (stored_of snap c es) \<and> (policy = PolicyNone \<longrightarrow> c = NoCompression)
        \<and> (policy = PolicyZstd \<longrightarrow> c = Zstd)) \<and> length r \<le> MAX_CHUNK_RECORD_BYTES
    | Inl e \<Rightarrow> policy \<noteq> PolicyNone \<and> (zstd_encode env (semantic_layout (snap_data snap) es) = Inl e
        \<or> (\<exists>z. zstd_encode env (semantic_layout (snap_data snap) es) = Inr z \<and> MAX_CHUNK_PAYLOAD_BYTES < length z
             \<and> e = PayloadTooLarge (length z) MAX_CHUNK_PAYLOAD_BYTES))"
proof (cases "encode_chunk_record_with_policy env snap policy es")
  case (Inl e)
  have size: "length (semantic_layout (snap_data snap) es) \<le> MAX_CHUNK_PAYLOAD_BYTES" using ok by (simp add: storable_def)
  with Inl show ?thesis
    unfolding encode_record_total [OF ok]
    by (auto simp: compress_payload_def rbind_def split: CompressionPolicy.splits sum.splits if_splits)
next
  case (Inr r)
  from decode_storable [OF assms Inr] obtain c stored where "decode_chunk_record env r = Inr (stored_of snap c es)"
    and "compress_payload env policy (semantic_layout (snap_data snap) es) = Inr (c, stored)" by blast
  then show ?thesis
    using Inr encoded_record_length [OF Inr] by (auto simp: compress_payload_def rbind_Inr_iff split: CompressionPolicy.splits)
qed

definition sample_storage :: storage_env where
  "sample_storage = \<lparr>crc32c = (\<lambda>bs. fold (\<lambda>b a. 31 * a + ucast b) bs 7), zstd_encode = Inr,
     zstd_read = (\<lambda>c n. Inr (take n c))\<rparr>"

definition sample_stored :: ChunkSnapshot where
  "sample_stored = \<lparr>snap_position = ChunkCoord 3 (- 2), snap_terrain_revision = 5, snap_light_revision = 4,
     snap_lifecycle_flags = 3,
     snap_data = (ChunkData_empty 0x0192bc59)\<lparr>extra_data := [(0x1205, 7)],
       chest_block_entities := [\<lparr>chest_x = 50, chest_y = 64, chest_z = - 30,
         chest_items = [\<lparr>chest_slot = 2, chest_item_id = 280, chest_damage = 0, chest_count = 9\<rparr>]\<rparr>]\<rparr>\<rparr>"

lemma sample_storage_zstd: "zstd_law sample_storage"
  by (simp add: zstd_law_def sample_storage_def)

lemma sample_stored_storable: "storable sample_stored []"
proof -
  let ?d = "snap_data sample_stored"
  have sized: "planes_sized ?d" by (simp add: sample_stored_def planes_sized_def ChunkData_empty_def)
  have key: "extra_key_to_linear 0x1205 = Inr 0x0512" by (simp add: extra_key_to_linear_def Let_def shape_numerals)
  have "encodable ?d []"
    using sized by (simp add: encodable_def sample_stored_def ChunkData_empty_def key chest_ok_def items_ok_def shape_numerals
        list_all_iff MAX_BLOCK_STATE_ID_def)
  moreover have "length (semantic_layout ?d []) \<le> MAX_CHUNK_PAYLOAD_BYTES"
    using length_base_bytes [OF sized]
    by (simp add: semantic_layout_def extra_entry_bytes_def length_chest_bytes sample_stored_def SEMANTIC_PREFIX_BYTES_def
        BIOME_WORD_BYTES_def shape_numerals MAX_CHUNK_PAYLOAD_BYTES_def)
  ultimately show ?thesis
    by (simp add: storable_def sample_stored_def flags_ok_def CHUNK_LIFECYCLE_MASK_def CHUNK_LIFECYCLE_GENERATED_def
        CHUNK_LIFECYCLE_POPULATED_def CHUNK_LIFECYCLE_LIGHT_POPULATED_def shape_numerals bt_wf_def)
qed

theorem chunk_record_roundtrip_witness:
  "\<exists>r. encode_chunk_record_with_policy sample_storage sample_stored PolicyZstd [] = Inr r
     \<and> decode_chunk_record sample_storage r = Inr (stored_of sample_stored Zstd [])"
proof -
  have "\<not> isl (encode_chunk_record_with_policy sample_storage sample_stored PolicyZstd [])"
    using sample_stored_storable
    by (simp add: encode_record_total compress_payload_def sample_storage_def storable_def)
  with chunk_record_roundtrip [OF sample_storage_zstd sample_stored_storable, of PolicyZstd] show ?thesis
    by (cases "encode_chunk_record_with_policy sample_storage sample_stored PolicyZstd []") auto
qed

end
