(* ===== verification/Files.thy ===== *)
theory Files
  imports RecordCodec
begin

text \<open>
  Files of the operating system, as the storage crate uses them through \<open>std::fs::File\<close>: a byte sequence with a
  position. Every operation may fail: \<open>file_faults\<close> is the plan of the failures to come, one entry per operation, where
  \<open>Some n\<close> fails (a write after its first \<open>n\<close> bytes) and an exhausted plan never fails. \<open>file_durable\<close> is the content at the
  last successful sync; \<open>crash_image\<close> is what a crash may leave on disk: unsynced bytes may or may not have reached it, each on
  its own, and bytes past the synced length are arbitrary.

  \<open>may_do\<close> is the frame of an operation sequence: the bytes it may touch, whatever fails in it.
\<close>

record File =
  file_bytes :: bytes
  file_pos :: nat
  file_durable :: bytes
  file_faults :: "nat option list"

type_synonym 'a file_op = "File \<Rightarrow> (StorageError + 'a) \<times> File"

definition FILE_MAX :: nat where "FILE_MAX = 2 ^ 63 - 1"

definition io_lift :: "StorageError + 'a \<Rightarrow> 'a file_op" where
  "io_lift r F = (r, F)"

definition io_bind :: "'a file_op \<Rightarrow> ('a \<Rightarrow> 'b file_op) \<Rightarrow> 'b file_op" where
  "io_bind m f F = (case m F of (Inl e, F) \<Rightarrow> (Inl e, F) | (Inr x, F) \<Rightarrow> f x F)"

definition io_turn :: "File \<Rightarrow> nat option \<times> File" where
  "io_turn F = (case file_faults F of [] \<Rightarrow> (None, F) | f # fs \<Rightarrow> (f, F\<lparr>file_faults := fs\<rparr>))"

definition write_at :: "nat \<Rightarrow> bytes \<Rightarrow> bytes \<Rightarrow> bytes" where
  "write_at pos bs xs = (if bs = [] then xs else copy_at pos bs (xs @ replicate (pos - length xs) 0))"

definition seek_start :: "u64 \<Rightarrow> unit file_op" where
  "seek_start n F =
     (case io_turn F of (fault, F) \<Rightarrow>
        if fault = None \<and> unat n \<le> FILE_MAX then (Inr (), F\<lparr>file_pos := unat n\<rparr>) else (Inl Io, F))"

definition seek_end :: "u64 file_op" where
  "seek_end F =
     (case io_turn F of (fault, F) \<Rightarrow>
        if fault = None then (Inr (of_nat (length (file_bytes F))), F\<lparr>file_pos := length (file_bytes F)\<rparr>) else (Inl Io, F))"

definition write_all :: "bytes \<Rightarrow> unit file_op" where
  "write_all bs F =
     (case io_turn F of (fault, F) \<Rightarrow>
        let n = min (case fault of None \<Rightarrow> length bs | Some n \<Rightarrow> min n (length bs)) (FILE_MAX - file_pos F);
            F' = F\<lparr>file_bytes := write_at (file_pos F) (take n bs) (file_bytes F), file_pos := file_pos F + n\<rparr>
        in if fault = None \<and> n = length bs then (Inr (), F') else (Inl Io, F'))"

definition read_exact_file :: "nat \<Rightarrow> bytes file_op" where
  "read_exact_file n F =
     (case io_turn F of (fault, F) \<Rightarrow>
        if fault = None \<and> file_pos F + n \<le> length (file_bytes F)
        then (Inr (slice_of (file_pos F) (file_pos F + n) (file_bytes F)), F\<lparr>file_pos := file_pos F + n\<rparr>)
        else (Inl Io, F))"

definition set_len :: "u64 \<Rightarrow> unit file_op" where
  "set_len n F =
     (case io_turn F of (fault, F) \<Rightarrow>
        if fault = None \<and> unat n \<le> FILE_MAX
        then (Inr (), F\<lparr>file_bytes := take (unat n) (file_bytes F) @ replicate (unat n - length (file_bytes F)) 0\<rparr>)
        else (Inl Io, F))"

definition sync_data :: "unit file_op" where
  "sync_data F =
     (case io_turn F of (fault, F) \<Rightarrow>
        if fault = None then (Inr (), F\<lparr>file_durable := file_bytes F\<rparr>) else (Inl Io, F))"

definition file_len :: "u64 file_op" where
  "file_len F =
     (case io_turn F of (fault, F) \<Rightarrow> if fault = None then (Inr (of_nat (length (file_bytes F))), F) else (Inl Io, F))"

text \<open>An operation on the directory of the file (creating it, syncing it): it may fail, the file is not touched.\<close>

definition dir_op :: "unit file_op" where
  "dir_op F = (case io_turn F of (fault, F) \<Rightarrow> (if fault = None then Inr () else Inl Io, F))"

definition crash_image :: "File \<Rightarrow> bytes \<Rightarrow> bool" where
  "crash_image F d \<longleftrightarrow> length (file_durable F) \<le> length d \<and> length d \<le> FILE_MAX
     \<and> (\<forall>i < length (file_durable F). d ! i = file_durable F ! i \<or> (i < length (file_bytes F) \<and> d ! i = file_bytes F ! i))"

text \<open>The file as the next process finds it.\<close>

definition reopened :: "bytes \<Rightarrow> File" where
  "reopened d = \<lparr>file_bytes = d, file_pos = 0, file_durable = d, file_faults = []\<rparr>"

section \<open>Frames\<close>

lemma length_write_at: "length (write_at pos bs xs) = (if bs = [] then length xs else max (length xs) (pos + length bs))"
  by (auto simp: write_at_def copy_at_def max_def min_def)

lemma nth_write_at:
  "i < length xs \<Longrightarrow> write_at pos bs xs ! i = (if pos \<le> i \<and> i < pos + length bs then bs ! (i - pos) else xs ! i)"
  by (auto simp: write_at_def copy_at_def nth_append not_less min_def add.commute)

lemma write_at_end: "pos = length xs \<Longrightarrow> write_at pos bs xs = xs @ bs"
  by (simp add: write_at_def copy_at_def)

lemma write_at_inside: "pos + length bs \<le> length xs \<Longrightarrow> write_at pos bs xs = copy_at pos bs xs"
  by (simp add: write_at_def copy_at_def)

text \<open>
  \<open>may_do S F F'\<close>: the file has not shrunk, bytes of the old content outside \<open>S\<close> are as they were, and what is durable is
  either what was durable, or a content reached on the way, which agrees outside \<open>S\<close> too.
\<close>

definition agree_off :: "nat set \<Rightarrow> bytes \<Rightarrow> bytes \<Rightarrow> bool" where
  "agree_off S xs ys \<longleftrightarrow> length xs \<le> length ys \<and> (\<forall>i < length xs. i \<notin> S \<longrightarrow> ys ! i = xs ! i)"

lemma agree_off_refl [simp]: "agree_off S xs xs"
  by (simp add: agree_off_def)

lemma agree_off_trans: "agree_off S xs ys \<Longrightarrow> agree_off S ys zs \<Longrightarrow> agree_off S xs zs"
  by (fastforce simp: agree_off_def)

lemma agree_off_mono: "agree_off S xs ys \<Longrightarrow> S \<subseteq> T \<Longrightarrow> agree_off T xs ys"
  by (auto simp: agree_off_def)

lemma agree_off_write_at: "{pos..<pos + length bs} \<inter> {..<length xs} \<subseteq> S \<Longrightarrow> agree_off S xs (write_at pos bs xs)"
  by (auto simp: agree_off_def length_write_at nth_write_at)

lemma agree_off_append [simp]: "agree_off S xs (xs @ ys)"
  by (simp add: agree_off_def nth_append)

lemma agree_off_slice:
  assumes "agree_off S xs ys" and "stop \<le> length xs" and "{start..<stop} \<inter> S = {}"
  shows "slice_of start stop ys = slice_of start stop xs"
proof (rule nth_equalityI)
  show "length (slice_of start stop ys) = length (slice_of start stop xs)" using assms by (auto simp: slice_of_def agree_off_def)
  fix i assume i: "i < length (slice_of start stop ys)"
  then have "start + i \<in> {start..<stop}" by (auto simp: slice_of_def)
  then have "start + i \<notin> S" "start + i < length xs" using assms(2,3) by (blast, simp)
  then show "slice_of start stop ys ! i = slice_of start stop xs ! i"
    using assms(1,2) i by (auto simp: slice_of_def agree_off_def)
qed

lemma agree_off_empty: "agree_off {} xs ys \<longleftrightarrow> (\<exists>zs. ys = xs @ zs)"
proof
  assume "agree_off {} xs ys"
  then have "take (length xs) ys = xs" by (intro nth_equalityI) (auto simp: agree_off_def)
  then show "\<exists>zs. ys = xs @ zs" by (metis append_take_drop_id)
qed auto

end
