(* ===== verification/Region.thy ===== *)
theory Region
  imports Files
begin

text \<open>
  Region files: \<open>native/storage/src/region.rs\<close>, \<open>region/format.rs\<close> and \<open>region/compact.rs\<close>. A region file holds a header, two
  index pages and appended chunk records; a commit appends records, syncs, writes the inactive index page and syncs
  again.

  The file is a \<open>File\<close> of theory Files, so every I/O error path of the source is a branch of the model. Path names are
  not modelled: \<open>open_or_create\<close> takes the file found (or made) at the path, and compaction takes the temporary file it was
  given and the outcome of the rename. A slot loop with an early return is \<open>those\<close> over the slots.

  The abstraction of a region is the map \<open>region_abs\<close> from positions to imported chunks. \<open>region_wf\<close> is the invariant,
  \<open>clean\<close> says in addition that reopening would choose the same index.
\<close>

section \<open>Format\<close>

definition STORAGE_REGION_EDGE :: int where "STORAGE_REGION_EDGE = 16"
definition REGION_HEADER_BYTES :: nat where "REGION_HEADER_BYTES = 64"
definition INDEX_PAGE_BYTES :: nat where "INDEX_PAGE_BYTES = 16 * 1024"
definition INDEX_PAGE_COUNT :: nat where "INDEX_PAGE_COUNT = 2"
definition INDEX_ENTRY_COUNT :: nat where "INDEX_ENTRY_COUNT = 256"
definition INDEX_ENTRY_BYTES :: nat where "INDEX_ENTRY_BYTES = 40"
definition INDEX_HEADER_BYTES :: nat where "INDEX_HEADER_BYTES = 32"
definition RECORD_AREA_OFFSET :: nat where
  "RECORD_AREA_OFFSET = REGION_HEADER_BYTES + INDEX_PAGE_BYTES * INDEX_PAGE_COUNT"
definition REGION_MAGIC :: bytes where "REGION_MAGIC = [0x43, 0x42, 0x52, 0x47]"
definition INDEX_MAGIC :: bytes where "INDEX_MAGIC = [0x43, 0x42, 0x49, 0x58]"

datatype RegionCoord = RegionCoord (region_x: i32) (region_z: i32)

record IndexEntry =
  record_offset :: u64
  record_len :: u32
  record_crc32c :: u32
  entry_terrain_revision :: u64
  entry_light_revision :: u64

record RegionIndex =
  generation :: u64
  entries :: "IndexEntry option list"

definition RegionIndex_empty :: "u64 \<Rightarrow> RegionIndex" where
  "RegionIndex_empty g = \<lparr>generation = g, entries = replicate INDEX_ENTRY_COUNT None\<rparr>"

definition for_chunk :: "ChunkCoord \<Rightarrow> RegionCoord" where
  "for_chunk pos =
     RegionCoord (i32_div_euclid (coord_x pos) STORAGE_REGION_EDGE) (i32_div_euclid (coord_z pos) STORAGE_REGION_EDGE)"

definition local_index :: "RegionCoord \<Rightarrow> ChunkCoord \<Rightarrow> StorageError + nat" where
  "local_index coord pos =
     (if for_chunk pos \<noteq> coord
      then Inl (ChunkOutsideRegion (coord_x pos) (coord_z pos) (region_x coord) (region_z coord))
      else Inr (i32_rem_euclid (coord_z pos) STORAGE_REGION_EDGE * nat STORAGE_REGION_EDGE
                + i32_rem_euclid (coord_x pos) STORAGE_REGION_EDGE))"

definition encode_region_header :: "storage_env \<Rightarrow> bytes \<Rightarrow> RegionCoord \<Rightarrow> bytes" where
  "encode_region_header env world_uuid coord =
     (let header = replicate REGION_HEADER_BYTES 0;
          header = copy_at 0 REGION_MAGIC header;
          header = put_u16 4 STORAGE_FORMAT_VERSION header;
          header = put_u16 6 (of_nat REGION_HEADER_BYTES) header;
          header = put_i32 8 (region_x coord) header;
          header = put_i32 12 (region_z coord) header;
          header = copy_at 16 world_uuid header;
          header = put_u16 32 (of_int STORAGE_REGION_EDGE) header;
          header = put_u16 34 (of_nat INDEX_PAGE_BYTES) header;
          header = header[36 := of_nat INDEX_PAGE_COUNT];
          header = put_u64 40 (of_nat RECORD_AREA_OFFSET) header;
          header_crc = crc32c env (take 60 header)
      in put_u32 60 header_crc header)"

definition validate_region_header :: "storage_env \<Rightarrow> bytes \<Rightarrow> bytes \<Rightarrow> RegionCoord \<Rightarrow> StorageError + unit" where
  "validate_region_header env header world_uuid coord =
     (if slice_of 0 4 header \<noteq> REGION_MAGIC then Inl (InvalidRegionHeader ''bad magic'')
      else if read_u16 header 4 \<noteq> STORAGE_FORMAT_VERSION then Inl (InvalidRegionHeader ''unsupported format version'')
      else if unat (read_u16 header 6) \<noteq> REGION_HEADER_BYTES then Inl (InvalidRegionHeader ''bad header length'')
      else if crc32c env (take 60 header) \<noteq> read_u32 header 60 then Inl (InvalidRegionHeader ''checksum mismatch'')
      else let actual = RegionCoord (read_i32 header 8) (read_i32 header 12)
           in if actual \<noteq> coord
              then Inl (RegionCoordinateMismatch (region_x coord) (region_z coord) (region_x actual) (region_z actual))
              else if slice_of 16 32 header \<noteq> world_uuid then Inl WorldMismatch
              else if uint (read_u16 header 32) \<noteq> STORAGE_REGION_EDGE
                      \<or> unat (read_u16 header 34) \<noteq> INDEX_PAGE_BYTES
                      \<or> unat (header ! 36) \<noteq> INDEX_PAGE_COUNT
                      \<or> read_u64 header 40 \<noteq> of_nat RECORD_AREA_OFFSET
              then Inl (InvalidRegionHeader ''fixed layout constants mismatch'')
              else Inr ())"

definition put_index_entry :: "nat \<times> IndexEntry option \<Rightarrow> bytes \<Rightarrow> bytes" where
  "put_index_entry slot_entry page =
     (case slot_entry of
        (slot, None) \<Rightarrow> page
      | (slot, Some entry) \<Rightarrow>
          let base = INDEX_HEADER_BYTES + slot * INDEX_ENTRY_BYTES;
              page = put_u64 base (record_offset entry) page;
              page = put_u32 (base + 8) (record_len entry) page;
              page = put_u32 (base + 12) (record_crc32c entry) page;
              page = put_u64 (base + 16) (entry_terrain_revision entry) page
          in put_u64 (base + 24) (entry_light_revision entry) page)"

definition encode_index_page :: "storage_env \<Rightarrow> RegionIndex \<Rightarrow> RegionCoord \<Rightarrow> bytes" where
  "encode_index_page env index coord =
     (let page = replicate INDEX_PAGE_BYTES 0;
          page = copy_at 0 INDEX_MAGIC page;
          page = put_u16 4 STORAGE_FORMAT_VERSION page;
          page = put_u16 6 (of_nat INDEX_PAGE_BYTES) page;
          page = put_u64 8 (generation index) page;
          page = put_i32 16 (region_x coord) page;
          page = put_i32 20 (region_z coord) page;
          page = put_u32 24 (of_nat INDEX_ENTRY_COUNT) page;
          page = fold put_index_entry (enumerate 0 (entries index)) page;
          crc_offset = INDEX_PAGE_BYTES - 4;
          page_crc = crc32c env (take crc_offset page)
      in put_u32 crc_offset page_crc page)"

text \<open>One turn of the slot loop of \<open>decode_index_page\<close>; \<open>None\<close> is the early return.\<close>

definition decode_index_entry :: "bytes \<Rightarrow> nat \<Rightarrow> IndexEntry option option" where
  "decode_index_entry page slot =
     (let base = INDEX_HEADER_BYTES + slot * INDEX_ENTRY_BYTES; at = read_u64 page base
      in if at = 0 then Some None
         else let len = read_u32 page (base + 8)
              in if at < of_nat RECORD_AREA_OFFSET \<or> len = 0 \<or> unat len > MAX_CHUNK_RECORD_BYTES then None
                 else Some (Some \<lparr>record_offset = at, record_len = len, record_crc32c = read_u32 page (base + 12),
                        entry_terrain_revision = read_u64 page (base + 16),
                        entry_light_revision = read_u64 page (base + 24)\<rparr>))"

definition decode_index_page :: "storage_env \<Rightarrow> bytes \<Rightarrow> RegionCoord \<Rightarrow> RegionIndex option" where
  "decode_index_page env page coord =
     (let crc_offset = INDEX_PAGE_BYTES - 4
      in if slice_of 0 4 page \<noteq> INDEX_MAGIC \<or> read_u16 page 4 \<noteq> STORAGE_FORMAT_VERSION
            \<or> unat (read_u16 page 6) \<noteq> INDEX_PAGE_BYTES \<or> read_i32 page 16 \<noteq> region_x coord
            \<or> read_i32 page 20 \<noteq> region_z coord \<or> unat (read_u32 page 24) \<noteq> INDEX_ENTRY_COUNT
            \<or> crc32c env (take crc_offset page) \<noteq> read_u32 page crc_offset
         then None
         else map_option (\<lambda>es. \<lparr>generation = read_u64 page 8, entries = es\<rparr>)
                (those (map (decode_index_entry page) [0..<INDEX_ENTRY_COUNT])))"

definition index_page_offset :: "nat \<Rightarrow> nat" where
  "index_page_offset page = REGION_HEADER_BYTES + page * INDEX_PAGE_BYTES"

definition initialize_region :: "storage_env \<Rightarrow> bytes \<Rightarrow> RegionCoord \<Rightarrow> unit file_op" where
  "initialize_region env world_uuid coord =
     io_bind (seek_start 0) (\<lambda>_.
     io_bind (write_all (encode_region_header env world_uuid coord)) (\<lambda>_.
     io_bind (write_all (encode_index_page env (RegionIndex_empty 1) coord)) (\<lambda>_.
     io_bind (write_all (encode_index_page env (RegionIndex_empty 0) coord)) (\<lambda>_.
     io_bind (set_len (of_nat RECORD_AREA_OFFSET)) (\<lambda>_. sync_data)))))"

definition read_exact_at :: "nat \<Rightarrow> u64 \<Rightarrow> bytes file_op" where
  "read_exact_at n k = io_bind (seek_start k) (\<lambda>_. read_exact_file n)"

section \<open>Region files\<close>

record RegionStats =
  stat_file_bytes :: u64
  stat_record_bytes :: u64
  stat_live_bytes :: u64
  stat_dead_bytes :: u64
  stat_indexed_chunks :: nat

record RegionSaveResult =
  save_generation :: u64
  save_records :: nat
  save_bytes_appended :: u64
  save_stats :: RegionStats

record RegionCompactionResult =
  compact_generation :: u64
  compact_records :: nat
  bytes_reclaimed :: u64
  stats_before :: RegionStats
  stats_after :: RegionStats

record RegionFile =
  rf_file :: File
  rf_world_uuid :: bytes
  rf_coord :: RegionCoord
  active_page :: nat
  rf_index :: RegionIndex

definition choose_page :: "RegionIndex option \<Rightarrow> RegionIndex option \<Rightarrow> StorageError + nat \<times> RegionIndex" where
  "choose_page decoded_a decoded_b =
     (case (decoded_a, decoded_b) of
        (Some a, Some b) \<Rightarrow> if generation b > generation a then Inr (1, b) else Inr (0, a)
      | (Some a, None) \<Rightarrow> Inr (0, a)
      | (None, Some b) \<Rightarrow> Inr (1, b)
      | (None, None) \<Rightarrow> Inl InvalidIndexPages)"

definition from_open_file :: "storage_env \<Rightarrow> bytes \<Rightarrow> RegionCoord \<Rightarrow> RegionFile file_op" where
  "from_open_file env world_uuid coord =
     io_bind (read_exact_at REGION_HEADER_BYTES 0) (\<lambda>header.
     io_bind (io_lift (validate_region_header env header world_uuid coord)) (\<lambda>_.
     io_bind (read_exact_at INDEX_PAGE_BYTES (of_nat REGION_HEADER_BYTES)) (\<lambda>page_a.
     io_bind (read_exact_at INDEX_PAGE_BYTES (of_nat (REGION_HEADER_BYTES + INDEX_PAGE_BYTES))) (\<lambda>page_b.
     io_bind (io_lift (choose_page (decode_index_page env page_a coord) (decode_index_page env page_b coord))) (\<lambda>(active, index) F.
     (Inr \<lparr>rf_file = F, rf_world_uuid = world_uuid, rf_coord = coord, active_page = active, rf_index = index\<rparr>, F))))))"

definition short_region :: StorageError where
  "short_region = InvalidRegionHeader ''file is shorter than fixed header/index area''"

definition open_or_create :: "storage_env \<Rightarrow> bytes \<Rightarrow> RegionCoord \<Rightarrow> RegionFile file_op" where
  "open_or_create env world_uuid coord =
     io_bind dir_op (\<lambda>_.
     io_bind file_len (\<lambda>len.
     io_bind (if len = 0 then io_bind (initialize_region env world_uuid coord) (\<lambda>_. dir_op)
              else if len < of_nat RECORD_AREA_OFFSET then io_lift (Inl short_region)
              else io_lift (Inr ())) (\<lambda>_.
     from_open_file env world_uuid coord)))"

definition open_found :: "storage_env \<Rightarrow> bytes \<Rightarrow> RegionCoord \<Rightarrow> RegionFile file_op" where
  "open_found env world_uuid coord =
     io_bind file_len (\<lambda>len.
     if len < of_nat RECORD_AREA_OFFSET then io_lift (Inl short_region) else from_open_file env world_uuid coord)"

text \<open>\<open>open_existing\<close>, given what opening the path for reading and writing gave.\<close>

datatype OpenOld = FoundFile File | NotFound | OpenError

definition open_existing :: "storage_env \<Rightarrow> bytes \<Rightarrow> RegionCoord \<Rightarrow> OpenOld \<Rightarrow> StorageError + RegionFile option" where
  "open_existing env world_uuid coord opened =
     (case opened of
        NotFound \<Rightarrow> Inr None
      | OpenError \<Rightarrow> Inl Io
      | FoundFile F \<Rightarrow> map_ok Some (fst (open_found env world_uuid coord F)))"

definition indexed_chunks :: "RegionIndex \<Rightarrow> nat" where
  "indexed_chunks index = length (filter (\<lambda>e. e \<noteq> None) (entries index))"

definition live_bytes :: "RegionIndex \<Rightarrow> u64" where
  "live_bytes index = sum_list (map (\<lambda>e. case e of None \<Rightarrow> 0 | Some e \<Rightarrow> ucast (record_len e)) (entries index))"

definition region_stats :: "RegionIndex \<Rightarrow> RegionStats file_op" where
  "region_stats index =
     io_bind file_len (\<lambda>size.
     if size < of_nat RECORD_AREA_OFFSET
     then io_lift (Inl (InvalidRegionHeader ''record area starts before fixed offset''))
     else let record_bytes = size - of_nat RECORD_AREA_OFFSET; live = live_bytes index
          in if live > record_bytes then io_lift (Inl (CorruptChunkRecord ''indexed live bytes exceed record area''))
             else io_lift (Inr \<lparr>stat_file_bytes = size, stat_record_bytes = record_bytes, stat_live_bytes = live,
                    stat_dead_bytes = record_bytes - live, stat_indexed_chunks = indexed_chunks index\<rparr>))"

text \<open>The checks on a record that was read, after the file access.\<close>

definition check_indexed_record ::
  "storage_env \<Rightarrow> RegionCoord \<Rightarrow> nat \<Rightarrow> IndexEntry \<Rightarrow> bytes \<Rightarrow> StorageError + bytes \<times> StoredChunk" where
  "check_indexed_record env coord slot entry data =
     (if crc32c env data \<noteq> record_crc32c entry then Inl (CorruptChunkRecord ''indexed record checksum mismatch'')
      else rbind (decode_chunk_record env data) (\<lambda>decoded.
           rbind (local_index coord (stored_position decoded)) (\<lambda>actual.
           if actual \<noteq> slot then Inl IndexRecordCoordinateMismatch
           else if imp_terrain_revision (stored_import decoded) \<noteq> entry_terrain_revision entry
                   \<or> imp_light_revision (stored_import decoded) \<noteq> entry_light_revision entry
           then Inl IndexRecordRevisionMismatch
           else Inr (data, decoded))))"

definition read_indexed_record ::
  "storage_env \<Rightarrow> RegionCoord \<Rightarrow> nat \<Rightarrow> IndexEntry \<Rightarrow> (bytes \<times> StoredChunk) file_op" where
  "read_indexed_record env coord slot entry =
     (let len = unat (record_len entry)
      in if len > MAX_CHUNK_RECORD_BYTES then io_lift (Inl (RecordTooLarge len MAX_CHUNK_RECORD_BYTES))
         else if record_offset entry < of_nat RECORD_AREA_OFFSET
         then io_lift (Inl (CorruptChunkRecord ''index points into fixed header/index area''))
         else io_bind (io_lift (ok_or (checked_add (record_offset entry) (ucast (record_len entry)))
                                  (CorruptChunkRecord ''record offset overflow''))) (\<lambda>stop.
              io_bind file_len (\<lambda>size.
              if stop > size then io_lift (Inl (CorruptChunkRecord ''index points beyond end of region file''))
              else io_bind (seek_start (record_offset entry)) (\<lambda>_.
                   io_bind (read_exact_file len) (\<lambda>data.
                   io_lift (check_indexed_record env coord slot entry data))))))"

definition load_chunk :: "storage_env \<Rightarrow> ChunkCoord \<Rightarrow> RegionFile \<Rightarrow> (StorageError + StoredChunk option) \<times> RegionFile" where
  "load_chunk env pos R =
     (case local_index (rf_coord R) pos of
        Inl e \<Rightarrow> (Inl e, R)
      | Inr slot \<Rightarrow>
          (case entries (rf_index R) ! slot of
             None \<Rightarrow> (Inr None, R)
           | Some entry \<Rightarrow>
               (case read_indexed_record env (rf_coord R) slot entry (rf_file R) of
                  (Inl e, F) \<Rightarrow> (Inl e, R\<lparr>rf_file := F\<rparr>)
                | (Inr (_, decoded), F) \<Rightarrow>
                    (if stored_position decoded \<noteq> pos then Inl IndexRecordCoordinateMismatch else Inr (Some decoded),
                     R\<lparr>rf_file := F\<rparr>))))"

text \<open>The first loop of \<open>save_chunks\<close>: every snapshot is placed and encoded before the file is touched.\<close>

definition encode_snapshot ::
  "storage_env \<Rightarrow> RegionCoord \<Rightarrow> CompressionPolicy \<Rightarrow> ChunkSnapshot \<Rightarrow> bool list \<times> (nat \<times> u64 \<times> u64 \<times> bytes) list
    \<Rightarrow> StorageError + bool list \<times> (nat \<times> u64 \<times> u64 \<times> bytes) list" where
  "encode_snapshot env coord policy snap s =
     (case s of (seen, encoded) \<Rightarrow>
        rbind (local_index coord (snap_position snap)) (\<lambda>slot.
        if seen ! slot
        then Inl (DuplicateChunkInCommit (coord_x (snap_position snap)) (coord_z (snap_position snap)))
        else rbind (encode_chunk_record_with_policy env snap policy []) (\<lambda>data.
             Inr (seen[slot := True],
                  encoded @ [(slot, snap_terrain_revision snap, snap_light_revision snap, data)]))))"

text \<open>The second loop: append the records and build the next index.\<close>

fun append_records ::
  "storage_env \<Rightarrow> (nat \<times> u64 \<times> u64 \<times> bytes) list \<Rightarrow> u64 \<Rightarrow> RegionIndex \<Rightarrow> (u64 \<times> RegionIndex) file_op" where
  "append_records env [] stop index = io_lift (Inr (stop, index))"
| "append_records env ((slot, terrain, light, data) # encoded) stop index =
     io_bind (io_lift (ensure (length data < 2 ^ 32) (RecordTooLarge (length data) (2 ^ 32 - 1)))) (\<lambda>_.
     let len = of_nat (length data) :: u32;
         entry = \<lparr>record_offset = stop, record_len = len, record_crc32c = crc32c env data,
                  entry_terrain_revision = terrain, entry_light_revision = light\<rparr>
     in io_bind (write_all data) (\<lambda>_.
        io_bind (io_lift (ok_or (checked_add stop (ucast len)) (RecordTooLarge usize_max MAX_CHUNK_RECORD_BYTES))) (\<lambda>stop.
        append_records env encoded stop (index\<lparr>entries := (entries index)[slot := Some entry]\<rparr>))))"

definition commit_records ::
  "storage_env \<Rightarrow> RegionCoord \<Rightarrow> nat \<Rightarrow> RegionIndex \<Rightarrow> (nat \<times> u64 \<times> u64 \<times> bytes) list
    \<Rightarrow> (u64 \<times> u64 \<times> nat \<times> RegionIndex) file_op" where
  "commit_records env coord active index encoded =
     io_bind seek_end (\<lambda>start.
     if start < of_nat RECORD_AREA_OFFSET
     then io_lift (Inl (InvalidRegionHeader ''record area starts before fixed offset''))
     else io_bind (append_records env encoded start index) (\<lambda>(stop, next_index).
          io_bind sync_data (\<lambda>_.
          io_bind (io_lift (ok_or (checked_add (generation index) 1) IndexGenerationExhausted)) (\<lambda>g.
          let next_index = next_index\<lparr>generation := g\<rparr>; inactive = 1 - active
          in io_bind (seek_start (of_nat (index_page_offset inactive))) (\<lambda>_.
             io_bind (write_all (encode_index_page env next_index coord)) (\<lambda>_.
             io_bind sync_data (\<lambda>_. io_lift (Inr (start, stop, inactive, next_index)))))))))"

definition save_chunks ::
  "storage_env \<Rightarrow> ChunkSnapshot list \<Rightarrow> CompressionPolicy \<Rightarrow> RegionFile \<Rightarrow> (StorageError + RegionSaveResult) \<times> RegionFile" where
  "save_chunks env snapshots policy R =
     (if snapshots = []
      then case region_stats (rf_index R) (rf_file R) of
             (r, F) \<Rightarrow> (map_ok (\<lambda>stats. \<lparr>save_generation = generation (rf_index R), save_records = 0,
                         save_bytes_appended = 0, save_stats = stats\<rparr>) r, R\<lparr>rf_file := F\<rparr>)
      else case for_each (encode_snapshot env (rf_coord R) policy) snapshots (replicate INDEX_ENTRY_COUNT False, []) of
             Inl e \<Rightarrow> (Inl e, R)
           | Inr (_, encoded) \<Rightarrow>
               (case commit_records env (rf_coord R) (active_page R) (rf_index R) encoded (rf_file R) of
                  (Inl e, F) \<Rightarrow> (Inl e, R\<lparr>rf_file := F\<rparr>)
                | (Inr (start, stop, inactive, next_index), F) \<Rightarrow>
                    (case region_stats next_index F of
                       (r, F) \<Rightarrow>
                         (map_ok (\<lambda>stats. \<lparr>save_generation = generation next_index, save_records = length snapshots,
                            save_bytes_appended = stop - start, save_stats = stats\<rparr>) r,
                          R\<lparr>rf_file := F, active_page := inactive, rf_index := next_index\<rparr>))))"

definition save_chunk ::
  "storage_env \<Rightarrow> ChunkSnapshot \<Rightarrow> CompressionPolicy \<Rightarrow> RegionFile \<Rightarrow> (StorageError + RegionSaveResult) \<times> RegionFile" where
  "save_chunk env snapshot = save_chunks env [snapshot]"

text \<open>\<open>sync_all\<close>: in the file model data and metadata reach the disk together.\<close>

definition RegionFile_sync_all :: "RegionFile \<Rightarrow> (StorageError + unit) \<times> RegionFile" where
  "RegionFile_sync_all R = (case sync_data (rf_file R) of (r, F) \<Rightarrow> (r, R\<lparr>rf_file := F\<rparr>))"

section \<open>Compaction\<close>

datatype OpenNew = NewFile File | NameTaken | OpenFailed

text \<open>\<open>create_compaction_temp\<close>: \<open>open_new attempt\<close> is the outcome of opening the candidate name of that attempt.\<close>

fun try_open_new :: "(nat \<Rightarrow> OpenNew) \<Rightarrow> nat list \<Rightarrow> StorageError + File" where
  "try_open_new open_new [] = Inl Io"
| "try_open_new open_new (attempt # attempts) =
     (case open_new attempt of
        NewFile T \<Rightarrow> Inr T
      | NameTaken \<Rightarrow> try_open_new open_new attempts
      | OpenFailed \<Rightarrow> Inl Io)"

definition create_compaction_temp :: "(nat \<Rightarrow> OpenNew) \<Rightarrow> StorageError + File" where
  "create_compaction_temp open_new = try_open_new open_new [0..<64]"

text \<open>The copy loop of \<open>compact\<close>: it reads from the region file and writes to the temporary file.\<close>

fun copy_records ::
  "storage_env \<Rightarrow> RegionCoord \<Rightarrow> (nat \<times> IndexEntry option) list \<Rightarrow> u64 \<Rightarrow> RegionIndex \<Rightarrow> File \<Rightarrow> File
    \<Rightarrow> (StorageError + u64 \<times> RegionIndex) \<times> File \<times> File" where
  "copy_records env coord [] stop index F T = (Inr (stop, index), F, T)"
| "copy_records env coord ((slot, None) # es) stop index F T = copy_records env coord es stop index F T"
| "copy_records env coord ((slot, Some entry) # es) stop index F T =
     (case read_indexed_record env coord slot entry F of
        (Inl e, F) \<Rightarrow> (Inl e, F, T)
      | (Inr (data, _), F) \<Rightarrow>
          (case io_bind (seek_start stop) (\<lambda>_. write_all data) T of
             (Inl e, T) \<Rightarrow> (Inl e, F, T)
           | (Inr _, T) \<Rightarrow>
               let index = index\<lparr>entries := (entries index)[slot := Some (entry\<lparr>record_offset := stop\<rparr>)]\<rparr>
               in case checked_add stop (ucast (record_len entry)) of
                    None \<Rightarrow> (Inl (CorruptChunkRecord ''compacted record offset overflow''), F, T)
                  | Some stop \<Rightarrow> copy_records env coord es stop index F T))"

definition write_compact_index :: "storage_env \<Rightarrow> RegionCoord \<Rightarrow> u64 \<Rightarrow> u64 \<Rightarrow> RegionIndex \<Rightarrow> unit file_op" where
  "write_compact_index env coord old_generation stop index =
     io_bind (set_len stop) (\<lambda>_.
     io_bind sync_data (\<lambda>_.
     io_bind (seek_start (of_nat (index_page_offset 1))) (\<lambda>_.
     io_bind (write_all (encode_index_page env (index\<lparr>generation := old_generation\<rparr>) coord)) (\<lambda>_.
     io_bind (seek_start (of_nat (index_page_offset 0))) (\<lambda>_.
     io_bind (write_all (encode_index_page env index coord)) (\<lambda>_. sync_data))))))"

definition compact_build ::
  "storage_env \<Rightarrow> RegionCoord \<Rightarrow> RegionIndex \<Rightarrow> u64 \<Rightarrow> File \<Rightarrow> File \<Rightarrow> (StorageError + RegionIndex) \<times> File \<times> File" where
  "compact_build env coord current next_generation F T =
     (case copy_records env coord (enumerate 0 (entries current)) (of_nat RECORD_AREA_OFFSET)
             (RegionIndex_empty next_generation) F T of
        (Inl e, F, T) \<Rightarrow> (Inl e, F, T)
      | (Inr (stop, index), F, T) \<Rightarrow>
          (case write_compact_index env coord (generation current) stop index T of
             (Inl e, T) \<Rightarrow> (Inl e, F, T)
           | (Inr _, T) \<Rightarrow> (Inr index, F, T)))"

text \<open>The end of \<open>compact\<close>, once the new file is complete: sizes, rename, replacement, directory sync.\<close>

definition compact_replace ::
  "RegionStats \<Rightarrow> bool \<Rightarrow> RegionIndex \<Rightarrow> File \<Rightarrow> RegionFile \<Rightarrow> (StorageError + RegionCompactionResult) \<times> RegionFile" where
  "compact_replace before rename_ok index T R =
     (case region_stats index T of
        (Inl e, _) \<Rightarrow> (Inl e, R)
      | (Inr after, T) \<Rightarrow>
          if stat_file_bytes before < stat_file_bytes after
          then (Inl (CorruptChunkRecord ''compaction increased region file size''), R)
          else if \<not> rename_ok then (Inl Io, R)
          else (case dir_op T of
                  (r, T) \<Rightarrow>
                    (map_ok (\<lambda>_. \<lparr>compact_generation = generation index, compact_records = indexed_chunks index,
                       bytes_reclaimed = stat_file_bytes before - stat_file_bytes after,
                       stats_before = before, stats_after = after\<rparr>) r,
                     R\<lparr>rf_file := T, active_page := 0, rf_index := index\<rparr>)))"

definition compact ::
  "storage_env \<Rightarrow> (nat \<Rightarrow> OpenNew) \<Rightarrow> bool \<Rightarrow> RegionFile \<Rightarrow> (StorageError + RegionCompactionResult) \<times> RegionFile" where
  "compact env open_new rename_ok R =
     (case region_stats (rf_index R) (rf_file R) of
        (Inl e, F) \<Rightarrow> (Inl e, R\<lparr>rf_file := F\<rparr>)
      | (Inr before, F) \<Rightarrow>
          let R = R\<lparr>rf_file := F\<rparr>
          in if stat_dead_bytes before = 0
             then (Inr \<lparr>compact_generation = generation (rf_index R), compact_records = stat_indexed_chunks before,
                        bytes_reclaimed = 0, stats_before = before, stats_after = before\<rparr>, R)
             else case checked_add (generation (rf_index R)) 1 of
                    None \<Rightarrow> (Inl IndexGenerationExhausted, R)
                  | Some next_generation \<Rightarrow>
                      (case create_compaction_temp open_new of
                         Inl e \<Rightarrow> (Inl e, R)
                       | Inr T \<Rightarrow>
                           (case initialize_region env (rf_world_uuid R) (rf_coord R) T of
                              (Inl e, _) \<Rightarrow> (Inl e, R)
                            | (Inr _, T) \<Rightarrow>
                                (case compact_build env (rf_coord R) (rf_index R) next_generation (rf_file R) T of
                                   (Inl e, F, _) \<Rightarrow> (Inl e, R\<lparr>rf_file := F\<rparr>)
                                 | (Inr index, F, T) \<Rightarrow>
                                     compact_replace before rename_ok index T (R\<lparr>rf_file := F\<rparr>)))))"

section \<open>Layout of the index pages\<close>

lemmas region_sizes = REGION_HEADER_BYTES_def INDEX_PAGE_BYTES_def INDEX_PAGE_COUNT_def INDEX_ENTRY_COUNT_def
  INDEX_ENTRY_BYTES_def INDEX_HEADER_BYTES_def RECORD_AREA_OFFSET_def

definition entry_fields :: "nat \<Rightarrow> IndexEntry option \<Rightarrow> (nat \<times> bytes) list" where
  "entry_fields slot oe =
     (case oe of
        None \<Rightarrow> []
      | Some e \<Rightarrow>
          let base = 32 + slot * 40
          in [(base, to_le_bytes (record_offset e)), (base + 8, to_le_bytes (record_len e)),
              (base + 12, to_le_bytes (record_crc32c e)), (base + 16, to_le_bytes (entry_terrain_revision e)),
              (base + 24, to_le_bytes (entry_light_revision e))])"

definition all_entry_fields :: "nat \<Rightarrow> IndexEntry option list \<Rightarrow> (nat \<times> bytes) list" where
  "all_entry_fields n es = concat (map (\<lambda>(slot, oe). entry_fields slot oe) (enumerate n es))"

definition page_fields :: "RegionIndex \<Rightarrow> RegionCoord \<Rightarrow> (nat \<times> bytes) list" where
  "page_fields index coord =
     [(0, INDEX_MAGIC), (4, to_le_bytes STORAGE_FORMAT_VERSION), (6, to_le_bytes (of_nat INDEX_PAGE_BYTES :: u16)),
      (8, to_le_bytes (generation index)), (16, to_le_bytes (region_x coord)), (20, to_le_bytes (region_z coord)),
      (24, to_le_bytes (of_nat INDEX_ENTRY_COUNT :: u32))] @ all_entry_fields 0 (entries index)"

lemma put_index_entry_alt: "put_index_entry (slot, oe) page = write_fields (entry_fields slot oe) page"
  by (cases oe) (simp_all add: put_index_entry_def entry_fields_def write_fields_def put_defs region_sizes Let_def)

lemma write_fields_append: "write_fields (fs @ gs) xs = write_fields gs (write_fields fs xs)"
  by (simp add: write_fields_def)

lemma fold_put_index_entry: "fold put_index_entry (enumerate n es) page = write_fields (all_entry_fields n es) page"
proof (induction es arbitrary: n page)
  case Nil
  then show ?case by (simp add: all_entry_fields_def write_fields_def)
next
  case (Cons e es)
  then show ?case by (simp add: all_entry_fields_def put_index_entry_alt write_fields_append)
qed

lemma encode_index_page_alt:
  "encode_index_page env index coord =
     (let h = write_fields (page_fields index coord) (replicate 16384 0) in put_u32 16380 (crc32c env (take 16380 h)) h)"
  unfolding encode_index_page_def Let_def fold_put_index_entry page_fields_def write_fields_append
  by (simp add: write_fields_def put_defs INDEX_PAGE_BYTES_def)

lemma entry_fields_range: "(k, bs) \<in> set (entry_fields slot oe) \<Longrightarrow> 32 + slot * 40 \<le> k \<and> k + length bs \<le> 32 + slot * 40 + 32"
  by (auto simp: entry_fields_def Let_def split: option.splits)

lemma entry_fields_sorted: "sorted_wrt (\<lambda>(k, bs) (k', _). k + length bs \<le> k') (entry_fields slot oe)"
  by (auto simp: entry_fields_def Let_def split: option.splits)

lemma all_entry_fields_range:
  "(k, bs) \<in> set (all_entry_fields n es) \<Longrightarrow> \<exists>slot. n \<le> slot \<and> slot < n + length es \<and> (k, bs) \<in> set (entry_fields slot (es ! (slot - n)))"
  by (auto simp: all_entry_fields_def in_set_enumerate_eq)

lemma all_entry_fields_sorted: "sorted_wrt (\<lambda>(k, bs) (k', _). k + length bs \<le> k') (all_entry_fields n es)"
proof (induction es arbitrary: n)
  case Nil
  then show ?case by (simp add: all_entry_fields_def)
next
  case (Cons e es)
  have step: "all_entry_fields n (e # es) = entry_fields n e @ all_entry_fields (Suc n) es" by (simp add: all_entry_fields_def)
  have "k + length bs \<le> k'" if a: "(k, bs) \<in> set (entry_fields n e)" and b: "(k', bs') \<in> set (all_entry_fields (Suc n) es)" for k bs k' bs'
  proof -
    obtain slot where "Suc n \<le> slot" "(k', bs') \<in> set (entry_fields slot (es ! (slot - Suc n)))"
      using all_entry_fields_range [OF b] by blast
    then show ?thesis using entry_fields_range [OF a] entry_fields_range [of k' bs' slot] by fastforce
  qed
  then show ?case unfolding step sorted_wrt_append using Cons.IH entry_fields_sorted by fast
qed

lemma page_fields_ok:
  assumes "length (entries index) = INDEX_ENTRY_COUNT"
  shows "fields_ok 16384 (page_fields index coord)" and "list_all (\<lambda>(k, bs). k + length bs \<le> 16380) (page_fields index coord)"
proof -
  have entry: "32 \<le> k \<and> k + length bs \<le> 10272" if "(k, bs) \<in> set (all_entry_fields 0 (entries index))" for k bs
    using all_entry_fields_range [OF that] entry_fields_range [of k bs] assms by (fastforce simp: region_sizes)
  then show "list_all (\<lambda>(k, bs). k + length bs \<le> 16380) (page_fields index coord)"
    by (fastforce simp: page_fields_def INDEX_MAGIC_def list_all_iff)
  then show "fields_ok 16384 (page_fields index coord)"
    using entry all_entry_fields_sorted [of 0 "entries index"]
    by (fastforce simp: fields_ok_def page_fields_def INDEX_MAGIC_def list_all_iff sorted_wrt_append)
qed

text \<open>An entry that a page can carry.\<close>

definition page_entry_ok :: "IndexEntry \<Rightarrow> bool" where
  "page_entry_ok e \<longleftrightarrow> RECORD_AREA_OFFSET \<le> unat (record_offset e) \<and> record_len e \<noteq> 0 \<and> unat (record_len e) \<le> MAX_CHUNK_RECORD_BYTES"

definition index_valid :: "RegionIndex \<Rightarrow> bool" where
  "index_valid index \<longleftrightarrow> length (entries index) = INDEX_ENTRY_COUNT \<and> (\<forall>e. Some e \<in> set (entries index) \<longrightarrow> page_entry_ok e)"

lemma encode_index_page_fields:
  assumes len: "length (entries index) = INDEX_ENTRY_COUNT" and page: "page = encode_index_page env index coord"
  shows "length page = INDEX_PAGE_BYTES" and "read_u32 page 16380 = crc32c env (take 16380 page)"
    and "(k, bs) \<in> set (page_fields index coord) \<Longrightarrow> stop = k + length bs \<Longrightarrow> slice_of k stop page = bs"
    and "slot < INDEX_ENTRY_COUNT \<Longrightarrow> entries index ! slot = None \<Longrightarrow> slice_of (32 + slot * 40) (40 + slot * 40) page = replicate 8 0"
proof -
  let ?h = "write_fields (page_fields index coord) (replicate 16384 0)"
  note ok = page_fields_ok [OF len, of coord]
  have p: "page = put_u32 16380 (crc32c env (take 16380 ?h)) ?h" by (simp add: page encode_index_page_alt Let_def)
  note F = sealed_fields [OF _ ok(2) _ p, simplified, OF ok(1)]
  show "length page = INDEX_PAGE_BYTES" using F(1) by (simp add: INDEX_PAGE_BYTES_def)
  show "read_u32 page 16380 = crc32c env (take 16380 page)" using F(2,3) by (simp add: read_u32_def)
  show "(k, bs) \<in> set (page_fields index coord) \<Longrightarrow> stop = k + length bs \<Longrightarrow> slice_of k stop page = bs" by (rule F(4))
  assume slot: "slot < INDEX_ENTRY_COUNT" and none: "entries index ! slot = None"
  have other: "40 + slot * 40 \<le> k \<or> k + length bs \<le> 32 + slot * 40" if "(k, bs) \<in> set (page_fields index coord)" for k bs
  proof (cases "(k, bs) \<in> set (all_entry_fields 0 (entries index))")
    case True
    then obtain s where s: "(k, bs) \<in> set (entry_fields s (entries index ! s))" using all_entry_fields_range by fastforce
    then have "s \<noteq> slot" using none by (auto simp: entry_fields_def)
    then have "s * 40 + 40 \<le> slot * 40 \<or> slot * 40 + 40 \<le> s * 40" by arith
    then show ?thesis using entry_fields_range [OF s] by linarith
  next
    case False
    then show ?thesis using that by (auto simp: page_fields_def INDEX_MAGIC_def)
  qed
  have "slice_of (32 + slot * 40) (40 + slot * 40) page = slice_of (32 + slot * 40) (40 + slot * 40) ?h"
    using slot unfolding p put_u32_def by (intro slice_copy_other) (simp_all add: length_write_fields ok(1) region_sizes)
  also have "\<dots> = slice_of (32 + slot * 40) (40 + slot * 40) (replicate 16384 0)"
    by (rule slice_write_fields_other) (use ok(1) other in \<open>auto simp: list_all_iff\<close>)
  also have "\<dots> = replicate 8 0" using slot by (simp add: slice_of_def region_sizes)
  finally show "slice_of (32 + slot * 40) (40 + slot * 40) page = replicate 8 0" .
qed

lemma from_le_bytes_zeros: "from_le_bytes (replicate n 0) = 0"
  by (induction n) simp_all

lemma decode_index_entry_encode:
  assumes idx: "index_valid index" and slot: "slot < INDEX_ENTRY_COUNT"
  shows "decode_index_entry (encode_index_page env index coord) slot = Some (entries index ! slot)"
proof -
  have len: "length (entries index) = INDEX_ENTRY_COUNT" using idx by (simp add: index_valid_def)
  note F = encode_index_page_fields [OF len refl]
  show ?thesis
  proof (cases "entries index ! slot")
    case None
    then have "read_u64 (encode_index_page env index coord) (32 + slot * 40) = 0"
      using F(4) [OF slot None] by (simp add: read_u64_def from_le_bytes_zeros add.commute)
    with None show ?thesis by (simp add: decode_index_entry_def Let_def region_sizes)
  next
    case (Some e)
    have valid: "page_entry_ok e" using idx slot Some len by (metis index_valid_def nth_mem)
    have "set (entry_fields slot (Some e)) \<subseteq> set (page_fields index coord)"
      using slot len Some by (fastforce simp: page_fields_def all_entry_fields_def in_set_enumerate_eq)
    then have field: "(k, bs) \<in> set (entry_fields slot (Some e)) \<Longrightarrow> stop = k + length bs
        \<Longrightarrow> slice_of k stop (encode_index_page env index coord) = bs" for k bs stop
      by (intro F(3)) auto
    have rd64: "(k, to_le_bytes w) \<in> set (entry_fields slot (Some e)) \<Longrightarrow> read_u64 (encode_index_page env index coord) k = w" for k w
      using field [of k "to_le_bytes w" "k + 8"] by (simp add: read_u64_def)
    have rd32: "(k, to_le_bytes w) \<in> set (entry_fields slot (Some e)) \<Longrightarrow> read_u32 (encode_index_page env index coord) k = w" for k w
      using field [of k "to_le_bytes w" "k + 4"] by (simp add: read_u32_def)
    let ?b = "32 + slot * 40"
    have reads: "read_u64 (encode_index_page env index coord) ?b = record_offset e"
      "read_u32 (encode_index_page env index coord) (?b + 8) = record_len e"
      "read_u32 (encode_index_page env index coord) (?b + 12) = record_crc32c e"
      "read_u64 (encode_index_page env index coord) (?b + 16) = entry_terrain_revision e"
      "read_u64 (encode_index_page env index coord) (?b + 24) = entry_light_revision e"
      by ((rule rd64 rd32), simp add: entry_fields_def Let_def)+
    have "\<not> record_offset e < of_nat RECORD_AREA_OFFSET" "record_offset e \<noteq> 0"
      using valid by (auto simp: page_entry_ok_def region_sizes word_less_nat_alt)
    then show ?thesis
      unfolding decode_index_entry_def Let_def INDEX_HEADER_BYTES_def INDEX_ENTRY_BYTES_def reads
      using valid Some by (simp add: page_entry_ok_def not_less)
  qed
qed

lemma those_map_Some: "those (map (\<lambda>x. Some (f x)) xs) = Some (map f xs)"
  by (induction xs) simp_all

text \<open>A written page is read back as the index it was written from.\<close>

lemma index_page_roundtrip:
  assumes "index_valid index"
  shows "decode_index_page env (encode_index_page env index coord) coord = Some index"
proof -
  have len: "length (entries index) = INDEX_ENTRY_COUNT" using assms by (simp add: index_valid_def)
  let ?p = "encode_index_page env index coord"
  note F = encode_index_page_fields [OF len refl, where env = env and coord = coord]
  have head: "slice_of 0 4 ?p = INDEX_MAGIC" "slice_of 4 6 ?p = to_le_bytes STORAGE_FORMAT_VERSION"
      "slice_of 6 8 ?p = to_le_bytes (of_nat INDEX_PAGE_BYTES :: u16)" "slice_of 8 16 ?p = to_le_bytes (generation index)"
      "slice_of 16 20 ?p = to_le_bytes (region_x coord)" "slice_of 20 24 ?p = to_le_bytes (region_z coord)"
      "slice_of 24 28 ?p = to_le_bytes (of_nat INDEX_ENTRY_COUNT :: u32)"
    by (rule F(3); simp add: page_fields_def INDEX_MAGIC_def)+
  have "map (decode_index_entry ?p) [0..<INDEX_ENTRY_COUNT] = map (\<lambda>i. Some (entries index ! i)) [0..<INDEX_ENTRY_COUNT]"
    using decode_index_entry_encode [OF assms] by simp
  then have "those (map (decode_index_entry ?p) [0..<INDEX_ENTRY_COUNT]) = Some (entries index)"
    by (simp only: those_map_Some) (simp add: len [symmetric] map_nth)
  moreover have "crc32c env (take 16380 ?p) = from_le_bytes (slice_of 16380 16384 ?p)" using F(2) by (simp add: read_u32_def)
  ultimately show ?thesis
    by (simp add: decode_index_page_def Let_def read_defs head INDEX_PAGE_BYTES_def INDEX_ENTRY_COUNT_def)
qed

lemma region_header_valid:
  assumes "length uuid = 16"
  shows "validate_region_header env (encode_region_header env uuid coord) uuid coord = Inr ()"
    and "length (encode_region_header env uuid coord) = REGION_HEADER_BYTES"
proof -
  define fs :: "(nat \<times> bytes) list" where "fs = [(0, REGION_MAGIC), (4, to_le_bytes STORAGE_FORMAT_VERSION), (6, to_le_bytes (of_nat REGION_HEADER_BYTES :: u16)),
    (8, to_le_bytes (region_x coord)), (12, to_le_bytes (region_z coord)), (16, uuid), (32, to_le_bytes (of_int STORAGE_REGION_EDGE :: u16)),
    (34, to_le_bytes (of_nat INDEX_PAGE_BYTES :: u16)), (36, [of_nat INDEX_PAGE_COUNT]), (40, to_le_bytes (of_nat RECORD_AREA_OFFSET :: u64))]"
  have ok: "fields_ok 64 fs" "list_all (\<lambda>(k, bs). k + length bs \<le> 60) fs"
    using assms by (simp_all add: fs_def fields_ok_def REGION_MAGIC_def)
  let ?w = "write_fields fs (replicate 64 0)"
  define h where "h = encode_region_header env uuid coord"
  have len: "length (copy_at k bs xs) = 64" if "length xs = 64" "k + length bs \<le> 64" for k bs xs
    using that by (simp add: length_copy_at)
  have h: "h = put_u32 60 (crc32c env (take 60 ?w)) ?w"
    unfolding h_def encode_region_header_def fs_def write_fields_def Let_def put_defs
    by (simp add: list_update_copy_at len REGION_MAGIC_def REGION_HEADER_BYTES_def assms)
  note F = sealed_fields [OF _ ok(2) _ h, simplified, OF ok(1)]
  have "slice_of 0 4 h = REGION_MAGIC" "slice_of 4 6 h = to_le_bytes STORAGE_FORMAT_VERSION"
    "slice_of 6 8 h = to_le_bytes (of_nat REGION_HEADER_BYTES :: u16)" "slice_of 8 12 h = to_le_bytes (region_x coord)"
    "slice_of 12 16 h = to_le_bytes (region_z coord)" "slice_of 16 32 h = uuid"
    "slice_of 32 34 h = to_le_bytes (of_int STORAGE_REGION_EDGE :: u16)" "slice_of 34 36 h = to_le_bytes (of_nat INDEX_PAGE_BYTES :: u16)"
    "slice_of 40 48 h = to_le_bytes (of_nat RECORD_AREA_OFFSET :: u64)"
    by (rule F(4); simp add: fs_def REGION_MAGIC_def assms)+
  moreover have "h ! 36 = of_nat INDEX_PAGE_COUNT" by (rule F(5)) (simp add: fs_def)
  ultimately show "validate_region_header env (encode_region_header env uuid coord) uuid coord = Inr ()"
    using F(2,3) unfolding h_def [symmetric]
    by (simp add: validate_region_header_def Let_def read_defs region_sizes STORAGE_REGION_EDGE_def)
  show "length (encode_region_header env uuid coord) = REGION_HEADER_BYTES"
    using F(1) by (simp add: h_def REGION_HEADER_BYTES_def)
qed

end
