(* ===== verification/RegionStore.thy ===== *)
theory RegionStore
  imports Region
begin

text \<open>
  What a region file guarantees. \<open>region_wf\<close> is the invariant of an open region, \<open>region_abs\<close> the map from positions to
  chunks it stands for. Saving updates that map, a failed save leaves it alone, and a crash at any point of a save leaves
  a file that reopens with the map before or the map after it. Compaction keeps the map.
\<close>

section \<open>Single file operations\<close>

definition same_file :: "File \<Rightarrow> File \<Rightarrow> bool" where
  "same_file F F' \<longleftrightarrow> file_bytes F' = file_bytes F \<and> file_durable F' = file_durable F \<and> (file_faults F = [] \<longrightarrow> file_faults F' = [])"

lemma same_file_refl [simp]: "same_file F F"
  by (simp add: same_file_def)

lemma same_file_trans: "same_file F G \<Longrightarrow> same_file G H \<Longrightarrow> same_file F H"
  by (simp add: same_file_def)

lemma same_file_pos [simp]: "same_file F (G\<lparr>file_pos := p\<rparr>) \<longleftrightarrow> same_file F G"
  by (simp add: same_file_def)

lemma io_turn_same:
  assumes "io_turn F = (f, F')"
  shows "same_file F F'" "file_pos F' = file_pos F" "file_faults F = [] \<Longrightarrow> f = None"
    "file_bytes F' = file_bytes F" "file_durable F' = file_durable F"
  using assms by (auto simp: io_turn_def same_file_def split: list.splits)

text \<open>
  \<open>outcome P m F\<close>: run on \<open>F\<close>, the operation \<open>m\<close> leaves a result and a file that satisfy \<open>P\<close>. Sequences are reasoned about
  with \<open>outcome_bind\<close>, as with a weakest precondition.
\<close>

definition outcome :: "((StorageError + 'a) \<Rightarrow> File \<Rightarrow> bool) \<Rightarrow> 'a file_op \<Rightarrow> File \<Rightarrow> bool" where
  "outcome P m F \<longleftrightarrow> (case m F of (r, F') \<Rightarrow> P r F')"

lemma outcomeD: "outcome P m F \<Longrightarrow> m F = (r, F') \<Longrightarrow> P r F'"
  by (simp add: outcome_def)

lemma outcome_bind:
  assumes "outcome (\<lambda>r F'. case r of Inl e \<Rightarrow> P (Inl e) F' | Inr x \<Rightarrow> outcome P (f x) F') m F"
  shows "outcome P (io_bind m f) F"
  using assms by (auto simp: outcome_def io_bind_def split: prod.splits sum.splits)

lemma io_step:
  assumes "outcome Q m F" and "\<And>x F'. Q (Inr x) F' \<Longrightarrow> outcome P (f x) F'" and "\<And>e F'. Q (Inl e) F' \<Longrightarrow> P (Inl e) F'"
  shows "outcome P (io_bind m f) F"
proof (cases "m F")
  case (Pair r F')
  then show ?thesis using assms by (cases r) (force simp: outcome_def io_bind_def)+
qed

lemma lift_step: "outcome P (io_bind (io_lift (Inr x)) f) F \<longleftrightarrow> outcome P (f x) F"
  by (simp add: outcome_def io_bind_def io_lift_def)

lemma lift_fail: "outcome P (io_bind (io_lift (Inl e)) f) F \<longleftrightarrow> P (Inl e) F"
  by (simp add: outcome_def io_bind_def io_lift_def)

lemma outcome_mono: "outcome P m F \<Longrightarrow> (\<And>r F'. P r F' \<Longrightarrow> Q r F') \<Longrightarrow> outcome Q m F"
  by (auto simp: outcome_def split: prod.splits)

lemma outcome_lift: "outcome P (io_lift r) F \<longleftrightarrow> P r F"
  by (simp add: outcome_def io_lift_def)

lemma outcome_file_len:
  "outcome (\<lambda>r F'. same_file F F' \<and> (r = Inr (of_nat (length (file_bytes F))) \<or> (r = Inl Io \<and> file_faults F \<noteq> []))) file_len F"
  by (auto simp: outcome_def file_len_def io_turn_def same_file_def split: list.splits option.splits)

lemma outcome_dir_op: "outcome (\<lambda>r F'. same_file F F' \<and> (r = Inr () \<or> (r = Inl Io \<and> file_faults F \<noteq> []))) dir_op F"
  by (auto simp: outcome_def dir_op_def io_turn_def same_file_def split: list.splits option.splits)

lemma outcome_seek_start:
  "unat n \<le> FILE_MAX \<Longrightarrow>
   outcome (\<lambda>r F'. same_file F F' \<and> ((r = Inr () \<and> file_pos F' = unat n) \<or> (r = Inl Io \<and> file_faults F \<noteq> []))) (seek_start n) F"
  by (auto simp: outcome_def seek_start_def io_turn_def same_file_def split: list.splits option.splits)

lemma outcome_seek_end:
  "outcome (\<lambda>r F'. same_file F F' \<and> ((r = Inr (of_nat (length (file_bytes F))) \<and> file_pos F' = length (file_bytes F))
     \<or> (r = Inl Io \<and> file_faults F \<noteq> []))) seek_end F"
  by (auto simp: outcome_def seek_end_def io_turn_def same_file_def split: list.splits option.splits)

lemma outcome_read_exact:
  "file_pos F + n \<le> length (file_bytes F) \<Longrightarrow>
   outcome (\<lambda>r F'. same_file F F' \<and> (r = Inr (slice_of (file_pos F) (file_pos F + n) (file_bytes F))
     \<or> (r = Inl Io \<and> file_faults F \<noteq> []))) (read_exact_file n) F"
  by (auto simp: outcome_def read_exact_file_def io_turn_def same_file_def split: list.splits option.splits)

lemma outcome_sync:
  "outcome (\<lambda>r F'. file_bytes F' = file_bytes F \<and> file_pos F' = file_pos F \<and> (file_faults F = [] \<longrightarrow> file_faults F' = [])
     \<and> ((r = Inr () \<and> file_durable F' = file_bytes F) \<or> (r = Inl Io \<and> file_durable F' = file_durable F \<and> file_faults F \<noteq> []))) sync_data F"
  by (auto simp: outcome_def sync_data_def io_turn_def same_file_def split: list.splits option.splits)

text \<open>A write, wherever it stops: a prefix of the bytes reaches the file; the whole of them on success.\<close>

lemma outcome_write:
  "outcome (\<lambda>r F'. file_durable F' = file_durable F \<and> (file_faults F = [] \<longrightarrow> file_faults F' = [])
     \<and> (\<exists>n \<le> length bs. file_bytes F' = write_at (file_pos F) (take n bs) (file_bytes F) \<and> file_pos F' = file_pos F + n
          \<and> file_pos F + n \<le> max (file_pos F) FILE_MAX
          \<and> ((r = Inr () \<and> n = length bs) \<or> (r = Inl Io \<and> (file_faults F \<noteq> [] \<or> FILE_MAX < file_pos F + length bs))))) (write_all bs) F"
proof -
  obtain f F0 where t: "io_turn F = (f, F0)" by fastforce
  define n where "n = min (case f of None \<Rightarrow> length bs | Some n \<Rightarrow> min n (length bs)) (FILE_MAX - file_pos F)"
  note T = io_turn_same [OF t]
  have n: "n \<le> length bs" "file_pos F + n \<le> max (file_pos F) FILE_MAX" by (auto simp: n_def split: option.splits)
  have "f = None \<Longrightarrow> n \<noteq> length bs \<Longrightarrow> FILE_MAX < file_pos F + length bs" by (auto simp: n_def)
  with n T show ?thesis
    unfolding outcome_def write_all_def t prod.case T(2) n_def [symmetric] Let_def
    by (auto simp: same_file_def intro!: exI [of _ n])
qed

section \<open>The map a region stands for\<close>

definition record_at :: "bytes \<Rightarrow> IndexEntry \<Rightarrow> bytes" where
  "record_at bs e = slice_of (unat (record_offset e)) (unat (record_offset e) + unat (record_len e)) bs"

text \<open>An entry with an intact record: in bounds, right checksum, right slot, right revisions.\<close>

definition indexed_ok :: "storage_env \<Rightarrow> RegionCoord \<Rightarrow> bytes \<Rightarrow> nat \<Rightarrow> IndexEntry \<Rightarrow> bool" where
  "indexed_ok env coord bs slot e \<longleftrightarrow> page_entry_ok e \<and> unat (record_offset e) + unat (record_len e) \<le> length bs
     \<and> \<not> isl (check_indexed_record env coord slot e (record_at bs e))"

definition live_total :: "IndexEntry option list \<Rightarrow> nat" where
  "live_total es = sum_list (map (\<lambda>e. case e of None \<Rightarrow> 0 | Some e \<Rightarrow> unat (record_len e)) es)"

definition index_ok :: "storage_env \<Rightarrow> RegionCoord \<Rightarrow> bytes \<Rightarrow> RegionIndex \<Rightarrow> bool" where
  "index_ok env coord bs index \<longleftrightarrow> length (entries index) = INDEX_ENTRY_COUNT
     \<and> RECORD_AREA_OFFSET + live_total (entries index) \<le> length bs
     \<and> (\<forall>slot e. slot < INDEX_ENTRY_COUNT \<longrightarrow> entries index ! slot = Some e \<longrightarrow> indexed_ok env coord bs slot e)"

definition slot_chunk :: "storage_env \<Rightarrow> RegionCoord \<Rightarrow> bytes \<Rightarrow> RegionIndex \<Rightarrow> nat \<Rightarrow> StoredChunk option" where
  "slot_chunk env coord bs index slot =
     map_option (\<lambda>e. snd (projr (check_indexed_record env coord slot e (record_at bs e)))) (entries index ! slot)"

definition region_abs :: "storage_env \<Rightarrow> RegionCoord \<Rightarrow> bytes \<Rightarrow> RegionIndex \<Rightarrow> ChunkCoord \<Rightarrow> ChunkImport option" where
  "region_abs env coord bs index pos =
     (case local_index coord pos of
        Inl _ \<Rightarrow> None
      | Inr slot \<Rightarrow> map_option stored_import (slot_chunk env coord bs index slot))"

lemma local_index_bound: "local_index coord pos = Inr slot \<Longrightarrow> slot < INDEX_ENTRY_COUNT"
proof -
  assume "local_index coord pos = Inr slot"
  then have "slot = nat (sint (coord_z pos) mod 16) * 16 + nat (sint (coord_x pos) mod 16)"
    by (auto simp: local_index_def STORAGE_REGION_EDGE_def i32_rem_euclid_def split: if_splits)
  moreover have "nat (sint (coord_z pos) mod 16) < 16" "nat (sint (coord_x pos) mod 16) < 16" by (simp_all add: nat_less_iff)
  ultimately show ?thesis by (simp add: INDEX_ENTRY_COUNT_def)
qed

lemma div_euclid_inj: "i32_div_euclid a 16 = i32_div_euclid b 16 \<longleftrightarrow> sint a div 16 = sint b div 16"
proof -
  have fits: "sint (word_of_int (sint (w :: i32) div 16) :: i32) = sint w div 16" for w :: i32
    using sint_greater_eq [of w] sint_less [of w] by (simp add: signed_of_int signed_take_bit_int_eq_self)
  show ?thesis by (metis fits i32_div_euclid_def)
qed

lemma radix_16: "a * 16 + b = a' * 16 + b' \<Longrightarrow> b < 16 \<Longrightarrow> b' < 16 \<Longrightarrow> a = a' \<and> b = (b' :: nat)"
proof -
  assume eq: "a * 16 + b = a' * 16 + b'" and "b < 16" "b' < 16"
  then have "b = b'" by (metis mod_less mod_mult_self3)
  with eq show ?thesis by simp
qed

lemma local_index_inj:
  assumes "local_index coord p = Inr slot" and "local_index coord q = Inr slot"
  shows "p = q"
proof -
  have same: "for_chunk p = for_chunk q" using assms by (auto simp: local_index_def split: if_splits)
  have slots: "nat (sint (coord_z p) mod 16) * 16 + nat (sint (coord_x p) mod 16)
      = nat (sint (coord_z q) mod 16) * 16 + nat (sint (coord_x q) mod 16)"
    using assms by (auto simp: local_index_def STORAGE_REGION_EDGE_def i32_rem_euclid_def split: if_splits)
  have small: "nat (sint w mod 16) < 16" for w :: i32 by (simp add: nat_less_iff)
  from slots small [of "coord_x p"] small [of "coord_x q"] have "nat (sint (coord_z p) mod 16) = nat (sint (coord_z q) mod 16)"
    "nat (sint (coord_x p) mod 16) = nat (sint (coord_x q) mod 16)" using radix_16 by blast+
  then have "sint (coord_z p) mod 16 = sint (coord_z q) mod 16" "sint (coord_x p) mod 16 = sint (coord_x q) mod 16"
    by (simp_all add: eq_nat_nat_iff)
  moreover have "sint (coord_z p) div 16 = sint (coord_z q) div 16" "sint (coord_x p) div 16 = sint (coord_x q) div 16"
    using same by (simp_all add: for_chunk_def STORAGE_REGION_EDGE_def div_euclid_inj)
  ultimately have "sint (coord_z p) = sint (coord_z q)" "sint (coord_x p) = sint (coord_x q)" by (metis div_mult_mod_eq)+
  then show ?thesis by (cases p; cases q) (simp add: signed_word_eqI)
qed

lemma check_indexed_position:
  "check_indexed_record env coord slot e data = Inr (d, sc) \<Longrightarrow> d = data \<and> local_index coord (stored_position sc) = Inr slot"
  by (auto simp: check_indexed_record_def rbind_Inr_iff split: if_splits)

lemma unat_ucast_32_64 [simp]: "unat (ucast (w :: u32) :: u64) = unat w"
proof -
  have "unat w < 2 ^ 32" using unsigned_less [of w] by simp
  then have "take_bit 64 (unat w) = unat w" by (simp add: take_bit_nat_eq_self)
  then show ?thesis by (simp add: unsigned_ucast_eq)
qed

lemma indexed_ok_stop:
  assumes "indexed_ok env coord bs slot e" and "length bs \<le> FILE_MAX"
  shows "checked_add (record_offset e) (ucast (record_len e)) = Some (record_offset e + ucast (record_len e))"
    and "unat (record_offset e + ucast (record_len e)) = unat (record_offset e) + unat (record_len e)"
proof -
  have "unat (record_offset e) + unat (record_len e) < 2 ^ 64"
    using assms by (simp add: indexed_ok_def FILE_MAX_def)
  then show add: "checked_add (record_offset e) (ucast (record_len e)) = Some (record_offset e + ucast (record_len e))"
    by (simp add: checked_add_def)
  show "unat (record_offset e + ucast (record_len e)) = unat (record_offset e) + unat (record_len e)"
    using checked_add_unat [OF add] by simp
qed

lemma outcome_read_indexed:
  assumes ok: "indexed_ok env coord (file_bytes F) slot e" and len: "length (file_bytes F) \<le> FILE_MAX"
  shows "outcome (\<lambda>r F'. same_file F F' \<and> (r = check_indexed_record env coord slot e (record_at (file_bytes F) e)
      \<or> (r = Inl Io \<and> file_faults F \<noteq> []))) (read_indexed_record env coord slot e) F"
proof -
  have valid: "RECORD_AREA_OFFSET \<le> unat (record_offset e)" "unat (record_len e) \<le> MAX_CHUNK_RECORD_BYTES"
    and bound: "unat (record_offset e) + unat (record_len e) \<le> length (file_bytes F)"
    using ok by (auto simp: indexed_ok_def page_entry_ok_def)
  have area: "\<not> record_offset e < of_nat RECORD_AREA_OFFSET"
    using valid by (simp add: word_less_nat_alt region_sizes not_less)
  have size: "unat (of_nat (length (file_bytes F)) :: u64) = length (file_bytes F)"
    using len by (simp add: unat_of_nat FILE_MAX_def)
  have fits: "\<not> of_nat (length (file_bytes F)) < record_offset e + (ucast (record_len e) :: u64)"
    using bound indexed_ok_stop(2) [OF ok len] by (simp add: word_less_nat_alt size not_less)
  have seek: "unat (record_offset e) \<le> FILE_MAX" using bound len by simp
  have body: "read_indexed_record env coord slot e =
      io_bind (io_lift (Inr (record_offset e + ucast (record_len e)))) (\<lambda>stop. io_bind file_len (\<lambda>size.
        if stop > size then io_lift (Inl (CorruptChunkRecord ''index points beyond end of region file''))
        else io_bind (seek_start (record_offset e)) (\<lambda>_. io_bind (read_exact_file (unat (record_len e))) (\<lambda>data.
             io_lift (check_indexed_record env coord slot e data)))))"
    using valid(2) area by (simp add: read_indexed_record_def Let_def indexed_ok_stop(1) [OF ok len])
  have read: "outcome (\<lambda>r F'. same_file F F' \<and> (r = check_indexed_record env coord slot e (record_at (file_bytes F) e)
      \<or> (r = Inl Io \<and> file_faults F \<noteq> []))) (io_bind (read_exact_file (unat (record_len e))) (\<lambda>data.
        io_lift (check_indexed_record env coord slot e data))) G"
    if G: "same_file F G" "file_pos G = unat (record_offset e)" for G
    by (rule io_step [OF outcome_read_exact])
      (use G bound in \<open>auto simp: outcome_lift record_at_def same_file_def\<close>)
  show ?thesis
    unfolding body lift_step
  proof (rule io_step [OF outcome_file_len], goal_cases)
    case (1 size G)
    then have G: "same_file F G" and "\<not> size < record_offset e + ucast (record_len e)" using fits by auto
    then show ?case
      by (simp add: io_step [OF outcome_seek_start [OF seek]]) (rule io_step [OF outcome_seek_start [OF seek]],
        use read same_file_trans [OF G] in \<open>auto simp: same_file_def\<close>)
  qed auto
qed

section \<open>Well-formed regions\<close>

abbreviation page_of :: "nat \<Rightarrow> bytes \<Rightarrow> bytes" where
  "page_of p bs \<equiv> slice_of (index_page_offset p) (index_page_offset p + INDEX_PAGE_BYTES) bs"

definition page_range :: "nat \<Rightarrow> nat set" where
  "page_range p = {index_page_offset p..<index_page_offset p + INDEX_PAGE_BYTES}"

text \<open>
  An open region: the fixed layout, the active page as written for the index in memory, and every indexed record intact
  in what is already durable. Only the inactive page may differ between the file and its durable content.
\<close>

definition region_wf :: "storage_env \<Rightarrow> RegionFile \<Rightarrow> bool" where
  "region_wf env R \<longleftrightarrow>
     (let bs = file_bytes (rf_file R); durable = file_durable (rf_file R); coord = rf_coord R
      in length (rf_world_uuid R) = 16 \<and> active_page R < 2 \<and> length bs \<le> FILE_MAX \<and> RECORD_AREA_OFFSET \<le> length durable
         \<and> agree_off (page_range (1 - active_page R)) durable bs
         \<and> slice_of 0 REGION_HEADER_BYTES bs = encode_region_header env (rf_world_uuid R) coord
         \<and> page_of (active_page R) bs = encode_index_page env (rf_index R) coord
         \<and> index_ok env coord durable (rf_index R))"

text \<open>Reopening a clean region chooses the same index: all of it is durable and the other page, if valid, is older.\<close>

definition clean :: "storage_env \<Rightarrow> RegionFile \<Rightarrow> bool" where
  "clean env R \<longleftrightarrow> agree_off {} (file_durable (rf_file R)) (file_bytes (rf_file R))
     \<and> (case decode_index_page env (page_of (1 - active_page R) (file_bytes (rf_file R))) (rf_coord R) of
          None \<Rightarrow> True | Some other \<Rightarrow> generation other < generation (rf_index R))"

definition abs_of :: "storage_env \<Rightarrow> RegionFile \<Rightarrow> ChunkCoord \<Rightarrow> ChunkImport option" where
  "abs_of env R = region_abs env (rf_coord R) (file_durable (rf_file R)) (rf_index R)"

lemma page_ranges:
  "p < 2 \<Longrightarrow> page_range p \<subseteq> {REGION_HEADER_BYTES..<RECORD_AREA_OFFSET}"
  "p < 2 \<Longrightarrow> page_range p \<inter> page_range (1 - p) = {}"
  by (auto simp: page_range_def index_page_offset_def region_sizes less_2_cases_iff)

lemma index_okD:
  assumes "index_ok env coord bs index"
  shows "index_valid index" "length (entries index) = INDEX_ENTRY_COUNT"
  using assms by (auto simp: index_ok_def index_valid_def in_set_conv_nth indexed_ok_def)

lemma record_at_agree:
  assumes "agree_off S xs ys" and "S \<subseteq> {..<RECORD_AREA_OFFSET}" and "page_entry_ok e"
    and "unat (record_offset e) + unat (record_len e) \<le> length xs"
  shows "record_at ys e = record_at xs e"
  unfolding record_at_def using assms by (intro agree_off_slice [OF assms(1)]) (auto simp: page_entry_ok_def)

lemma index_ok_transfer:
  assumes "index_ok env coord xs index" and "agree_off S xs ys" and "S \<subseteq> {..<RECORD_AREA_OFFSET}"
  shows "index_ok env coord ys index" and "region_abs env coord ys index = region_abs env coord xs index"
    and "slot < INDEX_ENTRY_COUNT \<Longrightarrow> slot_chunk env coord ys index slot = slot_chunk env coord xs index slot"
proof -
  have same: "record_at ys e = record_at xs e" if "slot < INDEX_ENTRY_COUNT" "entries index ! slot = Some e" for slot e
    using assms(1) that by (intro record_at_agree [OF assms(2,3)]) (auto simp: index_ok_def indexed_ok_def)
  then show chunk: "slot < INDEX_ENTRY_COUNT \<Longrightarrow> slot_chunk env coord ys index slot = slot_chunk env coord xs index slot" for slot
    by (cases "entries index ! slot") (auto simp: slot_chunk_def)
  have "length xs \<le> length ys" using assms(2) by (simp add: agree_off_def)
  then show "index_ok env coord ys index"
    using assms(1) same unfolding index_ok_def indexed_ok_def by (metis order_trans)
  show "region_abs env coord ys index = region_abs env coord xs index"
    using chunk local_index_bound by (auto simp: region_abs_def fun_eq_iff split: sum.splits)
qed

lemma region_wfD:
  assumes "region_wf env R"
  shows "length (rf_world_uuid R) = 16" "active_page R < 2" "length (file_bytes (rf_file R)) \<le> FILE_MAX"
    and "RECORD_AREA_OFFSET \<le> length (file_durable (rf_file R))"
    and "length (file_durable (rf_file R)) \<le> length (file_bytes (rf_file R))"
    and "agree_off (page_range (1 - active_page R)) (file_durable (rf_file R)) (file_bytes (rf_file R))"
    and "slice_of 0 REGION_HEADER_BYTES (file_bytes (rf_file R)) = encode_region_header env (rf_world_uuid R) (rf_coord R)"
    and "page_of (active_page R) (file_bytes (rf_file R)) = encode_index_page env (rf_index R) (rf_coord R)"
    and "index_ok env (rf_coord R) (file_durable (rf_file R)) (rf_index R)"
    and "index_ok env (rf_coord R) (file_bytes (rf_file R)) (rf_index R)"
    and "region_abs env (rf_coord R) (file_bytes (rf_file R)) (rf_index R) = abs_of env R"
    and "slot < INDEX_ENTRY_COUNT \<Longrightarrow> slot_chunk env (rf_coord R) (file_bytes (rf_file R)) (rf_index R) slot
           = slot_chunk env (rf_coord R) (file_durable (rf_file R)) (rf_index R) slot"
proof -
  show wf: "length (rf_world_uuid R) = 16" "active_page R < 2" "length (file_bytes (rf_file R)) \<le> FILE_MAX"
    "RECORD_AREA_OFFSET \<le> length (file_durable (rf_file R))"
    "agree_off (page_range (1 - active_page R)) (file_durable (rf_file R)) (file_bytes (rf_file R))"
    "slice_of 0 REGION_HEADER_BYTES (file_bytes (rf_file R)) = encode_region_header env (rf_world_uuid R) (rf_coord R)"
    "page_of (active_page R) (file_bytes (rf_file R)) = encode_index_page env (rf_index R) (rf_coord R)"
    "index_ok env (rf_coord R) (file_durable (rf_file R)) (rf_index R)"
    using assms by (auto simp: region_wf_def Let_def)
  show "length (file_durable (rf_file R)) \<le> length (file_bytes (rf_file R))" using wf(5) by (simp add: agree_off_def)
  have low: "page_range (1 - active_page R) \<subseteq> {..<RECORD_AREA_OFFSET}" using page_ranges(1) [of "1 - active_page R"] by fastforce
  note T = index_ok_transfer [OF wf(8) wf(5) low]
  show "index_ok env (rf_coord R) (file_bytes (rf_file R)) (rf_index R)" by (rule T(1))
  show "region_abs env (rf_coord R) (file_bytes (rf_file R)) (rf_index R) = abs_of env R" by (simp add: T(2) abs_of_def)
  show "slot < INDEX_ENTRY_COUNT \<Longrightarrow> slot_chunk env (rf_coord R) (file_bytes (rf_file R)) (rf_index R) slot
      = slot_chunk env (rf_coord R) (file_durable (rf_file R)) (rf_index R) slot" by (rule T(3))
qed

lemma region_wf_same_file: "same_file (rf_file R) F \<Longrightarrow> region_wf env (R\<lparr>rf_file := F\<rparr>) = region_wf env R"
  "same_file (rf_file R) F \<Longrightarrow> clean env (R\<lparr>rf_file := F\<rparr>) = clean env R"
  "same_file (rf_file R) F \<Longrightarrow> abs_of env (R\<lparr>rf_file := F\<rparr>) = abs_of env R"
  by (simp_all add: region_wf_def clean_def abs_of_def same_file_def Let_def split: option.split)

text \<open>Loading a position of the region reads the map; nothing changes but the file position.\<close>

lemma load_chunk_spec:
  assumes wf: "region_wf env R" and slot: "local_index (rf_coord R) pos = Inr slot" and run: "load_chunk env pos R = (r, R')"
  shows "\<exists>F. R' = R\<lparr>rf_file := F\<rparr> \<and> same_file (rf_file R) F"
    and "r = Inr (slot_chunk env (rf_coord R) (file_durable (rf_file R)) (rf_index R) slot) \<or> (r = Inl Io \<and> file_faults (rf_file R) \<noteq> [])"
proof -
  note W = region_wfD [OF wf]
  have bound: "slot < INDEX_ENTRY_COUNT" by (rule local_index_bound [OF slot])
  have "(\<exists>F. R' = R\<lparr>rf_file := F\<rparr> \<and> same_file (rf_file R) F) \<and>
    (r = Inr (slot_chunk env (rf_coord R) (file_bytes (rf_file R)) (rf_index R) slot) \<or> (r = Inl Io \<and> file_faults (rf_file R) \<noteq> []))"
  proof (cases "entries (rf_index R) ! slot")
    case None
    then show ?thesis using run slot by (auto simp: load_chunk_def slot_chunk_def intro: exI [of _ "rf_file R"])
  next
    case (Some e)
    have ok: "indexed_ok env (rf_coord R) (file_bytes (rf_file R)) slot e" using W(10) bound Some by (simp add: index_ok_def)
    then obtain d sc where chk: "check_indexed_record env (rf_coord R) slot e (record_at (file_bytes (rf_file R)) e) = Inr (d, sc)"
      by (auto simp: indexed_ok_def isl_def) (metis old.prod.exhaust sum.exhaust)
    have pos: "stored_position sc = pos" using check_indexed_position [OF chk] slot local_index_inj by blast
    obtain r0 F where rd: "read_indexed_record env (rf_coord R) slot e (rf_file R) = (r0, F)" by fastforce
    from outcomeD [OF outcome_read_indexed [OF ok W(3)] rd] chk
    have "same_file (rf_file R) F" "r0 = Inr (d, sc) \<or> (r0 = Inl Io \<and> file_faults (rf_file R) \<noteq> [])" by auto
    then show ?thesis using run slot Some rd pos chk by (auto simp: load_chunk_def slot_chunk_def)
  qed
  then show "\<exists>F. R' = R\<lparr>rf_file := F\<rparr> \<and> same_file (rf_file R) F"
    and "r = Inr (slot_chunk env (rf_coord R) (file_durable (rf_file R)) (rf_index R) slot) \<or> (r = Inl Io \<and> file_faults (rf_file R) \<noteq> [])"
    using W(12) [OF bound] by auto
qed

section \<open>Opening a file\<close>

definition open_result :: "storage_env \<Rightarrow> bytes \<Rightarrow> RegionCoord \<Rightarrow> bytes \<Rightarrow> StorageError + nat \<times> RegionIndex" where
  "open_result env uuid coord bs =
     rbind (validate_region_header env (slice_of 0 REGION_HEADER_BYTES bs) uuid coord) (\<lambda>_.
     choose_page (decode_index_page env (page_of 0 bs) coord) (decode_index_page env (page_of 1 bs) coord))"

definition region_with :: "File \<Rightarrow> bytes \<Rightarrow> RegionCoord \<Rightarrow> nat \<times> RegionIndex \<Rightarrow> RegionFile" where
  "region_with F uuid coord ai =
     \<lparr>rf_file = F, rf_world_uuid = uuid, rf_coord = coord, active_page = fst ai, rf_index = snd ai\<rparr>"

lemma outcome_read_exact_at:
  assumes "unat k + n \<le> length (file_bytes F)" and "length (file_bytes F) \<le> FILE_MAX"
  shows "outcome (\<lambda>r F'. same_file F F' \<and> (r = Inr (slice_of (unat k) (unat k + n) (file_bytes F))
     \<or> (r = Inl Io \<and> file_faults F \<noteq> []))) (read_exact_at n k) F"
  unfolding read_exact_at_def
proof (rule io_step [OF outcome_seek_start])
  show "unat k \<le> FILE_MAX" using assms by simp
  fix x :: unit and G
  assume G: "same_file F G \<and> (Inr x = Inr () \<and> file_pos G = unat k \<or> Inr x = Inl Io \<and> file_faults F \<noteq> [])"
  show "outcome (\<lambda>r F'. same_file F F' \<and> (r = Inr (slice_of (unat k) (unat k + n) (file_bytes F))
     \<or> (r = Inl Io \<and> file_faults F \<noteq> []))) (read_exact_file n) G"
    by (rule outcome_mono [OF outcome_read_exact]) (use G assms in \<open>auto simp: same_file_def\<close>)
qed auto

lemma outcome_from_open_file:
  assumes len: "RECORD_AREA_OFFSET \<le> length (file_bytes F)" "length (file_bytes F) \<le> FILE_MAX"
  shows "outcome (\<lambda>r F'. same_file F F' \<and> (r = map_ok (region_with F' uuid coord) (open_result env uuid coord (file_bytes F))
      \<or> (r = Inl Io \<and> file_faults F \<noteq> []))) (from_open_file env uuid coord) F"
proof -
  let ?bs = "file_bytes F"
  have pages: "slice_of 64 (64 + INDEX_PAGE_BYTES) ?bs = page_of 0 ?bs" "slice_of 16448 (16448 + INDEX_PAGE_BYTES) ?bs = page_of 1 ?bs"
    by (simp_all add: index_page_offset_def region_sizes)
  have at: "outcome (\<lambda>r G'. same_file F G' \<and> (r = Inr (slice_of (unat k) (unat k + n) ?bs) \<or> (r = Inl Io \<and> file_faults F \<noteq> [])))
      (read_exact_at n k) G" if "same_file F G" "unat k + n \<le> RECORD_AREA_OFFSET" for n k G
    by (rule outcome_mono [OF outcome_read_exact_at]) (use that len in \<open>auto simp: same_file_def\<close>)
  show ?thesis
    unfolding from_open_file_def
  proof (rule io_step [OF at], goal_cases)
    case (3 header G)
    then have G: "same_file F G" and h: "header = slice_of 0 REGION_HEADER_BYTES ?bs" by auto
    show ?case
    proof (cases "validate_region_header env header uuid coord")
      case (Inl e)
      then show ?thesis using G h by (simp add: outcome_def io_bind_def io_lift_def open_result_def)
    next
      case (Inr u)
      show ?thesis
        unfolding Inr lift_step
      proof (rule io_step [OF at [OF G]], goal_cases)
        case (2 page_a G1)
        then have G1: "same_file F G1" and a: "page_a = page_of 0 ?bs" using pages by (auto simp: region_sizes)
        show ?case
        proof (rule io_step [OF at [OF G1]], goal_cases)
          case (2 page_b G2)
          then have G2: "same_file F G2" and b: "page_b = page_of 1 ?bs" using pages by (auto simp: region_sizes)
          then show ?case using Inr
            by (auto simp: outcome_def io_bind_def io_lift_def open_result_def h a region_with_def map_ok_def split: sum.splits)
        qed (auto simp: region_sizes)
      qed (auto simp: region_sizes)
    qed
  qed (auto simp: region_sizes)
qed

text \<open>Without I/O errors, what opening an existing file of sufficient length returns.\<close>

definition reopen :: "storage_env \<Rightarrow> bytes \<Rightarrow> RegionCoord \<Rightarrow> bytes \<Rightarrow> StorageError + RegionFile" where
  "reopen env uuid coord d = fst (open_found env uuid coord (reopened d))"

lemma reopen_eq:
  assumes "RECORD_AREA_OFFSET \<le> length d" "length d \<le> FILE_MAX"
  shows "\<exists>F. same_file (reopened d) F \<and> reopen env uuid coord d = map_ok (region_with F uuid coord) (open_result env uuid coord d)"
proof -
  have size: "unat (of_nat (length d) :: u64) = length d" using assms(2) by (simp add: unat_of_nat FILE_MAX_def)
  have long: "\<not> (of_nat (length d) :: u64) < of_nat RECORD_AREA_OFFSET"
    using assms(1) by (simp add: word_less_nat_alt size region_sizes)
  have "outcome (\<lambda>r F'. same_file (reopened d) F' \<and> r = map_ok (region_with F' uuid coord) (open_result env uuid coord d))
      (open_found env uuid coord) (reopened d)"
    unfolding open_found_def
  proof (rule io_step [OF outcome_file_len], goal_cases)
    case (1 n G)
    then have G: "same_file (reopened d) G" and n: "n = of_nat (length d)" by (auto simp: reopened_def)
    have fb: "file_bytes G = d" "file_faults G = []" using G by (simp_all add: same_file_def reopened_def)
    show ?case
      unfolding n if_not_P [OF long]
      by (rule outcome_mono [OF outcome_from_open_file]) (use assms fb G in \<open>auto simp: same_file_def\<close>)
  qed (auto simp: reopened_def)
  then show ?thesis by (auto simp: outcome_def reopen_def split: prod.splits)
qed

lemma index_page_offset_simps: "index_page_offset 0 = REGION_HEADER_BYTES" "index_page_offset (Suc 0) = REGION_HEADER_BYTES + INDEX_PAGE_BYTES"
  by (simp_all add: index_page_offset_def)

lemma open_result_active:
  assumes header: "slice_of 0 REGION_HEADER_BYTES bs = encode_region_header env uuid coord" "length uuid = 16"
    and active: "p < 2" "page_of p bs = encode_index_page env index coord" "index_valid index"
    and other: "\<And>i. decode_index_page env (page_of (1 - p) bs) coord = Some i \<Longrightarrow> generation i < generation index"
  shows "open_result env uuid coord bs = Inr (p, index)"
proof -
  have dec: "decode_index_page env (page_of p bs) coord = Some index" by (simp add: active(2) index_page_roundtrip [OF active(3)])
  have head: "validate_region_header env (slice_of 0 REGION_HEADER_BYTES bs) uuid coord = Inr ()"
    by (simp add: header(1) region_header_valid(1) [OF header(2)])
  from active(1) consider "p = 0" | "p = 1" by (auto simp: less_2_cases_iff)
  then show ?thesis
  proof cases
    case 1
    then show ?thesis using head dec other by (auto simp: open_result_def choose_page_def split: option.splits)
  next
    case 2
    then show ?thesis using head dec other by (auto simp: open_result_def choose_page_def split: option.splits)
  qed
qed

text \<open>An image with a valid header, an active page, intact records and no newer page opens as a clean region.\<close>

lemma reopen_image:
  assumes len: "RECORD_AREA_OFFSET \<le> length d" "length d \<le> FILE_MAX"
    and header: "slice_of 0 REGION_HEADER_BYTES d = encode_region_header env uuid coord" "length uuid = 16"
    and active: "p < 2" "page_of p d = encode_index_page env index coord" "index_ok env coord d index"
    and other: "\<And>i. decode_index_page env (page_of (1 - p) d) coord = Some i \<Longrightarrow> generation i < generation index"
  shows "\<exists>R. reopen env uuid coord d = Inr R \<and> region_wf env R \<and> clean env R \<and> abs_of env R = region_abs env coord d index
    \<and> rf_index R = index \<and> rf_coord R = coord \<and> rf_world_uuid R = uuid"
proof -
  have "open_result env uuid coord d = Inr (p, index)"
    by (rule open_result_active [OF header active(1,2) index_okD(1) [OF active(3)] other])
  with reopen_eq [OF len, of env uuid coord] obtain F where F: "same_file (reopened d) F"
    and re: "reopen env uuid coord d = Inr (region_with F uuid coord (p, index))" by auto
  have fb: "file_bytes F = d" "file_durable F = d" using F by (simp_all add: same_file_def reopened_def)
  have "region_wf env (region_with F uuid coord (p, index))"
    using assms by (simp add: region_wf_def region_with_def fb Let_def)
  moreover have "clean env (region_with F uuid coord (p, index))"
    using other by (auto simp: clean_def region_with_def fb split: option.split)
  ultimately show ?thesis using re by (auto simp: abs_of_def region_with_def fb)
qed

lemma page_inside: "p < 2 \<Longrightarrow> index_page_offset p + INDEX_PAGE_BYTES \<le> RECORD_AREA_OFFSET"
  by (auto simp: index_page_offset_def region_sizes)

text \<open>A clean region, reopened from any image that keeps its durable content, is the same region.\<close>

lemma reopen_clean:
  assumes wf: "region_wf env R" and clean: "clean env R" and d: "agree_off {} (file_durable (rf_file R)) d" "length d \<le> FILE_MAX"
  shows "\<exists>R'. reopen env (rf_world_uuid R) (rf_coord R) d = Inr R' \<and> region_wf env R' \<and> clean env R' \<and> abs_of env R' = abs_of env R
    \<and> rf_index R' = rf_index R \<and> rf_coord R' = rf_coord R \<and> rf_world_uuid R' = rf_world_uuid R"
proof -
  note W = region_wfD [OF wf]
  let ?D = "file_durable (rf_file R)" and ?bs = "file_bytes (rf_file R)"
  have bs: "agree_off {} ?D ?bs" using clean by (simp add: clean_def)
  have sl: "slice_of a b d = slice_of a b ?bs" if "b \<le> RECORD_AREA_OFFSET" for a b
    using agree_off_slice [OF d(1), of b a] agree_off_slice [OF bs, of b a] W(4) that by simp
  have pg: "page_of p d = page_of p ?bs" if "p < 2" for p using sl page_inside that by blast
  have other: "decode_index_page env (page_of (1 - active_page R) d) (rf_coord R) = Some i \<Longrightarrow> generation i < generation (rf_index R)" for i
    using clean pg [of "1 - active_page R"] by (auto simp: clean_def)
  note T = index_ok_transfer [OF W(9) d(1) empty_subsetI]
  have long: "RECORD_AREA_OFFSET \<le> length d" using d(1) W(4) by (auto simp: agree_off_def)
  have head: "slice_of 0 REGION_HEADER_BYTES d = encode_region_header env (rf_world_uuid R) (rf_coord R)"
    using sl [of REGION_HEADER_BYTES 0] W(7) by (simp add: region_sizes)
  show ?thesis
    using reopen_image [OF long d(2) head W(1) W(2) _ T(1) other] pg [OF W(2)] W(8) T(2) by (simp add: abs_of_def)
qed

section \<open>Appending records\<close>

text \<open>A snapshot that a region can take and give back: what a resident chunk satisfies, with the decoder's bound on chests.\<close>

definition snapshot_ok :: "ChunkSnapshot \<Rightarrow> bool" where
  "snapshot_ok snap \<longleftrightarrow> bt_wf (extra_data (snap_data snap)) \<and> flags_ok (snap_lifecycle_flags snap)
     \<and> length (chest_block_entities (snap_data snap)) \<le> BLOCK_COUNT"

type_synonym encoded_chunk = "nat \<times> u64 \<times> u64 \<times> bytes"

definition encodes :: "storage_env \<Rightarrow> RegionCoord \<Rightarrow> CompressionPolicy \<Rightarrow> ChunkSnapshot \<Rightarrow> encoded_chunk \<Rightarrow> bool" where
  "encodes env coord policy snap x \<longleftrightarrow>
     (case x of (slot, terrain, light, data) \<Rightarrow> snapshot_ok snap \<and> local_index coord (snap_position snap) = Inr slot
        \<and> terrain = snap_terrain_revision snap \<and> light = snap_light_revision snap
        \<and> encode_chunk_record_with_policy env snap policy [] = Inr data)"

definition saved_map :: "ChunkSnapshot list \<Rightarrow> (ChunkCoord \<Rightarrow> ChunkImport option) \<Rightarrow> ChunkCoord \<Rightarrow> ChunkImport option" where
  "saved_map snaps m = fold (\<lambda>s m. m(snap_position s \<mapsto> snapshot_import s)) snaps m"

definition place_record :: "storage_env \<Rightarrow> nat \<Rightarrow> encoded_chunk \<Rightarrow> RegionIndex \<Rightarrow> RegionIndex" where
  "place_record env k x index =
     (case x of (slot, terrain, light, data) \<Rightarrow>
        index\<lparr>entries := (entries index)[slot := Some \<lparr>record_offset = of_nat k, record_len = of_nat (length data),
          record_crc32c = crc32c env data, entry_terrain_revision = terrain, entry_light_revision = light\<rparr>]\<rparr>)"

fun place_records :: "storage_env \<Rightarrow> nat \<Rightarrow> encoded_chunk list \<Rightarrow> RegionIndex \<Rightarrow> RegionIndex" where
  "place_records env k [] index = index"
| "place_records env k (x # xs) index = place_records env (k + length (snd (snd (snd x)))) xs (place_record env k x index)"

abbreviation record_data :: "encoded_chunk \<Rightarrow> bytes" where
  "record_data x \<equiv> snd (snd (snd x))"

lemma encodes_length: "encodes env coord policy snap x \<Longrightarrow> RECORD_HEADER_BYTES \<le> length (record_data x) \<and> length (record_data x) \<le> MAX_CHUNK_RECORD_BYTES"
  by (auto simp: encodes_def dest!: encoded_record_length)

lemma encodes_decode:
  assumes "zstd_law env" and "encodes env coord policy snap (slot, t, l, data)"
  obtains c where "decode_chunk_record env data = Inr (stored_of snap c [])"
proof -
  have enc: "encode_chunk_record_with_policy env snap policy [] = Inr data" and ok: "snapshot_ok snap"
    using assms(2) by (simp_all add: encodes_def)
  from enc obtain p where p: "encode_semantic_payload snap [] = Inr p" by (rule encode_record_Inr)
  have "storable snap []" using encode_semantic_payload_Inr [OF p] ok by (simp add: storable_def snapshot_ok_def)
  from decode_storable [OF assms(1) this enc] that show thesis by blast
qed

lemma live_total_update: "slot < length es \<Longrightarrow> live_total (es[slot := Some e]) \<le> live_total es + unat (record_len e)"
  by (simp add: live_total_def map_update sum_list_update)

text \<open>One appended record: the index with the new entry is intact on the longer file and maps the position to the snapshot.\<close>

lemma place_record_ok:
  assumes zstd: "zstd_law env" and enc: "encodes env coord policy snap x" and idx: "index_ok env coord bs index"
    and area: "RECORD_AREA_OFFSET \<le> length bs" and size: "length bs + length (record_data x) \<le> FILE_MAX"
  shows "index_ok env coord (bs @ record_data x) (place_record env (length bs) x index)"
    and "region_abs env coord (bs @ record_data x) (place_record env (length bs) x index)
      = (region_abs env coord bs index)(snap_position snap \<mapsto> snapshot_import snap)"
proof -
  obtain slot t l data where x: "x = (slot, t, l, data)" by (cases x)
  have slot: "local_index coord (snap_position snap) = Inr slot" and tl: "t = snap_terrain_revision snap" "l = snap_light_revision snap"
    using enc by (auto simp: encodes_def x)
  have bound: "slot < INDEX_ENTRY_COUNT" by (rule local_index_bound [OF slot])
  obtain c where dec: "decode_chunk_record env data = Inr (stored_of snap c [])"
    using encodes_decode [OF zstd] enc x by blast
  define e where "e = \<lparr>record_offset = of_nat (length bs) :: u64, record_len = of_nat (length data) :: u32,
    record_crc32c = crc32c env data, entry_terrain_revision = t, entry_light_revision = l\<rparr>"
  have data: "64 \<le> length data" "length data \<le> MAX_CHUNK_RECORD_BYTES"
    using encodes_length [OF enc] by (simp_all add: x RECORD_HEADER_BYTES_def)
  then have len: "unat (record_len e) = length data" using record_bounds(3) by (simp add: e_def unat_of_nat)
  have off: "unat (record_offset e) = length bs" using size by (simp add: e_def unat_of_nat FILE_MAX_def x)
  have at: "record_at (bs @ data) e = data" by (simp add: record_at_def off len slice_of_def)
  have chk: "check_indexed_record env coord slot e data = Inr (data, stored_of snap c [])"
    using slot tl by (simp add: check_indexed_record_def dec e_def stored_of_def snapshot_import_def Let_def)
  have ok: "indexed_ok env coord (bs @ data) slot e"
    using area data off len by (auto simp: indexed_ok_def page_entry_ok_def at chk)
  have idx': "place_record env (length bs) (slot, t, l, data) index = index\<lparr>entries := (entries index)[slot := Some e]\<rparr>"
    by (simp add: place_record_def e_def)
  have "agree_off {} bs (bs @ data)" by simp
  note T = index_ok_transfer [OF idx this empty_subsetI]
  have lenE: "length (entries index) = INDEX_ENTRY_COUNT" using idx by (simp add: index_ok_def)
  have "RECORD_AREA_OFFSET + live_total ((entries index)[slot := Some e]) \<le> length (bs @ data)"
    using live_total_update [of slot "entries index" e] bound lenE len idx by (simp add: index_ok_def)
  then show "index_ok env coord (bs @ record_data x) (place_record env (length bs) x index)"
    using T(1) ok by (auto simp: index_ok_def idx' x) (metis nth_list_update_eq nth_list_update_neq option.inject)
  have here: "slot_chunk env coord (bs @ data) (index\<lparr>entries := (entries index)[slot := Some e]\<rparr>) slot = Some (stored_of snap c [])"
    using bound lenE by (simp add: slot_chunk_def at chk)
  have there: "slot_chunk env coord (bs @ data) (index\<lparr>entries := (entries index)[slot := Some e]\<rparr>) slot'
      = slot_chunk env coord bs index slot'" if "slot' \<noteq> slot" "slot' < INDEX_ENTRY_COUNT" for slot'
    using T(3) [OF that(2)] that(1) by (simp add: slot_chunk_def)
  show "region_abs env coord (bs @ record_data x) (place_record env (length bs) x index)
      = (region_abs env coord bs index)(snap_position snap \<mapsto> snapshot_import snap)"
  proof (rule ext)
    fix pos
    show "region_abs env coord (bs @ record_data x) (place_record env (length bs) x index) pos
      = ((region_abs env coord bs index)(snap_position snap \<mapsto> snapshot_import snap)) pos"
    proof (cases "pos = snap_position snap")
      case True
      then show ?thesis using here slot by (simp add: region_abs_def idx' x stored_of_def)
    next
      case False
      then have "local_index coord pos = Inr s \<Longrightarrow> s \<noteq> slot \<and> s < INDEX_ENTRY_COUNT" for s
        using local_index_inj [OF slot] local_index_bound by blast
      with False there show ?thesis by (auto simp: region_abs_def idx' x split: sum.split)
    qed
  qed
qed

lemma place_records_ok:
  assumes "zstd_law env" and "list_all2 (encodes env coord policy) snaps xs" and "index_ok env coord bs index"
    and "RECORD_AREA_OFFSET \<le> length bs" and "length (bs @ concat (map record_data xs)) \<le> FILE_MAX"
  shows "index_ok env coord (bs @ concat (map record_data xs)) (place_records env (length bs) xs index)
    \<and> region_abs env coord (bs @ concat (map record_data xs)) (place_records env (length bs) xs index)
      = saved_map snaps (region_abs env coord bs index)"
  using assms(2-5)
proof (induction snaps xs arbitrary: bs index rule: list_all2_induct)
  case Nil
  then show ?case by (simp add: saved_map_def)
next
  case (Cons snap snaps x xs)
  have size: "length bs + length (record_data x) \<le> FILE_MAX" using Cons.prems(3) by simp
  note P = place_record_ok [OF assms(1) Cons.hyps(1) Cons.prems(1,2) size]
  show ?case
    using Cons.IH [OF P(1)] P(2) Cons.prems(2,3) by (simp add: saved_map_def fun_upd_def)
qed

lemma place_records_generation [simp]: "generation (place_records env k xs index) = generation index"
  by (induction xs arbitrary: k index) (auto simp: place_record_def split: prod.splits)

section \<open>A commit, wherever it stops\<close>

lemma write_at_end_outcome:
  assumes "file_pos F = length (file_bytes F)" and "length (file_bytes F) \<le> FILE_MAX"
  shows "outcome (\<lambda>r F'. file_durable F' = file_durable F \<and> (file_faults F = [] \<longrightarrow> file_faults F' = [])
     \<and> length (file_bytes F') \<le> FILE_MAX
     \<and> (\<exists>z. file_bytes F' = file_bytes F @ z \<and> ((r = Inr () \<and> z = bs \<and> file_pos F' = length (file_bytes F'))
          \<or> (r = Inl Io \<and> (file_faults F \<noteq> [] \<or> FILE_MAX < length (file_bytes F) + length bs))))) (write_all bs) F"
  by (rule outcome_mono [OF outcome_write]) (use assms in \<open>auto simp: write_at_end\<close>)

lemma outcome_append:
  assumes "list_all (\<lambda>x. length (record_data x) \<le> MAX_CHUNK_RECORD_BYTES) xs" and "file_pos F = length (file_bytes F)"
    and "length (file_bytes F) \<le> FILE_MAX"
  shows "outcome (\<lambda>r F'. file_durable F' = file_durable F \<and> (file_faults F = [] \<longrightarrow> file_faults F' = [])
     \<and> length (file_bytes F') \<le> FILE_MAX
     \<and> (\<exists>z. file_bytes F' = file_bytes F @ z
          \<and> ((r = Inr (of_nat (length (file_bytes F')), place_records env (length (file_bytes F)) xs index) \<and> z = concat (map record_data xs))
             \<or> (r = Inl Io \<and> (file_faults F \<noteq> [] \<or> FILE_MAX < length (file_bytes F) + length (concat (map record_data xs)))))))
     (append_records env xs (of_nat (length (file_bytes F))) index) F"
  using assms
proof (induction xs arbitrary: F index)
  case Nil
  then show ?case by (simp add: outcome_lift)
next
  case (Cons x xs)
  obtain slot t l data where x: "x = (slot, t, l, data)" by (cases x)
  have small: "length data < 2 ^ 32" and len: "unat (of_nat (length data) :: u32) = length data"
    using Cons.prems(1) record_bounds(3) by (simp_all add: x unat_of_nat)
  have ensured: "ensure (length data < 2 ^ 32) e = Inr ()" for e :: StorageError using small by simp
  show ?case
    unfolding x append_records.simps ensured lift_step Let_def
  proof (rule io_step [OF write_at_end_outcome [OF Cons.prems(2,3)]], goal_cases)
    case (1 u G)
    then have G: "file_durable G = file_durable F" "file_faults F = [] \<longrightarrow> file_faults G = []" "length (file_bytes G) \<le> FILE_MAX"
      "file_bytes G = file_bytes F @ data" "file_pos G = length (file_bytes G)" by auto
    have "unat (ucast (of_nat (length data) :: u32) :: u64) = unat (of_nat (length data) :: u64)"
      using small unfolding unat_ucast_32_64 len by (simp add: unat_of_nat)
    then have cast: "ucast (of_nat (length data) :: u32) = (of_nat (length data) :: u64)" by (simp only: word_unat_eq_iff)
    have pos: "unat (of_nat (length (file_bytes F)) :: u64) = length (file_bytes F)"
      using Cons.prems(3) by (simp add: unat_of_nat FILE_MAX_def)
    have add: "checked_add (of_nat (length (file_bytes F)) :: u64) (ucast (of_nat (length data) :: u32)) = Some (of_nat (length (file_bytes G)))"
      using G(3) unfolding cast checked_add_def pos by (simp add: G(4) FILE_MAX_def unat_of_nat)
    have step: "place_record env (length (file_bytes F)) (slot, t, l, data) index
        = index\<lparr>entries := (entries index)[slot := Some \<lparr>record_offset = of_nat (length (file_bytes F)), record_len = of_nat (length data),
            record_crc32c = crc32c env data, entry_terrain_revision = t, entry_light_revision = l\<rparr>]\<rparr>"
      by (simp add: place_record_def)
    show ?case
      unfolding add ok_or_simps lift_step step [symmetric]
      by (rule outcome_mono [OF Cons.IH [OF _ G(5,3)]]) (use Cons.prems(1) G in \<open>auto simp: x\<close>)
  qed (auto simp: x)
qed

text \<open>The second half of a commit, on a file that is synced: the page is written in place and synced.\<close>

lemma outcome_publish:
  assumes "p < 2" and "length page = INDEX_PAGE_BYTES" and "RECORD_AREA_OFFSET \<le> length (file_bytes F)"
    and "length (file_bytes F) \<le> FILE_MAX" and "file_durable F = file_bytes F"
  shows "outcome (\<lambda>r F'. (file_faults F = [] \<longrightarrow> file_faults F' = [] \<and> r = Inr v)
     \<and> (\<exists>n \<le> INDEX_PAGE_BYTES. file_bytes F' = copy_at (index_page_offset p) (take n page) (file_bytes F)
          \<and> ((r = Inr v \<and> n = INDEX_PAGE_BYTES \<and> file_durable F' = file_bytes F') \<or> (r = Inl Io \<and> file_durable F' = file_bytes F))))
     (io_bind (seek_start (of_nat (index_page_offset p))) (\<lambda>_. io_bind (write_all page) (\<lambda>_. io_bind sync_data (\<lambda>_. io_lift (Inr v))))) F"
proof -
  have off: "unat (of_nat (index_page_offset p) :: u64) = index_page_offset p" "index_page_offset p \<le> FILE_MAX"
    using assms(1) by (auto simp: unat_of_nat index_page_offset_def region_sizes FILE_MAX_def less_2_cases_iff)
  have room: "index_page_offset p + INDEX_PAGE_BYTES \<le> length (file_bytes F)" using page_inside [OF assms(1)] assms(3) by simp
  show ?thesis
  proof (rule io_step [OF outcome_seek_start], goal_cases)
    case 1
    then show ?case using off by simp
  next
    case (2 u G)
    then have G: "same_file F G" "file_pos G = index_page_offset p" using off(1) by auto
    have fb: "file_bytes G = file_bytes F" "file_durable G = file_durable F" "file_faults F = [] \<longrightarrow> file_faults G = []"
      using G(1) by (simp_all add: same_file_def)
    have small: "\<not> FILE_MAX < file_pos G + length page" using G(2) room assms(2,4) by simp
    have wr: "write_at (index_page_offset p) (take n page) (file_bytes F) = copy_at (index_page_offset p) (take n page) (file_bytes F)"
      if "n \<le> length page" for n using room assms(2) that by (intro write_at_inside) simp
    show ?case
    proof (rule io_step [OF outcome_write], goal_cases)
      case (1 u' G')
      then have G': "file_durable G' = file_bytes F" "file_faults F = [] \<longrightarrow> file_faults G' = []"
        "file_bytes G' = copy_at (index_page_offset p) (take INDEX_PAGE_BYTES page) (file_bytes F)"
        using fb G(2) wr [of "length page"] assms(2,5) by auto
      show ?case
        by (rule io_step [OF outcome_sync]) (use G' in \<open>auto simp: outcome_lift\<close>)
    next
      case (2 e G')
      then show ?case using fb G(2) wr small assms(2,5) by auto
    qed
  next
    case (3 e G)
    then show ?case using assms(5) by (auto simp: same_file_def copy_at_def intro!: exI [of _ 0])
  qed
qed

definition next_index :: "storage_env \<Rightarrow> bytes \<Rightarrow> encoded_chunk list \<Rightarrow> RegionIndex \<Rightarrow> RegionIndex" where
  "next_index env bs xs index = (place_records env (length bs) xs index)\<lparr>generation := generation index + 1\<rparr>"

text \<open>
  The three ways a commit can leave the file: not published (records may have been appended), publishing interrupted (a
  prefix of the page is written, everything else durable), or committed.
\<close>

definition commit_left :: "storage_env \<Rightarrow> RegionCoord \<Rightarrow> nat \<Rightarrow> RegionIndex \<Rightarrow> encoded_chunk list \<Rightarrow> bytes \<Rightarrow> bytes
    \<Rightarrow> (StorageError + u64 \<times> u64 \<times> nat \<times> RegionIndex) \<Rightarrow> File \<Rightarrow> bool" where
  "commit_left env coord active index xs D0 B0 r F' \<longleftrightarrow>
     (let X = B0 @ concat (map record_data xs); new = next_index env B0 xs index;
          off = index_page_offset (1 - active); page = encode_index_page env new coord
      in (isl r \<and> length (file_bytes F') \<le> FILE_MAX \<and> (\<exists>z. file_bytes F' = B0 @ z \<and> (file_durable F' = D0 \<or> file_durable F' = B0 @ z)))
       \<or> (isl r \<and> length X \<le> FILE_MAX \<and> generation index < generation new \<and> file_durable F' = X
            \<and> (\<exists>n. file_bytes F' = copy_at off (take n page) X))
       \<or> (r = Inr (of_nat (length B0), of_nat (length X), 1 - active, new) \<and> length X \<le> FILE_MAX \<and> generation index < generation new
            \<and> file_bytes F' = copy_at off page X \<and> file_durable F' = file_bytes F'))"

lemma place_records_length: "length (entries (place_records env k xs index)) = length (entries index)"
  by (induction xs arbitrary: k index) (auto simp: place_record_def split: prod.splits)

lemma outcome_commit:
  assumes active: "active < 2" and idx: "length (entries index) = INDEX_ENTRY_COUNT"
    and xs: "list_all (\<lambda>x. length (record_data x) \<le> MAX_CHUNK_RECORD_BYTES) xs"
    and len: "RECORD_AREA_OFFSET \<le> length (file_bytes F)" "length (file_bytes F) \<le> FILE_MAX"
  shows "outcome (\<lambda>r F'. commit_left env coord active index xs (file_durable F) (file_bytes F) r F'
      \<and> (file_faults F = [] \<and> generation index \<noteq> - 1 \<and> length (file_bytes F) + length (concat (map record_data xs)) \<le> FILE_MAX
           \<longrightarrow> \<not> isl r \<and> file_faults F' = []))
     (commit_records env coord active index xs) F"
proof -
  have long: "\<not> (of_nat (length (file_bytes F)) :: u64) < of_nat RECORD_AREA_OFFSET"
    using len by (simp add: word_less_nat_alt unat_of_nat FILE_MAX_def region_sizes)
  show ?thesis
    unfolding commit_records_def
  proof (rule io_step [OF outcome_seek_end], goal_cases)
    case (1 start G)
    then have G: "same_file F G" "file_pos G = length (file_bytes G)" and start: "start = of_nat (length (file_bytes F))"
      by (auto simp: same_file_def)
    have fb: "file_bytes G = file_bytes F" "file_durable G = file_durable F" "file_faults F = [] \<longrightarrow> file_faults G = []"
      using G(1) by (simp_all add: same_file_def)
    show ?case
      unfolding start if_not_P [OF long]
    proof (rule io_step [OF outcome_append [OF xs G(2), unfolded fb, OF len(2)]], goal_cases)
      case (1 si H)
      then have H: "file_durable H = file_durable F" "file_faults F = [] \<longrightarrow> file_faults H = []"
        "file_bytes H = file_bytes F @ concat (map record_data xs)" "length (file_bytes H) \<le> FILE_MAX"
        and si: "si = (of_nat (length (file_bytes H)), place_records env (length (file_bytes F)) xs index)"
        using fb by auto
      show ?case
        unfolding si prod.case
      proof (rule io_step [OF outcome_sync], goal_cases)
        case (1 u K)
        then have K: "file_bytes K = file_bytes H" "file_durable K = file_bytes H" "file_faults F = [] \<longrightarrow> file_faults K = []"
          using H(2) by auto
        show ?case
        proof (cases "checked_add (generation index) 1")
          case None
          then have "generation index = - 1" by (simp add: checked_add_1_None)
          with H(3,4) K show ?thesis
            unfolding None ok_or_simps lift_fail by (auto simp: commit_left_def Let_def)
        next
          case (Some g)
          have g: "g = generation index + 1" "generation index < generation index + 1"
            using Some checked_add_1_less [OF Some] by (auto simp: checked_add_def split: if_splits)
          have new: "(place_records env (length (file_bytes F)) xs index)\<lparr>generation := g\<rparr> = next_index env (file_bytes F) xs index"
            by (simp add: next_index_def g)
          have plen: "length (encode_index_page env (next_index env (file_bytes F) xs index) coord) = INDEX_PAGE_BYTES"
            by (rule encode_index_page_fields(1) [OF _ refl]) (simp add: next_index_def place_records_length idx)
          have "1 - active < 2" and long': "RECORD_AREA_OFFSET \<le> length (file_bytes K)" "length (file_bytes K) \<le> FILE_MAX"
            and kk: "file_durable K = file_bytes K"
            using active len H(3,4) K by simp_all
          show ?thesis
            unfolding Some ok_or_simps lift_step Let_def new
            by (rule outcome_mono [OF outcome_publish [OF \<open>1 - active < 2\<close> plen long' kk]])
              (use K H(3,4) g(2) plen in \<open>auto simp: commit_left_def Let_def next_index_def\<close>)
        qed
      next
        case (2 e K)
        then show ?case using H fb by (auto simp: commit_left_def Let_def)
      qed
    next
      case (2 e H)
      then show ?case using fb by (auto simp: commit_left_def Let_def)
    qed
  next
    case (2 e G)
    then show ?case using len by (auto simp: commit_left_def Let_def same_file_def)
  qed
qed

end
