(* ===== verification/RegionCommit.thy ===== *)
theory RegionCommit
  imports RegionStore
begin

text \<open>
  Saving into a region (\<open>save_chunks\<close>), with every I/O error and with a crash at every point, and compaction
  (\<open>compact\<close>), as operations on the map a region stands for; creation, and the regions reachable by all of these.
\<close>

section \<open>Statistics\<close>

lemma live_bytes_eq:
  assumes "live_total (entries index) < 2 ^ 64"
  shows "unat (live_bytes index) = live_total (entries index)"
proof -
  have "unat (sum_list (map (\<lambda>e. case e of None \<Rightarrow> 0 | Some e \<Rightarrow> (ucast (record_len e) :: u64)) es)) = live_total es"
    if "live_total es < 2 ^ 64" for es
    using that
  proof (induction es)
    case Nil
    then show ?case by (simp add: live_total_def)
  next
    case (Cons oe es)
    let ?f = "\<lambda>e. case e of None \<Rightarrow> 0 | Some e \<Rightarrow> (ucast (record_len e) :: u64)"
    have split: "live_total (oe # es) = unat (?f oe) + live_total es" by (simp add: live_total_def split: option.split)
    then have "unat (sum_list (map ?f es)) = live_total es" using Cons by simp
    with split Cons.prems show ?case by (simp add: unat_word_ariths)
  qed
  with assms show ?thesis by (simp add: live_bytes_def)
qed

lemma outcome_stats:
  assumes "index_ok env coord (file_bytes F) index" and "length (file_bytes F) \<le> FILE_MAX"
  shows "outcome (\<lambda>r F'. same_file F F' \<and> ((\<exists>st. r = Inr st \<and> unat (stat_file_bytes st) = length (file_bytes F)
        \<and> stat_indexed_chunks st = indexed_chunks index
        \<and> unat (stat_dead_bytes st) = length (file_bytes F) - RECORD_AREA_OFFSET - live_total (entries index))
      \<or> (r = Inl Io \<and> file_faults F \<noteq> []))) (region_stats index) F"
proof -
  let ?n = "of_nat (length (file_bytes F)) :: u64" and ?a = "of_nat RECORD_AREA_OFFSET :: u64"
  have n: "unat ?n = length (file_bytes F)" using assms(2) by (simp add: unat_of_nat FILE_MAX_def)
  have fits: "RECORD_AREA_OFFSET + live_total (entries index) \<le> length (file_bytes F)" using assms(1) by (simp add: index_ok_def)
  have a: "unat ?a = RECORD_AREA_OFFSET" by (simp add: region_sizes)
  have le: "?a \<le> ?n" using fits by (simp add: word_le_nat_alt n a)
  have rec: "unat (?n - ?a) = length (file_bytes F) - RECORD_AREA_OFFSET" using le by (simp add: unat_sub n a)
  have live: "unat (live_bytes index) = live_total (entries index)"
    using fits assms(2) by (intro live_bytes_eq) (simp add: FILE_MAX_def)
  have ll: "live_bytes index \<le> ?n - ?a" using fits by (simp add: word_le_nat_alt rec live)
  show ?thesis
    unfolding region_stats_def
    by (rule io_step [OF outcome_file_len])
      (use le ll n rec live in \<open>auto simp: outcome_lift Let_def not_less unat_sub\<close>)
qed

section \<open>Saving\<close>

lemma encode_loop:
  assumes "for_each (encode_snapshot env coord policy) snaps (seen, acc) = Inr (seen', enc)" and "list_all snapshot_ok snaps"
  shows "\<exists>xs. enc = acc @ xs \<and> list_all2 (encodes env coord policy) snaps xs"
  using assms
proof (induction snaps arbitrary: seen acc)
  case Nil
  then show ?case by simp
next
  case (Cons s snaps)
  then obtain u where u: "encode_snapshot env coord policy s (seen, acc) = Inr u"
    and "for_each (encode_snapshot env coord policy) snaps u = Inr (seen', enc)" by (auto simp: rbind_Inr_iff)
  then obtain slot data where slot: "local_index coord (snap_position s) = Inr slot"
    and data: "encode_chunk_record_with_policy env s policy [] = Inr data"
    and rest: "for_each (encode_snapshot env coord policy) snaps
       (seen[slot := True], acc @ [(slot, snap_terrain_revision s, snap_light_revision s, data)]) = Inr (seen', enc)"
    by (auto simp: encode_snapshot_def [of env coord policy s] rbind_Inr_iff split: if_splits)
  from Cons.IH [OF rest] Cons.prems(2) obtain xs where
    "enc = (acc @ [(slot, snap_terrain_revision s, snap_light_revision s, data)]) @ xs" "list_all2 (encodes env coord policy) snaps xs" by auto
  then show ?case using slot data Cons.prems(2)
    by (intro exI [of _ "(slot, snap_terrain_revision s, snap_light_revision s, data) # xs"]) (simp add: encodes_def [of env coord policy s])
qed

text \<open>The index that a save of these snapshots publishes.\<close>

definition saved_index :: "storage_env \<Rightarrow> CompressionPolicy \<Rightarrow> ChunkSnapshot list \<Rightarrow> RegionFile \<Rightarrow> RegionIndex" where
  "saved_index env policy snaps R =
     (case for_each (encode_snapshot env (rf_coord R) policy) snaps (replicate INDEX_ENTRY_COUNT False, []) of
        Inl _ \<Rightarrow> rf_index R
      | Inr (_, xs) \<Rightarrow> next_index env (file_bytes (rf_file R)) xs (rf_index R))"

text \<open>
  The three ways a save can leave the file of \<open>R\<close>: the new index unpublished, torn, or published. \<open>m\<close> is the map the new
  index stands for.
\<close>

definition publishable :: "storage_env \<Rightarrow> RegionIndex \<Rightarrow> (ChunkCoord \<Rightarrow> ChunkImport option) \<Rightarrow> RegionFile \<Rightarrow> bytes \<Rightarrow> bool" where
  "publishable env new m R z \<longleftrightarrow>
     (let X = file_bytes (rf_file R) @ z
      in length X \<le> FILE_MAX \<and> index_ok env (rf_coord R) X new \<and> region_abs env (rf_coord R) X new = m
         \<and> generation (rf_index R) < generation new)"

definition new_page :: "storage_env \<Rightarrow> RegionIndex \<Rightarrow> RegionFile \<Rightarrow> nat \<Rightarrow> bytes \<Rightarrow> bytes" where
  "new_page env new R n z =
     copy_at (index_page_offset (1 - active_page R)) (take n (encode_index_page env new (rf_coord R))) (file_bytes (rf_file R) @ z)"

definition left_unpublished :: "RegionFile \<Rightarrow> File \<Rightarrow> bool" where
  "left_unpublished R F \<longleftrightarrow> (\<exists>z. file_bytes F = file_bytes (rf_file R) @ z \<and> length (file_bytes F) \<le> FILE_MAX
     \<and> (file_durable F = file_durable (rf_file R) \<or> file_durable F = file_bytes F))"

definition left_torn :: "storage_env \<Rightarrow> RegionIndex \<Rightarrow> (ChunkCoord \<Rightarrow> ChunkImport option) \<Rightarrow> RegionFile \<Rightarrow> File \<Rightarrow> bool" where
  "left_torn env new m R F \<longleftrightarrow> (\<exists>z n. publishable env new m R z \<and> file_durable F = file_bytes (rf_file R) @ z
     \<and> file_bytes F = new_page env new R n z)"

definition left_published :: "storage_env \<Rightarrow> RegionIndex \<Rightarrow> (ChunkCoord \<Rightarrow> ChunkImport option) \<Rightarrow> RegionFile \<Rightarrow> File \<Rightarrow> bool" where
  "left_published env new m R F \<longleftrightarrow> (\<exists>z. publishable env new m R z \<and> file_bytes F = new_page env new R INDEX_PAGE_BYTES z
     \<and> file_durable F = file_bytes F)"

definition published_region :: "RegionFile \<Rightarrow> RegionIndex \<Rightarrow> File \<Rightarrow> RegionFile" where
  "published_region R new F = R\<lparr>rf_file := F, active_page := 1 - active_page R, rf_index := new\<rparr>"

lemma saved_region:
  assumes "zstd_law env" and wf: "region_wf env R" and snaps: "list_all snapshot_ok snaps"
    and enc: "for_each (encode_snapshot env (rf_coord R) policy) snaps (replicate INDEX_ENTRY_COUNT False, []) = Inr (seen, xs)"
    and size: "length (file_bytes (rf_file R) @ concat (map record_data xs)) \<le> FILE_MAX"
  shows "index_ok env (rf_coord R) (file_bytes (rf_file R) @ concat (map record_data xs)) (saved_index env policy snaps R)"
    and "region_abs env (rf_coord R) (file_bytes (rf_file R) @ concat (map record_data xs)) (saved_index env policy snaps R)
      = saved_map snaps (abs_of env R)"
proof -
  note W = region_wfD [OF wf]
  have all: "list_all2 (encodes env (rf_coord R) policy) snaps xs" using encode_loop [OF enc snaps] by simp
  have area: "RECORD_AREA_OFFSET \<le> length (file_bytes (rf_file R))" using W(4,5) by simp
  note P = place_records_ok [OF assms(1) all W(10) area size]
  have si: "saved_index env policy snaps R = next_index env (file_bytes (rf_file R)) xs (rf_index R)" by (simp add: saved_index_def enc)
  have gen: "index_ok env c bs (i\<lparr>generation := g\<rparr>) = index_ok env c bs i" "region_abs env c bs (i\<lparr>generation := g\<rparr>) = region_abs env c bs i"
    for c bs i g by (simp_all add: index_ok_def region_abs_def slot_chunk_def fun_eq_iff split: sum.split)
  show "index_ok env (rf_coord R) (file_bytes (rf_file R) @ concat (map record_data xs)) (saved_index env policy snaps R)"
    and "region_abs env (rf_coord R) (file_bytes (rf_file R) @ concat (map record_data xs)) (saved_index env policy snaps R)
      = saved_map snaps (abs_of env R)"
    using P W(11) by (simp_all add: si next_index_def gen)
qed

lemma agree_off_copy_page:
  assumes "p < 2" and "length bs \<le> INDEX_PAGE_BYTES" and "RECORD_AREA_OFFSET \<le> length xs"
  shows "agree_off (page_range p) xs (copy_at (index_page_offset p) bs xs)" and "length (copy_at (index_page_offset p) bs xs) = length xs"
proof -
  have room: "index_page_offset p + length bs \<le> length xs" using page_inside [OF assms(1)] assms(2,3) by simp
  then show len: "length (copy_at (index_page_offset p) bs xs) = length xs" by (simp add: length_copy_at)
  have "agree_off (page_range p) xs (write_at (index_page_offset p) bs xs)"
    using assms(2) by (intro agree_off_write_at) (auto simp: page_range_def)
  then show "agree_off (page_range p) xs (copy_at (index_page_offset p) bs xs)" by (simp add: write_at_inside [OF room])
qed

text \<open>Writing (a prefix of) the new page leaves the header, the active page and all records alone.\<close>

lemma new_page_keeps:
  assumes wf: "region_wf env R" and P: "publishable env new m R z"
    and bs_def: "bs = new_page env new R n z" and X_def: "X = file_bytes (rf_file R) @ z"
  shows "length bs = length X" "agree_off (page_range (1 - active_page R)) X bs"
    and "slice_of 0 REGION_HEADER_BYTES bs = encode_region_header env (rf_world_uuid R) (rf_coord R)"
    and "page_of (active_page R) bs = encode_index_page env (rf_index R) (rf_coord R)"
    and "n = INDEX_PAGE_BYTES \<Longrightarrow> page_of (1 - active_page R) bs = encode_index_page env new (rf_coord R)"
    and "index_ok env (rf_coord R) bs new" "region_abs env (rf_coord R) bs new = m"
    and "index_ok env (rf_coord R) bs (rf_index R)" "region_abs env (rf_coord R) bs (rf_index R) = abs_of env R"
proof -
  note W = region_wfD [OF wf]
  let ?p = "1 - active_page R"
  have p: "?p < 2" by simp
  have good: "index_ok env (rf_coord R) X new" "region_abs env (rf_coord R) X new = m"
    using P by (auto simp: publishable_def Let_def X_def)
  have plen: "length (encode_index_page env new (rf_coord R)) = INDEX_PAGE_BYTES"
    by (rule encode_index_page_fields(1) [OF index_okD(2) [OF good(1)] refl])
  have area: "RECORD_AREA_OFFSET \<le> length X" using W(4,5) by (simp add: X_def)
  have bs: "bs = copy_at (index_page_offset ?p) (take n (encode_index_page env new (rf_coord R))) X" by (simp add: bs_def new_page_def X_def)
  note C = agree_off_copy_page [OF p _ area, of "take n (encode_index_page env new (rf_coord R))", folded bs]
  show len: "length bs = length X" and agree: "agree_off (page_range ?p) X bs" using C plen by auto
  have low: "page_range ?p \<subseteq> {..<RECORD_AREA_OFFSET}" and high: "page_range ?p \<inter> {0..<REGION_HEADER_BYTES} = {}"
    using page_ranges(1) [OF p] by auto
  have XB: "agree_off {} (file_bytes (rf_file R)) X" by (simp add: X_def)
  have keep: "slice_of a b bs = slice_of a b (file_bytes (rf_file R))"
    if "b \<le> RECORD_AREA_OFFSET" "{a..<b} \<inter> page_range ?p = {}" for a b
    using agree_off_slice [OF agree, of b a] agree_off_slice [OF XB, of b a] that area W(4,5) by simp
  show "slice_of 0 REGION_HEADER_BYTES bs = encode_region_header env (rf_world_uuid R) (rf_coord R)"
    using keep [of REGION_HEADER_BYTES 0] high W(7) by (auto simp: region_sizes)
  show "page_of (active_page R) bs = encode_index_page env (rf_index R) (rf_coord R)"
    using keep [OF page_inside [OF W(2)] page_ranges(2) [OF W(2), unfolded page_range_def [of "active_page R"]]] W(8) by simp
  show "page_of ?p bs = encode_index_page env new (rf_coord R)" if "n = INDEX_PAGE_BYTES"
    using page_inside [OF p] area plen that by (simp add: bs slice_copy_same)
  note T = index_ok_transfer [OF good(1) agree low]
  show "index_ok env (rf_coord R) bs new" "region_abs env (rf_coord R) bs new = m" using T good by simp_all
  note O1 = index_ok_transfer [OF W(10) XB empty_subsetI]
  note O2 = index_ok_transfer [OF O1(1) agree low]
  show "index_ok env (rf_coord R) bs (rf_index R)" "region_abs env (rf_coord R) bs (rf_index R) = abs_of env R"
    using O1 O2 W(11) by simp_all
qed

text \<open>Every run of \<open>save_chunks\<close> is one of these; after publishing, only an I/O error can still make it fail.\<close>

lemma save_chunks_left:
  assumes zstd: "zstd_law env" and wf: "region_wf env R" and snaps: "list_all snapshot_ok snaps" "snaps \<noteq> []"
    and run: "save_chunks env snaps policy R = (r, R')"
    and new: "new = saved_index env policy snaps R" and m: "m = saved_map snaps (abs_of env R)"
  shows "(isl r \<and> R' = R\<lparr>rf_file := rf_file R'\<rparr> \<and> (left_unpublished R (rf_file R') \<or> left_torn env new m R (rf_file R')))
    \<or> (R' = published_region R new (rf_file R') \<and> left_published env new m R (rf_file R')
        \<and> (r = Inl Io \<and> file_faults (rf_file R) \<noteq> [] \<or> (\<exists>res. r = Inr res \<and> save_generation res = generation new \<and> save_records res = length snaps)))"
proof (cases "for_each (encode_snapshot env (rf_coord R) policy) snaps (replicate INDEX_ENTRY_COUNT False, [])")
  case (Inl e)
  then have "r = Inl e" "R' = R" using run snaps(2) by (auto simp: save_chunks_def)
  then show ?thesis using region_wfD(3) [OF wf] by (auto simp: left_unpublished_def)
next
  case (Inr sx)
  obtain seen xs where sx: "sx = (seen, xs)" by (cases sx)
  note W = region_wfD [OF wf] and enc = Inr [unfolded sx]
  have all: "list_all2 (encodes env (rf_coord R) policy) snaps xs" using encode_loop [OF enc snaps(1)] by simp
  have lens: "list_all (\<lambda>x. length (record_data x) \<le> MAX_CHUNK_RECORD_BYTES) xs"
    unfolding list_all_length using all encodes_length by (fastforce simp: list_all2_conv_all_nth)
  have area: "RECORD_AREA_OFFSET \<le> length (file_bytes (rf_file R))" using W(4,5) by simp
  have si: "new = next_index env (file_bytes (rf_file R)) xs (rf_index R)" by (simp add: new saved_index_def enc)
  have pub: "publishable env new m R (concat (map record_data xs))"
    if "length (file_bytes (rf_file R) @ concat (map record_data xs)) \<le> FILE_MAX" "generation (rf_index R) < generation new"
    using saved_region [OF zstd wf snaps(1) enc that(1)] that by (simp add: publishable_def Let_def new m)
  have plen: "length (encode_index_page env new (rf_coord R)) = INDEX_PAGE_BYTES"
    by (rule encode_index_page_fields(1) [OF _ refl]) (simp add: si next_index_def place_records_length index_okD(2) [OF W(9)])
  obtain r0 F where cm: "commit_records env (rf_coord R) (active_page R) (rf_index R) xs (rf_file R) = (r0, F)" by fastforce
  have left: "commit_left env (rf_coord R) (active_page R) (rf_index R) xs (file_durable (rf_file R)) (file_bytes (rf_file R)) r0 F"
    and quiet: "file_faults (rf_file R) = [] \<Longrightarrow> generation (rf_index R) \<noteq> - 1
        \<Longrightarrow> length (file_bytes (rf_file R)) + length (concat (map record_data xs)) \<le> FILE_MAX \<Longrightarrow> file_faults F = []"
    using outcomeD [OF outcome_commit [OF W(2) index_okD(2) [OF W(9)] lens area W(3)] cm] by simp_all
  show ?thesis
  proof (cases r0)
    case (Inl e)
    then have out: "r = Inl e" "R' = R\<lparr>rf_file := F\<rparr>" using run snaps(2) enc cm by (auto simp: save_chunks_def)
    have "left_unpublished R F \<or> left_torn env new m R F"
      using left pub Inl unfolding commit_left_def Let_def si [symmetric] left_unpublished_def left_torn_def new_page_def by auto
    then show ?thesis using out by simp
  next
    case (Inr v)
    then have v: "v = (of_nat (length (file_bytes (rf_file R))), of_nat (length (file_bytes (rf_file R) @ concat (map record_data xs))),
        1 - active_page R, new)" and len: "length (file_bytes (rf_file R) @ concat (map record_data xs)) \<le> FILE_MAX"
      and gen: "generation (rf_index R) < generation new"
      and fb: "file_bytes F = new_page env new R INDEX_PAGE_BYTES (concat (map record_data xs))" "file_durable F = file_bytes F"
      using left plen by (auto simp: commit_left_def Let_def si [symmetric] new_page_def)
    note P = pub [OF len gen]
    obtain r1 F1 where st: "region_stats new F = (r1, F1)" by fastforce
    have R': "R' = published_region R new F1"
      and r: "\<exists>f. r = map_ok f r1 \<and> (\<forall>x. save_generation (f x) = generation new \<and> save_records (f x) = length snaps)"
      using run snaps(2) enc cm Inr v st by (auto simp: save_chunks_def published_region_def)
    note K = new_page_keeps [OF wf P fb(1) refl]
    have "length (file_bytes F) \<le> FILE_MAX" using K(1) len by simp
    from outcomeD [OF outcome_stats [OF K(6) this] st] have same: "same_file F F1" and io: "isl r1 \<longrightarrow> r1 = Inl Io \<and> file_faults F \<noteq> []" by auto
    have "generation (rf_index R) \<noteq> - 1" using gen by auto
    with quiet len have "file_faults F \<noteq> [] \<Longrightarrow> file_faults (rf_file R) \<noteq> []" by auto
    moreover have "left_published env new m R F1" using P fb same by (auto simp: left_published_def same_file_def)
    ultimately show ?thesis using R' r io by (cases r1) (auto simp: published_region_def)
  qed
qed

lemma unpublished_region:
  assumes wf: "region_wf env R" and left: "left_unpublished R F"
  shows "region_wf env (R\<lparr>rf_file := F\<rparr>)" and "abs_of env (R\<lparr>rf_file := F\<rparr>) = abs_of env R"
proof -
  note W = region_wfD [OF wf]
  obtain z where z: "file_bytes F = file_bytes (rf_file R) @ z" "length (file_bytes F) \<le> FILE_MAX"
    and d: "file_durable F = file_durable (rf_file R) \<or> file_durable F = file_bytes F" using left by (auto simp: left_unpublished_def)
  have B: "agree_off {} (file_bytes (rf_file R)) (file_bytes F)" by (simp add: z(1))
  have keep: "slice_of a b (file_bytes F) = slice_of a b (file_bytes (rf_file R))" if "b \<le> RECORD_AREA_OFFSET" for a b
    using agree_off_slice [OF B, of b a] that W(4,5) by simp
  note T = index_ok_transfer [OF W(10) B empty_subsetI]
  have D: "agree_off (page_range (1 - active_page R)) (file_durable F) (file_bytes F)"
    using d agree_off_trans [OF W(6) agree_off_mono [OF B]] by auto
  have idx: "index_ok env (rf_coord R) (file_durable F) (rf_index R)" and area: "RECORD_AREA_OFFSET \<le> length (file_durable F)"
    using d T(1) W(4,5,9) z(1) by auto
  show "region_wf env (R\<lparr>rf_file := F\<rparr>)"
    using W(1,2,7,8) z(2) D idx area keep [of REGION_HEADER_BYTES 0] keep [OF page_inside [OF W(2)]]
    by (simp add: region_wf_def Let_def region_sizes)
  show "abs_of env (R\<lparr>rf_file := F\<rparr>) = abs_of env R"
    using d T(2) W(11) by (auto simp: abs_of_def)
qed

lemma torn_region:
  assumes wf: "region_wf env R" and left: "left_torn env new m R F"
  shows "region_wf env (R\<lparr>rf_file := F\<rparr>)" and "abs_of env (R\<lparr>rf_file := F\<rparr>) = abs_of env R"
proof -
  note W = region_wfD [OF wf]
  obtain z n where P: "publishable env new m R z" and d: "file_durable F = file_bytes (rf_file R) @ z"
    and b: "file_bytes F = new_page env new R n z" using left by (auto simp: left_torn_def)
  note K = new_page_keeps [OF wf P b refl]
  have B: "agree_off {} (file_bytes (rf_file R)) (file_durable F)" by (simp add: d)
  note T = index_ok_transfer [OF W(10) B empty_subsetI]
  show "region_wf env (R\<lparr>rf_file := F\<rparr>)"
    using W(1,2,4,5) K(1-4) T(1) P by (simp add: region_wf_def Let_def d publishable_def)
  show "abs_of env (R\<lparr>rf_file := F\<rparr>) = abs_of env R" using T(2) W(11) by (simp add: abs_of_def)
qed

lemma published_region_ok:
  assumes wf: "region_wf env R" and left: "left_published env new m R F"
  shows "region_wf env (published_region R new F)" and "abs_of env (published_region R new F) = m" and "clean env (published_region R new F)"
proof -
  note W = region_wfD [OF wf]
  obtain z where P: "publishable env new m R z" and b: "file_bytes F = new_page env new R INDEX_PAGE_BYTES z"
    and d: "file_durable F = file_bytes F" using left by (auto simp: left_published_def)
  note K = new_page_keeps [OF wf P b refl]
  have flip: "1 - (1 - active_page R) = active_page R" using W(2) by auto
  show "region_wf env (published_region R new F)"
    using W(1,2,4,5) K(1,3,5,6) P by (simp add: region_wf_def Let_def d publishable_def published_region_def)
  show "abs_of env (published_region R new F) = m" using K(7) by (simp add: abs_of_def published_region_def d)
  have "generation (rf_index R) < generation new" using P by (simp add: publishable_def Let_def)
  then show "clean env (published_region R new F)"
    using K(4) index_page_roundtrip [OF index_okD(1) [OF W(9)]] flip by (simp add: clean_def published_region_def d)
qed

text \<open>The saves that nothing in the file or the arguments prevents.\<close>

definition accepted :: "storage_env \<Rightarrow> CompressionPolicy \<Rightarrow> ChunkSnapshot list \<Rightarrow> RegionFile \<Rightarrow> bool" where
  "accepted env policy snaps R \<longleftrightarrow> file_faults (rf_file R) = [] \<and> generation (rf_index R) \<noteq> - 1
     \<and> distinct (map snap_position snaps)
     \<and> list_all (\<lambda>s. \<not> isl (local_index (rf_coord R) (snap_position s)) \<and> \<not> isl (encode_chunk_record_with_policy env s policy [])) snaps
     \<and> length (file_bytes (rf_file R)) + length snaps * MAX_CHUNK_RECORD_BYTES \<le> FILE_MAX"

lemma not_isl_Inr: "\<not> isl x \<longleftrightarrow> (\<exists>y. x = Inr y)"
  by (cases x) simp_all

lemma encode_loop_total:
  assumes "distinct (map snap_position snaps)" and "length seen = INDEX_ENTRY_COUNT"
    and "list_all (\<lambda>s. \<exists>slot data. local_index coord (snap_position s) = Inr slot \<and> \<not> seen ! slot
           \<and> encode_chunk_record_with_policy env s policy [] = Inr data) snaps"
  shows "\<not> isl (for_each (encode_snapshot env coord policy) snaps (seen, acc))"
  using assms
proof (induction snaps arbitrary: seen acc)
  case Nil
  then show ?case by simp
next
  case (Cons s snaps)
  then obtain slot data where s: "local_index coord (snap_position s) = Inr slot" "\<not> seen ! slot"
    "encode_chunk_record_with_policy env s policy [] = Inr data" by auto
  have "\<not> seen[slot := True] ! slot'" if "t \<in> set snaps" "local_index coord (snap_position t) = Inr slot'" "\<not> seen ! slot'" for t slot'
  proof -
    have "snap_position t \<noteq> snap_position s" using Cons.prems(1) that(1) by (auto simp: image_iff)
    then have "slot' \<noteq> slot" using that s(1) local_index_inj [of coord "snap_position t" slot "snap_position s"] by auto
    then show ?thesis using that(3) by simp
  qed
  then have "list_all (\<lambda>t. \<exists>slot' data. local_index coord (snap_position t) = Inr slot' \<and> \<not> seen[slot := True] ! slot'
      \<and> encode_chunk_record_with_policy env t policy [] = Inr data) snaps"
    using Cons.prems(3) unfolding list_all_iff by fastforce
  then show ?case using Cons.IH [of "seen[slot := True]"] Cons.prems(1,2) s by (simp add: encode_snapshot_def)
qed

lemma save_chunks_succeeds:
  assumes zstd: "zstd_law env" and wf: "region_wf env R" and snaps: "list_all snapshot_ok snaps" "snaps \<noteq> []"
    and acc: "accepted env policy snaps R" and run: "save_chunks env snaps policy R = (r, R')"
  shows "\<not> isl r"
proof -
  note W = region_wfD [OF wf]
  have "list_all (\<lambda>s. \<exists>slot data. local_index (rf_coord R) (snap_position s) = Inr slot \<and> \<not> replicate INDEX_ENTRY_COUNT False ! slot
      \<and> encode_chunk_record_with_policy env s policy [] = Inr data) snaps"
    using acc local_index_bound by (fastforce simp: accepted_def list_all_iff not_isl_Inr)
  then have "\<not> isl (for_each (encode_snapshot env (rf_coord R) policy) snaps (replicate INDEX_ENTRY_COUNT False, []))"
    using acc by (intro encode_loop_total) (simp_all add: accepted_def)
  then obtain seen xs where enc: "for_each (encode_snapshot env (rf_coord R) policy) snaps (replicate INDEX_ENTRY_COUNT False, []) = Inr (seen, xs)"
    by (metis not_isl_Inr surj_pair)
  have all: "list_all2 (encodes env (rf_coord R) policy) snaps xs" using encode_loop [OF enc snaps(1)] by simp
  have lens: "list_all (\<lambda>x. length (record_data x) \<le> MAX_CHUNK_RECORD_BYTES) xs"
    unfolding list_all_length using all encodes_length by (fastforce simp: list_all2_conv_all_nth)
  then have "length (concat (map record_data xs)) \<le> length xs * MAX_CHUNK_RECORD_BYTES"
    by (induction xs) auto
  then have fits: "length (file_bytes (rf_file R)) + length (concat (map record_data xs)) \<le> FILE_MAX"
    using acc list_all2_lengthD [OF all] by (simp add: accepted_def)
  obtain r0 F where cm: "commit_records env (rf_coord R) (active_page R) (rf_index R) xs (rf_file R) = (r0, F)" by fastforce
  have area: "RECORD_AREA_OFFSET \<le> length (file_bytes (rf_file R))" using W(4,5) by simp
  have "\<not> isl r0" and left: "commit_left env (rf_coord R) (active_page R) (rf_index R) xs (file_durable (rf_file R)) (file_bytes (rf_file R)) r0 F"
    using outcomeD [OF outcome_commit [OF W(2) index_okD(2) [OF W(9)] lens area W(3)] cm] acc fits by (simp_all add: accepted_def)
  then obtain start stop next_idx where r0: "r0 = Inr (start, stop, 1 - active_page R, next_idx)"
    by (auto simp: commit_left_def Let_def not_isl_Inr)
  then have "active_page R' = 1 - active_page R"
    using run snaps(2) enc cm by (auto simp: save_chunks_def split: prod.splits)
  then have "active_page R' \<noteq> active_page R" by arith
  then have "R' \<noteq> R\<lparr>rf_file := rf_file R'\<rparr>" by (metis RegionFile.select_convs(4) RegionFile.surjective RegionFile.update_convs(1))
  with save_chunks_left [OF zstd wf snaps run refl refl] show ?thesis using acc by (auto simp: accepted_def)
qed

text \<open>
  C14: Saving a batch of snapshots into an open region, whatever I/O operation fails on the way, is atomic for the owner:
  if it succeeds, the region maps every saved position to the saved snapshot and every other position to what it had, with the
  next generation; if it fails, the region still stands for the same map, or, when the new index was already published
  and only the final statistics failed with an I/O error, for the new one. The invariant holds in all cases. A save of distinct,
  encodable snapshots of this region succeeds when no I/O operation fails, generations are left and the records fit.
\<close>

theorem save_chunks_atomic:
  assumes "zstd_law env" and wf: "region_wf env R" and snaps: "list_all snapshot_ok snaps" "snaps \<noteq> []"
    and run: "save_chunks env snaps policy R = (r, R')"
  shows "region_wf env R' \<and> (accepted env policy snaps R \<longrightarrow> \<not> isl r) \<and>
    (case r of
       Inr res \<Rightarrow> abs_of env R' = saved_map snaps (abs_of env R) \<and> clean env R' \<and> save_records res = length snaps
         \<and> save_generation res = generation (rf_index R') \<and> generation (rf_index R) < generation (rf_index R')
     | Inl e \<Rightarrow> (abs_of env R' = abs_of env R \<and> rf_index R' = rf_index R)
         \<or> (e = Io \<and> file_faults (rf_file R) \<noteq> [] \<and> abs_of env R' = saved_map snaps (abs_of env R)))"
proof -
  note ok = save_chunks_succeeds [OF assms(1) wf snaps _ run]
  from save_chunks_left [OF assms refl refl] show ?thesis
  proof (elim disjE conjE, goal_cases)
    case 1
    then obtain e F where "r = Inl e" "R' = R\<lparr>rf_file := F\<rparr>" "left_unpublished R F" by (auto simp: isl_def)
    then show ?case using unpublished_region [OF wf, of F] ok by auto
  next
    case 2
    then obtain e F where "r = Inl e" "R' = R\<lparr>rf_file := F\<rparr>"
      "left_torn env (saved_index env policy snaps R) (saved_map snaps (abs_of env R)) R F" by (auto simp: isl_def)
    then show ?case using torn_region [OF wf, of _ _ F] ok by auto
  next
    case 3
    then show ?case using published_region_ok [OF wf 3(2)] ok by auto
  next
    case 4
    then have gen: "generation (rf_index R) < generation (saved_index env policy snaps R)" by (auto simp: left_published_def publishable_def Let_def)
    have idx: "rf_index R' = saved_index env policy snaps R" using 4(1) by (metis published_region_def RegionFile.select_convs(5) RegionFile.simps(10) RegionFile.surjective RegionFile.update_convs(5))
    then show ?case using 4 gen published_region_ok [OF wf 4(2)] by auto
  qed
qed

section \<open>Crashes\<close>

text \<open>
  The page checksum detects a torn page: a page mixed byte by byte from the old and the new page is rejected, unless it
  is one of them.
\<close>

definition tear_detected :: "storage_env \<Rightarrow> RegionCoord \<Rightarrow> bytes \<Rightarrow> bytes \<Rightarrow> bool" where
  "tear_detected env coord old new \<longleftrightarrow>
     (\<forall>page. length page = INDEX_PAGE_BYTES \<longrightarrow> (\<forall>i < INDEX_PAGE_BYTES. page ! i = old ! i \<or> page ! i = new ! i)
        \<longrightarrow> decode_index_page env page coord \<noteq> None \<longrightarrow> page = old \<or> page = new)"

lemma crash_image_synced: "crash_image F d \<Longrightarrow> file_durable F = file_bytes F \<Longrightarrow> agree_off {} (file_durable F) d"
  by (auto simp: crash_image_def agree_off_def)

lemma crash_unpublished:
  assumes clean: "clean env R" and left: "left_unpublished R F" and crash: "crash_image F d"
  shows "agree_off {} (file_durable (rf_file R)) d"
proof -
  let ?D = "file_durable (rf_file R)" and ?B = "file_bytes (rf_file R)"
  obtain z where b: "file_bytes F = ?B @ z" and d: "file_durable F = ?D \<or> file_durable F = file_bytes F"
    using left by (auto simp: left_unpublished_def)
  have DB: "agree_off {} ?D (file_bytes F)" using clean agree_off_trans [OF _ agree_off_append] by (auto simp: clean_def b)
  then have "agree_off {} ?D (file_durable F)" using d by auto
  then have len: "length ?D \<le> length (file_durable F)" and D: "\<And>i. i < length ?D \<Longrightarrow> file_durable F ! i = ?D ! i" by (auto simp: agree_off_def)
  have B: "\<And>i. i < length ?D \<Longrightarrow> file_bytes F ! i = ?D ! i" using DB by (auto simp: agree_off_def)
  show ?thesis
    unfolding agree_off_def
  proof (intro conjI allI impI)
    show "length ?D \<le> length d" using crash len by (auto simp: crash_image_def)
    fix i assume i: "i < length ?D"
    then have "i < length (file_durable F)" using len by simp
    with crash have "d ! i = file_durable F ! i \<or> d ! i = file_bytes F ! i" by (auto simp: crash_image_def)
    then show "d ! i = ?D ! i" using D [OF i] B [OF i] by auto
  qed
qed

lemma nth_page: "i < INDEX_PAGE_BYTES \<Longrightarrow> index_page_offset p + INDEX_PAGE_BYTES \<le> length xs \<Longrightarrow> page_of p xs ! i = xs ! (index_page_offset p + i)"
  by (simp add: slice_of_def)

lemma crash_torn:
  assumes wf: "region_wf env R" and clean: "clean env R" and left: "left_torn env new m R F" and crash: "crash_image F d"
    and tear: "tear_detected env (rf_coord R) (page_of (1 - active_page R) (file_bytes (rf_file R))) (encode_index_page env new (rf_coord R))"
  shows "\<exists>R'. reopen env (rf_world_uuid R) (rf_coord R) d = Inr R' \<and> region_wf env R' \<and> clean env R'
    \<and> (abs_of env R' = abs_of env R \<or> abs_of env R' = m)"
proof -
  note W = region_wfD [OF wf]
  let ?p = "1 - active_page R" and ?B = "file_bytes (rf_file R)" and ?c = "rf_coord R"
  obtain z n where P: "publishable env new m R z" and D: "file_durable F = ?B @ z" and b: "file_bytes F = new_page env new R n z"
    using left by (auto simp: left_torn_def)
  define X where "X = ?B @ z"
  note K = new_page_keeps [OF wf P b X_def]
  have good: "index_ok env ?c X new" "region_abs env ?c X new = m" "generation (rf_index R) < generation new"
    using P by (auto simp: publishable_def Let_def X_def)
  have len: "length X \<le> length d" "length d \<le> FILE_MAX" and mix: "\<And>i. i < length X \<Longrightarrow> d ! i = X ! i \<or> d ! i = file_bytes F ! i"
    using crash by (auto simp: crash_image_def D X_def [symmetric])
  have area: "RECORD_AREA_OFFSET \<le> length X" using W(4,5) by (simp add: X_def)
  have agree: "agree_off (page_range ?p) X d" using K(2) mix len(1) unfolding agree_off_def by metis
  have low: "page_range ?p \<subseteq> {..<RECORD_AREA_OFFSET}" using page_ranges(1) [of ?p] by fastforce
  have XB: "agree_off {} ?B X" by (simp add: X_def)
  have keep: "slice_of a b d = slice_of a b ?B" if "b \<le> RECORD_AREA_OFFSET" "{a..<b} \<inter> page_range ?p = {}" for a b
    using agree_off_slice [OF agree, of b a] agree_off_slice [OF XB, of b a] that area W(4,5) by simp
  have header: "slice_of 0 REGION_HEADER_BYTES d = encode_region_header env (rf_world_uuid R) ?c"
    using keep [of REGION_HEADER_BYTES 0] page_ranges(1) [of ?p] W(7) by (fastforce simp: region_sizes)
  have active: "page_of (active_page R) d = encode_index_page env (rf_index R) ?c"
    using keep [OF page_inside [OF W(2)] page_ranges(2) [OF W(2), unfolded page_range_def [of "active_page R"]]] W(8) by simp
  have p2: "?p < 2" by simp
  note inside = page_inside [OF p2]
  have pin: "index_page_offset ?p + INDEX_PAGE_BYTES \<le> length X" using inside area by simp
  have oldX: "page_of ?p X = page_of ?p ?B" by (rule agree_off_slice [OF XB]) (use inside W(4,5) in simp_all)
  have plen: "length (page_of ?p d) = INDEX_PAGE_BYTES" using pin len(1) by (simp add: length_slice_of)
  have "page_of ?p d ! i = page_of ?p ?B ! i \<or> page_of ?p d ! i = encode_index_page env new ?c ! i" if "i < INDEX_PAGE_BYTES" for i
  proof -
    let ?j = "index_page_offset ?p + i"
    have j: "page_of ?p d ! i = d ! ?j" "page_of ?p ?B ! i = X ! ?j" "?j < length X"
      using nth_page [OF that, of ?p d] nth_page [OF that pin] pin len(1) oldX that by auto
    have "file_bytes F = write_at (index_page_offset ?p) (take n (encode_index_page env new ?c)) X"
      using pin encode_index_page_fields(1) [OF index_okD(2) [OF good(1)] refl]
      by (subst write_at_inside) (simp_all add: b new_page_def X_def)
    then have "file_bytes F ! ?j = X ! ?j \<or> file_bytes F ! ?j = encode_index_page env new ?c ! i"
      using j(3) by (auto simp: nth_write_at)
    then show ?thesis using mix [OF j(3)] j(1,2) by auto
  qed
  then have torn: "decode_index_page env (page_of ?p d) ?c = None \<or> page_of ?p d = page_of ?p ?B \<or> page_of ?p d = encode_index_page env new ?c"
    using tear plen unfolding tear_detected_def by blast
  note TO = index_ok_transfer [OF index_ok_transfer(1) [OF W(10) XB empty_subsetI] agree low]
  note TN = index_ok_transfer [OF good(1) agree low]
  have absO: "region_abs env ?c d (rf_index R) = abs_of env R"
    using TO(2) index_ok_transfer(2) [OF W(10) XB empty_subsetI] W(11) by simp
  have long: "RECORD_AREA_OFFSET \<le> length d" using area len(1) by simp
  show ?thesis
  proof (cases "page_of ?p d = encode_index_page env new ?c")
    case True
    have flip: "1 - ?p = active_page R" using W(2) by auto
    have "decode_index_page env (page_of (1 - ?p) d) ?c = Some i \<Longrightarrow> generation i < generation new" for i
      using active index_page_roundtrip [OF index_okD(1) [OF W(9)]] good(3) by (simp only: flip) auto
    from reopen_image [OF long len(2) header W(1) p2 True TN(1) this] show ?thesis using TN(2) good(2) by auto
  next
    case False
    have "decode_index_page env (page_of ?p d) ?c = Some i \<Longrightarrow> generation i < generation (rf_index R)" for i
      using torn False clean by (auto simp: clean_def)
    from reopen_image [OF long len(2) header W(1) W(2) active TO(1) this] show ?thesis using absO by auto
  qed
qed

lemma crash_published:
  assumes wf: "region_wf env R" and left: "left_published env new m R F" and crash: "crash_image F d"
  shows "\<exists>R'. reopen env (rf_world_uuid R) (rf_coord R) d = Inr R' \<and> region_wf env R' \<and> clean env R' \<and> abs_of env R' = m"
proof -
  note P = published_region_ok [OF wf left]
  have "agree_off {} (file_durable (rf_file (published_region R new F))) d"
    using crash_image_synced [OF crash] left by (auto simp: left_published_def published_region_def)
  from reopen_clean [OF P(1,3) this] crash P(2) show ?thesis by (auto simp: crash_image_def published_region_def)
qed

text \<open>
  C13: A save is atomic under crashes. Take a region in the state that opening or a successful commit leaves, and crash
  at any point of a save: between any two file operations, in the middle of a write, or after it returned, with the
  unsynced bytes reaching the disk in any combination. If the page checksum detects the torn page, the file reopens, and
  the reopened region stands for the map before the save or for the map after it; after a save that reported success,
  for the map after it.
\<close>

theorem save_crash_atomic:
  assumes "zstd_law env" and wf: "region_wf env R" and clean: "clean env R" and snaps: "list_all snapshot_ok snaps" "snaps \<noteq> []"
    and run: "save_chunks env snaps policy R = (r, R')" and crash: "crash_image (rf_file R') d"
    and tear: "tear_detected env (rf_coord R) (page_of (1 - active_page R) (file_bytes (rf_file R)))
       (encode_index_page env (saved_index env policy snaps R) (rf_coord R))"
  shows "\<exists>R''. reopen env (rf_world_uuid R) (rf_coord R) d = Inr R'' \<and> region_wf env R'' \<and> clean env R''
    \<and> (abs_of env R'' = saved_map snaps (abs_of env R) \<or> (isl r \<and> abs_of env R'' = abs_of env R))"
  using save_chunks_left [OF assms(1) wf snaps run refl refl]
proof (elim disjE conjE, goal_cases)
  case 1
  from reopen_clean [OF wf clean crash_unpublished [OF clean 1(3) crash]] crash 1(1) show ?case by (auto simp: crash_image_def)
next
  case 2
  from crash_torn [OF wf clean 2(3) crash tear] 2(1) show ?case by auto
next
  case 3
  from crash_published [OF wf 3(2) crash] show ?case by auto
next
  case 4
  from crash_published [OF wf 4(2) crash] show ?case by auto
qed

end
