(* ===== verification/RegionCompact.thy ===== *)
theory RegionCompact
  imports RegionCommit
begin

text \<open>
  Creating a region file (\<open>initialize_region\<close>), rewriting it (\<open>compact\<close>), and the regions reachable by creating, saving,
  loading, compacting, and by crashes in between.
\<close>

section \<open>Creation\<close>

definition fresh_file :: "storage_env \<Rightarrow> bytes \<Rightarrow> RegionCoord \<Rightarrow> bytes" where
  "fresh_file env uuid coord = encode_region_header env uuid coord
     @ encode_index_page env (RegionIndex_empty 1) coord @ encode_index_page env (RegionIndex_empty 0) coord"

lemma RegionIndex_empty_simps [simp]:
  "generation (RegionIndex_empty g) = g" "entries (RegionIndex_empty g) = replicate INDEX_ENTRY_COUNT None"
  by (simp_all add: RegionIndex_empty_def)

lemma empty_page_length [simp]: "length (encode_index_page env (RegionIndex_empty g) coord) = INDEX_PAGE_BYTES"
  by (rule encode_index_page_fields(1) [OF _ refl]) simp

lemma fresh_file_parts:
  assumes "length uuid = 16"
  shows "length (fresh_file env uuid coord) = RECORD_AREA_OFFSET"
    and "slice_of 0 REGION_HEADER_BYTES (fresh_file env uuid coord) = encode_region_header env uuid coord"
    and "page_of 0 (fresh_file env uuid coord) = encode_index_page env (RegionIndex_empty 1) coord"
    and "page_of 1 (fresh_file env uuid coord) = encode_index_page env (RegionIndex_empty 0) coord"
  using region_header_valid(2) [OF assms, of env coord]
  by (simp_all add: fresh_file_def slice_of_def index_page_offset_def RECORD_AREA_OFFSET_def INDEX_PAGE_COUNT_def)

lemma empty_index_ok: "RECORD_AREA_OFFSET \<le> length bs \<Longrightarrow> index_ok env coord bs (RegionIndex_empty g)"
  "region_abs env coord bs (RegionIndex_empty g) = Map.empty"
proof -
  have "live_total (replicate n None) = 0" for n by (simp add: live_total_def)
  then show "RECORD_AREA_OFFSET \<le> length bs \<Longrightarrow> index_ok env coord bs (RegionIndex_empty g)" by (simp add: index_ok_def)
  show "region_abs env coord bs (RegionIndex_empty g) = Map.empty"
    by (auto simp: region_abs_def slot_chunk_def fun_eq_iff local_index_bound split: sum.split)
qed

lemma outcome_initialize:
  assumes "file_bytes F = []" and "length uuid = 16"
  shows "outcome (\<lambda>r F'. (file_faults F = [] \<longrightarrow> r = Inr () \<and> file_faults F' = [])
     \<and> (r = Inr () \<longrightarrow> file_bytes F' = fresh_file env uuid coord \<and> file_durable F' = file_bytes F')) (initialize_region env uuid coord) F"
proof -
  let ?h = "encode_region_header env uuid coord" and ?a = "encode_index_page env (RegionIndex_empty 1) coord"
    and ?b = "encode_index_page env (RegionIndex_empty 0) coord"
  have lens: "length ?h = 64" "length ?a = 16384" "length ?b = 16384"
    using region_header_valid(2) [OF assms(2), of env coord] by (simp_all add: region_sizes)
  have max: "32832 \<le> FILE_MAX" by (simp add: FILE_MAX_def)
  have len3: "length (fresh_file env uuid coord) = 32832" using fresh_file_parts(1) [OF assms(2)] by (simp add: region_sizes)
  show ?thesis
    unfolding initialize_region_def
  proof (rule io_step [OF outcome_seek_start], goal_cases)
    case (2 u F1)
    then have F1: "file_bytes F1 = []" "file_pos F1 = length (file_bytes F1)" "file_faults F = [] \<longrightarrow> file_faults F1 = []"
      using assms(1) by (auto simp: same_file_def)
    show ?case
    proof (rule io_step [OF write_at_end_outcome [OF F1(2)]], goal_cases)
      case (2 u F2)
      then have F2: "file_bytes F2 = ?h" "file_pos F2 = length (file_bytes F2)" "file_faults F = [] \<longrightarrow> file_faults F2 = []" using F1 by auto
      show ?case
      proof (rule io_step [OF write_at_end_outcome [OF F2(2)]], goal_cases)
        case (2 u F3)
        then have F3: "file_bytes F3 = ?h @ ?a" "file_pos F3 = length (file_bytes F3)" "file_faults F = [] \<longrightarrow> file_faults F3 = []" using F2 by auto
        show ?case
        proof (rule io_step [OF write_at_end_outcome [OF F3(2)]], goal_cases)
          case (2 u F4)
          then have F4: "file_bytes F4 = fresh_file env uuid coord" "file_faults F = [] \<longrightarrow> file_faults F4 = []" using F3 by (auto simp: fresh_file_def)
          obtain r5 F5 where st: "set_len (of_nat RECORD_AREA_OFFSET) F4 = (r5, F5)" by fastforce
          then have F5: "file_bytes F5 = fresh_file env uuid coord" "file_faults F = [] \<longrightarrow> r5 = Inr () \<and> file_faults F5 = []"
            using F4 len3 max by (auto simp: set_len_def io_turn_def region_sizes split: list.splits option.splits if_splits)
          show ?case
            using outcome_sync [of F5] F5 by (cases r5) (auto simp: outcome_def io_bind_def st split: prod.splits)
        qed (use F3 lens max in auto)
      qed (use F2 lens max in auto)
    qed (use F1 lens max in auto)
  qed (auto simp: same_file_def)
qed

lemma fresh_region:
  assumes "length uuid = 16" and F: "file_bytes F = fresh_file env uuid coord" "file_durable F = file_bytes F"
    and R: "R = region_with F uuid coord (0, RegionIndex_empty 1)"
  shows "region_wf env R" "clean env R" "abs_of env R = Map.empty"
proof -
  note P = fresh_file_parts [OF assms(1), of env coord]
  have "index_valid (RegionIndex_empty 0)" by (simp add: index_valid_def)
  note reread = index_page_roundtrip [OF this, of env coord]
  show "region_wf env R"
    using assms(1) P empty_index_ok(1) [of "fresh_file env uuid coord"]
    by (simp add: region_wf_def Let_def R region_with_def F FILE_MAX_def region_sizes)
  show "clean env R" using P(4) reread by (simp add: clean_def R region_with_def F)
  show "abs_of env R = Map.empty" by (simp add: abs_of_def R region_with_def empty_index_ok(2))
qed

text \<open>Opening a file that does not exist yet, without I/O errors: a clean region that holds nothing.\<close>

lemma create_region:
  assumes "length uuid = 16" and "file_bytes F = []" "file_faults F = []"
  shows "\<exists>R F'. open_or_create env uuid coord F = (Inr R, F') \<and> region_wf env R \<and> clean env R \<and> abs_of env R = Map.empty
    \<and> rf_coord R = coord \<and> rf_world_uuid R = uuid"
proof -
  note P = fresh_file_parts [OF assms(1), of env coord]
  have res: "open_result env uuid coord (fresh_file env uuid coord) = Inr (0, RegionIndex_empty 1)"
    using P index_page_roundtrip [of "RegionIndex_empty 0" env coord]
    by (intro open_result_active) (auto simp: assms(1) index_valid_def)
  have "outcome (\<lambda>r F'. \<exists>R. r = Inr R \<and> region_wf env R \<and> clean env R \<and> abs_of env R = Map.empty \<and> rf_coord R = coord \<and> rf_world_uuid R = uuid)
      (open_or_create env uuid coord) F"
    unfolding open_or_create_def
  proof (rule io_step [OF outcome_dir_op], goal_cases)
    case (1 u F1)
    then have F1: "file_bytes F1 = []" "file_faults F1 = []" using assms by (auto simp: same_file_def)
    show ?case
    proof (rule io_step [OF outcome_file_len], goal_cases)
      case (1 n F2)
      then have F2: "file_bytes F2 = []" "file_faults F2 = []" and n: "n = 0" using F1 by (auto simp: same_file_def)
      have init: "outcome (\<lambda>r F'. r = Inr () \<and> file_faults F' = [] \<and> file_bytes F' = fresh_file env uuid coord \<and> file_durable F' = file_bytes F')
          (io_bind (initialize_region env uuid coord) (\<lambda>_. dir_op)) F2"
      proof (rule io_step [OF outcome_initialize [OF F2(1) assms(1)]], goal_cases)
        case (1 u F3)
        then show ?case
          by (intro outcome_mono [OF outcome_dir_op]) (use F2 in \<open>auto simp: same_file_def\<close>)
      qed (use F2 in auto)
      show ?case
        unfolding n if_P [OF refl]
      proof (rule io_step [OF init], goal_cases)
        case (1 u F4)
        show ?case
        proof (rule outcome_mono [OF outcome_from_open_file])
          fix r F5
          assume "same_file F4 F5 \<and> (r = map_ok (region_with F5 uuid coord) (open_result env uuid coord (file_bytes F4)) \<or> r = Inl Io \<and> file_faults F4 \<noteq> [])"
          then have r: "r = Inr (region_with F5 uuid coord (0, RegionIndex_empty 1))" and "file_bytes F5 = fresh_file env uuid coord" "file_durable F5 = file_bytes F5"
            using 1 res by (auto simp: same_file_def)
          from fresh_region [OF assms(1) this(2,3) refl] r
          show "\<exists>R. r = Inr R \<and> region_wf env R \<and> clean env R \<and> abs_of env R = Map.empty \<and> rf_coord R = coord \<and> rf_world_uuid R = uuid"
            by (auto simp: region_with_def)
        qed (use 1 P(1) in \<open>auto simp: region_sizes FILE_MAX_def\<close>)
      qed auto
    qed (use F1 in auto)
  qed (use assms in auto)
  then show ?thesis by (auto simp: outcome_def split: prod.splits)
qed

text \<open>An interrupted creation is not repaired: a file that is not empty but shorter than the fixed area never opens.\<close>

lemma short_file_never_opens:
  assumes "file_bytes F \<noteq> []" and "length (file_bytes F) < RECORD_AREA_OFFSET"
  shows "isl (fst (open_or_create env uuid coord F)) \<and> isl (fst (open_found env uuid coord F))"
proof -
  let ?n = "of_nat (length (file_bytes F)) :: u64"
  have n: "unat ?n = length (file_bytes F)" using assms(2) by (simp add: unat_of_nat region_sizes)
  have "unat ?n \<noteq> 0" using assms(1) n by simp
  then have "?n \<noteq> 0" by (metis unat_0)
  moreover have "?n < of_nat RECORD_AREA_OFFSET" using assms(2) by (simp add: word_less_nat_alt n) (simp add: region_sizes)
  ultimately show ?thesis
    by (auto simp: open_or_create_def open_found_def io_bind_def io_lift_def dir_op_def file_len_def io_turn_def
        split: list.splits option.splits)
qed

section \<open>Compaction\<close>

text \<open>
  The invariant of the copy loop after the slots below \<open>k\<close>: the new index has their entries, pointing at copies of their
  records, and nothing else; the records fill the new file without gaps.
\<close>

definition slot_copied :: "bytes \<Rightarrow> bytes \<Rightarrow> IndexEntry option \<Rightarrow> IndexEntry option \<Rightarrow> bool" where
  "slot_copied bs ts old new \<longleftrightarrow>
     (case old of
        None \<Rightarrow> new = None
      | Some e \<Rightarrow> (\<exists>off. new = Some (e\<lparr>record_offset := off\<rparr>) \<and> RECORD_AREA_OFFSET \<le> unat off
          \<and> unat off + unat (record_len e) \<le> length ts \<and> record_at ts (e\<lparr>record_offset := off\<rparr>) = record_at bs e))"

definition copied :: "bytes \<Rightarrow> RegionIndex \<Rightarrow> nat \<Rightarrow> bytes \<Rightarrow> RegionIndex \<Rightarrow> bool" where
  "copied bs current k ts index \<longleftrightarrow> length (entries index) = INDEX_ENTRY_COUNT
     \<and> RECORD_AREA_OFFSET + live_total (entries index) = length ts
     \<and> (\<forall>slot < INDEX_ENTRY_COUNT.
          if slot < k then slot_copied bs ts (entries current ! slot) (entries index ! slot) else entries index ! slot = None)"

lemma check_ignores_offset: "check_indexed_record env coord slot (e\<lparr>record_offset := off\<rparr>) data = check_indexed_record env coord slot e data"
  by (simp add: check_indexed_record_def cong: if_cong)

lemma slot_copied_append: "slot_copied bs ts old new \<Longrightarrow> slot_copied bs (ts @ z) old new"
  by (fastforce simp: slot_copied_def record_at_def slice_of_def split: option.splits)

lemma live_total_insert:
  assumes "slot < length es" and "es ! slot = None"
  shows "live_total (es[slot := Some e]) = live_total es + unat (record_len e)"
  using assms by (simp add: live_total_def map_update sum_list_update)

lemma copied_skip: "copied bs current k ts index \<Longrightarrow> entries current ! k = None \<Longrightarrow> copied bs current (Suc k) ts index"
  by (auto simp: copied_def less_Suc_eq slot_copied_def)

lemma copied_step:
  assumes inv: "copied bs current k ts index" and k: "k < INDEX_ENTRY_COUNT" and e: "entries current ! k = Some e"
    and data: "record_at bs e = data" "length data = unat (record_len e)" and off: "unat off = length ts"
  shows "copied bs current (Suc k) (ts @ data) (index\<lparr>entries := (entries index)[k := Some (e\<lparr>record_offset := off\<rparr>)]\<rparr>)"
proof -
  let ?e = "e\<lparr>record_offset := off\<rparr>"
  have len: "length (entries index) = INDEX_ENTRY_COUNT" and none: "entries index ! k = None"
    and total: "RECORD_AREA_OFFSET + live_total (entries index) = length ts" using inv k by (auto simp: copied_def)
  have live: "live_total ((entries index)[k := Some ?e]) = live_total (entries index) + unat (record_len e)"
    using live_total_insert [of k "entries index" ?e] k len none by simp
  have "record_at (ts @ data) ?e = data" by (simp add: record_at_def slice_of_def off data(2))
  then have "slot_copied bs (ts @ data) (Some e) (Some ?e)"
    using total off data by (auto simp: slot_copied_def intro!: exI [of _ off])
  then have new: "slot_copied bs (ts @ data) (entries current ! k) ((entries index)[k := Some ?e] ! k)" using k len e by simp
  have old: "slot_copied bs (ts @ data) (entries current ! slot) ((entries index)[k := Some ?e] ! slot)" if "slot < k" for slot
    using inv that k by (auto simp: copied_def intro: slot_copied_append)
  have later: "(entries index)[k := Some ?e] ! slot = None" if "\<not> slot < Suc k" "slot < INDEX_ENTRY_COUNT" for slot
    using inv that by (auto simp: copied_def)
  show ?thesis
    unfolding copied_def using len total live data(2) new old later by (auto simp: less_Suc_eq)
qed

lemma copied_all:
  assumes inv: "copied bs current INDEX_ENTRY_COUNT ts index" and idx: "index_ok env coord bs current"
  shows "index_ok env coord ts index" and "region_abs env coord ts index = region_abs env coord bs current"
    and "RECORD_AREA_OFFSET + live_total (entries index) = length ts"
proof -
  have slot: "slot_copied bs ts (entries current ! s) (entries index ! s)" if "s < INDEX_ENTRY_COUNT" for s
    using inv that by (auto simp: copied_def)
  have ok: "indexed_ok env coord bs s e" if "s < INDEX_ENTRY_COUNT" "entries current ! s = Some e" for s e
    using idx that by (simp add: index_ok_def)
  show total: "RECORD_AREA_OFFSET + live_total (entries index) = length ts" using inv by (simp add: copied_def)
  have "indexed_ok env coord ts s e'" if "s < INDEX_ENTRY_COUNT" "entries index ! s = Some e'" for s e'
    using slot [OF that(1)] that(2) ok [OF that(1)]
    by (auto simp: slot_copied_def indexed_ok_def page_entry_ok_def check_ignores_offset split: option.splits)
  then show "index_ok env coord ts index" using inv total by (simp add: index_ok_def copied_def)
  have "slot_chunk env coord ts index s = slot_chunk env coord bs current s" if "s < INDEX_ENTRY_COUNT" for s
    using slot [OF that] by (auto simp: slot_copied_def slot_chunk_def check_ignores_offset split: option.splits)
  then show "region_abs env coord ts index = region_abs env coord bs current"
    using local_index_bound by (auto simp: region_abs_def fun_eq_iff split: sum.split)
qed

lemma copied_live_total:
  assumes "copied bs current INDEX_ENTRY_COUNT ts index" and "length (entries current) = INDEX_ENTRY_COUNT"
  shows "live_total (entries index) = live_total (entries current)"
proof -
  let ?len = "\<lambda>oe. case oe of None \<Rightarrow> 0 | Some e \<Rightarrow> unat (record_len e)"
  have "map ?len (entries index) = map ?len (entries current)"
  proof (rule nth_equalityI)
    fix i
    assume "i < length (map ?len (entries index))"
    then have "slot_copied bs ts (entries current ! i) (entries index ! i)" "i < INDEX_ENTRY_COUNT" using assms by (auto simp: copied_def)
    moreover have "length (entries index) = INDEX_ENTRY_COUNT" using assms(1) by (simp add: copied_def)
    ultimately show "map ?len (entries index) ! i = map ?len (entries current) ! i"
      using assms(2) by (auto simp: slot_copied_def split: option.splits)
  qed (use assms in \<open>simp add: copied_def\<close>)
  then show ?thesis by (simp add: live_total_def)
qed

lemma seek_write_end:
  assumes "length (file_bytes T) \<le> FILE_MAX"
  shows "outcome (\<lambda>r T'. r = Inr () \<longrightarrow> file_bytes T' = file_bytes T @ data \<and> length (file_bytes T') \<le> FILE_MAX)
    (io_bind (seek_start (of_nat (length (file_bytes T)))) (\<lambda>_. write_all data)) T"
proof -
  have pos: "unat (of_nat (length (file_bytes T)) :: u64) = length (file_bytes T)" using assms by (simp add: unat_of_nat FILE_MAX_def)
  show ?thesis
  proof (rule io_step [OF outcome_seek_start], goal_cases)
    case (2 u G)
    then have G: "file_bytes G = file_bytes T" "file_pos G = length (file_bytes G)" by (auto simp: same_file_def pos)
    show ?case by (rule outcome_mono [OF write_at_end_outcome [OF G(2)]]) (use G assms in auto)
  qed (use assms pos in auto)
qed

lemma ucast_of_record_len: "unat (w :: u32) = n \<Longrightarrow> (ucast w :: u64) = of_nat n"
proof -
  assume n: "unat w = n"
  have "unat w < 2 ^ LENGTH(32)" by (rule unsigned_less)
  then have "n < 2 ^ 32" using n by simp
  then have "unat (ucast w :: u64) = unat (of_nat n :: u64)" using n by (simp add: unat_of_nat)
  then show ?thesis by (simp only: word_unat_eq_iff)
qed

lemma checked_add_record:
  assumes "m = n + unat (len :: u32)" and "m \<le> FILE_MAX"
  shows "checked_add (of_nat n) (ucast len) = Some (of_nat m :: u64)"
proof -
  have n: "unat (of_nat n :: u64) = n" using assms by (simp add: unat_of_nat FILE_MAX_def)
  have "n + unat len < 2 ^ LENGTH(64)" using assms by (simp add: FILE_MAX_def)
  then have sum: "unat (of_nat n :: u64) + unat (ucast len :: u64) < 2 ^ LENGTH(64)" unfolding n unat_ucast_32_64 .
  have cast: "(ucast len :: u64) = of_nat (unat len)" by (rule ucast_of_record_len) simp
  show ?thesis unfolding checked_add_def if_P [OF sum] unfolding cast assms(1) of_nat_add by (rule refl)
qed

lemma copy_records_spec:
  assumes "copy_records env coord (enumerate k es) (of_nat (length (file_bytes T))) index F T = (r, F', T')"
    and "es = drop k (entries current)" "length (entries current) = INDEX_ENTRY_COUNT"
    and "index_ok env coord (file_bytes F) current" "length (file_bytes F) \<le> FILE_MAX" "length (file_bytes T) \<le> FILE_MAX"
    and "copied (file_bytes F) current k (file_bytes T) index"
  shows "same_file F F' \<and> (\<forall>stop idx. r = Inr (stop, idx) \<longrightarrow> copied (file_bytes F) current INDEX_ENTRY_COUNT (file_bytes T') idx
     \<and> stop = of_nat (length (file_bytes T')) \<and> length (file_bytes T') \<le> FILE_MAX \<and> generation idx = generation index
     \<and> take (length (file_bytes T)) (file_bytes T') = file_bytes T)"
  using assms
proof (induction es arbitrary: k index F T)
  case Nil
  then have "k \<ge> INDEX_ENTRY_COUNT" by simp
  then have "copied (file_bytes F) current INDEX_ENTRY_COUNT (file_bytes T) index" using Nil.prems(7) by (auto simp: copied_def)
  then show ?case using Nil.prems by auto
next
  case (Cons oe es)
  have "k < length (entries current)" using Cons.prems(2) by (metis drop_eq_Nil list.distinct(1) not_le_imp_less)
  then have k: "k < INDEX_ENTRY_COUNT" and oe: "entries current ! k = oe" and es: "es = drop (Suc k) (entries current)"
    using Cons.prems(2,3) Cons_nth_drop_Suc [of k "entries current"] by (simp_all, metis list.inject, metis list.inject)
  show ?case
  proof (cases oe)
    case None
    then show ?thesis
      using Cons.IH [OF _ es Cons.prems(3-6)] Cons.prems(1,7) copied_skip [OF Cons.prems(7)] oe by auto
  next
    case (Some e)
    have ok: "indexed_ok env coord (file_bytes F) k e" using Cons.prems(4) k oe Some by (simp add: index_ok_def)
    obtain r0 F1 where rd: "read_indexed_record env coord k e F = (r0, F1)" by fastforce
    note RD = outcomeD [OF outcome_read_indexed [OF ok Cons.prems(5)] rd]
    show ?thesis
    proof (cases r0)
      case (Inl err)
      then show ?thesis using Cons.prems(1) RD rd Some by auto
    next
      case (Inr dd)
      obtain data sc where dd: "dd = (data, sc)" by (cases dd)
      have chk: "check_indexed_record env coord k e (record_at (file_bytes F) e) = Inr (data, sc)" using RD Inr dd by auto
      have data: "data = record_at (file_bytes F) e" using check_indexed_position [OF chk] by simp
      have dlen: "length data = unat (record_len e)"
        using ok by (simp add: data record_at_def length_slice_of indexed_ok_def)
      have F1: "file_bytes F1 = file_bytes F" "same_file F F1" using RD by (simp_all add: same_file_def)
      have pos: "unat (of_nat (length (file_bytes T)) :: u64) = length (file_bytes T)"
        using Cons.prems(6) by (simp add: unat_of_nat FILE_MAX_def)
      obtain r1 T1 where wr: "io_bind (seek_start (of_nat (length (file_bytes T)))) (\<lambda>_. write_all data) T = (r1, T1)" by fastforce
      note T1 = outcomeD [OF seek_write_end [OF Cons.prems(6)] wr]
      show ?thesis
      proof (cases r1)
        case (Inl err)
        then show ?thesis using Cons.prems(1) F1 rd wr Some Inr dd by auto
      next
        case (Inr u)
        then have T: "file_bytes T1 = file_bytes T @ data" "length (file_bytes T1) \<le> FILE_MAX" using T1 by auto
        have add: "checked_add (of_nat (length (file_bytes T))) (ucast (record_len e)) = Some (of_nat (length (file_bytes T1)) :: u64)"
          by (rule checked_add_record) (use T dlen in auto)
        let ?i = "index\<lparr>entries := (entries index)[k := Some (e\<lparr>record_offset := of_nat (length (file_bytes T))\<rparr>)]\<rparr>"
        have inv: "copied (file_bytes F1) current (Suc k) (file_bytes T1) ?i"
          using copied_step [OF Cons.prems(7) k _ data [symmetric] dlen pos] oe Some T(1) F1(1) by simp
        have "copy_records env coord (enumerate (Suc k) es) (of_nat (length (file_bytes T1))) ?i F1 T1 = (r, F', T')"
          using Cons.prems(1) rd wr Some \<open>r0 = Inr dd\<close> dd Inr add by simp
        moreover have "index_ok env coord (file_bytes F1) current" "length (file_bytes F1) \<le> FILE_MAX"
          using Cons.prems(4,5) F1(1) by simp_all
        ultimately have IH: "same_file F1 F' \<and> (\<forall>stop idx. r = Inr (stop, idx) \<longrightarrow> copied (file_bytes F1) current INDEX_ENTRY_COUNT (file_bytes T') idx
           \<and> stop = of_nat (length (file_bytes T')) \<and> length (file_bytes T') \<le> FILE_MAX \<and> generation idx = generation ?i
           \<and> take (length (file_bytes T1)) (file_bytes T') = file_bytes T1)"
          by (rule Cons.IH [OF _ es Cons.prems(3) _ _ T(2) inv])
        have keep: "take (length (file_bytes T1)) xs = file_bytes T1 \<Longrightarrow> take (length (file_bytes T)) xs = file_bytes T" for xs
          using T(1) take_take [of "length (file_bytes T)" "length (file_bytes T1)" xs] by simp
        have "same_file F F'" by (rule same_file_trans [OF F1(2) conjunct1 [OF IH]])
        moreover have "copied (file_bytes F) current INDEX_ENTRY_COUNT (file_bytes T') idx
           \<and> stop = of_nat (length (file_bytes T')) \<and> length (file_bytes T') \<le> FILE_MAX \<and> generation idx = generation index
           \<and> take (length (file_bytes T)) (file_bytes T') = file_bytes T" if "r = Inr (stop, idx)" for stop idx
        proof -
          from IH that have *: "copied (file_bytes F1) current INDEX_ENTRY_COUNT (file_bytes T') idx"
            "stop = of_nat (length (file_bytes T'))" "length (file_bytes T') \<le> FILE_MAX" "generation idx = generation ?i"
            "take (length (file_bytes T1)) (file_bytes T') = file_bytes T1" by blast+
          show ?thesis using *(1-4) keep [OF *(5)] unfolding F1(1) by simp
        qed
        ultimately show ?thesis by blast
      qed
    qed
  qed
qed

lemma outcome_write_page:
  assumes "p < 2" and "length page = INDEX_PAGE_BYTES" and "RECORD_AREA_OFFSET \<le> length (file_bytes F)" and "length (file_bytes F) \<le> FILE_MAX"
  shows "outcome (\<lambda>r F'. (r = Inr () \<longrightarrow> file_bytes F' = copy_at (index_page_offset p) page (file_bytes F))
      \<and> (file_faults F = [] \<longrightarrow> r = Inr () \<and> file_faults F' = []))
    (io_bind (seek_start (of_nat (index_page_offset p))) (\<lambda>_. write_all page)) F"
proof -
  have off: "unat (of_nat (index_page_offset p) :: u64) = index_page_offset p" "index_page_offset p \<le> FILE_MAX"
    using assms(1) by (auto simp: unat_of_nat index_page_offset_def region_sizes FILE_MAX_def less_2_cases_iff)
  have room: "index_page_offset p + length page \<le> length (file_bytes F)" using page_inside [OF assms(1)] assms(2,3) by simp
  show ?thesis
  proof (rule io_step [OF outcome_seek_start], goal_cases)
    case (2 u G)
    then show ?case
      by (intro outcome_mono [OF outcome_write]) (use off write_at_inside [OF room] room assms(4) in \<open>auto simp: same_file_def\<close>)
  qed (use off in auto)
qed

lemma outcome_compact_index:
  assumes idx: "index_ok env coord (file_bytes T) index" and len: "length (file_bytes T) \<le> FILE_MAX"
    and stop: "stop = of_nat (length (file_bytes T))"
  shows "outcome (\<lambda>r T'. (r = Inr () \<longrightarrow> file_durable T' = file_bytes T' \<and> file_bytes T' =
      copy_at (index_page_offset 0) (encode_index_page env index coord)
        (copy_at (index_page_offset 1) (encode_index_page env (index\<lparr>generation := g\<rparr>) coord) (file_bytes T)))
      \<and> (file_faults T = [] \<longrightarrow> r = Inr () \<and> file_faults T' = []))
    (write_compact_index env coord g stop index) T"
proof -
  let ?b = "encode_index_page env (index\<lparr>generation := g\<rparr>) coord" and ?a = "encode_index_page env index coord"
  have plen: "length ?a = INDEX_PAGE_BYTES" "length ?b = INDEX_PAGE_BYTES"
    by (rule encode_index_page_fields(1) [OF _ refl], simp add: index_okD(2) [OF idx])+
  have area: "RECORD_AREA_OFFSET \<le> length (file_bytes T)" using idx by (simp add: index_ok_def)
  have n: "unat stop = length (file_bytes T)" using len by (simp add: stop unat_of_nat FILE_MAX_def)
  have set: "outcome (\<lambda>r T'. (r = Inr () \<longrightarrow> file_bytes T' = file_bytes T) \<and> (file_faults T = [] \<longrightarrow> r = Inr () \<and> file_faults T' = []))
     (set_len stop) T"
    using n len by (auto simp: outcome_def set_len_def io_turn_def split: list.splits option.splits)
  have assoc: "io_bind m (\<lambda>_. io_bind m2 f) = io_bind (io_bind m (\<lambda>_. m2)) f" for m m2 :: "unit file_op" and f :: "unit \<Rightarrow> unit file_op"
    by (auto simp: io_bind_def fun_eq_iff split: prod.splits sum.splits)
  show ?thesis
    unfolding write_compact_index_def
  proof (rule io_step [OF set], goal_cases)
    case (1 u T1)
    then have first: "file_bytes T1 = file_bytes T" "file_faults T = [] \<longrightarrow> file_faults T1 = []" by auto
    show ?case
    proof (rule io_step [OF outcome_sync], goal_cases)
      case (1 u' T2)
      then have T2: "file_bytes T2 = file_bytes T" "file_faults T = [] \<longrightarrow> file_faults T2 = []" using first by auto
      show ?case
        unfolding assoc [of "seek_start (of_nat (index_page_offset 1))"]
      proof (rule io_step [OF outcome_write_page [OF _ plen(2)]], goal_cases)
        case (4 v T3)
        then have T3: "file_bytes T3 = copy_at (index_page_offset 1) ?b (file_bytes T)" and q3: "file_faults T = [] \<longrightarrow> file_faults T3 = []"
          using T2 by auto
        have l3: "length (file_bytes T3) = length (file_bytes T)"
          unfolding T3 by (rule agree_off_copy_page(2)) (use plen(2) area in auto)
        show ?case
          unfolding assoc [of "seek_start (of_nat (index_page_offset 0))"]
        proof (rule io_step [OF outcome_write_page [OF _ plen(1)]], goal_cases)
          case (4 w T4)
          then show ?case using q3 by (intro outcome_mono [OF outcome_sync]) (auto simp: T3)
        qed (use l3 area len q3 in auto)
      qed (use T2 area len in auto)
    qed (use first in auto)
  qed auto
qed

section \<open>Compaction without I/O errors\<close>

lemma seek_write_quiet:
  assumes "file_faults T = []" and "length (file_bytes T) + length data \<le> FILE_MAX"
  shows "outcome (\<lambda>r T'. r = Inr () \<and> file_faults T' = [] \<and> file_bytes T' = file_bytes T @ data)
    (io_bind (seek_start (of_nat (length (file_bytes T)))) (\<lambda>_. write_all data)) T"
proof -
  have pos: "unat (of_nat (length (file_bytes T)) :: u64) = length (file_bytes T)" using assms(2) by (simp add: unat_of_nat FILE_MAX_def)
  show ?thesis
  proof (rule io_step [OF outcome_seek_start], goal_cases)
    case (2 u G)
    then have G: "file_bytes G = file_bytes T" "file_pos G = length (file_bytes G)" "file_faults G = []"
      using assms(1) by (auto simp: same_file_def pos)
    show ?case by (rule outcome_mono [OF write_at_end_outcome [OF G(2)]]) (use G assms in auto)
  qed (use assms pos in auto)
qed

lemma copy_records_quiet:
  assumes "copy_records env coord (enumerate k es) (of_nat (length (file_bytes T))) index F T = (r, F', T')"
    and "\<forall>i < length es. \<forall>e. es ! i = Some e \<longrightarrow> indexed_ok env coord (file_bytes F) (k + i) e" "length (file_bytes F) \<le> FILE_MAX"
    and "file_faults F = []" "file_faults T = []" "length (file_bytes T) + live_total es \<le> FILE_MAX"
  shows "\<not> isl r \<and> file_faults T' = []"
  using assms
proof (induction es arbitrary: k index F T)
  case Nil
  then show ?case by auto
next
  case (Cons oe es)
  have rest: "\<forall>i < length es. \<forall>e. es ! i = Some e \<longrightarrow> indexed_ok env coord (file_bytes F) (Suc k + i) e"
    using Cons.prems(2) by (metis Suc_less_eq add_Suc add_Suc_right length_Cons nth_Cons_Suc)
  show ?case
  proof (cases oe)
    case None
    then show ?thesis using Cons.IH [OF _ rest Cons.prems(3-5)] Cons.prems(1,6) by (simp add: live_total_def)
  next
    case (Some e)
    have ok: "indexed_ok env coord (file_bytes F) k e" using Cons.prems(2) Some by (metis add.right_neutral length_greater_0_conv list.distinct(1) nth_Cons_0)
    obtain r0 F1 where rd: "read_indexed_record env coord k e F = (r0, F1)" by fastforce
    note RD = outcomeD [OF outcome_read_indexed [OF ok Cons.prems(3)] rd]
    then have r0: "r0 = check_indexed_record env coord k e (record_at (file_bytes F) e)"
      and F1: "file_bytes F1 = file_bytes F" "file_faults F1 = []" using Cons.prems(4) by (auto simp: same_file_def)
    then obtain data sc where dd: "r0 = Inr (data, sc)" using ok by (auto simp: indexed_ok_def isl_def) (metis old.prod.exhaust sum.exhaust)
    have data: "data = record_at (file_bytes F) e" using check_indexed_position r0 dd by metis
    have dlen: "length data = unat (record_len e)" using ok by (simp add: data record_at_def length_slice_of indexed_ok_def)
    have fit: "length (file_bytes T) + length data + live_total es \<le> FILE_MAX" using Cons.prems(6) Some dlen by (simp add: live_total_def)
    obtain r1 T1 where wr: "io_bind (seek_start (of_nat (length (file_bytes T)))) (\<lambda>_. write_all data) T = (r1, T1)" by fastforce
    have T1: "r1 = Inr ()" "file_faults T1 = []" "file_bytes T1 = file_bytes T @ data"
      using outcomeD [OF seek_write_quiet [OF Cons.prems(5)] wr] fit by auto
    have add: "checked_add (of_nat (length (file_bytes T))) (ucast (record_len e)) = Some (of_nat (length (file_bytes T1)) :: u64)"
      by (rule checked_add_record) (use fit T1 dlen in auto)
    show ?thesis
      using Cons.IH [of "Suc k" T1 _ F1] Cons.prems(1,3) rest F1 T1 fit rd wr Some dd add by simp
  qed
qed

text \<open>The region that \<open>compact\<close> puts in place of the old one.\<close>

lemma compacted_region:
  assumes wf: "region_wf env R" and inv: "copied (file_bytes (rf_file R)) (rf_index R) INDEX_ENTRY_COUNT X index"
    and X: "length X \<le> FILE_MAX" "slice_of 0 REGION_HEADER_BYTES X = encode_region_header env (rf_world_uuid R) (rf_coord R)"
    and gen: "generation (rf_index R) < generation index"
    and T: "file_bytes T = copy_at (index_page_offset 0) (encode_index_page env index (rf_coord R))
       (copy_at (index_page_offset 1) (encode_index_page env (index\<lparr>generation := generation (rf_index R)\<rparr>) (rf_coord R)) X)"
      "file_durable T = file_bytes T"
    and R': "R' = R\<lparr>rf_file := T, active_page := 0, rf_index := index\<rparr>"
  shows "region_wf env R'" "clean env R'" "abs_of env R' = abs_of env R"
    and "length (file_bytes T) = RECORD_AREA_OFFSET + live_total (entries index)"
proof -
  note W = region_wfD [OF wf]
  let ?c = "rf_coord R"
  let ?a = "encode_index_page env index ?c" and ?b = "encode_index_page env (index\<lparr>generation := generation (rf_index R)\<rparr>) ?c"
  note C = copied_all [OF inv W(10)]
  have area: "RECORD_AREA_OFFSET \<le> length X" using C(3) by simp
  have plen: "length ?a = INDEX_PAGE_BYTES" "length ?b = INDEX_PAGE_BYTES"
    by (rule encode_index_page_fields(1) [OF _ refl], simp add: index_okD(2) [OF C(1)])+
  define Y where "Y = copy_at (index_page_offset 1) ?b X"
  have Y: "agree_off (page_range 1) X Y" "length Y = length X"
    using agree_off_copy_page [of 1 ?b X] plen(2) area by (auto simp: Y_def)
  have Z: "agree_off (page_range 0) Y (file_bytes T)" "length (file_bytes T) = length X"
    using agree_off_copy_page [of 0 ?a Y] plen(1) area Y(2) by (auto simp: T(1) Y_def)
  have low: "page_range 0 \<subseteq> {..<RECORD_AREA_OFFSET}" "page_range 1 \<subseteq> {..<RECORD_AREA_OFFSET}"
    using page_ranges(1) [of 0] page_ranges(1) [of 1] by fastforce+
  have all: "agree_off {..<RECORD_AREA_OFFSET} X (file_bytes T)"
    by (rule agree_off_trans [OF agree_off_mono [OF Y(1) low(2)] agree_off_mono [OF Z(1) low(1)]])
  note I = index_ok_transfer [OF C(1) all subset_refl]
  have header: "slice_of 0 REGION_HEADER_BYTES (file_bytes T) = encode_region_header env (rf_world_uuid R) ?c"
    using agree_off_slice [OF Z(1), of REGION_HEADER_BYTES 0] agree_off_slice [OF Y(1), of REGION_HEADER_BYTES 0] X(2) area Y(2)
      page_ranges(1) [of 0] page_ranges(1) [of 1] by (force simp: region_sizes)
  have a: "page_of 0 (file_bytes T) = ?a"
    using plen(1) page_inside [of 0] area Y(2) unfolding T(1) Y_def [symmetric] by (intro slice_copy_same) auto
  have "page_of 1 (file_bytes T) = page_of 1 Y"
    using page_inside [of 1] area Y(2) page_ranges(2) [of 1] by (intro agree_off_slice [OF Z(1)]) (auto simp: page_range_def)
  also have "\<dots> = ?b" using plen(2) page_inside [of 1] area unfolding Y_def by (intro slice_copy_same) auto
  finally have b: "page_of 1 (file_bytes T) = ?b" .
  have "index_valid (index\<lparr>generation := generation (rf_index R)\<rparr>)" using index_okD(1) [OF C(1)] by (simp add: index_valid_def)
  note reread = index_page_roundtrip [OF this, of env ?c]
  show "region_wf env R'"
    using W(1) X(1) Z(2) area header a I(1) by (simp add: region_wf_def Let_def R' T(2))
  show "clean env R'" using b reread gen by (simp add: clean_def R' T(2))
  show "abs_of env R' = abs_of env R" using I(2) C(2) W(11) by (simp add: abs_of_def R' T(2))
  show "length (file_bytes T) = RECORD_AREA_OFFSET + live_total (entries index)" using C(3) Z(2) by simp
qed

text \<open>\<open>OpenOptions::create_new\<close>: a file that was opened as new is empty.\<close>

definition creates_empty :: "(nat \<Rightarrow> OpenNew) \<Rightarrow> bool" where
  "creates_empty open_new \<longleftrightarrow> (\<forall>k T. open_new k = NewFile T \<longrightarrow> file_bytes T = [])"

lemma try_open_new_fresh:
  assumes "try_open_new open_new ks = Inr T" and "creates_empty open_new"
  shows "file_bytes T = []"
  using assms(1) by (induction ks) (use assms(2) in \<open>auto simp: creates_empty_def split: OpenNew.splits\<close>)

lemma copied_start: "length ts = RECORD_AREA_OFFSET \<Longrightarrow> copied bs current 0 ts (RegionIndex_empty g)"
  by (simp add: copied_def live_total_def)

text \<open>The rewrite itself: either it fails and the old file was only read, or it builds the compacted file.\<close>

lemma compact_build_spec:
  assumes wf: "region_wf env R" and T: "file_bytes T = fresh_file env (rf_world_uuid R) (rf_coord R)"
    and run: "compact_build env (rf_coord R) (rf_index R) g (rf_file R) T = (r, F', T')"
  shows "same_file (rf_file R) F' \<and> (file_faults (rf_file R) = [] \<and> file_faults T = [] \<longrightarrow> \<not> isl r \<and> file_faults T' = [])
    \<and> (\<forall>index. r = Inr index \<longrightarrow> generation index = g \<and> file_durable T' = file_bytes T'
     \<and> (\<exists>X. copied (file_bytes (rf_file R)) (rf_index R) INDEX_ENTRY_COUNT X index \<and> length X \<le> FILE_MAX
          \<and> slice_of 0 REGION_HEADER_BYTES X = encode_region_header env (rf_world_uuid R) (rf_coord R)
          \<and> file_bytes T' = copy_at (index_page_offset 0) (encode_index_page env index (rf_coord R))
              (copy_at (index_page_offset 1) (encode_index_page env (index\<lparr>generation := generation (rf_index R)\<rparr>) (rf_coord R)) X)))"
proof -
  note W = region_wfD [OF wf]
  note P = fresh_file_parts [OF W(1), of env "rf_coord R"]
  obtain r0 F0 T0 where cp: "copy_records env (rf_coord R) (enumerate 0 (entries (rf_index R))) (of_nat RECORD_AREA_OFFSET)
      (RegionIndex_empty g) (rf_file R) T = (r0, F0, T0)" by (metis prod_cases3)
  have "length (file_bytes T) \<le> FILE_MAX" using P(1) T by (simp add: region_sizes FILE_MAX_def)
  note start = this
  have cp': "copy_records env (rf_coord R) (enumerate 0 (entries (rf_index R))) (of_nat (length (file_bytes T)))
      (RegionIndex_empty g) (rf_file R) T = (r0, F0, T0)" using cp P(1) by (simp add: T)
  have "copied (file_bytes (rf_file R)) (rf_index R) 0 (file_bytes T) (RegionIndex_empty g)"
    by (rule copied_start) (simp add: T P(1))
  note C = copy_records_spec [OF cp' _ index_okD(2) [OF W(10)] W(10) W(3) start this, simplified]
  have spec: "same_file (rf_file R) F0" "\<And>stop idx. r0 = Inr (stop, idx) \<Longrightarrow> copied (file_bytes (rf_file R)) (rf_index R) INDEX_ENTRY_COUNT (file_bytes T0) idx
     \<and> stop = of_nat (length (file_bytes T0)) \<and> length (file_bytes T0) \<le> FILE_MAX \<and> generation idx = g
     \<and> take (length (file_bytes T)) (file_bytes T0) = file_bytes T"
    using C by auto
  have fits: "RECORD_AREA_OFFSET + live_total (entries (rf_index R)) \<le> FILE_MAX" using W(3,10) by (auto simp: index_ok_def)
  have "\<not> isl r0 \<and> file_faults T0 = []" if "file_faults (rf_file R) = []" "file_faults T = []"
    by (rule copy_records_quiet [OF cp' _ W(3) that]) (use W(10) fits P(1) in \<open>auto simp: index_ok_def T\<close>)
  note quiet = this
  show ?thesis
  proof (cases r0)
    case (Inl e)
    then show ?thesis using run cp spec(1) quiet by (auto simp: compact_build_def)
  next
    case (Inr si)
    obtain stop index where si: "si = (stop, index)" by (cases si)
    note S = spec(2) [OF Inr [unfolded si]]
    have idx: "index_ok env (rf_coord R) (file_bytes T0) index" using copied_all(1) S W(10) by blast
    obtain r1 T1 where wr: "write_compact_index env (rf_coord R) (generation (rf_index R)) stop index T0 = (r1, T1)" by fastforce
    have "length (file_bytes T0) \<le> FILE_MAX" "stop = of_nat (length (file_bytes T0))" using S by auto
    note K = outcomeD [OF outcome_compact_index [OF idx this] wr]
    have pre: "take RECORD_AREA_OFFSET (file_bytes T0) = file_bytes T" using S P(1) T by simp
    have "slice_of 0 REGION_HEADER_BYTES (file_bytes T0) = slice_of 0 REGION_HEADER_BYTES (take RECORD_AREA_OFFSET (file_bytes T0))"
      by (simp add: slice_of_def region_sizes)
    then have head: "slice_of 0 REGION_HEADER_BYTES (file_bytes T0) = encode_region_header env (rf_world_uuid R) (rf_coord R)"
      using P(2) by (simp add: pre T)
    show ?thesis
    proof (cases r1)
      case (Inl e)
      then show ?thesis using run cp spec(1) wr Inr si K quiet by (auto simp: compact_build_def)
    next
      case (Inr u)
      then have "r = Inr index" "F' = F0" "T' = T1" using run cp wr \<open>r0 = Inr si\<close> si by (auto simp: compact_build_def)
      then show ?thesis using spec(1) S K head Inr quiet by auto
    qed
  qed
qed

lemma compact_replace_spec:
  assumes run: "compact_replace before rename_ok index T R = (r, R')"
    and idx: "index_ok env coord (file_bytes T) index" "length (file_bytes T) \<le> FILE_MAX"
    and before: "unat (stat_file_bytes before) = n"
  shows "R' = R \<and> isl r \<or> (\<exists>T1. same_file T T1 \<and> R' = R\<lparr>rf_file := T1, active_page := 0, rf_index := index\<rparr>
     \<and> (\<forall>res. r = Inr res \<longrightarrow> unat (bytes_reclaimed res) = n - length (file_bytes T) \<and> length (file_bytes T) \<le> n))"
    and "file_faults T = [] \<Longrightarrow> rename_ok \<Longrightarrow> length (file_bytes T) \<le> n \<Longrightarrow> \<not> isl r"
proof -
  obtain r0 T0 where st: "region_stats index T = (r0, T0)" by fastforce
  note S = outcomeD [OF outcome_stats [OF idx] st]
  show "\<not> isl r" if q: "file_faults T = []" "rename_ok" "length (file_bytes T) \<le> n"
  proof -
    obtain after where after: "r0 = Inr after" "unat (stat_file_bytes after) = length (file_bytes T)" "file_faults T0 = []"
      using S q(1) by (auto simp: same_file_def)
    have "\<not> stat_file_bytes before < stat_file_bytes after" using q(3) before after(2) by (simp add: word_less_nat_alt)
    then show ?thesis
      using run st after q(2) outcome_dir_op [of T0] by (auto simp: compact_replace_def outcome_def split: prod.splits)
  qed
  show "R' = R \<and> isl r \<or> (\<exists>T1. same_file T T1 \<and> R' = R\<lparr>rf_file := T1, active_page := 0, rf_index := index\<rparr>
     \<and> (\<forall>res. r = Inr res \<longrightarrow> unat (bytes_reclaimed res) = n - length (file_bytes T) \<and> length (file_bytes T) \<le> n))"
  proof (cases r0)
    case (Inl e)
    then show ?thesis using run st by (auto simp: compact_replace_def)
  next
    case (Inr after)
    then have after: "unat (stat_file_bytes after) = length (file_bytes T)" "same_file T T0" using S by auto
    obtain r1 T1 where d: "dir_op T0 = (r1, T1)" by fastforce
    have T1: "same_file T T1" using outcomeD [OF outcome_dir_op d] same_file_trans [OF after(2)] by blast
    show ?thesis
    proof (cases "stat_file_bytes before < stat_file_bytes after \<or> \<not> rename_ok")
      case True
      then show ?thesis using run st Inr by (auto simp: compact_replace_def split: if_splits)
    next
      case False
      then have le: "stat_file_bytes after \<le> stat_file_bytes before" by (simp add: not_less)
      then have "unat (stat_file_bytes before - stat_file_bytes after) = n - length (file_bytes T)" "length (file_bytes T) \<le> n"
        using before after(1) by (simp_all add: unat_sub word_le_nat_alt)
      then show ?thesis
        using run st Inr d T1 False by (auto simp: compact_replace_def map_ok_Inr_iff intro!: exI [of _ T1])
    qed
  qed
qed

lemma clean_same_file: "same_file (rf_file R) F \<Longrightarrow> clean env (R\<lparr>rf_file := F\<rparr>) = clean env R"
  by (simp add: clean_def same_file_def split: option.splits)

lemma wf_same_file:
  assumes "same_file (rf_file R) F"
  shows "region_wf env (R\<lparr>rf_file := F\<rparr>) = region_wf env R" and "abs_of env (R\<lparr>rf_file := F\<rparr>) = abs_of env R"
  using assms by (simp_all add: region_wf_def abs_of_def same_file_def)

text \<open>What a compaction leaves: the old region, with its file at most read, or the compacted one.\<close>

definition compact_kept :: "RegionFile \<Rightarrow> StorageError + RegionCompactionResult \<Rightarrow> RegionFile \<Rightarrow> bool" where
  "compact_kept R r R' \<longleftrightarrow> (\<exists>F. same_file (rf_file R) F \<and> R' = R\<lparr>rf_file := F\<rparr>
     \<and> (\<forall>res. r = Inr res \<longrightarrow> bytes_reclaimed res = 0
          \<and> length (file_bytes F) = RECORD_AREA_OFFSET + live_total (entries (rf_index R))))"

definition compact_done :: "storage_env \<Rightarrow> RegionFile \<Rightarrow> StorageError + RegionCompactionResult \<Rightarrow> RegionFile \<Rightarrow> bool" where
  "compact_done env R r R' \<longleftrightarrow> region_wf env R' \<and> clean env R' \<and> abs_of env R' = abs_of env R
     \<and> length (file_bytes (rf_file R')) = RECORD_AREA_OFFSET + live_total (entries (rf_index R'))
     \<and> (\<forall>res. r = Inr res \<longrightarrow> length (file_bytes (rf_file R)) = length (file_bytes (rf_file R')) + unat (bytes_reclaimed res))"

lemma compact_keptI: "same_file (rf_file R) F \<Longrightarrow> R' = R\<lparr>rf_file := F\<rparr> \<Longrightarrow> isl r \<Longrightarrow> compact_kept R r R'"
  unfolding compact_kept_def by (intro exI [of _ F]) auto

lemma checked_succ_less: "checked_add n 1 = Some (m :: u64) \<Longrightarrow> n < m"
  by (auto simp: checked_add_def word_less_nat_alt unat_add_lem [THEN iffD1] split: if_splits)

lemma compact_rewrite_left:
  assumes wf: "region_wf env R" and new: "creates_empty open_new"
    and before: "unat (stat_file_bytes before) = length (file_bytes (rf_file R))"
    and gen: "checked_add (generation (rf_index R)) 1 = Some g"
    and temp: "create_compaction_temp open_new = Inr T0" "initialize_region env (rf_world_uuid R) (rf_coord R) T0 = (Inr u, T)"
    and build: "compact_build env (rf_coord R) (rf_index R) g (rf_file R) T = (r0, F, T1)"
    and run: "(case r0 of Inl e \<Rightarrow> (Inl e, R\<lparr>rf_file := F\<rparr>)
                | Inr index \<Rightarrow> compact_replace before rename_ok index T1 (R\<lparr>rf_file := F\<rparr>)) = (r, R')"
  shows "(compact_kept R r R' \<or> compact_done env R r R')
    \<and> (file_faults (rf_file R) = [] \<and> file_faults T0 = [] \<and> rename_ok \<longrightarrow> \<not> isl r)"
proof -
  note W = region_wfD [OF wf]
  have empty: "file_bytes T0 = []" using try_open_new_fresh [OF _ new] temp(1) by (simp add: create_compaction_temp_def)
  have T: "file_bytes T = fresh_file env (rf_world_uuid R) (rf_coord R)"
    and quiet: "file_faults T0 = [] \<Longrightarrow> file_faults T = []"
    using outcomeD [OF outcome_initialize [OF empty W(1)] temp(2)] by simp_all
  note B = compact_build_spec [OF wf T build]
  show ?thesis
  proof (cases r0)
    case (Inl e)
    then show ?thesis using compact_keptI [of R F R' r] B run quiet by auto
  next
    case (Inr index)
    with B obtain X where F: "same_file (rf_file R) F" and g: "generation index = g"
      and X: "copied (file_bytes (rf_file R)) (rf_index R) INDEX_ENTRY_COUNT X index" "length X \<le> FILE_MAX"
        "slice_of 0 REGION_HEADER_BYTES X = encode_region_header env (rf_world_uuid R) (rf_coord R)"
      and T1: "file_bytes T1 = copy_at (index_page_offset 0) (encode_index_page env index (rf_coord R))
         (copy_at (index_page_offset 1) (encode_index_page env (index\<lparr>generation := generation (rf_index R)\<rparr>) (rf_coord R)) X)"
        "file_durable T1 = file_bytes T1"
      by auto
    have less: "generation (rf_index R) < generation index" using checked_succ_less [OF gen] g by simp
    define R1 where "R1 = R\<lparr>rf_file := T1, active_page := 0, rf_index := index\<rparr>"
    note K = compacted_region [OF wf X less T1 R1_def]
    have run': "compact_replace before rename_ok index T1 (R\<lparr>rf_file := F\<rparr>) = (r, R')" using run Inr by simp
    have idx: "index_ok env (rf_coord R) (file_bytes T1) index" "length (file_bytes T1) \<le> FILE_MAX"
      using region_wfD(10,3) [OF K(1)] by (simp_all add: R1_def)
    have "length (file_bytes T1) = RECORD_AREA_OFFSET + live_total (entries (rf_index R))"
      using K(4) copied_live_total [OF X(1) index_okD(2) [OF W(10)]] by simp
    then have "length (file_bytes T1) \<le> length (file_bytes (rf_file R))" using W(10) by (simp add: index_ok_def)
    note ok = compact_replace_spec(2) [OF run' idx before _ _ this]
    have "file_faults (rf_file R) = [] \<and> file_faults T0 = [] \<and> rename_ok \<longrightarrow> \<not> isl r" using ok B quiet by blast
    moreover have "compact_kept R r R' \<or> compact_done env R r R'"
    proof (rule disjE [OF compact_replace_spec(1) [OF run' idx before]])
      assume "R' = R\<lparr>rf_file := F\<rparr> \<and> isl r"
      then show ?thesis using compact_keptI [OF F] by auto
    next
      assume "\<exists>T2. same_file T1 T2 \<and> R' = R\<lparr>rf_file := F\<rparr>\<lparr>rf_file := T2, active_page := 0, rf_index := index\<rparr>
       \<and> (\<forall>res. r = Inr res \<longrightarrow> unat (bytes_reclaimed res) = length (file_bytes (rf_file R)) - length (file_bytes T1)
            \<and> length (file_bytes T1) \<le> length (file_bytes (rf_file R)))"
      then obtain T2 where T2: "same_file (rf_file R1) T2" and R': "R' = R1\<lparr>rf_file := T2\<rparr>" and res: "\<And>res. r = Inr res \<Longrightarrow>
         unat (bytes_reclaimed res) = length (file_bytes (rf_file R)) - length (file_bytes T1) \<and> length (file_bytes T1) \<le> length (file_bytes (rf_file R))"
        by (auto simp: R1_def)
      have b: "file_bytes T2 = file_bytes T1" using T2 by (simp add: same_file_def R1_def)
      have "region_wf env R'" "clean env R'" "abs_of env R' = abs_of env R"
        using K(1-3) unfolding R' wf_same_file [OF T2] clean_same_file [OF T2] by simp_all
      moreover have "length (file_bytes (rf_file R')) = RECORD_AREA_OFFSET + live_total (entries (rf_index R'))"
        using K(4) by (simp add: R' b R1_def)
      ultimately show ?thesis using res by (auto simp: compact_done_def R' b)
    qed
    ultimately show ?thesis by blast
  qed
qed

definition unhindered :: "(nat \<Rightarrow> OpenNew) \<Rightarrow> bool \<Rightarrow> RegionFile \<Rightarrow> bool" where
  "unhindered open_new rename_ok R \<longleftrightarrow> file_faults (rf_file R) = [] \<and> generation (rf_index R) \<noteq> - 1 \<and> rename_ok
     \<and> (case create_compaction_temp open_new of Inl e \<Rightarrow> False | Inr T \<Rightarrow> file_faults T = [])"

lemma compact_left:
  assumes wf: "region_wf env R" and new: "creates_empty open_new"
    and run: "compact env open_new rename_ok R = (r, R')"
  shows "(compact_kept R r R' \<or> compact_done env R r R') \<and> (unhindered open_new rename_ok R \<longrightarrow> \<not> isl r)"
proof -
  note W = region_wfD [OF wf]
  obtain r0 F0 where st: "region_stats (rf_index R) (rf_file R) = (r0, F0)" by fastforce
  note S = outcomeD [OF outcome_stats [OF W(10,3)] st]
  have F0: "same_file (rf_file R) F0" using S by blast
  let ?R = "R\<lparr>rf_file := F0\<rparr>"
  have kept: "compact_kept R r R'" if "R' = ?R" "isl r" using compact_keptI [OF F0 that] .
  show ?thesis
  proof (cases "\<exists>before g T0 u T. r0 = Inr before \<and> stat_dead_bytes before \<noteq> 0 \<and> checked_add (generation (rf_index R)) 1 = Some g
      \<and> create_compaction_temp open_new = Inr T0 \<and> initialize_region env (rf_world_uuid R) (rf_coord R) T0 = (Inr u, T)")
    case True
    then obtain before g T0 u T where go: "r0 = Inr before" "stat_dead_bytes before \<noteq> 0" "checked_add (generation (rf_index R)) 1 = Some g"
      "create_compaction_temp open_new = Inr T0" "initialize_region env (rf_world_uuid R) (rf_coord R) T0 = (Inr u, T)" by blast
    obtain r2 F T1 where build: "compact_build env (rf_coord R) (rf_index R) g F0 T = (r2, F, T1)" by (metis prod_cases3)
    have "(case r2 of Inl e \<Rightarrow> (Inl e, ?R\<lparr>rf_file := F\<rparr>)
            | Inr index \<Rightarrow> compact_replace before rename_ok index T1 (?R\<lparr>rf_file := F\<rparr>)) = (r, R')"
      using run st go build by (cases r2) (simp_all add: compact_def)
    moreover have "region_wf env ?R" using wf by (simp add: wf_same_file [OF F0])
    moreover have "unat (stat_file_bytes before) = length (file_bytes (rf_file ?R))" using S go(1) by (auto simp: same_file_def)
    ultimately have "(compact_kept ?R r R' \<or> compact_done env ?R r R')
        \<and> (file_faults (rf_file ?R) = [] \<and> file_faults T0 = [] \<and> rename_ok \<longrightarrow> \<not> isl r)"
      using go build by (intro compact_rewrite_left [of env ?R open_new before g T0 u T r2 F T1 rename_ok, OF _ new]) auto
    moreover have "compact_done env ?R r R' = compact_done env R r R'"
      using F0 by (simp add: compact_done_def wf_same_file [OF F0] same_file_def)
    moreover have "compact_kept ?R r R' \<Longrightarrow> compact_kept R r R'" using same_file_trans [OF F0] by (auto simp: compact_kept_def)
    moreover have "unhindered open_new rename_ok R \<Longrightarrow> file_faults (rf_file ?R) = [] \<and> file_faults T0 = [] \<and> rename_ok"
      using F0 go(4) by (auto simp: unhindered_def same_file_def)
    ultimately show ?thesis by blast
  next
    case False
    show ?thesis
    proof (cases "\<exists>before. r0 = Inr before \<and> stat_dead_bytes before = 0")
      case True
      then obtain before where b: "r0 = Inr before" "stat_dead_bytes before = 0" by blast
      have "RECORD_AREA_OFFSET + live_total (entries (rf_index R)) \<le> length (file_bytes (rf_file R))" using W(10) by (simp add: index_ok_def)
      then have "length (file_bytes F0) = RECORD_AREA_OFFSET + live_total (entries (rf_index R))" using S b F0 by (auto simp: same_file_def)
      then have "compact_kept R r R'"
        using run st b F0 unfolding compact_kept_def by (intro exI [of _ F0]) (auto simp: compact_def)
      moreover have "\<not> isl r" using run st b by (auto simp: compact_def)
      ultimately show ?thesis by blast
    next
      case dead: False
      have "R' = ?R \<and> isl r"
        using run st False dead by (auto simp: compact_def Let_def split: sum.splits prod.splits option.splits if_splits)
      moreover have "\<not> unhindered open_new rename_ok R"
      proof
        assume u: "unhindered open_new rename_ok R"
        then obtain T0 where T0: "create_compaction_temp open_new = Inr T0" "file_faults T0 = []"
          by (auto simp: unhindered_def split: sum.splits)
        have "\<exists>u T. initialize_region env (rf_world_uuid R) (rf_coord R) T0 = (Inr u, T)"
          using outcome_initialize [OF try_open_new_fresh [OF _ new] W(1)] T0
          by (fastforce simp: outcome_def create_compaction_temp_def split: prod.splits)
        moreover have "\<exists>g. checked_add (generation (rf_index R)) 1 = Some g"
          using u checked_add_1_None by (auto simp: unhindered_def)
        moreover have "\<exists>before. r0 = Inr before" using S u by (auto simp: unhindered_def)
        ultimately show False using False dead T0(1) by auto
      qed
      ultimately show ?thesis using kept by blast
    qed
  qed
qed

text \<open>
  C15: Compaction never changes what a region holds. Whatever fails on the way (a read, a write, the temporary file, the rename,
  the directory sync), the region stays well formed and every chunk reads as before, also after a crash; a clean region stays
  clean. Without I/O errors (and with a generation left) it succeeds, and when it succeeds the file holds the header, the index pages and the live records, nothing else, with exactly the
  reported number of bytes given back.
\<close>

theorem compact_keeps_chunks:
  assumes "region_wf env R" and "creates_empty open_new" and "compact env open_new rename_ok R = (r, R')"
  shows "region_wf env R' \<and> abs_of env R' = abs_of env R \<and> (clean env R \<longrightarrow> clean env R') \<and> (unhindered open_new rename_ok R \<longrightarrow> \<not> isl r)
    \<and> (\<forall>res. r = Inr res \<longrightarrow> length (file_bytes (rf_file R')) = RECORD_AREA_OFFSET + live_total (entries (rf_index R'))
         \<and> length (file_bytes (rf_file R)) = length (file_bytes (rf_file R')) + unat (bytes_reclaimed res))"
  using compact_left [OF assms]
proof (elim conjE disjE)
  assume "compact_kept R r R'" and ok: "unhindered open_new rename_ok R \<longrightarrow> \<not> isl r"
  then obtain F where F: "same_file (rf_file R) F" and R': "R' = R\<lparr>rf_file := F\<rparr>"
    and res: "\<And>res. r = Inr res \<Longrightarrow> bytes_reclaimed res = 0 \<and> length (file_bytes F) = RECORD_AREA_OFFSET + live_total (entries (rf_index R))"
    by (auto simp: compact_kept_def)
  have "file_bytes F = file_bytes (rf_file R)" using F by (simp add: same_file_def)
  then show ?thesis using assms(1) res ok unfolding R' wf_same_file [OF F] clean_same_file [OF F] by auto
qed (auto simp: compact_done_def)

end
