(* ===== verification/RegionExample.thy ===== *)
theory RegionExample
  imports RegionCompact
begin

text \<open>
  A concrete region and storage environment on which the hypotheses of the region theorems hold. The checksum of the
  environment tells the new index page of the example from every mixture of it with the old page, a page of zeros.
\<close>

definition example_coord :: RegionCoord where
  "example_coord = RegionCoord 0 (- 1)"

definition example_uuid :: bytes where
  "example_uuid = replicate 16 7"

definition example_index :: RegionIndex where
  "example_index = \<lparr>generation = 2, entries = (replicate INDEX_ENTRY_COUNT None)[227 := Some \<lparr>record_offset = 32832,
     record_len = of_nat (RECORD_HEADER_BYTES + length (semantic_layout (snap_data sample_stored) [])), record_crc32c = 0,
     entry_terrain_revision = 5, entry_light_revision = 4\<rparr>]\<rparr>"

definition example_prefix :: bytes where
  "example_prefix = take 16380 (encode_index_page (sample_storage\<lparr>crc32c := \<lambda>_. 0\<rparr>) example_index example_coord)"

definition example_env :: storage_env where
  "example_env = sample_storage\<lparr>crc32c := \<lambda>bs.
     if length bs \<noteq> 16380 then 0 else if bs = example_prefix then 0x01010101 else 0x02020202\<rparr>"

definition example_bytes :: bytes where
  "example_bytes = encode_region_header example_env example_uuid example_coord
     @ encode_index_page example_env (RegionIndex_empty 1) example_coord @ replicate INDEX_PAGE_BYTES 0"

definition example_region :: RegionFile where
  "example_region = region_with (reopened example_bytes) example_uuid example_coord (0, RegionIndex_empty 1)"

lemma example_zstd: "zstd_law example_env"
  using sample_storage_zstd by (simp add: zstd_law_def example_env_def)

lemma example_bytes_parts:
  "length example_bytes = RECORD_AREA_OFFSET"
  "slice_of 0 REGION_HEADER_BYTES example_bytes = encode_region_header example_env example_uuid example_coord"
  "page_of 0 example_bytes = encode_index_page example_env (RegionIndex_empty 1) example_coord"
  "page_of 1 example_bytes = replicate INDEX_PAGE_BYTES 0"
  using region_header_valid(2) [of example_uuid example_env example_coord]
  by (simp_all add: example_bytes_def example_uuid_def slice_of_def index_page_offset_def RECORD_AREA_OFFSET_def INDEX_PAGE_COUNT_def)

lemma zeros_not_a_page: "decode_index_page env (replicate INDEX_PAGE_BYTES 0) coord = None"
proof -
  have "slice_of 0 4 (replicate INDEX_PAGE_BYTES 0) = (replicate 4 0 :: bytes)" by (simp add: slice_of_def INDEX_PAGE_BYTES_def)
  then have "slice_of 0 4 (replicate INDEX_PAGE_BYTES 0) \<noteq> INDEX_MAGIC" by (simp add: INDEX_MAGIC_def list_eq_iff_nth_eq exI [of _ "0 :: nat"])
  then show ?thesis by (simp add: decode_index_page_def Let_def)
qed

lemma example_region_ok: "region_wf example_env example_region" "clean example_env example_region"
proof -
  note P = example_bytes_parts
  show "region_wf example_env example_region"
    using P empty_index_ok(1) [of example_bytes]
    by (simp add: region_wf_def Let_def example_region_def region_with_def reopened_def FILE_MAX_def example_uuid_def region_sizes)
  show "clean example_env example_region"
    using P(4) zeros_not_a_page by (simp add: clean_def example_region_def region_with_def reopened_def)
qed

lemma example_payload_length: "length (semantic_layout (snap_data sample_stored) []) \<noteq> 16380"
    "RECORD_HEADER_BYTES + length (semantic_layout (snap_data sample_stored) []) \<noteq> 16380"
    "length (semantic_layout (snap_data sample_stored) []) \<le> MAX_CHUNK_PAYLOAD_BYTES"
proof -
  have sized: "planes_sized (snap_data sample_stored)" by (simp add: sample_stored_def planes_sized_def ChunkData_empty_def)
  show "length (semantic_layout (snap_data sample_stored) []) \<noteq> 16380"
    "RECORD_HEADER_BYTES + length (semantic_layout (snap_data sample_stored) []) \<noteq> 16380"
    "length (semantic_layout (snap_data sample_stored) []) \<le> MAX_CHUNK_PAYLOAD_BYTES"
    using length_base_bytes [OF sized]
    by (simp_all add: semantic_layout_def extra_entry_bytes_def length_chest_bytes sample_stored_def SEMANTIC_PREFIX_BYTES_def
        BIOME_WORD_BYTES_def shape_numerals MAX_CHUNK_PAYLOAD_BYTES_def RECORD_HEADER_BYTES_def)
qed

lemma example_record:
  "\<exists>data. encode_chunk_record_with_policy example_env sample_stored PolicyZstd [] = Inr data \<and> crc32c example_env data = 0
     \<and> length data = RECORD_HEADER_BYTES + length (semantic_layout (snap_data sample_stored) [])"
proof -
  have c: "compress_payload example_env PolicyZstd (semantic_layout (snap_data sample_stored) []) =
      Inr (Zstd, semantic_layout (snap_data sample_stored) [])"
    by (simp add: compress_payload_def example_env_def sample_storage_def)
  show ?thesis
    unfolding encode_record_total [OF sample_stored_storable] c
    using example_payload_length by (simp add: example_env_def record_header_fields(1))
qed

lemma example_slot: "local_index example_coord (snap_position sample_stored) = Inr 227"
  by (simp add: local_index_def for_chunk_def sample_stored_def example_coord_def STORAGE_REGION_EDGE_def i32_div_euclid_def i32_rem_euclid_def)

lemma example_saved_index: "saved_index example_env PolicyZstd [sample_stored] example_region = example_index"
proof -
  obtain data where d: "encode_chunk_record_with_policy example_env sample_stored PolicyZstd [] = Inr data" "crc32c example_env data = 0"
    "length data = RECORD_HEADER_BYTES + length (semantic_layout (snap_data sample_stored) [])" using example_record by blast
  then show ?thesis
    using example_slot example_bytes_parts(1)
    by (simp add: saved_index_def encode_snapshot_def example_region_def region_with_def reopened_def next_index_def place_record_def
        example_index_def INDEX_ENTRY_COUNT_def sample_stored_def region_sizes)
qed

lemma example_snapshot_ok: "list_all snapshot_ok [sample_stored]"
  using sample_stored_storable by (simp add: storable_def snapshot_ok_def)

lemma example_accepted: "accepted example_env PolicyZstd [sample_stored] example_region"
proof -
  obtain data where "encode_chunk_record_with_policy example_env sample_stored PolicyZstd [] = Inr data" using example_record by blast
  then show ?thesis
    using example_slot example_bytes_parts(1)
    by (simp add: accepted_def example_region_def region_with_def reopened_def FILE_MAX_def region_sizes MAX_CHUNK_RECORD_BYTES_def MAX_CHUNK_PAYLOAD_BYTES_def
        RECORD_HEADER_BYTES_def)
qed

theorem save_chunks_atomic_witness:
  "\<exists>res R'. save_chunks example_env [sample_stored] PolicyZstd example_region = (Inr res, R') \<and> region_wf example_env R'
     \<and> abs_of example_env R' (ChunkCoord 3 (- 2)) = Some (snapshot_import sample_stored)"
proof -
  obtain r R' where run: "save_chunks example_env [sample_stored] PolicyZstd example_region = (r, R')" by fastforce
  from save_chunks_atomic [OF example_zstd example_region_ok(1) example_snapshot_ok _ run] example_accepted
  show ?thesis using run by (cases r) (auto simp: saved_map_def sample_stored_def)
qed

lemma slice_of_nth: "b \<le> length xs \<Longrightarrow> slice_of a b xs = map ((!) xs) [a..<b]"
  by (rule nth_equalityI) (simp_all add: slice_of_def)

lemma repeated_bytes: "to_le_bytes (0x01010101 :: u32) = [1, 1, 1, 1]" "to_le_bytes (0x02020202 :: u32) = [2, 2, 2, 2]"
  by code_simp+

lemma example_page:
  "take 16380 (encode_index_page example_env example_index example_coord) = example_prefix"
  "slice_of 16380 16384 (encode_index_page example_env example_index example_coord) = [1, 1, 1, 1]"
proof -
  have len: "length (entries example_index) = INDEX_ENTRY_COUNT" by (simp add: example_index_def)
  note ok = page_fields_ok [OF len, of example_coord]
  note F = sealed_fields [OF _ ok(2) _ encode_index_page_alt [unfolded Let_def], simplified, OF ok(1)]
  show pre: "take 16380 (encode_index_page example_env example_index example_coord) = example_prefix"
    using F(2) [of example_env] F(2) [of "sample_storage\<lparr>crc32c := \<lambda>_. 0\<rparr>"] by (simp add: example_prefix_def)
  have "length example_prefix = 16380"
    unfolding pre [symmetric] using F(1) [of example_env] by simp
  then have "crc32c example_env (take 16380 (encode_index_page example_env example_index example_coord)) = 0x01010101"
    unfolding pre by (simp add: example_env_def)
  then show "slice_of 16380 16384 (encode_index_page example_env example_index example_coord) = [1, 1, 1, 1]"
    using F(2,3) [of example_env] by (simp add: repeated_bytes)
qed

lemma example_tear:
  "tear_detected example_env example_coord (replicate INDEX_PAGE_BYTES 0) (encode_index_page example_env example_index example_coord)"
  unfolding tear_detected_def
proof (intro allI impI)
  let ?new = "encode_index_page example_env example_index example_coord"
  fix page
  assume len: "length page = INDEX_PAGE_BYTES" and mix: "\<forall>i<INDEX_PAGE_BYTES. page ! i = replicate INDEX_PAGE_BYTES 0 ! i \<or> page ! i = ?new ! i"
    and dec: "decode_index_page example_env page example_coord \<noteq> None"
  have nlen: "length ?new = INDEX_PAGE_BYTES" by (rule encode_index_page_fields(1) [OF _ refl]) (simp add: example_index_def)
  have tail: "slice_of 16380 16384 xs = [xs ! 16380, xs ! 16381, xs ! 16382, xs ! 16383]" if "length xs = INDEX_PAGE_BYTES" for xs :: bytes
    using that by (simp add: slice_of_nth INDEX_PAGE_BYTES_def upt_rec)
  have ones: "?new ! 16380 = 1" "?new ! 16381 = 1" "?new ! 16382 = 1" "?new ! 16383 = 1"
    using example_page(2) tail [OF nlen] by simp_all
  have bits: "page ! 16380 \<in> {0, 1}" "page ! 16381 \<in> {0, 1}" "page ! 16382 \<in> {0, 1}" "page ! 16383 \<in> {0, 1}"
    using mix [rule_format, of 16380] mix [rule_format, of 16381] mix [rule_format, of 16382] mix [rule_format, of 16383] ones
    by (auto simp: INDEX_PAGE_BYTES_def)
  have crc: "crc32c example_env (take 16380 page) = from_le_bytes [page ! 16380, page ! 16381, page ! 16382, page ! 16383]"
    using dec tail [OF len] by (auto simp: decode_index_page_def Let_def INDEX_PAGE_BYTES_def read_u32_def split: if_splits)
  have last: "to_le_bytes (crc32c example_env (take 16380 page)) = slice_of 16380 16384 page"
    unfolding crc tail [OF len] by (rule to_from_le_bytes) simp_all
  have pre: "take 16380 page = example_prefix"
  proof (rule ccontr)
    assume "take 16380 page \<noteq> example_prefix"
    then have "crc32c example_env (take 16380 page) = 0x02020202" using len by (simp add: example_env_def INDEX_PAGE_BYTES_def)
    then show False using last bits tail [OF len] by (auto simp: repeated_bytes)
  qed
  have "length example_prefix = 16380" unfolding pre [symmetric] using len by (simp add: INDEX_PAGE_BYTES_def)
  then have "crc32c example_env (take 16380 page) = 0x01010101" unfolding pre by (simp add: example_env_def)
  then have "drop 16380 page = drop 16380 ?new"
    using last example_page(2) len nlen by (simp add: repeated_bytes slice_of_def INDEX_PAGE_BYTES_def)
  then have "page = ?new" using pre example_page(1) append_take_drop_id by metis
  then show "page = replicate INDEX_PAGE_BYTES 0 \<or> page = ?new" ..
qed

lemma save_chunks_wf:
  assumes "zstd_law env" and wf: "region_wf env R" and snaps: "list_all snapshot_ok snaps" "snaps \<noteq> []"
    and run: "save_chunks env snaps policy R = (r, R')"
  shows "region_wf env R'"
  using save_chunks_left [OF assms refl refl] unpublished_region(1) [OF wf] torn_region(1) [OF wf] published_region_ok(1) [OF wf]
  by metis

theorem save_crash_atomic_witness:
  "case save_chunks example_env [sample_stored] PolicyZstd example_region of (r, R') \<Rightarrow>
     \<exists>R''. reopen example_env example_uuid example_coord (file_durable (rf_file R')) = Inr R'' \<and> region_wf example_env R''
       \<and> abs_of example_env R'' (ChunkCoord 3 (- 2)) = Some (snapshot_import sample_stored)"
proof -
  obtain r R' where run: "save_chunks example_env [sample_stored] PolicyZstd example_region = (r, R')" by fastforce
  have ok: "\<not> isl r"
    by (rule save_chunks_succeeds [OF example_zstd example_region_ok(1) example_snapshot_ok _ example_accepted run]) simp
  have "region_wf example_env R'" by (rule save_chunks_wf [OF example_zstd example_region_ok(1) example_snapshot_ok _ run]) simp
  then have crash: "crash_image (rf_file R') (file_durable (rf_file R'))"
    using region_wfD(3,5) by (fastforce simp: crash_image_def)
  have parts: "rf_coord example_region = example_coord" "rf_world_uuid example_region = example_uuid" "active_page example_region = 0"
    "file_bytes (rf_file example_region) = example_bytes"
    by (simp_all add: example_region_def region_with_def reopened_def)
  have "tear_detected example_env (rf_coord example_region) (page_of (1 - active_page example_region) (file_bytes (rf_file example_region)))
      (encode_index_page example_env (saved_index example_env PolicyZstd [sample_stored] example_region) (rf_coord example_region))"
    using example_tear unfolding parts example_saved_index by (simp only: diff_zero example_bytes_parts(4))
  from save_crash_atomic [OF example_zstd example_region_ok example_snapshot_ok _ run crash this] ok
  show ?thesis unfolding run parts prod.case by (auto simp: saved_map_def sample_stored_def)
qed

theorem compact_keeps_chunks_witness:
  "case save_chunks example_env [sample_stored] PolicyZstd example_region of (r1, R1) \<Rightarrow>
   case save_chunks example_env [sample_stored] PolicyZstd R1 of (r2, R2) \<Rightarrow>
   case compact example_env (\<lambda>k. if k = 0 then NameTaken else NewFile (reopened [])) True R2 of (r, R') \<Rightarrow>
     region_wf example_env R' \<and> abs_of example_env R' = abs_of example_env R2"
proof -
  obtain r1 R1 where run1: "save_chunks example_env [sample_stored] PolicyZstd example_region = (r1, R1)" by fastforce
  obtain r2 R2 where run2: "save_chunks example_env [sample_stored] PolicyZstd R1 = (r2, R2)" by fastforce
  have wf1: "region_wf example_env R1" by (rule save_chunks_wf [OF example_zstd example_region_ok(1) example_snapshot_ok _ run1]) simp
  have wf2: "region_wf example_env R2" by (rule save_chunks_wf [OF example_zstd wf1 example_snapshot_ok _ run2]) simp
  obtain r R' where run: "compact example_env (\<lambda>k. if k = 0 then NameTaken else NewFile (reopened [])) True R2 = (r, R')" by fastforce
  have "creates_empty (\<lambda>k. if k = 0 then NameTaken else NewFile (reopened []))" by (simp add: creates_empty_def reopened_def)
  from compact_keeps_chunks [OF wf2 this run] have "region_wf example_env R' \<and> abs_of example_env R' = abs_of example_env R2" by blast
  then show ?thesis by (simp add: run1 run2 run)
qed

end
