(* ===== verification/Metadata.thy ===== *)
theory Metadata
  imports RecordCodec
begin

text \<open>
  The world metadata file and the generator state file: \<open>native/storage/src/metadata.rs\<close>, \<open>metadata/codec.rs\<close>, \<open>metadata/io.rs\<close> and
  \<open>generator_state.rs\<close>.

  Both files are sealed byte arrays as in \<open>RecordCodec\<close>: fixed fields, a payload checksum and a checksum over the fields. A file is
  published as a whole under a temporary name and then linked or renamed to its place, so the place holds either no file or a complete
  one: the disk is the content found there, if any. The steps of publishing may fail, each on its own: \<open>publish_io\<close> says which succeed.
  The names of temporary files and their removal have no other effect.
\<close>

section \<open>metadata.rs\<close>

definition WORLD_METADATA_ENVELOPE_BYTES :: nat where "WORLD_METADATA_ENVELOPE_BYTES = 32"
definition LEGACY_WORLD_METADATA_PAYLOAD_VERSION :: u16 where "LEGACY_WORLD_METADATA_PAYLOAD_VERSION = 1"
definition WORLD_METADATA_PAYLOAD_VERSION :: u16 where "WORLD_METADATA_PAYLOAD_VERSION = 2"
definition MAX_WORLD_METADATA_PAYLOAD_BYTES :: nat where "MAX_WORLD_METADATA_PAYLOAD_BYTES = 1024 * 1024"
definition MAX_WORLD_NAME_BYTES :: nat where "MAX_WORLD_NAME_BYTES = 4096"
definition MAX_GENERATOR_SETTINGS_BYTES :: nat where "MAX_GENERATOR_SETTINGS_BYTES = 512 * 1024"
definition TARGET_VERSION_MAJOR :: u8 where "TARGET_VERSION_MAJOR = 0"
definition TARGET_VERSION_MINOR :: u8 where "TARGET_VERSION_MINOR = 15"
definition TARGET_VERSION_PATCH :: u8 where "TARGET_VERSION_PATCH = 10"
definition TARGET_GAME_PROTOCOL :: u32 where "TARGET_GAME_PROTOCOL = GAME_PROTOCOL"
definition TARGET_RAKNET_PROTOCOL :: u32 where "TARGET_RAKNET_PROTOCOL = 8"

record WorldMetadata =
  meta_generation :: u64
  meta_world_uuid :: bytes
  meta_name :: bytes
  meta_seed :: i64
  generator_id :: u32
  generator_settings_version :: u16
  generator_settings :: bytes
  meta_dimension :: DimensionId
  meta_spawn_x :: i32
  meta_spawn_y :: i32
  meta_spawn_z :: i32
  meta_time :: i64
  time_running :: bool

definition WorldMetadata_new :: "bytes \<Rightarrow> bytes \<Rightarrow> i64 \<Rightarrow> u32 \<Rightarrow> u16 \<Rightarrow> bytes \<Rightarrow> DimensionId \<Rightarrow> WorldMetadata" where
  "WorldMetadata_new uuid name world_seed i settings_version settings dim =
     \<lparr>meta_generation = 1, meta_world_uuid = uuid, meta_name = name, meta_seed = world_seed, generator_id = i,
      generator_settings_version = settings_version, generator_settings = settings, meta_dimension = dim,
      meta_spawn_x = 0, meta_spawn_y = 0, meta_spawn_z = 0, meta_time = 0, time_running = True\<rparr>"

definition validate_metadata :: "WorldMetadata \<Rightarrow> StorageError + unit" where
  "validate_metadata m =
     (if meta_name m = [] then Inl (InvalidWorldMetadata ''world name cannot be empty'')
      else if length (meta_name m) > MAX_WORLD_NAME_BYTES then Inl (WorldMetadataTooLarge (length (meta_name m)) MAX_WORLD_NAME_BYTES)
      else if length (generator_settings m) > MAX_GENERATOR_SETTINGS_BYTES
      then Inl (WorldMetadataTooLarge (length (generator_settings m)) MAX_GENERATOR_SETTINGS_BYTES)
      else if meta_generation m = 0 then Inl (InvalidWorldMetadata ''metadata generation cannot be zero'')
      else if \<not> (0 \<le> sint (meta_spawn_y m) \<and> sint (meta_spawn_y m) \<le> 127)
      then Inl (InvalidWorldMetadata ''spawn y is outside the fixed-target world height'')
      else Inr ())"

section \<open>metadata/codec.rs\<close>

definition WORLD_METADATA_MAGIC :: bytes where "WORLD_METADATA_MAGIC = [0x43, 0x42, 0x57, 0x4d]"
definition PAYLOAD_FIXED_BYTES :: nat where "PAYLOAD_FIXED_BYTES = 76"

definition put_i64 :: "nat \<Rightarrow> i64 \<Rightarrow> bytes \<Rightarrow> bytes" where "put_i64 k v xs = copy_at k (to_le_bytes v) xs"
definition read_i64 :: "bytes \<Rightarrow> nat \<Rightarrow> i64" where "read_i64 xs k = from_le_bytes (slice_of k (k + 8) xs)"

definition metadata_payload :: "WorldMetadata \<Rightarrow> nat \<Rightarrow> bytes" where
  "metadata_payload m payload_len =
     (let name = meta_name m; settings = generator_settings m;
          payload = replicate payload_len 0;
          payload = put_u16 0 WORLD_METADATA_PAYLOAD_VERSION payload;
          payload = payload[2 := TARGET_VERSION_MAJOR];
          payload = payload[3 := TARGET_VERSION_MINOR];
          payload = payload[4 := TARGET_VERSION_PATCH];
          payload = payload[5 := of_bool (time_running m)];
          payload = payload[6 := DimensionId_to_u8 (meta_dimension m)];
          payload = put_u32 8 TARGET_GAME_PROTOCOL payload;
          payload = put_u32 12 TARGET_RAKNET_PROTOCOL payload;
          payload = copy_at 16 (meta_world_uuid m) payload;
          payload = put_i64 32 (meta_seed m) payload;
          payload = put_u32 40 (generator_id m) payload;
          payload = put_u16 44 (generator_settings_version m) payload;
          payload = put_i32 48 (meta_spawn_x m) payload;
          payload = put_i32 52 (meta_spawn_y m) payload;
          payload = put_i32 56 (meta_spawn_z m) payload;
          payload = put_i64 60 (meta_time m) payload;
          payload = put_u32 68 (of_nat (length name)) payload;
          payload = put_u32 72 (of_nat (length settings)) payload;
          payload = copy_at PAYLOAD_FIXED_BYTES name payload
      in copy_at (PAYLOAD_FIXED_BYTES + length name) settings payload)"

definition metadata_envelope :: "storage_env \<Rightarrow> u64 \<Rightarrow> bytes \<Rightarrow> bytes" where
  "metadata_envelope env metadata_generation payload =
     (let envelope = replicate WORLD_METADATA_ENVELOPE_BYTES 0;
          envelope = copy_at 0 WORLD_METADATA_MAGIC envelope;
          envelope = put_u16 4 STORAGE_FORMAT_VERSION envelope;
          envelope = put_u16 6 (of_nat WORLD_METADATA_ENVELOPE_BYTES) envelope;
          envelope = put_u64 8 metadata_generation envelope;
          envelope = put_u32 16 (of_nat (length payload)) envelope;
          envelope = put_u32 20 (crc32c env payload) envelope
      in put_u32 24 (crc32c env (take 24 envelope)) envelope)"

definition encode_world_metadata :: "storage_env \<Rightarrow> WorldMetadata \<Rightarrow> StorageError + bytes" where
  "encode_world_metadata env m =
     rbind (validate_metadata m) (\<lambda>_.
     let name = meta_name m; settings = generator_settings m
     in rbind (ok_or (Option.bind (usize_checked_add PAYLOAD_FIXED_BYTES (length name)) (\<lambda>size. usize_checked_add size (length settings)))
                (WorldMetadataTooLarge usize_max MAX_WORLD_METADATA_PAYLOAD_BYTES)) (\<lambda>payload_len.
        rbind (ensure (\<not> payload_len > MAX_WORLD_METADATA_PAYLOAD_BYTES)
                 (WorldMetadataTooLarge payload_len MAX_WORLD_METADATA_PAYLOAD_BYTES)) (\<lambda>_.
        rbind (ensure (length name < 2 ^ 32) (WorldMetadataTooLarge (length name) (2 ^ 32 - 1))) (\<lambda>_.
        rbind (ensure (length settings < 2 ^ 32) (WorldMetadataTooLarge (length settings) (2 ^ 32 - 1))) (\<lambda>_.
        let payload = metadata_payload m payload_len
        in rbind (ensure (length payload < 2 ^ 32) (WorldMetadataTooLarge (length payload) (2 ^ 32 - 1))) (\<lambda>_.
           Inr (metadata_envelope env (meta_generation m) payload @ payload)))))))"

text \<open>The three parts of the decoder: the envelope, the dimension with its migration, the payload.\<close>

definition check_envelope :: "storage_env \<Rightarrow> bytes \<Rightarrow> StorageError + nat" where
  "check_envelope env envelope =
     (if slice_of 0 4 envelope \<noteq> WORLD_METADATA_MAGIC then Inl (InvalidWorldMetadata ''bad magic'')
      else if read_u16 envelope 4 \<noteq> STORAGE_FORMAT_VERSION then Inl (InvalidWorldMetadata ''unsupported storage format version'')
      else if unat (read_u16 envelope 6) \<noteq> WORLD_METADATA_ENVELOPE_BYTES then Inl (InvalidWorldMetadata ''bad metadata envelope length'')
      else if crc32c env (take 24 envelope) \<noteq> read_u32 envelope 24 then Inl (InvalidWorldMetadata ''metadata envelope checksum mismatch'')
      else if slice_of 28 32 envelope \<noteq> replicate 4 0 then Inl (InvalidWorldMetadata ''metadata envelope reserved bytes are nonzero'')
      else let payload_len = unat (read_u32 envelope 16)
           in if payload_len > MAX_WORLD_METADATA_PAYLOAD_BYTES
              then Inl (WorldMetadataTooLarge payload_len MAX_WORLD_METADATA_PAYLOAD_BYTES) else Inr payload_len)"

definition decode_dimension :: "bytes \<Rightarrow> StorageError + DimensionId" where
  "decode_dimension payload =
     (if read_u16 payload 0 = LEGACY_WORLD_METADATA_PAYLOAD_VERSION
      then if slice_of 6 8 payload \<noteq> replicate 2 0
           then Inl (InvalidWorldMetadata ''legacy metadata payload reserved bytes are nonzero'') else Inr Overworld
      else if payload ! 7 \<noteq> 0 then Inl (InvalidWorldMetadata ''metadata payload reserved byte is nonzero'')
      else map_err (\<lambda>_. InvalidWorldMetadata ''unsupported fixed-target dimension id'') (DimensionId_try_from (payload ! 6)))"

definition decode_metadata_payload :: "u64 \<Rightarrow> bytes \<Rightarrow> StorageError + WorldMetadata" where
  "decode_metadata_payload metadata_generation payload =
     (if length payload < PAYLOAD_FIXED_BYTES then Inl (InvalidWorldMetadata ''truncated semantic payload'')
      else if read_u16 payload 0 \<noteq> LEGACY_WORLD_METADATA_PAYLOAD_VERSION \<and> read_u16 payload 0 \<noteq> WORLD_METADATA_PAYLOAD_VERSION
      then Inl (InvalidWorldMetadata ''unsupported metadata payload version'')
      else if payload ! 2 \<noteq> TARGET_VERSION_MAJOR \<or> payload ! 3 \<noteq> TARGET_VERSION_MINOR \<or> payload ! 4 \<noteq> TARGET_VERSION_PATCH
              \<or> read_u32 payload 8 \<noteq> TARGET_GAME_PROTOCOL \<or> read_u32 payload 12 \<noteq> TARGET_RAKNET_PROTOCOL
      then Inl (InvalidWorldMetadata ''fixed-target marker mismatch'')
      else if payload ! 5 > 1 then Inl (InvalidWorldMetadata ''invalid time-running flag'')
      else rbind (decode_dimension payload) (\<lambda>dimension.
        if slice_of 46 48 payload \<noteq> replicate 2 0 then Inl (InvalidWorldMetadata ''metadata payload reserved bytes are nonzero'')
        else let name_len = unat (read_u32 payload 68); settings_len = unat (read_u32 payload 72)
          in rbind (ok_or (Option.bind (usize_checked_add PAYLOAD_FIXED_BYTES name_len) (\<lambda>size. usize_checked_add size settings_len))
                      (InvalidWorldMetadata ''metadata variable lengths overflow'')) (\<lambda>expected.
             if expected \<noteq> length payload then Inl (InvalidWorldMetadata ''metadata variable lengths mismatch'')
             else let name_end = PAYLOAD_FIXED_BYTES + name_len; name = slice_of PAYLOAD_FIXED_BYTES name_end payload
               in if \<not> valid_utf8 name then Inl (InvalidWorldMetadata ''world name is not UTF-8'')
                  else let m = \<lparr>meta_generation = metadata_generation, meta_world_uuid = slice_of 16 32 payload, meta_name = name,
                              meta_seed = read_i64 payload 32, generator_id = read_u32 payload 40,
                              generator_settings_version = read_u16 payload 44, generator_settings = drop name_end payload,
                              meta_dimension = dimension, meta_spawn_x = read_i32 payload 48, meta_spawn_y = read_i32 payload 52,
                              meta_spawn_z = read_i32 payload 56, meta_time = read_i64 payload 60, time_running = (payload ! 5 \<noteq> 0)\<rparr>
                    in map_ok (\<lambda>_. m) (validate_metadata m))))"

definition decode_world_metadata :: "storage_env \<Rightarrow> bytes \<Rightarrow> StorageError + WorldMetadata" where
  "decode_world_metadata env encoded =
     (if length encoded < WORLD_METADATA_ENVELOPE_BYTES then Inl (InvalidWorldMetadata ''truncated envelope'')
      else let envelope = take WORLD_METADATA_ENVELOPE_BYTES encoded; payload = drop WORLD_METADATA_ENVELOPE_BYTES encoded
        in rbind (check_envelope env envelope) (\<lambda>payload_len.
           if length encoded \<noteq> WORLD_METADATA_ENVELOPE_BYTES + payload_len then Inl (InvalidWorldMetadata ''metadata payload length mismatch'')
           else if crc32c env payload \<noteq> read_u32 envelope 20 then Inl (InvalidWorldMetadata ''metadata payload checksum mismatch'')
           else decode_metadata_payload (read_u64 envelope 8) payload))"

section \<open>metadata/io.rs and the world directory\<close>

record publish_io =
  temp_opened :: bool
  temp_written :: bool
  temp_synced :: bool
  temp_moved :: bool
  temp_removed :: bool
  directory_synced :: bool

type_synonym disk = "bytes option"

definition publish_metadata :: "storage_env \<Rightarrow> publish_io \<Rightarrow> WorldMetadata \<Rightarrow> bool \<Rightarrow> disk \<Rightarrow> (StorageError + unit) \<times> disk" where
  "publish_metadata env io m create_only destination =
     (case encode_world_metadata env m of
        Inl e \<Rightarrow> (Inl e, destination)
      | Inr encoded \<Rightarrow>
          if \<not> temp_opened io \<or> \<not> temp_written io \<or> \<not> temp_synced io then (Inl Io, destination)
          else if create_only
          then if destination \<noteq> None then (Inl WorldMetadataAlreadyExists, destination)
               else if \<not> temp_moved io then (Inl Io, destination)
               else if \<not> temp_removed io then (Inl Io, Some encoded)
               else (if directory_synced io then Inr () else Inl Io, Some encoded)
          else if \<not> temp_moved io then (Inl Io, destination)
          else (if directory_synced io then Inr () else Inl Io, Some encoded))"

definition read_metadata :: "storage_env \<Rightarrow> bool \<Rightarrow> disk \<Rightarrow> StorageError + WorldMetadata" where
  "read_metadata env read_ok destination =
     (case destination of
        None \<Rightarrow> Inl Io
      | Some content \<Rightarrow>
          if length content > WORLD_METADATA_ENVELOPE_BYTES + MAX_WORLD_METADATA_PAYLOAD_BYTES
          then Inl (WorldMetadataTooLarge (length content) (WORLD_METADATA_ENVELOPE_BYTES + MAX_WORLD_METADATA_PAYLOAD_BYTES))
          else if \<not> read_ok then Inl Io
          else decode_world_metadata env content)"

datatype WorldDirectory = WorldDirectory (directory_metadata: WorldMetadata)

definition WorldDirectory_create ::
  "storage_env \<Rightarrow> bool \<Rightarrow> publish_io \<Rightarrow> WorldMetadata \<Rightarrow> disk \<Rightarrow> (StorageError + WorldDirectory) \<times> disk" where
  "WorldDirectory_create env regions_created io m destination =
     (case validate_metadata m of
        Inl e \<Rightarrow> (Inl e, destination)
      | Inr _ \<Rightarrow>
          if meta_generation m \<noteq> 1 then (Inl (InvalidWorldMetadata ''new world metadata generation must be 1''), destination)
          else if \<not> regions_created then (Inl Io, destination)
          else if destination \<noteq> None then (Inl WorldMetadataAlreadyExists, destination)
          else case publish_metadata env io m True destination of (r, destination) \<Rightarrow> (map_ok (\<lambda>_. WorldDirectory m) r, destination))"

definition WorldDirectory_open :: "storage_env \<Rightarrow> bool \<Rightarrow> bool \<Rightarrow> disk \<Rightarrow> StorageError + WorldDirectory" where
  "WorldDirectory_open env read_ok regions_created destination =
     rbind (read_metadata env read_ok destination) (\<lambda>m.
     rbind (validate_metadata m) (\<lambda>_.
     if regions_created then Inr (WorldDirectory m) else Inl Io))"

definition replace_metadata ::
  "storage_env \<Rightarrow> publish_io \<Rightarrow> WorldMetadata \<Rightarrow> WorldDirectory \<Rightarrow> disk \<Rightarrow> (StorageError + WorldMetadata) \<times> WorldDirectory \<times> disk" where
  "replace_metadata env io m directory destination =
     (if meta_world_uuid m \<noteq> meta_world_uuid (directory_metadata directory) then (Inl WorldMismatch, directory, destination)
      else case checked_add (meta_generation (directory_metadata directory)) 1 of
        None \<Rightarrow> (Inl MetadataGenerationExhausted, directory, destination)
      | Some g \<Rightarrow>
          let m = m\<lparr>meta_generation := g\<rparr>
          in case validate_metadata m of
               Inl e \<Rightarrow> (Inl e, directory, destination)
             | Inr _ \<Rightarrow>
                 (case publish_metadata env io m False destination of
                    (Inl e, destination) \<Rightarrow> (Inl e, directory, destination)
                  | (Inr _, destination) \<Rightarrow> (Inr m, WorldDirectory m, destination)))"

section \<open>generator_state.rs\<close>

definition GENERATOR_STATE_VERSION :: u16 where "GENERATOR_STATE_VERSION = 1"
definition GENERATOR_STATE_HEADER_BYTES :: nat where "GENERATOR_STATE_HEADER_BYTES = 48"
definition MAX_GENERATOR_STATE_BYTES :: nat where "MAX_GENERATOR_STATE_BYTES = 64 * 1024 * 1024"
definition GENERATOR_STATE_MAGIC :: bytes where "GENERATOR_STATE_MAGIC = [0x43, 0x42, 0x47, 0x53]"

definition encode_generator_state :: "storage_env \<Rightarrow> bytes \<Rightarrow> u32 \<Rightarrow> bytes \<Rightarrow> StorageError + bytes" where
  "encode_generator_state env uuid gen_id payload =
     (if length payload \<ge> 2 ^ 32 then Inl (GeneratorStateTooLarge (length payload) MAX_GENERATOR_STATE_BYTES)
      else let out = replicate (GENERATOR_STATE_HEADER_BYTES + length payload) 0;
               out = copy_at 0 GENERATOR_STATE_MAGIC out;
               out = copy_at 4 (to_le_bytes GENERATOR_STATE_VERSION) out;
               out = copy_at 8 uuid out;
               out = copy_at 24 (to_le_bytes gen_id) out;
               out = copy_at 28 (to_le_bytes (of_nat (length payload) :: u32)) out;
               out = copy_at 32 (to_le_bytes (crc32c env payload)) out;
               out = copy_at 36 (to_le_bytes (crc32c env (take 36 out))) out
           in Inr (copy_at GENERATOR_STATE_HEADER_BYTES payload out))"

definition decode_generator_state :: "storage_env \<Rightarrow> bytes \<Rightarrow> bytes \<Rightarrow> u32 \<Rightarrow> StorageError + bytes" where
  "decode_generator_state env encoded uuid gen_id =
     (if length encoded < GENERATOR_STATE_HEADER_BYTES then Inl (InvalidGeneratorState ''truncated header'')
      else if slice_of 0 4 encoded \<noteq> GENERATOR_STATE_MAGIC then Inl (InvalidGeneratorState ''bad magic'')
      else if read_u16 encoded 4 \<noteq> GENERATOR_STATE_VERSION then Inl (InvalidGeneratorState ''unsupported version'')
      else if slice_of 6 8 encoded \<noteq> replicate 2 0 \<or> slice_of 40 48 encoded \<noteq> replicate 8 0
      then Inl (InvalidGeneratorState ''reserved bytes are nonzero'')
      else if crc32c env (take 36 encoded) \<noteq> read_u32 encoded 36 then Inl (InvalidGeneratorState ''header checksum mismatch'')
      else if slice_of 8 24 encoded \<noteq> uuid then Inl WorldMismatch
      else if read_u32 encoded 24 \<noteq> gen_id then Inl (GeneratorStateGeneratorMismatch gen_id (read_u32 encoded 24))
      else let payload_len = unat (read_u32 encoded 28)
        in if payload_len > MAX_GENERATOR_STATE_BYTES then Inl (GeneratorStateTooLarge payload_len MAX_GENERATOR_STATE_BYTES)
           else rbind (ok_or (usize_checked_add GENERATOR_STATE_HEADER_BYTES payload_len) (InvalidGeneratorState ''length overflow'')) (\<lambda>expected.
             if length encoded \<noteq> expected then Inl (InvalidGeneratorState ''payload length mismatch'')
             else let payload = drop GENERATOR_STATE_HEADER_BYTES encoded
               in if crc32c env payload \<noteq> read_u32 encoded 32 then Inl (InvalidGeneratorState ''payload checksum mismatch'')
                  else Inr payload))"

definition write_generator_state :: "storage_env \<Rightarrow> publish_io \<Rightarrow> bytes \<Rightarrow> u32 \<Rightarrow> bytes \<Rightarrow> disk \<Rightarrow> (StorageError + unit) \<times> disk" where
  "write_generator_state env io uuid gen_id payload destination =
     (if length payload > MAX_GENERATOR_STATE_BYTES
      then (Inl (GeneratorStateTooLarge (length payload) MAX_GENERATOR_STATE_BYTES), destination)
      else case encode_generator_state env uuid gen_id payload of
        Inl e \<Rightarrow> (Inl e, destination)
      | Inr encoded \<Rightarrow>
          if \<not> temp_opened io \<or> \<not> temp_written io \<or> \<not> temp_synced io \<or> \<not> temp_moved io then (Inl Io, destination)
          else (if directory_synced io then Inr () else Inl Io, Some encoded))"

definition read_generator_state :: "storage_env \<Rightarrow> bool \<Rightarrow> bytes \<Rightarrow> u32 \<Rightarrow> disk \<Rightarrow> StorageError + bytes option" where
  "read_generator_state env read_ok uuid gen_id destination =
     (case destination of
        None \<Rightarrow> Inr None
      | Some content \<Rightarrow>
          if length content > GENERATOR_STATE_HEADER_BYTES + MAX_GENERATOR_STATE_BYTES
          then Inl (GeneratorStateTooLarge (length content) (GENERATOR_STATE_HEADER_BYTES + MAX_GENERATOR_STATE_BYTES))
          else if \<not> read_ok then Inl Io
          else map_ok Some (decode_generator_state env content uuid gen_id))"

section \<open>Reading back the metadata\<close>

text \<open>What the types of the source guarantee: sixteen identity bytes, and a name that is a string.\<close>

definition metadata_typed :: "WorldMetadata \<Rightarrow> bool" where
  "metadata_typed m \<longleftrightarrow> length (meta_world_uuid m) = 16 \<and> valid_utf8 (meta_name m)"

definition payload_fields :: "WorldMetadata \<Rightarrow> (nat \<times> bytes) list" where
  "payload_fields m =
     [(0, to_le_bytes WORLD_METADATA_PAYLOAD_VERSION), (2, [TARGET_VERSION_MAJOR]), (3, [TARGET_VERSION_MINOR]), (4, [TARGET_VERSION_PATCH]),
      (5, [of_bool (time_running m)]), (6, [DimensionId_to_u8 (meta_dimension m)]), (8, to_le_bytes TARGET_GAME_PROTOCOL),
      (12, to_le_bytes TARGET_RAKNET_PROTOCOL), (16, meta_world_uuid m), (32, to_le_bytes (meta_seed m)), (40, to_le_bytes (generator_id m)),
      (44, to_le_bytes (generator_settings_version m)), (48, to_le_bytes (meta_spawn_x m)), (52, to_le_bytes (meta_spawn_y m)),
      (56, to_le_bytes (meta_spawn_z m)), (60, to_le_bytes (meta_time m)), (68, to_le_bytes (of_nat (length (meta_name m)) :: u32)),
      (72, to_le_bytes (of_nat (length (generator_settings m)) :: u32)), (76, meta_name m), (76 + length (meta_name m), generator_settings m)]"

definition payload_size :: "WorldMetadata \<Rightarrow> nat" where
  "payload_size m = 76 + length (meta_name m) + length (generator_settings m)"

lemma payload_fields_ok: "metadata_typed m \<Longrightarrow> fields_ok (payload_size m) (payload_fields m)"
  by (simp add: fields_ok_def payload_fields_def payload_size_def metadata_typed_def)

lemma metadata_payload_alt:
  assumes "metadata_typed m"
  shows "metadata_payload m (payload_size m) = write_fields (payload_fields m) (replicate (payload_size m) 0)"
proof -
  define L where "L = payload_size m"
  have L: "76 \<le> L" by (simp add: L_def payload_size_def)
  have len: "length (copy_at k bs xs) = L" if "length xs = L" "k + length bs \<le> 76" for k bs xs
    using that L by (simp add: length_copy_at)
  show ?thesis
    unfolding metadata_payload_def payload_fields_def write_fields_def Let_def put_defs put_i64_def PAYLOAD_FIXED_BYTES_def L_def [symmetric]
    using assms L by (simp add: list_update_copy_at len metadata_typed_def)
qed

lemma metadata_payload_fields:
  assumes "metadata_typed m" and p: "p = metadata_payload m (payload_size m)"
  shows "length p = payload_size m"
    and "(k, bs) \<in> set (payload_fields m) \<Longrightarrow> stop = k + length bs \<Longrightarrow> slice_of k stop p = bs"
    and "(k, [b]) \<in> set (payload_fields m) \<Longrightarrow> p ! k = b"
    and "slice_of 46 48 p = replicate 2 0" and "p ! 7 = 0"
proof -
  note ok = payload_fields_ok [OF assms(1)]
  have alt: "p = write_fields (payload_fields m) (replicate (payload_size m) 0)" using p metadata_payload_alt [OF assms(1)] by simp
  show len: "length p = payload_size m" unfolding alt using ok by (simp add: length_write_fields)
  show fields: "\<And>k bs stop. (k, bs) \<in> set (payload_fields m) \<Longrightarrow> stop = k + length bs \<Longrightarrow> slice_of k stop p = bs"
    unfolding alt using ok by (intro slice_write_fields) simp_all
  show "p ! k = b" if "(k, [b]) \<in> set (payload_fields m)"
  proof -
    have "k < length p" using that ok by (auto simp: fields_ok_def list_all_iff len)
    then show ?thesis using fields [OF that] nth_slice_of [of k p] by simp
  qed
  have hole: "slice_of start stop p = slice_of start stop (replicate (payload_size m) 0)"
    if "list_all (\<lambda>(k, bs). stop \<le> k \<or> k + length bs \<le> start) (payload_fields m)" for start stop
    unfolding alt using ok that by (intro slice_write_fields_other) simp_all
  have u: "length (meta_world_uuid m) = 16" using assms(1) by (simp add: metadata_typed_def)
  have "slice_of 46 48 p = slice_of 46 48 (replicate (payload_size m) 0)" using u by (intro hole) (simp add: payload_fields_def)
  then show "slice_of 46 48 p = replicate 2 0" by (simp add: slice_of_def payload_size_def numeral_eq_Suc)
  have "slice_of 7 8 p = slice_of 7 8 (replicate (payload_size m) 0)" using u by (intro hole) (simp add: payload_fields_def)
  then have "slice_of 7 (7 + 1) p = [0]" by (simp add: slice_of_def payload_size_def numeral_eq_Suc)
  then show "p ! 7 = 0" using nth_slice_of [of 7 p] len by (simp add: payload_size_def)
qed

definition envelope_fields :: "storage_env \<Rightarrow> u64 \<Rightarrow> bytes \<Rightarrow> (nat \<times> bytes) list" where
  "envelope_fields env g payload =
     [(0, WORLD_METADATA_MAGIC), (4, to_le_bytes STORAGE_FORMAT_VERSION), (6, to_le_bytes (of_nat WORLD_METADATA_ENVELOPE_BYTES :: u16)),
      (8, to_le_bytes g), (16, to_le_bytes (of_nat (length payload) :: u32)), (20, to_le_bytes (crc32c env payload))]"

lemma envelope_fields_ok:
  "fields_ok 32 (envelope_fields env g p)" "list_all (\<lambda>(k, bs). k + length bs \<le> 24) (envelope_fields env g p)"
  by (simp_all add: fields_ok_def envelope_fields_def WORLD_METADATA_MAGIC_def)

lemma metadata_envelope_accepted:
  assumes "length p \<le> MAX_WORLD_METADATA_PAYLOAD_BYTES"
  shows "length (metadata_envelope env g p) = 32" "check_envelope env (metadata_envelope env g p) = Inr (length p)"
    "read_u32 (metadata_envelope env g p) 20 = crc32c env p" "read_u64 (metadata_envelope env g p) 8 = g"
proof -
  let ?fs = "envelope_fields env g p"
  define h where "h = metadata_envelope env g p"
  note ok = envelope_fields_ok [of env g p]
  have len: "length (copy_at k bs xs) = 32" if "length xs = 32" "k + length bs \<le> 32" for k bs xs
    using that by (simp add: length_copy_at)
  have h: "h = put_u32 24 (crc32c env (take 24 (write_fields ?fs (replicate 32 0)))) (write_fields ?fs (replicate 32 0))"
    unfolding h_def metadata_envelope_def envelope_fields_def write_fields_def Let_def put_defs WORLD_METADATA_ENVELOPE_BYTES_def
    by (simp add: WORLD_METADATA_MAGIC_def)
  note F = sealed_fields [OF _ ok(2) _ h, simplified, OF ok(1)]
  have slices: "slice_of 4 6 h = to_le_bytes STORAGE_FORMAT_VERSION" "slice_of 6 8 h = to_le_bytes (of_nat WORLD_METADATA_ENVELOPE_BYTES :: u16)"
      "slice_of 8 16 h = to_le_bytes g" "slice_of 16 20 h = to_le_bytes (of_nat (length p) :: u32)" "slice_of 20 24 h = to_le_bytes (crc32c env p)"
    by (rule F(4); simp add: envelope_fields_def)+
  have magic: "slice_of 0 4 h = WORLD_METADATA_MAGIC" by (rule F(4)) (simp_all add: envelope_fields_def WORLD_METADATA_MAGIC_def)
  have "slice_of 28 32 h = slice_of 28 32 (write_fields ?fs (replicate 32 0))"
    unfolding h put_u32_def using length_write_fields [of "replicate 32 0" ?fs] ok(1) by (intro slice_copy_other) simp_all
  also have "\<dots> = slice_of 28 32 (replicate 32 0)"
    using ok(1) by (intro slice_write_fields_other) (simp_all add: envelope_fields_def WORLD_METADATA_MAGIC_def)
  finally have zero: "slice_of 28 32 h = replicate 4 0" by (simp add: slice_of_def)
  have small: "unat (of_nat (length p) :: u32) = length p"
    using assms by (simp add: MAX_WORLD_METADATA_PAYLOAD_BYTES_def unat_of_nat)
  show "length (metadata_envelope env g p) = 32" using F(1) by (simp add: h_def [symmetric])
  show "read_u32 (metadata_envelope env g p) 20 = crc32c env p" "read_u64 (metadata_envelope env g p) 8 = g"
    by (simp_all add: h_def [symmetric] read_defs slices)
  have "read_u32 h 24 = crc32c env (take 24 h)" using F(2,3) by (simp add: read_u32_def)
  then show "check_envelope env (metadata_envelope env g p) = Inr (length p)"
    unfolding h_def [symmetric] check_envelope_def Let_def
    using assms by (simp add: read_u16_def read_u32_def [of h 16] slices magic zero small WORLD_METADATA_ENVELOPE_BYTES_def)
qed

lemma encode_world_metadata_eq:
  assumes "validate_metadata m = Inr ()" and "metadata_typed m"
  shows "encode_world_metadata env m =
      Inr (metadata_envelope env (meta_generation m) (metadata_payload m (payload_size m)) @ metadata_payload m (payload_size m))"
    and "payload_size m \<le> MAX_WORLD_METADATA_PAYLOAD_BYTES"
proof -
  have n: "length (meta_name m) \<le> 4096" and s: "length (generator_settings m) \<le> 524288"
    using assms(1) by (auto simp: validate_metadata_def MAX_WORLD_NAME_BYTES_def MAX_GENERATOR_SETTINGS_BYTES_def split: if_splits)
  then show size: "payload_size m \<le> MAX_WORLD_METADATA_PAYLOAD_BYTES" by (simp add: payload_size_def MAX_WORLD_METADATA_PAYLOAD_BYTES_def)
  have total: "Option.bind (usize_checked_add PAYLOAD_FIXED_BYTES (length (meta_name m))) (\<lambda>size. usize_checked_add size (length (generator_settings m)))
      = Some (payload_size m)"
    using n s by (simp add: usize_checked_add_def PAYLOAD_FIXED_BYTES_def payload_size_def usize_max_def)
  have "length (metadata_payload m (payload_size m)) = payload_size m" using metadata_payload_fields(1) [OF assms(2) refl] .
  then show "encode_world_metadata env m =
      Inr (metadata_envelope env (meta_generation m) (metadata_payload m (payload_size m)) @ metadata_payload m (payload_size m))"
    unfolding encode_world_metadata_def assms(1) total Let_def rbind_simps ok_or_simps
    using size n s by (simp add: ensure_def MAX_WORLD_METADATA_PAYLOAD_BYTES_def)
qed

lemma decode_metadata_payload_encoded:
  assumes valid: "validate_metadata m = Inr ()" and typed: "metadata_typed m"
  shows "decode_metadata_payload (meta_generation m) (metadata_payload m (payload_size m)) = Inr m"
proof -
  define p where "p = metadata_payload m (payload_size m)"
  note F = metadata_payload_fields [OF typed p_def]
  note size = encode_world_metadata_eq(2) [OF valid typed]
  have u: "length (meta_world_uuid m) = 16" and utf8: "valid_utf8 (meta_name m)" using typed by (simp_all add: metadata_typed_def)
  have n: "length (meta_name m) < 2 ^ 32" and s: "length (generator_settings m) < 2 ^ 32"
    using size by (simp_all add: payload_size_def MAX_WORLD_METADATA_PAYLOAD_BYTES_def)
  have slices: "slice_of 0 2 p = to_le_bytes WORLD_METADATA_PAYLOAD_VERSION" "slice_of 8 12 p = to_le_bytes TARGET_GAME_PROTOCOL"
      "slice_of 12 16 p = to_le_bytes TARGET_RAKNET_PROTOCOL" "slice_of 32 40 p = to_le_bytes (meta_seed m)"
      "slice_of 40 44 p = to_le_bytes (generator_id m)" "slice_of 44 46 p = to_le_bytes (generator_settings_version m)"
      "slice_of 48 52 p = to_le_bytes (meta_spawn_x m)" "slice_of 52 56 p = to_le_bytes (meta_spawn_y m)"
      "slice_of 56 60 p = to_le_bytes (meta_spawn_z m)" "slice_of 60 68 p = to_le_bytes (meta_time m)"
      "slice_of 68 72 p = to_le_bytes (of_nat (length (meta_name m)) :: u32)"
      "slice_of 72 76 p = to_le_bytes (of_nat (length (generator_settings m)) :: u32)"
    by (rule F(2); simp add: payload_fields_def)+
  have uuid: "slice_of 16 32 p = meta_world_uuid m" by (rule F(2)) (simp_all add: payload_fields_def u)
  have name: "slice_of 76 (76 + length (meta_name m)) p = meta_name m" by (rule F(2)) (simp_all add: payload_fields_def)
  have "slice_of (76 + length (meta_name m)) (payload_size m) p = generator_settings m"
    by (rule F(2)) (simp_all add: payload_fields_def payload_size_def)
  then have settings: "drop (76 + length (meta_name m)) p = generator_settings m" using F(1) by (simp add: slice_of_def)
  have at: "p ! 2 = TARGET_VERSION_MAJOR" "p ! 3 = TARGET_VERSION_MINOR" "p ! 4 = TARGET_VERSION_PATCH" "p ! 5 = of_bool (time_running m)"
      "p ! 6 = DimensionId_to_u8 (meta_dimension m)"
    by (rule F(3); simp add: payload_fields_def)+
  have "slice_of 0 (0 + 2) p = to_le_bytes WORLD_METADATA_PAYLOAD_VERSION" using slices(1) by (simp only: add_0)
  then have version: "read_u16 p 0 = WORLD_METADATA_PAYLOAD_VERSION" by (simp only: read_u16_def) simp
  have dim: "decode_dimension p = Inr (meta_dimension m)"
    unfolding decode_dimension_def version using F(5)
    by (cases "meta_dimension m") (simp_all add: at WORLD_METADATA_PAYLOAD_VERSION_def
        LEGACY_WORLD_METADATA_PAYLOAD_VERSION_def DimensionId_try_from_def)
  have lens: "unat (read_u32 p 68) = length (meta_name m)" "unat (read_u32 p 72) = length (generator_settings m)"
    using n s by (simp_all add: read_u32_def slices unat_of_nat)
  have total: "Option.bind (usize_checked_add PAYLOAD_FIXED_BYTES (length (meta_name m))) (\<lambda>size. usize_checked_add size (length (generator_settings m)))
      = Some (payload_size m)"
    using size by (simp add: usize_checked_add_def PAYLOAD_FIXED_BYTES_def payload_size_def usize_max_def MAX_WORLD_METADATA_PAYLOAD_BYTES_def)
  have run: "\<not> (of_bool (time_running m) :: u8) > 1" "(of_bool (time_running m) \<noteq> (0 :: u8)) = time_running m" by (cases "time_running m"; simp)+
  have built: "\<lparr>meta_generation = meta_generation m, meta_world_uuid = meta_world_uuid m, meta_name = meta_name m, meta_seed = meta_seed m,
      generator_id = generator_id m, generator_settings_version = generator_settings_version m, generator_settings = generator_settings m,
      meta_dimension = meta_dimension m, meta_spawn_x = meta_spawn_x m, meta_spawn_y = meta_spawn_y m, meta_spawn_z = meta_spawn_z m,
      meta_time = meta_time m, time_running = time_running m\<rparr> = m" by simp
  have reads: "read_u32 p 8 = TARGET_GAME_PROTOCOL" "read_u32 p 12 = TARGET_RAKNET_PROTOCOL"
      "read_i64 p 32 = meta_seed m" "read_u32 p 40 = generator_id m" "read_u16 p 44 = generator_settings_version m"
      "read_i32 p 48 = meta_spawn_x m" "read_i32 p 52 = meta_spawn_y m" "read_i32 p 56 = meta_spawn_z m" "read_i64 p 60 = meta_time m"
    by (simp_all add: read_defs read_i64_def slices)
  have fixed: "slice_of PAYLOAD_FIXED_BYTES (PAYLOAD_FIXED_BYTES + length (meta_name m)) p = meta_name m"
      "drop (PAYLOAD_FIXED_BYTES + length (meta_name m)) p = generator_settings m" "\<not> length p < PAYLOAD_FIXED_BYTES"
    using name settings F(1) by (simp_all add: PAYLOAD_FIXED_BYTES_def payload_size_def)
  show ?thesis
    unfolding p_def [symmetric] decode_metadata_payload_def Let_def dim lens version reads at uuid F(4) fixed
    using F(1) utf8 run(1) total fixed(3) by (simp add: valid built)
qed

lemma metadata_roundtrip:
  assumes valid: "validate_metadata m = Inr ()" and typed: "metadata_typed m"
  obtains e where "encode_world_metadata env m = Inr e" "decode_world_metadata env e = Inr m" "read_metadata env True (Some e) = Inr m"
proof -
  define p where "p = metadata_payload m (payload_size m)"
  have len: "length p = payload_size m" using metadata_payload_fields(1) [OF typed p_def] .
  have max: "length p \<le> MAX_WORLD_METADATA_PAYLOAD_BYTES" using encode_world_metadata_eq(2) [OF valid typed] len by simp
  note E = metadata_envelope_accepted [OF max]
  define e where "e = metadata_envelope env (meta_generation m) p @ p"
  have enc: "encode_world_metadata env m = Inr e" using encode_world_metadata_eq(1) [OF valid typed] by (simp add: e_def p_def)
  have parts: "take 32 e = metadata_envelope env (meta_generation m) p" "drop 32 e = p" "length e = 32 + length p" by (simp_all add: e_def E(1))
  have dec: "decode_world_metadata env e = Inr m"
    unfolding decode_world_metadata_def Let_def WORLD_METADATA_ENVELOPE_BYTES_def parts E(2-4) rbind_simps
    using decode_metadata_payload_encoded [OF valid typed] by (simp add: p_def)
  have "read_metadata env True (Some e) = Inr m"
    using dec max parts(3) by (simp add: read_metadata_def WORLD_METADATA_ENVELOPE_BYTES_def)
  with enc dec show thesis by (rule that)
qed

lemma encode_valid: "encode_world_metadata env m = Inr e \<Longrightarrow> validate_metadata m = Inr ()"
  by (auto simp: encode_world_metadata_def rbind_Inr_iff)

section \<open>Reading back the generator state\<close>

lemma generator_state_roundtrip:
  assumes u: "length uuid = 16" and size: "length payload \<le> MAX_GENERATOR_STATE_BYTES"
  obtains e where "encode_generator_state env uuid gen_id payload = Inr e" "decode_generator_state env e uuid gen_id = Inr payload"
    "decode_generator_state env e uuid' gen_id' = (if uuid' \<noteq> uuid then Inl WorldMismatch
       else if gen_id' \<noteq> gen_id then Inl (GeneratorStateGeneratorMismatch gen_id' gen_id) else Inr payload)"
proof -
  define L where "L = 48 + length payload"
  define fs :: "(nat \<times> bytes) list" where "fs = [(0, GENERATOR_STATE_MAGIC), (4, to_le_bytes GENERATOR_STATE_VERSION), (8, uuid), (24, to_le_bytes gen_id),
    (28, to_le_bytes (of_nat (length payload) :: u32)), (32, to_le_bytes (crc32c env payload))]"
  define h where "h = write_fields fs (replicate L 0)"
  define t where "t = put_u32 36 (crc32c env (take 36 h)) h"
  define e where "e = copy_at 48 payload t"
  note ds = fs_def GENERATOR_STATE_MAGIC_def
  have ok: "fields_ok (length (replicate L (0 :: u8))) fs" "list_all (\<lambda>(k, bs). k + length bs \<le> 36) fs" using u by (simp_all add: fields_ok_def ds L_def)
  have lh: "length h = L" unfolding h_def using length_write_fields [OF ok(1)] by simp
  note F = sealed_fields [OF ok _ t_def [unfolded h_def], simplified]
  have lt: "length t = L" using F(1) by (simp add: L_def)
  have le: "length e = L" "take 48 e = take 48 t" "drop 48 e = payload" using lt by (simp_all add: e_def copy_at_def L_def)
  have low: "slice_of a b e = slice_of a b t" if "b \<le> 48" for a b unfolding e_def using that lt by (intro slice_copy_other) (simp_all add: L_def)
  have slices: "slice_of 4 6 e = to_le_bytes GENERATOR_STATE_VERSION" "slice_of 24 28 e = to_le_bytes gen_id"
      "slice_of 28 32 e = to_le_bytes (of_nat (length payload) :: u32)" "slice_of 32 36 e = to_le_bytes (crc32c env payload)"
    by (subst low, simp, rule F(4); simp add: fs_def L_def)+
  have special: "slice_of 8 24 e = uuid" "slice_of 0 4 e = GENERATOR_STATE_MAGIC"
    by (subst low, simp, rule F(4); simp add: ds L_def u)+
  have hole: "slice_of a b e = slice_of a b (replicate L 0)"
    if "b \<le> 48" "list_all (\<lambda>(k, bs). b \<le> k \<or> k + length bs \<le> a) fs" "b \<le> 36 \<or> 40 \<le> a" for a b
  proof -
    have "slice_of a b t = slice_of a b h" unfolding t_def put_u32_def using that(3) lh by (intro slice_copy_other) (simp_all add: L_def)
    also have "\<dots> = slice_of a b (replicate L 0)" unfolding h_def using ok(1) that(2) by (rule slice_write_fields_other)
    finally show ?thesis using low [OF that(1)] by simp
  qed
  have zeros: "slice_of 6 8 e = replicate 2 0" "slice_of 40 48 e = replicate 8 0"
    by (subst hole; simp add: ds u slice_of_def L_def)+
  have "take 36 (take 48 e) = take 36 (take 48 t)" by (simp only: le(2))
  then have "take 36 e = take 36 t" by simp
  then have crc: "crc32c env (take 36 e) = read_u32 e 36" using F(2,3) low [of 40 36] by (simp add: read_u32_def h_def L_def)
  have n: "unat (of_nat (length payload) :: u32) = length payload" using size by (simp add: MAX_GENERATOR_STATE_BYTES_def unat_of_nat)
  have reads: "read_u16 e 4 = GENERATOR_STATE_VERSION" "read_u32 e 24 = gen_id" "unat (read_u32 e 28) = length payload" "read_u32 e 32 = crc32c env payload"
    using n by (simp_all add: read_defs slices)
  have dec: "decode_generator_state env e uuid' gen_id' = (if uuid' \<noteq> uuid then Inl WorldMismatch
       else if gen_id' \<noteq> gen_id then Inl (GeneratorStateGeneratorMismatch gen_id' gen_id) else Inr payload)" for uuid' gen_id'
    unfolding decode_generator_state_def Let_def GENERATOR_STATE_HEADER_BYTES_def special zeros reads crc le
    using size by (simp add: L_def usize_checked_add_def usize_max_def MAX_GENERATOR_STATE_BYTES_def)
  have "encode_generator_state env uuid gen_id payload = Inr e"
    using size unfolding encode_generator_state_def Let_def GENERATOR_STATE_HEADER_BYTES_def L_def [symmetric]
    by (simp add: e_def t_def h_def fs_def write_fields_def put_u32_def MAX_GENERATOR_STATE_BYTES_def)
  then show thesis by (rule that) (simp_all only: dec, simp)
qed

section \<open>Replacing the metadata\<close>

text \<open>The file holds the metadata of the open directory.\<close>

definition published :: "storage_env \<Rightarrow> WorldMetadata \<Rightarrow> disk \<Rightarrow> bool" where
  "published env m destination \<longleftrightarrow> metadata_typed m \<and> (\<exists>e. encode_world_metadata env m = Inr e \<and> destination = Some e)"

lemma published_open:
  assumes "published env m destination"
  shows "WorldDirectory_open env True True destination = Inr (WorldDirectory m)"
proof -
  obtain e where e: "metadata_typed m" "encode_world_metadata env m = Inr e" "destination = Some e"
    using assms by (auto simp: published_def)
  have valid: "validate_metadata m = Inr ()" by (rule encode_valid [OF e(2)])
  then obtain e' where "encode_world_metadata env m = Inr e'" "read_metadata env True (Some e') = Inr m"
    using metadata_roundtrip [OF _ e(1)] by blast
  then show ?thesis using e valid by (simp add: WorldDirectory_open_def)
qed

text \<open>
  C16: Replacing the world metadata is atomic. Whichever steps of publishing fail, the file can be opened again afterwards. On success
  the directory and the reopened file hold the new metadata, under the same identity and the next generation. On failure the
  directory in memory is as it was, and the reopened file holds the old metadata, or the new one when only the sync of the
  directory entry failed after the rename.
\<close>

theorem replace_metadata_atomic:
  assumes "published env (directory_metadata directory) destination" and "metadata_typed m"
  shows "case replace_metadata env io m directory destination of
      (Inr m', directory', destination') \<Rightarrow>
        m' = m\<lparr>meta_generation := meta_generation (directory_metadata directory) + 1\<rparr>
        \<and> unat (meta_generation m') = unat (meta_generation (directory_metadata directory)) + 1
        \<and> meta_world_uuid m' = meta_world_uuid (directory_metadata directory)
        \<and> directory' = WorldDirectory m' \<and> WorldDirectory_open env True True destination' = Inr directory'
    | (Inl e, directory', destination') \<Rightarrow>
        directory' = directory
        \<and> (WorldDirectory_open env True True destination' = Inr directory
           \<or> (e = Io \<and> temp_moved io \<and> \<not> directory_synced io \<and> WorldDirectory_open env True True destination'
                = Inr (WorldDirectory (m\<lparr>meta_generation := meta_generation (directory_metadata directory) + 1\<rparr>))))"
proof -
  let ?g = "meta_generation (directory_metadata directory)"
  let ?m = "m\<lparr>meta_generation := ?g + 1\<rparr>"
  have old: "WorldDirectory_open env True True destination = Inr directory"
    using published_open [OF assms(1)] by simp
  show ?thesis
  proof (cases "meta_world_uuid m = meta_world_uuid (directory_metadata directory) \<and> checked_add ?g 1 \<noteq> None \<and> validate_metadata ?m = Inr ()")
    case False
    then show ?thesis using old
      by (auto simp: replace_metadata_def Let_def checked_add_Some_iff split: option.splits sum.splits)
  next
    case True
    then have g: "checked_add ?g 1 = Some (?g + 1)" by (auto simp: checked_add_Some_iff)
    have typed: "metadata_typed ?m" using assms(2) by (simp add: metadata_typed_def)
    then obtain e where e: "encode_world_metadata env ?m = Inr e" using metadata_roundtrip True by blast
    have new: "WorldDirectory_open env True True (Some e) = Inr (WorldDirectory ?m)"
      using typed e by (intro published_open) (simp add: published_def)
    have next_g: "unat (?g + 1) = unat ?g + 1" using checked_add_unat [OF g] by simp
    show ?thesis using True g e old new next_g by (simp add: replace_metadata_def publish_metadata_def Let_def)
  qed
qed

definition sample_metadata :: WorldMetadata where
  "sample_metadata = WorldMetadata_new (replicate 16 0x44) [0x77, 0x6f, 0x72, 0x6c, 0x64] (- 123456789) 2 1 [0x32, 0x3b] Nether"

theorem replace_metadata_atomic_witness:
  "\<exists>e. WorldDirectory_open sample_storage True True
     (snd (snd (replace_metadata sample_storage \<lparr>temp_opened = True, temp_written = True, temp_synced = True, temp_moved = True, temp_removed = True,
        directory_synced = True\<rparr> (sample_metadata\<lparr>meta_time := 6000\<rparr>) (WorldDirectory sample_metadata) (Some e))))
     = Inr (WorldDirectory (sample_metadata\<lparr>meta_time := 6000, meta_generation := 2\<rparr>))"
proof -
  let ?io = "\<lparr>temp_opened = True, temp_written = True, temp_synced = True, temp_moved = True, temp_removed = True, directory_synced = True\<rparr>"
  let ?new = "sample_metadata\<lparr>meta_time := 6000\<rparr>"
  note sample = sample_metadata_def WorldMetadata_new_def validate_metadata_def MAX_WORLD_NAME_BYTES_def MAX_GENERATOR_SETTINGS_BYTES_def
  have typed: "metadata_typed sample_metadata" "metadata_typed ?new" by (simp_all add: metadata_typed_def sample_metadata_def WorldMetadata_new_def)
  have valid: "validate_metadata sample_metadata = Inr ()" by (simp add: sample)
  then obtain e where e: "encode_world_metadata sample_storage sample_metadata = Inr e" using metadata_roundtrip typed(1) by blast
  have "published sample_storage (directory_metadata (WorldDirectory sample_metadata)) (Some e)" using typed(1) e by (simp add: published_def)
  note atomic = replace_metadata_atomic [OF this typed(2), of ?io]
  have "validate_metadata (?new\<lparr>meta_generation := 2\<rparr>) = Inr ()" by (simp add: sample)
  moreover have "metadata_typed (?new\<lparr>meta_generation := 2\<rparr>)" using typed(2) by (simp add: metadata_typed_def)
  ultimately obtain e' where e': "encode_world_metadata sample_storage (?new\<lparr>meta_generation := 2\<rparr>) = Inr e'" using metadata_roundtrip by blast
  have "fst (replace_metadata sample_storage ?io ?new (WorldDirectory sample_metadata) (Some e)) = Inr (?new\<lparr>meta_generation := 2\<rparr>)"
    using e' by (simp add: replace_metadata_def publish_metadata_def checked_add_def Let_def sample)
  with atomic show ?thesis by (intro exI [of _ e]) (auto split: prod.splits sum.splits simp: sample_metadata_def WorldMetadata_new_def)
qed

end
