(* ===== verification/Float64.thy ===== *)
theory Float64
  imports Float32
begin

text \<open>
  The double-precision arithmetic of the Voronoi zoom in \<open>native/world/src/biome_source/zoom_layers.rs\<close>, built like the
  single-precision one: an \<open>f64\<close> is its bit pattern, a finite value is an integer number of units of \<open>2 ^ -1074\<close>, and every
  operation is the exact result rounded once to nearest, ties to even. Not-finite operands give NaN; a comparison with
  one of them is false here, and the zoom never produces one.
\<close>

definition f64_negative :: "f64 \<Rightarrow> bool" where
  "f64_negative x \<longleftrightarrow> bit x 63"

definition f64_exponent :: "f64 \<Rightarrow> nat" where
  "f64_exponent x = unat (drop_bit 52 x AND 0x7ff)"

definition f64_fraction :: "f64 \<Rightarrow> nat" where
  "f64_fraction x = unat (x AND 0xfffffffffffff)"

definition f64_is_finite :: "f64 \<Rightarrow> bool" where
  "f64_is_finite x \<longleftrightarrow> f64_exponent x \<noteq> 2047"

definition f64_units :: "f64 \<Rightarrow> int" where
  "f64_units x =
     (if f64_negative x then - 1 else 1) *
     int (if f64_exponent x = 0 then f64_fraction x else (f64_fraction x + 2 ^ 52) * 2 ^ (f64_exponent x - 1))"

definition f64_nan :: f64 where "f64_nan = 0x7ff8000000000000"
definition f64_infinity :: f64 where "f64_infinity = 0x7ff0000000000000"

definition f64_pack :: "nat \<Rightarrow> nat \<Rightarrow> f64" where
  "f64_pack n g =
     (let k = max g (bit_length n - 53); m = round_shift n k
      in if k - g = 0 then of_nat m
         else if m + (k - g) * 2 ^ 52 \<ge> 2047 * 2 ^ 52 then f64_infinity
         else of_nat (m + (k - g) * 2 ^ 52))"

definition f64_round :: "bool \<Rightarrow> int \<Rightarrow> nat \<Rightarrow> f64" where
  "f64_round zero_negative n g =
     (let sign = (if n < 0 \<or> (n = 0 \<and> zero_negative) then 0x8000000000000000 else 0)
      in sign OR f64_pack (nat \<bar>n\<bar>) g)"

definition f64_of_int :: "int \<Rightarrow> f64" where
  "f64_of_int n = f64_round False (n * 2 ^ 1074) 0"

definition f64_add :: "f64 \<Rightarrow> f64 \<Rightarrow> f64" where
  "f64_add x y =
     (if f64_is_finite x \<and> f64_is_finite y
      then f64_round (f64_negative x \<and> f64_negative y) (f64_units x + f64_units y) 0 else f64_nan)"

definition f64_sub :: "f64 \<Rightarrow> f64 \<Rightarrow> f64" where
  "f64_sub x y = f64_add x (y XOR 0x8000000000000000)"

definition f64_mul :: "f64 \<Rightarrow> f64 \<Rightarrow> f64" where
  "f64_mul x y =
     (if f64_is_finite x \<and> f64_is_finite y
      then f64_round (f64_negative x \<noteq> f64_negative y) (f64_units x * f64_units y) 1074 else f64_nan)"

definition f64_div_pow2 :: "f64 \<Rightarrow> nat \<Rightarrow> f64" where
  "f64_div_pow2 x k = (if f64_is_finite x then f64_round (f64_negative x) (f64_units x) k else f64_nan)"

definition f64_less :: "f64 \<Rightarrow> f64 \<Rightarrow> bool" where
  "f64_less x y \<longleftrightarrow> f64_is_finite x \<and> f64_is_finite y \<and> f64_units x < f64_units y"

text \<open>\<open>x as f32\<close> and the comparisons of single-precision values.\<close>

definition f64_to_f32 :: "f64 \<Rightarrow> f32" where
  "f64_to_f32 x = (if f64_is_finite x then f32_round (f64_negative x) (f64_units x) (1074 - 149) else f32_nan)"

definition f32_less :: "f32 \<Rightarrow> f32 \<Rightarrow> bool" where
  "f32_less x y \<longleftrightarrow> is_finite x \<and> is_finite y \<and> f32_units x < f32_units y"

definition f32_le :: "f32 \<Rightarrow> f32 \<Rightarrow> bool" where
  "f32_le x y \<longleftrightarrow> is_finite x \<and> is_finite y \<and> f32_units x \<le> f32_units y"

end
