(* ===== verification/BiomeLayers.thy ===== *)
theory BiomeLayers
  imports Target Float64 "HOL-Library.Signed_Division"
begin

unbundle bit_operations_syntax

text \<open>
  The biome layers of \<open>native/world/src/biome_source\<close>: the layer random generator (\<open>random.rs\<close>), the layer graph and its
  sampling (\<open>layer.rs\<close>), the climate, biome and zoom layers (\<open>climate_layers.rs\<close>, \<open>biome_layers.rs\<close>, \<open>zoom_layers.rs\<close>).

  A layer operation takes its random source and, for each parent layer, the parent's \<open>area\<close> function. A pair of loops that
  writes every element of the fresh output once, in row order, is \<open>raster\<close>; the zoom layers, which write the output cell
  by cell with clipping, are folds over their loops. Coordinates are \<open>i32\<close> words that wrap; a \<open>usize\<close> length is a natural
  number. The random generator is passed along explicitly. An area is only requested with positive width and height
  (\<open>debug_assert\<close> in \<open>parent_span\<close>).
\<close>

section \<open>random.rs\<close>

definition LCG_A :: i64 where "LCG_A = 6364136223846793005"
definition LCG_B :: i64 where "LCG_B = 1442695040888963407"

definition mix :: "i64 \<Rightarrow> i64 \<Rightarrow> i64" where
  "mix state add = state * (state * LCG_A + LCG_B) + add"

record LayerRandom =
  start_salt :: i64

record ChunkRandom =
  random_seed :: i64
  random_salt :: i64

definition LayerRandom_new :: "i64 \<Rightarrow> i64 \<Rightarrow> LayerRandom" where
  "LayerRandom_new world_seed seed_mixup =
     (let layer_salt = ((\<lambda>salt. mix salt seed_mixup) ^^ 3) seed_mixup;
          start = ((\<lambda>salt. mix salt layer_salt) ^^ 3) world_seed
      in \<lparr>start_salt = start\<rparr>)"

definition LayerRandom_unseeded :: LayerRandom where
  "LayerRandom_unseeded = \<lparr>start_salt = 0\<rparr>"

definition LayerRandom_at :: "LayerRandom \<Rightarrow> i32 \<Rightarrow> i32 \<Rightarrow> ChunkRandom" where
  "LayerRandom_at r x z =
     (let seed = mix (start_salt r) (scast x);
          seed = mix seed (scast z);
          seed = mix seed (scast x);
          seed = mix seed (scast z)
      in \<lparr>random_seed = seed, random_salt = start_salt r\<rparr>)"

definition ChunkRandom_next :: "i32 \<Rightarrow> ChunkRandom \<Rightarrow> i32 \<times> ChunkRandom" where
  "ChunkRandom_next bound r =
     (let v = (sint (random_seed r) div 2 ^ 24) smod sint bound;
          v = (if v < 0 then v + sint bound else v)
      in (word_of_int v, r\<lparr>random_seed := mix (random_seed r) (random_salt r)\<rparr>))"

text \<open>The first value of a generator that is not used again.\<close>

abbreviation draw :: "i32 \<Rightarrow> ChunkRandom \<Rightarrow> i32" where
  "draw bound r \<equiv> fst (ChunkRandom_next bound r)"

definition add_coord :: "i32 \<Rightarrow> nat \<Rightarrow> i32" where
  "add_coord base offset = base + of_nat offset"

section \<open>layer.rs\<close>

definition OCEAN :: i32 where "OCEAN = 0"
definition PLAINS :: i32 where "PLAINS = 1"
definition DESERT :: i32 where "DESERT = 2"
definition EXTREME_HILLS :: i32 where "EXTREME_HILLS = 3"
definition FOREST :: i32 where "FOREST = 4"
definition TAIGA :: i32 where "TAIGA = 5"
definition SWAMPLAND :: i32 where "SWAMPLAND = 6"
definition RIVER :: i32 where "RIVER = 7"
definition FROZEN_OCEAN :: i32 where "FROZEN_OCEAN = 10"
definition FROZEN_RIVER :: i32 where "FROZEN_RIVER = 11"
definition ICE_PLAINS :: i32 where "ICE_PLAINS = 12"
definition ICE_MOUNTAINS :: i32 where "ICE_MOUNTAINS = 13"
definition MUSHROOM_ISLAND :: i32 where "MUSHROOM_ISLAND = 14"
definition MUSHROOM_SHORE :: i32 where "MUSHROOM_SHORE = 15"
definition BEACH :: i32 where "BEACH = 16"
definition DESERT_HILLS :: i32 where "DESERT_HILLS = 17"
definition FOREST_HILLS :: i32 where "FOREST_HILLS = 18"
definition TAIGA_HILLS :: i32 where "TAIGA_HILLS = 19"
definition EXTREME_HILLS_EDGE :: i32 where "EXTREME_HILLS_EDGE = 20"
definition JUNGLE :: i32 where "JUNGLE = 21"
definition JUNGLE_HILLS :: i32 where "JUNGLE_HILLS = 22"
definition JUNGLE_EDGE :: i32 where "JUNGLE_EDGE = 23"
definition DEEP_OCEAN :: i32 where "DEEP_OCEAN = 24"
definition STONE_BEACH :: i32 where "STONE_BEACH = 25"
definition COLD_BEACH :: i32 where "COLD_BEACH = 26"
definition BIRCH_FOREST :: i32 where "BIRCH_FOREST = 27"
definition BIRCH_FOREST_HILLS :: i32 where "BIRCH_FOREST_HILLS = 28"
definition ROOFED_FOREST :: i32 where "ROOFED_FOREST = 29"
definition COLD_TAIGA :: i32 where "COLD_TAIGA = 30"
definition COLD_TAIGA_HILLS :: i32 where "COLD_TAIGA_HILLS = 31"
definition MEGA_TAIGA :: i32 where "MEGA_TAIGA = 32"
definition MEGA_TAIGA_HILLS :: i32 where "MEGA_TAIGA_HILLS = 33"
definition EXTREME_HILLS_PLUS :: i32 where "EXTREME_HILLS_PLUS = 34"
definition SAVANNA :: i32 where "SAVANNA = 35"
definition SAVANNA_PLATEAU :: i32 where "SAVANNA_PLATEAU = 36"
definition MESA :: i32 where "MESA = 37"
definition MESA_PLATEAU_F :: i32 where "MESA_PLATEAU_F = 38"
definition MESA_PLATEAU :: i32 where "MESA_PLATEAU = 39"
definition CLIMATE_WARM :: i32 where "CLIMATE_WARM = 1"
definition CLIMATE_LUSH :: i32 where "CLIMATE_LUSH = 2"
definition CLIMATE_COLD :: i32 where "CLIMATE_COLD = 3"
definition CLIMATE_FREEZING :: i32 where "CLIMATE_FREEZING = 4"

lemmas biome_numbers =
  OCEAN_def PLAINS_def DESERT_def EXTREME_HILLS_def FOREST_def TAIGA_def SWAMPLAND_def RIVER_def
  FROZEN_OCEAN_def FROZEN_RIVER_def ICE_PLAINS_def ICE_MOUNTAINS_def MUSHROOM_ISLAND_def MUSHROOM_SHORE_def
  BEACH_def DESERT_HILLS_def FOREST_HILLS_def TAIGA_HILLS_def EXTREME_HILLS_EDGE_def JUNGLE_def JUNGLE_HILLS_def
  JUNGLE_EDGE_def DEEP_OCEAN_def STONE_BEACH_def COLD_BEACH_def BIRCH_FOREST_def BIRCH_FOREST_HILLS_def
  ROOFED_FOREST_def COLD_TAIGA_def COLD_TAIGA_HILLS_def MEGA_TAIGA_def MEGA_TAIGA_HILLS_def
  EXTREME_HILLS_PLUS_def SAVANNA_def SAVANNA_PLATEAU_def MESA_def MESA_PLATEAU_F_def MESA_PLATEAU_def
  CLIMATE_WARM_def CLIMATE_LUSH_def CLIMATE_COLD_def CLIMATE_FREEZING_def

type_synonym sampler = "i32 \<Rightarrow> i32 \<Rightarrow> nat \<Rightarrow> nat \<Rightarrow> i32 list"

datatype EdgeMode = CoolWarm | HeatIce | Special

datatype Layer = Layer (layer_random: LayerRandom) (layer_kind: LayerKind)
  and LayerKind =
    Island
  | Zoom Layer bool
  | AddIsland Layer
  | RemoveTooMuchOcean Layer
  | AddSnow Layer
  | AddEdge Layer EdgeMode
  | AddMushroomIsland Layer
  | DeepOcean Layer
  | RiverInit Layer
  | BiomeInit Layer
  | BiomeEdge Layer
  | RegionHills Layer Layer
  | RareBiomeSpot Layer
  | River Layer
  | Smooth Layer
  | Shore Layer
  | RiverMixer Layer Layer
  | VoronoiZoom Layer

definition Layer_new :: "i64 \<Rightarrow> i64 \<Rightarrow> LayerKind \<Rightarrow> Layer" where
  "Layer_new world_seed seed_mixup kind = Layer (LayerRandom_new world_seed seed_mixup) kind"

definition Layer_new_unseeded :: "LayerKind \<Rightarrow> Layer" where
  "Layer_new_unseeded kind = Layer LayerRandom_unseeded kind"

definition neighborhood ::
  "sampler \<Rightarrow> i32 \<Rightarrow> i32 \<Rightarrow> nat \<Rightarrow> nat \<Rightarrow> (i32 \<Rightarrow> i32 \<Rightarrow> i32 \<Rightarrow> i32 \<Rightarrow> i32 \<Rightarrow> i32 \<Rightarrow> i32 \<Rightarrow> i32) \<Rightarrow> i32 list" where
  "neighborhood parent x z width height project =
     (let stride = width + 2;
          input = parent (x - 1) (z - 1) stride (height + 2)
      in raster width height (\<lambda>dx dz.
           let center = input ! (dx + 1 + (dz + 1) * stride);
               north = input ! (dx + 1 + dz * stride);
               east = input ! (dx + 2 + (dz + 1) * stride);
               west = input ! (dx + (dz + 1) * stride);
               south = input ! (dx + 1 + (dz + 2) * stride)
           in project center north east west south (add_coord x dx) (add_coord z dz)))"

definition is_oceanic :: "i32 \<Rightarrow> bool" where
  "is_oceanic i \<longleftrightarrow> i \<in> {OCEAN, FROZEN_OCEAN, DEEP_OCEAN}"

definition is_shallow_ocean :: "i32 \<Rightarrow> bool" where
  "is_shallow_ocean i \<longleftrightarrow> i \<in> {OCEAN, FROZEN_OCEAN}"

section \<open>climate_layers.rs\<close>

definition island :: "LayerRandom \<Rightarrow> i32 \<Rightarrow> i32 \<Rightarrow> nat \<Rightarrow> nat \<Rightarrow> i32 list" where
  "island random x z width height =
     (let out = raster width height (\<lambda>dx dz.
            if draw 10 (LayerRandom_at random (add_coord x dx) (add_coord z dz)) = 0 then CLIMATE_WARM else OCEAN)
      in if sint x \<le> 0 \<and> sint z \<le> 0 \<and> sint x + int width > 0 \<and> sint z + int height > 0
         then out[nat (- sint x) + nat (- sint z) * width := CLIMATE_WARM]
         else out)"

definition island_corner :: "i32 \<Rightarrow> i32 \<times> i32 \<times> ChunkRandom \<Rightarrow> i32 \<times> i32 \<times> ChunkRandom" where
  "island_corner corner s =
     (case s of (candidate, count, random) \<Rightarrow>
        if corner = OCEAN then s
        else case ChunkRandom_next count random of
               (v, random) \<Rightarrow> (if v = 0 then corner else candidate, count + 1, random))"

definition grown_island :: "i32 \<Rightarrow> i32 \<Rightarrow> i32 \<Rightarrow> i32 \<Rightarrow> i32 \<Rightarrow> ChunkRandom \<Rightarrow> i32" where
  "grown_island nw ne sw se center random =
     (if center = OCEAN \<and> (nw \<noteq> OCEAN \<or> ne \<noteq> OCEAN \<or> sw \<noteq> OCEAN \<or> se \<noteq> OCEAN)
      then (case fold island_corner [nw, ne, sw, se] (CLIMATE_WARM, 1, random) of
              (candidate, _, random) \<Rightarrow> if draw 3 random = 0 \<or> candidate = CLIMATE_FREEZING then candidate else OCEAN)
      else if OCEAN <s center \<and> (nw = OCEAN \<or> ne = OCEAN \<or> sw = OCEAN \<or> se = OCEAN)
      then (if draw 5 random = 0 \<and> center \<noteq> CLIMATE_FREEZING then OCEAN else center)
      else center)"

definition add_island :: "LayerRandom \<Rightarrow> sampler \<Rightarrow> sampler" where
  "add_island random parent x z width height =
     (let stride = width + 2;
          input = parent (x - 1) (z - 1) stride (height + 2)
      in raster width height (\<lambda>dx dz.
           let nw = input ! (dx + dz * stride);
               ne = input ! (dx + 2 + dz * stride);
               sw = input ! (dx + (dz + 2) * stride);
               se = input ! (dx + 2 + (dz + 2) * stride);
               center = input ! (dx + 1 + (dz + 1) * stride);
               random = LayerRandom_at random (add_coord x dx) (add_coord z dz)
           in grown_island nw ne sw se center random))"

definition warmed_ocean :: "LayerRandom \<Rightarrow> i32 \<Rightarrow> i32 \<Rightarrow> i32 \<Rightarrow> i32 \<Rightarrow> i32 \<Rightarrow> i32 \<Rightarrow> i32 \<Rightarrow> i32" where
  "warmed_ocean random center n e w s wx wz =
     (if center = OCEAN \<and> n = OCEAN \<and> e = OCEAN \<and> w = OCEAN \<and> s = OCEAN \<and> draw 2 (LayerRandom_at random wx wz) = 0
      then CLIMATE_WARM else center)"

definition remove_too_much_ocean :: "LayerRandom \<Rightarrow> sampler \<Rightarrow> sampler" where
  "remove_too_much_ocean random parent x z width height =
     neighborhood parent x z width height (warmed_ocean random)"

definition snow_climate :: "i32 \<Rightarrow> ChunkRandom \<Rightarrow> i32" where
  "snow_climate center random =
     (if center = OCEAN then OCEAN
      else let v = draw 6 random in if v = 0 then CLIMATE_FREEZING else if v = 1 then CLIMATE_COLD else CLIMATE_WARM)"

definition add_snow :: "LayerRandom \<Rightarrow> sampler \<Rightarrow> sampler" where
  "add_snow random parent x z width height =
     (let input = parent (x - 1) (z - 1) (width + 2) (height + 2);
          stride = width + 2
      in raster width height (\<lambda>dx dz.
           snow_climate (input ! (dx + 1 + (dz + 1) * stride)) (LayerRandom_at random (add_coord x dx) (add_coord z dz))))"

definition special_climate :: "LayerRandom \<Rightarrow> i32 \<Rightarrow> i32 \<Rightarrow> i32 \<Rightarrow> i32" where
  "special_climate random wx wz v =
     (if v \<noteq> OCEAN
      then case ChunkRandom_next 13 (LayerRandom_at random wx wz) of
             (d, random) \<Rightarrow> if d = 0 then v OR (push_bit 8 (draw 15 random + 1) AND 0x0f00) else v
      else v)"

definition edge_climate :: "EdgeMode \<Rightarrow> i32 \<Rightarrow> i32 \<Rightarrow> i32 \<Rightarrow> i32 \<Rightarrow> i32 \<Rightarrow> i32" where
  "edge_climate mode center n e w s =
     (if mode = CoolWarm \<and> center = CLIMATE_WARM
      then (if list_ex (\<lambda>v. v \<in> {CLIMATE_COLD, CLIMATE_FREEZING}) [n, e, w, s] then CLIMATE_LUSH else center)
      else if mode = HeatIce \<and> center = CLIMATE_FREEZING
      then (if list_ex (\<lambda>v. v \<in> {CLIMATE_WARM, CLIMATE_LUSH}) [n, e, w, s] then CLIMATE_COLD else center)
      else center)"

definition add_edge :: "LayerRandom \<Rightarrow> sampler \<Rightarrow> EdgeMode \<Rightarrow> sampler" where
  "add_edge random parent mode x z width height =
     (if mode = Special
      then map (\<lambda>(index, v). special_climate random (add_coord x (index mod width)) (add_coord z (index div width)) v)
             (enumerate 0 (parent x z width height))
      else neighborhood parent x z width height (\<lambda>center n e w s _ _. edge_climate mode center n e w s))"

definition mushroom_climate :: "i32 \<Rightarrow> i32 \<Rightarrow> i32 \<Rightarrow> i32 \<Rightarrow> i32 \<Rightarrow> ChunkRandom \<Rightarrow> i32" where
  "mushroom_climate nw ne sw se center random =
     (if center = OCEAN \<and> nw = OCEAN \<and> ne = OCEAN \<and> sw = OCEAN \<and> se = OCEAN \<and> draw 100 random = 0
      then MUSHROOM_ISLAND else center)"

definition add_mushroom_island :: "LayerRandom \<Rightarrow> sampler \<Rightarrow> sampler" where
  "add_mushroom_island random parent x z width height =
     (let stride = width + 2;
          input = parent (x - 1) (z - 1) stride (height + 2)
      in raster width height (\<lambda>dx dz.
           let nw = input ! (dx + dz * stride);
               ne = input ! (dx + 2 + dz * stride);
               sw = input ! (dx + (dz + 2) * stride);
               se = input ! (dx + 2 + (dz + 2) * stride);
               center = input ! (dx + 1 + (dz + 1) * stride)
           in mushroom_climate nw ne sw se center (LayerRandom_at random (add_coord x dx) (add_coord z dz))))"

definition deep_climate :: "i32 \<Rightarrow> i32 \<Rightarrow> i32 \<Rightarrow> i32 \<Rightarrow> i32 \<Rightarrow> i32" where
  "deep_climate center n e w s = (if center = OCEAN \<and> list_all (\<lambda>v. v = OCEAN) [n, e, w, s] then DEEP_OCEAN else center)"

definition deep_ocean :: "sampler \<Rightarrow> sampler" where
  "deep_ocean parent x z width height =
     neighborhood parent x z width height (\<lambda>center n e w s _ _. deep_climate center n e w s)"

section \<open>biome_layers.rs\<close>

datatype BiomeCategory = CatBeach | CatDesert | CatMountains | CatForest | CatSnowy | CatJungle | CatMesa | CatMushroom
  | CatOcean | CatPlains | CatRiver | CatSavanna | CatSwamp | CatTaiga | CatStoneBeach | CatOther

definition biome_category :: "i32 \<Rightarrow> BiomeCategory" where
  "biome_category i =
     (if i \<in> {BEACH, COLD_BEACH} then CatBeach
      else if i \<in> {DESERT, DESERT_HILLS, 130} then CatDesert
      else if i \<in> {EXTREME_HILLS, EXTREME_HILLS_EDGE, EXTREME_HILLS_PLUS, 131, 162} then CatMountains
      else if i \<in> {FOREST, FOREST_HILLS, BIRCH_FOREST, BIRCH_FOREST_HILLS, ROOFED_FOREST, 132, 155, 156, 157} then CatForest
      else if i \<in> {ICE_PLAINS, ICE_MOUNTAINS, 140} then CatSnowy
      else if i \<in> {JUNGLE, JUNGLE_HILLS, JUNGLE_EDGE, 149, 151} then CatJungle
      else if i \<in> {MESA, MESA_PLATEAU_F, MESA_PLATEAU, 165, 166, 167} then CatMesa
      else if i \<in> {MUSHROOM_ISLAND, MUSHROOM_SHORE} then CatMushroom
      else if i \<in> {OCEAN, FROZEN_OCEAN, DEEP_OCEAN} then CatOcean
      else if i \<in> {PLAINS, 129} then CatPlains
      else if i \<in> {RIVER, FROZEN_RIVER} then CatRiver
      else if i \<in> {SAVANNA, SAVANNA_PLATEAU, 163, 164} then CatSavanna
      else if i \<in> {SWAMPLAND, 134} then CatSwamp
      else if i \<in> {TAIGA, TAIGA_HILLS, COLD_TAIGA, COLD_TAIGA_HILLS, MEGA_TAIGA, MEGA_TAIGA_HILLS, 133, 158, 160, 161} then CatTaiga
      else if i = STONE_BEACH then CatStoneBeach
      else CatOther)"

definition biome_similar :: "i32 \<Rightarrow> i32 \<Rightarrow> bool" where
  "biome_similar a b \<longleftrightarrow>
     (if a = b then True
      else if a \<in> {MESA_PLATEAU_F, MESA_PLATEAU} then b \<in> {MESA_PLATEAU_F, MESA_PLATEAU}
      else biome_category a \<noteq> CatOther \<and> biome_category a = biome_category b)"

definition jungle_compatible :: "i32 \<Rightarrow> bool" where
  "jungle_compatible i \<longleftrightarrow> biome_category i \<in> {CatJungle, CatForest, CatTaiga} \<or> is_oceanic i"

definition is_snowy :: "i32 \<Rightarrow> bool" where
  "is_snowy i \<longleftrightarrow> i \<in> {FROZEN_OCEAN, FROZEN_RIVER, ICE_PLAINS, ICE_MOUNTAINS, COLD_BEACH, COLD_TAIGA, COLD_TAIGA_HILLS, 140, 158}"

definition is_mesa :: "i32 \<Rightarrow> bool" where
  "is_mesa i \<longleftrightarrow> i \<in> {MESA, MESA_PLATEAU_F, MESA_PLATEAU, 165, 166, 167}"

definition mutations :: "(i32 \<times> i32) list" where
  "mutations = [(1, 129), (2, 130), (3, 131), (4, 132), (5, 133), (6, 134), (12, 140), (21, 149), (23, 151), (27, 155),
     (28, 156), (29, 157), (30, 158), (32, 160), (33, 161), (34, 162), (35, 163), (36, 164), (37, 165), (38, 166), (39, 167)]"

definition mutated_biome :: "i32 \<Rightarrow> i32 option" where
  "mutated_biome i = map_of mutations i"

definition replace_edge :: "i32 \<Rightarrow> i32 list \<Rightarrow> i32 \<Rightarrow> i32 \<Rightarrow> i32 option" where
  "replace_edge center adjacent base edge =
     (if center \<noteq> base then None
      else Some (if list_all (\<lambda>candidate. biome_similar candidate base) adjacent then center else edge))"

definition reduce_river_id :: "i32 \<Rightarrow> i32" where
  "reduce_river_id i = (if 2 \<le>s i then 2 + (i AND 1) else i)"

definition river_noise_value :: "i32 \<Rightarrow> ChunkRandom \<Rightarrow> i32" where
  "river_noise_value v random = (if OCEAN <s v then draw 299999 random + 2 else OCEAN)"

definition river_init :: "LayerRandom \<Rightarrow> sampler \<Rightarrow> sampler" where
  "river_init random parent x z width height =
     map (\<lambda>(index, v). river_noise_value v (LayerRandom_at random (add_coord x (index mod width)) (add_coord z (index div width))))
       (enumerate 0 (parent x z width height))"

definition HOT :: "i32 list" where "HOT = [DESERT, DESERT, DESERT, SAVANNA, SAVANNA, PLAINS]"
definition LUSH :: "i32 list" where
  "LUSH = [FOREST, ROOFED_FOREST, EXTREME_HILLS, PLAINS, PLAINS, PLAINS, BIRCH_FOREST, SWAMPLAND]"
definition COLD :: "i32 list" where "COLD = [FOREST, EXTREME_HILLS, TAIGA, PLAINS]"
definition FREEZING :: "i32 list" where "FREEZING = [ICE_PLAINS, ICE_PLAINS, ICE_PLAINS, COLD_TAIGA]"

definition climate_biome :: "i32 \<Rightarrow> ChunkRandom \<Rightarrow> i32" where
  "climate_biome v random =
     (let special = signed_drop_bit 8 v AND 0x0f;
          climate = v AND NOT 0x0f00
      in if is_oceanic climate \<or> climate = MUSHROOM_ISLAND then climate
         else if climate = CLIMATE_WARM \<and> special = 0 then HOT ! unat (draw (of_nat (length HOT)) random)
         else if climate = CLIMATE_WARM then (if draw 3 random = 0 then MESA_PLATEAU else MESA_PLATEAU_F)
         else if climate = CLIMATE_LUSH \<and> special = 0 then LUSH ! unat (draw (of_nat (length LUSH)) random)
         else if climate = CLIMATE_LUSH then JUNGLE
         else if climate = CLIMATE_COLD \<and> special = 0 then COLD ! unat (draw (of_nat (length COLD)) random)
         else if climate = CLIMATE_COLD then MEGA_TAIGA
         else if climate = CLIMATE_FREEZING then FREEZING ! unat (draw (of_nat (length FREEZING)) random)
         else climate)"

definition biome_init :: "LayerRandom \<Rightarrow> sampler \<Rightarrow> sampler" where
  "biome_init random parent x z width height =
     map (\<lambda>(index, v). climate_biome v (LayerRandom_at random (add_coord x (index mod width)) (add_coord z (index div width))))
       (enumerate 0 (parent x z width height))"

definition edge_biome :: "i32 \<Rightarrow> i32 \<Rightarrow> i32 \<Rightarrow> i32 \<Rightarrow> i32 \<Rightarrow> i32" where
  "edge_biome center n e w s =
     (let adjacent = [n, e, w, s]
      in case replace_edge center adjacent MESA_PLATEAU_F MESA of
           Some edge \<Rightarrow> edge
         | None \<Rightarrow>
             (case replace_edge center adjacent MESA_PLATEAU MESA of
                Some edge \<Rightarrow> edge
              | None \<Rightarrow>
                  (case replace_edge center adjacent MEGA_TAIGA TAIGA of
                     Some edge \<Rightarrow> edge
                   | None \<Rightarrow>
                       if center = DESERT then (if ICE_PLAINS \<in> set adjacent then EXTREME_HILLS_PLUS else center)
                       else if center = SWAMPLAND \<and> list_ex (\<lambda>v. v \<in> {DESERT, COLD_TAIGA, ICE_PLAINS}) adjacent then PLAINS
                       else if center = SWAMPLAND \<and> JUNGLE \<in> set adjacent then JUNGLE_EDGE
                       else center)))"

definition biome_edge :: "sampler \<Rightarrow> sampler" where
  "biome_edge parent x z width height =
     neighborhood parent x z width height (\<lambda>center n e w s _ _. edge_biome center n e w s)"

text \<open>\<open>%\<close> on \<open>i32\<close> truncates.\<close>

definition i32_rem :: "i32 \<Rightarrow> int \<Rightarrow> int" where
  "i32_rem a b = sint a smod b"

definition hill_biome :: "i32 \<Rightarrow> ChunkRandom \<Rightarrow> i32" where
  "hill_biome biome random =
     (if biome = DESERT then DESERT_HILLS
      else if biome = FOREST then FOREST_HILLS
      else if biome = BIRCH_FOREST then BIRCH_FOREST_HILLS
      else if biome = ROOFED_FOREST then PLAINS
      else if biome = TAIGA then TAIGA_HILLS
      else if biome = MEGA_TAIGA then MEGA_TAIGA_HILLS
      else if biome = COLD_TAIGA then COLD_TAIGA_HILLS
      else if biome = PLAINS then (if draw 3 random = 0 then FOREST_HILLS else FOREST)
      else if biome = ICE_PLAINS then ICE_MOUNTAINS
      else if biome = JUNGLE then JUNGLE_HILLS
      else if biome = OCEAN then DEEP_OCEAN
      else if biome = EXTREME_HILLS then EXTREME_HILLS_PLUS
      else if biome = SAVANNA then SAVANNA_PLATEAU
      else if biome \<in> {MESA_PLATEAU_F, MESA_PLATEAU} then MESA
      else if biome = DEEP_OCEAN
      then (case ChunkRandom_next 3 random of
              (v, random) \<Rightarrow> if v = 0 then (if draw 2 random = 0 then PLAINS else FOREST) else biome)
      else biome)"

definition unwrap_or :: "'a option \<Rightarrow> 'a \<Rightarrow> 'a" where
  "unwrap_or x d = (case x of Some v \<Rightarrow> v | None \<Rightarrow> d)"

definition region_biome :: "i32 \<Rightarrow> i32 \<Rightarrow> i32 list \<Rightarrow> ChunkRandom \<Rightarrow> i32" where
  "region_biome biome noise_value neighbours random =
     (let remainder = i32_rem (noise_value - 2) 29; mutation_flag = (remainder = 0)
      in if remainder = 1 \<and> 2 \<le>s noise_value \<and> \<not> is_shallow_ocean biome then unwrap_or (mutated_biome biome) biome
         else case ChunkRandom_next 3 random of
           (first_choice, random) \<Rightarrow>
             if \<not> mutation_flag \<and> first_choice \<noteq> 0 then biome
             else let hill = hill_biome biome random;
                      hill = (if mutation_flag \<and> hill \<noteq> biome then unwrap_or (mutated_biome hill) biome else hill)
                  in if hill = biome then biome
                     else if length (filter (\<lambda>candidate. biome_similar candidate biome) neighbours) \<ge> 3 then hill else biome)"

definition region_hills :: "LayerRandom \<Rightarrow> sampler \<Rightarrow> sampler \<Rightarrow> sampler" where
  "region_hills random parent river_noise x z width height =
     (let stride = width + 2;
          biomes = parent (x - 1) (z - 1) stride (height + 2);
          noise = river_noise (x - 1) (z - 1) stride (height + 2)
      in raster width height (\<lambda>dx dz.
           let index = dx + 1 + (dz + 1) * stride;
               north = biomes ! (dx + 1 + dz * stride);
               east = biomes ! (dx + 2 + (dz + 1) * stride);
               west = biomes ! (dx + (dz + 1) * stride);
               south = biomes ! (dx + 1 + (dz + 2) * stride)
           in region_biome (biomes ! index) (noise ! index) [north, east, west, south]
                (LayerRandom_at random (add_coord x dx) (add_coord z dz))))"

definition rare_biome :: "i32 \<Rightarrow> ChunkRandom \<Rightarrow> i32" where
  "rare_biome biome random = (if biome = PLAINS \<and> draw 57 random = 0 then 129 else biome)"

definition rare_biome_spot :: "LayerRandom \<Rightarrow> sampler \<Rightarrow> sampler" where
  "rare_biome_spot random parent x z width height =
     map (\<lambda>(index, biome). rare_biome biome (LayerRandom_at random (add_coord x (index mod width)) (add_coord z (index div width))))
       (enumerate 0 (parent x z width height))"

definition river_value :: "i32 \<Rightarrow> i32 \<Rightarrow> i32 \<Rightarrow> i32 \<Rightarrow> i32 \<Rightarrow> i32" where
  "river_value center n e w s =
     (let center = reduce_river_id center
      in if center = reduce_river_id n \<and> center = reduce_river_id e \<and> center = reduce_river_id w \<and> center = reduce_river_id s
         then - 1 else RIVER)"

definition river :: "sampler \<Rightarrow> sampler" where
  "river parent x z width height =
     neighborhood parent x z width height (\<lambda>center n e w s _ _. river_value center n e w s)"

definition smooth_value :: "LayerRandom \<Rightarrow> i32 \<Rightarrow> i32 \<Rightarrow> i32 \<Rightarrow> i32 \<Rightarrow> i32 \<Rightarrow> i32 \<Rightarrow> i32 \<Rightarrow> i32" where
  "smooth_value random center n e w s wx wz =
     (if center \<noteq> w \<or> center \<noteq> n
      then if w = e \<and> n = s then (if draw 2 (LayerRandom_at random wx wz) = 0 then w else n)
           else let center = (if w = e then w else center) in if n = s then n else center
      else center)"

definition smooth :: "LayerRandom \<Rightarrow> sampler \<Rightarrow> sampler" where
  "smooth random parent x z width height =
     neighborhood parent x z width height (smooth_value random)"

definition shore_biome :: "i32 \<Rightarrow> i32 \<Rightarrow> i32 \<Rightarrow> i32 \<Rightarrow> i32 \<Rightarrow> i32" where
  "shore_biome center n e w s =
     (let adjacent = [n, e, w, s]
      in if center = MUSHROOM_ISLAND then (if OCEAN \<in> set adjacent then MUSHROOM_SHORE else center)
         else if biome_category center = CatJungle
         then (if \<not> list_all jungle_compatible adjacent then JUNGLE_EDGE
               else if list_ex is_oceanic adjacent then BEACH else center)
         else if center \<in> {EXTREME_HILLS, EXTREME_HILLS_PLUS} then (if list_ex is_oceanic adjacent then STONE_BEACH else center)
         else if is_snowy center then (if list_ex is_oceanic adjacent then COLD_BEACH else center)
         else if center \<in> {MESA, MESA_PLATEAU_F}
         then (if list_ex is_oceanic adjacent then center
               else if list_all is_mesa adjacent then center else DESERT)
         else if center \<notin> {OCEAN, DEEP_OCEAN, RIVER, SWAMPLAND} \<and> list_ex is_oceanic adjacent then BEACH
         else center)"

definition shore :: "sampler \<Rightarrow> sampler" where
  "shore parent x z width height =
     neighborhood parent x z width height (\<lambda>center n e w s _ _. shore_biome center n e w s)"

definition mix_river :: "i32 \<Rightarrow> i32 \<Rightarrow> i32" where
  "mix_river biome rv =
     (if rv \<noteq> RIVER \<or> is_oceanic biome then biome
      else if biome = ICE_PLAINS then FROZEN_RIVER
      else if biome \<in> {MUSHROOM_ISLAND, MUSHROOM_SHORE} then MUSHROOM_SHORE
      else RIVER)"

definition river_mixer :: "sampler \<Rightarrow> sampler \<Rightarrow> sampler" where
  "river_mixer biomes rivers x z width height =
     map (\<lambda>(biome, rv). mix_river biome rv) (zip (biomes x z width height) (rivers x z width height))"

section \<open>zoom_layers.rs\<close>

definition choose2 :: "i32 \<Rightarrow> i32 \<Rightarrow> ChunkRandom \<Rightarrow> i32 \<times> ChunkRandom" where
  "choose2 a b random = (case ChunkRandom_next 2 random of (v, random) \<Rightarrow> (if v = 0 then a else b, random))"

definition choose4 :: "i32 \<Rightarrow> i32 \<Rightarrow> i32 \<Rightarrow> i32 \<Rightarrow> ChunkRandom \<Rightarrow> i32" where
  "choose4 a b c d random = (let v = draw 4 random in if v = 0 then a else if v = 1 then b else if v = 2 then c else d)"

definition choose_mode_or_random :: "i32 \<Rightarrow> i32 \<Rightarrow> i32 \<Rightarrow> i32 \<Rightarrow> ChunkRandom \<Rightarrow> i32" where
  "choose_mode_or_random a b c d random =
     (if b = c \<and> c = d then b
      else if a = b \<and> a = c then a
      else if a = b \<and> a = d then a
      else if a = c \<and> a = d then a
      else if a = b \<and> c \<noteq> d then a
      else if a = c \<and> b \<noteq> d then a
      else if a = d \<and> b \<noteq> c then a
      else if b = c \<and> a \<noteq> d then b
      else if b = d \<and> a \<noteq> c then b
      else if c = d \<and> a \<noteq> b then c
      else choose4 a b c d random)"

definition parent_span :: "i32 \<Rightarrow> nat \<Rightarrow> nat \<Rightarrow> i32 \<times> nat" where
  "parent_span origin len shift =
     (let start = sint origin div 2 ^ shift;
          stop = (sint origin + int (len - 1)) div 2 ^ shift
      in (word_of_int start, nat (stop - start + 2)))"

definition project_cell ::
  "nat \<Rightarrow> nat \<Rightarrow> i32 \<Rightarrow> i32 \<Rightarrow> i32 \<Rightarrow> i32 \<Rightarrow> nat \<Rightarrow> (nat \<Rightarrow> nat \<Rightarrow> i32) \<Rightarrow> i32 list \<Rightarrow> i32 list" where
  "project_cell width height area_x area_z cell_x cell_z edge cell out =
     (let relative_x = sint cell_x - sint area_x; relative_z = sint cell_z - sint area_z
      in fold (\<lambda>local_z out.
           let out_z = relative_z + int local_z
           in if out_z < 0 \<or> out_z \<ge> int height then out
              else fold (\<lambda>local_x out.
                     let out_x = relative_x + int local_x
                     in if out_x < 0 \<or> out_x \<ge> int width then out
                        else out[nat out_x + nat out_z * width := cell local_x local_z])
                   [0..<edge] out)
         [0..<edge] out)"

text \<open>The values of the four cells that one parent cell becomes, in row order.\<close>

definition zoom_values :: "LayerRandom \<Rightarrow> bool \<Rightarrow> i32 \<Rightarrow> i32 \<Rightarrow> i32 \<Rightarrow> i32 \<Rightarrow> i32 \<Rightarrow> i32 \<Rightarrow> i32 list" where
  "zoom_values random fuzzy world_x world_z upper_left upper_right lower_left lower_right =
     (case choose2 upper_left lower_left (LayerRandom_at random world_x world_z) of
        (lower, random) \<Rightarrow>
          (case choose2 upper_left upper_right random of
             (right, random) \<Rightarrow>
               let diagonal = (if fuzzy then choose4 upper_left upper_right lower_left lower_right random
                               else choose_mode_or_random upper_left upper_right lower_left lower_right random)
               in [upper_left, right, lower, diagonal]))"

definition zoom_column ::
  "LayerRandom \<Rightarrow> bool \<Rightarrow> i32 list \<Rightarrow> nat \<Rightarrow> i32 \<Rightarrow> i32 \<Rightarrow> i32 \<Rightarrow> i32 \<Rightarrow> nat \<Rightarrow> nat \<Rightarrow> nat \<Rightarrow> nat
    \<Rightarrow> i32 \<times> i32 \<times> i32 list \<Rightarrow> i32 \<times> i32 \<times> i32 list" where
  "zoom_column random fuzzy input parent_width parent_x parent_z x z width height parent_row parent_column s =
     (case s of (upper_left, lower_left, out) \<Rightarrow>
        let upper_right = input ! (parent_column + 1 + parent_row * parent_width);
            lower_right = input ! (parent_column + 1 + (parent_row + 1) * parent_width);
            world_x = add_coord parent_x parent_column * 2;
            world_z = add_coord parent_z parent_row * 2;
            cells = zoom_values random fuzzy world_x world_z upper_left upper_right lower_left lower_right
        in (upper_right, lower_right,
            project_cell width height x z world_x world_z 2 (\<lambda>local_x local_z. cells ! (local_x + local_z * 2)) out))"

definition zoom :: "LayerRandom \<Rightarrow> sampler \<Rightarrow> bool \<Rightarrow> sampler" where
  "zoom random parent fuzzy x z width height =
     (case parent_span x width 1 of (parent_x, parent_width) \<Rightarrow>
      case parent_span z height 1 of (parent_z, parent_height) \<Rightarrow>
        let input = parent parent_x parent_z parent_width parent_height
        in fold (\<lambda>parent_row out.
               snd (snd (fold (zoom_column random fuzzy input parent_width parent_x parent_z x z width height parent_row)
                     [0..<parent_width - 1]
                     (input ! (parent_row * parent_width), input ! ((parent_row + 1) * parent_width), out))))
             [0..<parent_height - 1] (replicate (width * height) 0))"

definition jitter_scale :: f64 where "jitter_scale = 0x400ccccccccccccd"
definition one_half :: f64 where "one_half = 0x3fe0000000000000"

definition jitter :: "LayerRandom \<Rightarrow> i32 \<Rightarrow> i32 \<Rightarrow> f64 \<Rightarrow> f64 \<Rightarrow> f64 \<times> f64" where
  "jitter random x z x_offset z_offset =
     (case ChunkRandom_next 1024 (LayerRandom_at random x z) of (vx, random) \<Rightarrow>
      case ChunkRandom_next 1024 random of (vz, random) \<Rightarrow>
        let scaled = (\<lambda>v offset. f64_add (f64_mul (f64_sub (f64_div_pow2 (f64_of_int (sint v)) 10) one_half) jitter_scale) offset)
        in (scaled vx x_offset, scaled vz z_offset))"

definition distance_squared :: "f64 \<Rightarrow> f64 \<Rightarrow> f64 \<times> f64 \<Rightarrow> f64" where
  "distance_squared x z target =
     (let dx = f64_sub x (fst target); dz = f64_sub z (snd target) in f64_add (f64_mul dx dx) (f64_mul dz dz))"

definition nearest_corner :: "LayerRandom \<Rightarrow> i32 \<Rightarrow> i32 \<Rightarrow> i32 \<Rightarrow> i32 \<Rightarrow> i32 \<Rightarrow> i32 \<Rightarrow> nat \<Rightarrow> nat \<Rightarrow> i32" where
  "nearest_corner random cell_x cell_z upper_left upper_right lower_left lower_right local_x local_z =
     (let four = f64_of_int 4;
          x_here = f64_of_int (int local_x); z_here = f64_of_int (int local_z);
          d0 = distance_squared x_here z_here (jitter random cell_x cell_z 0 0);
          d1 = distance_squared x_here z_here (jitter random (cell_x + 4) cell_z four 0);
          d2 = distance_squared x_here z_here (jitter random cell_x (cell_z + 4) 0 four);
          d3 = distance_squared x_here z_here (jitter random (cell_x + 4) (cell_z + 4) four four)
      in if f64_less d0 d1 \<and> f64_less d0 d2 \<and> f64_less d0 d3 then upper_left
         else if f64_less d1 d0 \<and> f64_less d1 d2 \<and> f64_less d1 d3 then upper_right
         else if f64_less d2 d0 \<and> f64_less d2 d1 \<and> f64_less d2 d3 then lower_left
         else lower_right)"

definition voronoi_column ::
  "LayerRandom \<Rightarrow> i32 list \<Rightarrow> nat \<Rightarrow> i32 \<Rightarrow> i32 \<Rightarrow> i32 \<Rightarrow> i32 \<Rightarrow> nat \<Rightarrow> nat \<Rightarrow> nat \<Rightarrow> nat
    \<Rightarrow> i32 \<times> i32 \<times> i32 list \<Rightarrow> i32 \<times> i32 \<times> i32 list" where
  "voronoi_column random input parent_width parent_x parent_z x z width height parent_row parent_column s =
     (case s of (upper_left, lower_left, out) \<Rightarrow>
        let upper_right = input ! (parent_column + 1 + parent_row * parent_width) AND 0xff;
            lower_right = input ! (parent_column + 1 + (parent_row + 1) * parent_width) AND 0xff;
            cell_x = add_coord parent_x parent_column * 4;
            cell_z = add_coord parent_z parent_row * 4
        in (upper_right, lower_right,
            project_cell width height x z cell_x cell_z 4
              (nearest_corner random cell_x cell_z upper_left upper_right lower_left lower_right) out))"

definition voronoi :: "LayerRandom \<Rightarrow> sampler \<Rightarrow> sampler" where
  "voronoi random parent x z width height =
     (let shifted_x = x - 2; shifted_z = z - 2
      in case parent_span shifted_x width 2 of (parent_x, parent_width) \<Rightarrow>
         case parent_span shifted_z height 2 of (parent_z, parent_height) \<Rightarrow>
           let input = parent parent_x parent_z parent_width parent_height
           in fold (\<lambda>parent_row out.
                  snd (snd (fold (voronoi_column random input parent_width parent_x parent_z shifted_x shifted_z width height parent_row)
                        [0..<parent_width - 1]
                        (input ! (parent_row * parent_width) AND 0xff, input ! ((parent_row + 1) * parent_width) AND 0xff, out))))
                [0..<parent_height - 1] (replicate (width * height) 0))"

section \<open>Sampling a layer\<close>

fun area :: "Layer \<Rightarrow> sampler" where
  "area (Layer random Island) x z width height = island random x z width height"
| "area (Layer random (Zoom parent fuzzy)) x z width height = zoom random (area parent) fuzzy x z width height"
| "area (Layer random (AddIsland parent)) x z width height = add_island random (area parent) x z width height"
| "area (Layer random (RemoveTooMuchOcean parent)) x z width height = remove_too_much_ocean random (area parent) x z width height"
| "area (Layer random (AddSnow parent)) x z width height = add_snow random (area parent) x z width height"
| "area (Layer random (AddEdge parent mode)) x z width height = add_edge random (area parent) mode x z width height"
| "area (Layer random (AddMushroomIsland parent)) x z width height = add_mushroom_island random (area parent) x z width height"
| "area (Layer random (DeepOcean parent)) x z width height = deep_ocean (area parent) x z width height"
| "area (Layer random (RiverInit parent)) x z width height = river_init random (area parent) x z width height"
| "area (Layer random (BiomeInit parent)) x z width height = biome_init random (area parent) x z width height"
| "area (Layer random (BiomeEdge parent)) x z width height = biome_edge (area parent) x z width height"
| "area (Layer random (RegionHills parent river_noise)) x z width height =
     region_hills random (area parent) (area river_noise) x z width height"
| "area (Layer random (RareBiomeSpot parent)) x z width height = rare_biome_spot random (area parent) x z width height"
| "area (Layer random (River parent)) x z width height = river (area parent) x z width height"
| "area (Layer random (Smooth parent)) x z width height = smooth random (area parent) x z width height"
| "area (Layer random (Shore parent)) x z width height = shore (area parent) x z width height"
| "area (Layer random (RiverMixer biomes rivers)) x z width height = river_mixer (area biomes) (area rivers) x z width height"
| "area (Layer random (VoronoiZoom parent)) x z width height = voronoi random (area parent) x z width height"

end
