(* ===== verification/BiomeArea.thy ===== *)
theory BiomeArea
  imports BiomeLayers
begin

text \<open>
  Sampling a window of a biome layer. The reference is \<open>cell\<close>, the value of a layer at one position, defined by recursion on
  the layer graph over unbounded coordinates. The main lemma says that \<open>area\<close> on any window away from the end of the
  coordinate range is \<open>cell\<close> at every position of the window, so windows that overlap agree. A second line of lemmas
  bounds the values a layer can emit, for all windows.
\<close>

section \<open>Clipped cells\<close>

definition project_row :: "nat \<Rightarrow> int \<Rightarrow> nat \<Rightarrow> (nat \<Rightarrow> i32) \<Rightarrow> nat \<Rightarrow> i32 list \<Rightarrow> i32 list" where
  "project_row w rx dz c local_x out =
     (let out_x = rx + int local_x in if out_x < 0 \<or> out_x \<ge> int w then out else out[nat out_x + dz * w := c local_x])"

lemma length_project_row [simp]: "length (fold (project_row w rx dz c) ks out) = length out"
  by (induction ks arbitrary: out) (simp_all add: project_row_def Let_def)

lemma project_row_nth:
  assumes ox: "ox < w" and dz: "dz < h" and len: "length out = w * h"
  shows "fold (project_row w rx dz c) [0..<n] out ! (ox + oz * w) =
    (if oz = dz \<and> rx \<le> int ox \<and> int ox < rx + int n then c (nat (int ox - rx)) else out ! (ox + oz * w))"
proof (induction n)
  case (Suc n)
  let ?o = "fold (project_row w rx dz c) [0..<n] out" and ?k = "rx + int n"
  show ?case
  proof (cases "?k < 0 \<or> ?k \<ge> int w")
    case True
    then have "\<not> (int ox = ?k)" using ox by auto
    then show ?thesis using Suc True by (auto simp: project_row_def Let_def)
  next
    case False
    then have k: "nat ?k < w" by auto
    have upd: "?o[nat ?k + dz * w := c n] ! (ox + oz * w) = (if ox = nat ?k \<and> oz = dz then c n else ?o ! (ox + oz * w))"
      using index_inj [OF k ox, of dz oz] index_bound [OF k dz] len by (auto simp: nth_list_update)
    have step: "fold (project_row w rx dz c) [0..<Suc n] out = ?o[nat ?k + dz * w := c n]"
      using False by (simp add: project_row_def Let_def)
    show ?thesis unfolding step upd using Suc False by (auto simp: le_less)
  qed
qed auto

definition project_line :: "nat \<Rightarrow> nat \<Rightarrow> int \<Rightarrow> int \<Rightarrow> nat \<Rightarrow> (nat \<Rightarrow> nat \<Rightarrow> i32) \<Rightarrow> nat \<Rightarrow> i32 list \<Rightarrow> i32 list" where
  "project_line w h rx rz edge c local_z out =
     (let out_z = rz + int local_z in if out_z < 0 \<or> out_z \<ge> int h then out
      else fold (project_row w rx (nat out_z) (\<lambda>local_x. c local_x local_z)) [0..<edge] out)"

lemma length_project_line [simp]: "length (fold (project_line w h rx rz edge c) ks out) = length out"
  by (induction ks arbitrary: out) (simp_all add: project_line_def Let_def)

lemma project_line_nth:
  assumes ox: "ox < w" and oz: "oz < h" and len: "length out = w * h"
  shows "fold (project_line w h rx rz edge c) [0..<n] out ! (ox + oz * w) =
    (if rz \<le> int oz \<and> int oz < rz + int n \<and> rx \<le> int ox \<and> int ox < rx + int edge
     then c (nat (int ox - rx)) (nat (int oz - rz)) else out ! (ox + oz * w))"
proof (induction n)
  case (Suc n)
  let ?o = "fold (project_line w h rx rz edge c) [0..<n] out" and ?k = "rz + int n"
  show ?case
  proof (cases "?k < 0 \<or> ?k \<ge> int h")
    case True
    then have "\<not> (int oz = ?k)" using oz by auto
    then show ?thesis using Suc True by (auto simp: project_line_def Let_def)
  next
    case False
    then have k: "nat ?k < h" by auto
    have step: "fold (project_line w h rx rz edge c) [0..<Suc n] out ! (ox + oz * w) =
        (if oz = nat ?k \<and> rx \<le> int ox \<and> int ox < rx + int edge then c (nat (int ox - rx)) n else ?o ! (ox + oz * w))"
      using False project_row_nth [OF ox k, of ?o rx "\<lambda>local_x. c local_x n" edge oz] len by (simp add: project_line_def Let_def)
    show ?thesis unfolding step Suc using False by (auto simp: le_less)
  qed
qed auto

lemma project_cell_alt:
  "project_cell w h area_x area_z cell_x cell_z edge c = fold (project_line w h (sint cell_x - sint area_x) (sint cell_z - sint area_z) edge c) [0..<edge]"
  unfolding project_cell_def project_line_def [abs_def] project_row_def [abs_def] Let_def by simp

lemma length_project_cell [simp]: "length (project_cell w h ax az cx cz edge c out) = length out"
  by (simp add: project_cell_alt)

lemma project_cell_nth:
  assumes "ox < w" and "oz < h" and "length out = w * h"
  shows "project_cell w h ax az cx cz edge c out ! (ox + oz * w) =
    (let lx = int ox - (sint cx - sint ax); lz = int oz - (sint cz - sint az)
     in if 0 \<le> lx \<and> lx < int edge \<and> 0 \<le> lz \<and> lz < int edge then c (nat lx) (nat lz) else out ! (ox + oz * w))"
  unfolding project_cell_alt project_line_nth [OF assms] Let_def by auto

section \<open>Tiling a window with cells\<close>

definition tile ::
  "nat \<Rightarrow> nat \<Rightarrow> i32 \<Rightarrow> i32 \<Rightarrow> i32 \<Rightarrow> i32 \<Rightarrow> nat \<Rightarrow> nat \<Rightarrow> nat \<Rightarrow> (nat \<Rightarrow> nat \<Rightarrow> nat \<Rightarrow> nat \<Rightarrow> i32) \<Rightarrow> i32 list" where
  "tile w h x z px pz rows columns edge V =
     fold (\<lambda>row. fold (\<lambda>column. project_cell w h x z (add_coord px column * of_nat edge) (add_coord pz row * of_nat edge) edge (V row column))
                 [0..<columns]) [0..<rows] (replicate (w * h) 0)"

lemma length_fold_cells [simp]: "length (fold (\<lambda>column. project_cell w h x z (cx column) (cz column) edge (V column)) ks out) = length out"
  by (induction ks arbitrary: out) simp_all

lemma length_fold_rows [simp]:
  "length (fold (\<lambda>row. fold (\<lambda>column. project_cell w h x z (cx column) (cz row) edge (V row column)) ks) rs out) = length out"
  by (induction rs arbitrary: out) simp_all

lemma length_tile [simp]: "length (tile w h x z px pz rows columns edge V) = w * h"
  by (simp add: tile_def)

lemma cell_hit: "0 < e \<Longrightarrow> 0 \<le> a - e * b \<and> a - e * b < e \<longleftrightarrow> a div e = b" for a b e :: int
proof
  assume "0 < e" "0 \<le> a - e * b \<and> a - e * b < e"
  then show "a div e = b" using int_div_pos_eq [of a e b "a - e * b"] by simp
next
  assume "0 < e" "a div e = b"
  then show "0 \<le> a - e * b \<and> a - e * b < e" by (metis minus_mult_div_eq_mod pos_mod_bound pos_mod_sign)
qed

lemma project_cell_hit:
  assumes "ox < w" and "oz < h" and "length out = w * h" and "0 < edge"
    and "sint cx = int edge * a" "sint cz = int edge * b"
  shows "project_cell w h ax az cx cz edge c out ! (ox + oz * w) =
    (if (sint ax + int ox) div int edge = a \<and> (sint az + int oz) div int edge = b
     then c (nat ((sint ax + int ox) mod int edge)) (nat ((sint az + int oz) mod int edge)) else out ! (ox + oz * w))"
proof -
  let ?X = "sint ax + int ox" and ?Z = "sint az + int oz"
  have e: "0 < int edge" using assms(4) by simp
  have l: "int ox - (sint cx - sint ax) = ?X - int edge * a" "int oz - (sint cz - sint az) = ?Z - int edge * b" using assms(5,6) by simp_all
  have hit: "?X div int edge = a \<Longrightarrow> ?X - int edge * a = ?X mod int edge" "?Z div int edge = b \<Longrightarrow> ?Z - int edge * b = ?Z mod int edge"
    by (auto simp: minus_mult_div_eq_mod)
  have "(0 \<le> ?X - int edge * a \<and> ?X - int edge * a < int edge \<and> 0 \<le> ?Z - int edge * b \<and> ?Z - int edge * b < int edge)
      \<longleftrightarrow> ?X div int edge = a \<and> ?Z div int edge = b"
    using cell_hit [OF e, of ?X a] cell_hit [OF e, of ?Z b] by blast
  then show ?thesis
    unfolding project_cell_nth [OF assms(1-3)] Let_def l
    by (cases "?X div int edge = a \<and> ?Z div int edge = b") (simp_all only: hit if_True if_False simp_thms)
qed

lemma tile_nth:
  assumes ox: "ox < w" and oz: "oz < h" and edge: "0 < edge"
    and cols: "\<And>column. column < columns \<Longrightarrow> sint (add_coord px column * of_nat edge) = int edge * (P + int column)"
    and rows: "\<And>row. row < rows \<Longrightarrow> sint (add_coord pz row * of_nat edge) = int edge * (Q + int row)"
    and c: "c < columns" "(sint x + int ox) div int edge = P + int c" and r: "r < rows" "(sint z + int oz) div int edge = Q + int r"
  shows "tile w h x z px pz rows columns edge V ! (ox + oz * w) =
    V r c (nat ((sint x + int ox) mod int edge)) (nat ((sint z + int oz) mod int edge))"
proof -
  let ?v = "V r c (nat ((sint x + int ox) mod int edge)) (nat ((sint z + int oz) mod int edge))"
  let ?cell = "\<lambda>row column. project_cell w h x z (add_coord px column * of_nat edge) (add_coord pz row * of_nat edge) edge (V row column)"
  have inner: "fold (?cell row) [0..<n] out ! (ox + oz * w) = (if row = r \<and> c < n then ?v else out ! (ox + oz * w))"
    if "n \<le> columns" "row < rows" "length out = w * h" for n row out
    using that(1)
  proof (induction n)
    case (Suc n)
    let ?o = "fold (?cell row) [0..<n] out"
    have len: "length ?o = w * h" using that(3) by simp
    have n: "n < columns" using Suc.prems by simp
    have "?cell row n ?o ! (ox + oz * w) = (if c = n \<and> r = row then ?v else ?o ! (ox + oz * w))"
      unfolding project_cell_hit [OF ox oz len edge cols [OF n] rows [OF that(2)]] c(2) r(2) by auto
    then have "fold (?cell row) [0..<Suc n] out ! (ox + oz * w) = (if c = n \<and> r = row then ?v else ?o ! (ox + oz * w))" by simp
    then show ?case using Suc by (auto simp: less_Suc_eq)
  qed simp
  have "fold (\<lambda>row. fold (?cell row) [0..<columns]) [0..<n] out ! (ox + oz * w) = (if r < n then ?v else out ! (ox + oz * w))"
    if "n \<le> rows" "length out = w * h" for n out
    using that(1)
  proof (induction n)
    case (Suc n)
    then show ?case using inner [of columns n "fold (\<lambda>row. fold (?cell row) [0..<columns]) [0..<n] out"] c(1) that(2) by (auto simp: less_Suc_eq)
  qed simp
  then show ?thesis using r(1) by (simp add: tile_def)
qed

lemma project_cell_values:
  assumes "\<And>v. v \<in> set out \<Longrightarrow> P v" and "\<And>lx lz. lx < edge \<Longrightarrow> lz < edge \<Longrightarrow> P (c lx lz)"
  shows "v \<in> set (project_cell w h ax az cx cz edge c out) \<Longrightarrow> P v"
proof -
  have row: "\<forall>v \<in> set (fold (project_row w rx dz (\<lambda>lx. c lx lz)) ks out). P v"
    if "\<forall>v \<in> set out. P v" "lz < edge" "set ks \<subseteq> {..<edge}" for rx dz lz ks out
    using that
  proof (induction ks arbitrary: out)
    case (Cons k ks)
    have "\<forall>v \<in> set (project_row w rx dz (\<lambda>lx. c lx lz) k out). P v"
      using Cons.prems assms(2) by (auto simp: project_row_def Let_def dest!: set_update_subset_insert [THEN subsetD])
    then show ?case using Cons by simp
  qed simp
  have line: "\<forall>v \<in> set (fold (project_line w h rx rz edge c) ks out). P v"
    if "\<forall>v \<in> set out. P v" "set ks \<subseteq> {..<edge}" for rx rz ks out
    using that
  proof (induction ks arbitrary: out)
    case (Cons k ks)
    have "\<forall>v \<in> set (project_line w h rx rz edge c k out). P v"
      using Cons.prems row [of out k "[0..<edge]" rx "nat (rz + int k)"] by (auto simp: project_line_def Let_def lessThan_atLeast0)
    then show ?case using Cons by simp
  qed simp
  show "v \<in> set (project_cell w h ax az cx cz edge c out) \<Longrightarrow> P v"
    using line [of out "[0..<edge]" "sint cx - sint ax" "sint cz - sint az"] assms(1) by (auto simp: project_cell_alt lessThan_atLeast0)
qed

lemma tile_values:
  assumes "P 0" and V: "\<And>r c lx lz. r < rows \<Longrightarrow> c < columns \<Longrightarrow> lx < edge \<Longrightarrow> lz < edge \<Longrightarrow> P (V r c lx lz)"
  shows "v \<in> set (tile w h x z px pz rows columns edge V) \<Longrightarrow> P v"
proof -
  let ?cell = "\<lambda>row column. project_cell w h x z (add_coord px column * of_nat edge) (add_coord pz row * of_nat edge) edge (V row column)"
  have inner: "\<forall>v \<in> set (fold (?cell row) ks out). P v" if "\<forall>v \<in> set out. P v" "row < rows" "set ks \<subseteq> {..<columns}" for row ks out
    using that
  proof (induction ks arbitrary: out)
    case (Cons k ks)
    have k: "k < columns" and rest: "set ks \<subseteq> {..<columns}" using Cons.prems(3) by auto
    have "P v" if "v \<in> set (?cell row k out)" for v
      by (rule project_cell_values [OF _ _ that]) (use Cons.prems(1) V [OF Cons.prems(2) k] in blast)+
    then show ?case using Cons.IH [OF _ Cons.prems(2) rest, of "?cell row k out"] by simp
  qed simp
  have "\<forall>v \<in> set (fold (\<lambda>row. fold (?cell row) [0..<columns]) ks out). P v" if "\<forall>v \<in> set out. P v" "set ks \<subseteq> {..<rows}" for ks out
    using that
  proof (induction ks arbitrary: out)
    case (Cons k ks)
    then show ?case using inner [of out k "[0..<columns]"] by (auto simp: lessThan_atLeast0)
  qed simp
  from this [of "replicate (w * h) 0" "[0..<rows]"] assms(1) show "v \<in> set (tile w h x z px pz rows columns edge V) \<Longrightarrow> P v"
    by (auto simp: tile_def lessThan_atLeast0)
qed

section \<open>The zoom layers as tilings\<close>

lemma fold_scan:
  assumes "\<And>k out. k < n \<Longrightarrow> step k (U k, L k, out) = (U (Suc k), L (Suc k), g k out)"
  shows "fold step [0..<n] (U 0, L 0, out) = (U n, L n, fold g [0..<n] out)"
  using assms by (induction n) auto

definition zoom_tile :: "LayerRandom \<Rightarrow> bool \<Rightarrow> i32 \<Rightarrow> i32 \<Rightarrow> i32 list \<Rightarrow> nat \<Rightarrow> nat \<Rightarrow> nat \<Rightarrow> nat \<Rightarrow> nat \<Rightarrow> i32" where
  "zoom_tile random fuzzy px pz input pw row column local_x local_z =
     zoom_values random fuzzy (add_coord px column * 2) (add_coord pz row * 2)
       (input ! (column + row * pw)) (input ! (column + 1 + row * pw))
       (input ! (column + (row + 1) * pw)) (input ! (column + 1 + (row + 1) * pw)) ! (local_x + local_z * 2)"

lemma zoom_tiles:
  assumes "parent_span x width 1 = (px, pw)" and "parent_span z height 1 = (pz, ph)" and "input = parent px pz pw ph"
  shows "zoom random parent fuzzy x z width height = tile width height x z px pz (ph - 1) (pw - 1) 2 (zoom_tile random fuzzy px pz input pw)"
proof -
  have "fold (zoom_column random fuzzy input pw px pz x z width height row) [0..<n] (input ! (row * pw), input ! ((row + 1) * pw), out) =
     (input ! (n + row * pw), input ! (n + (row + 1) * pw),
      fold (\<lambda>column. project_cell width height x z (add_coord px column * 2) (add_coord pz row * 2) 2
              (zoom_tile random fuzzy px pz input pw row column)) [0..<n] out)" for row n out
    using fold_scan [of n "zoom_column random fuzzy input pw px pz x z width height row" "\<lambda>k. input ! (k + row * pw)" "\<lambda>k. input ! (k + (row + 1) * pw)"]
    by (simp add: zoom_column_def Let_def zoom_tile_def [abs_def])
  then show ?thesis by (simp add: zoom_def assms(1,2) [simplified] assms(3) tile_def)
qed

definition voronoi_tile :: "LayerRandom \<Rightarrow> i32 \<Rightarrow> i32 \<Rightarrow> i32 list \<Rightarrow> nat \<Rightarrow> nat \<Rightarrow> nat \<Rightarrow> nat \<Rightarrow> nat \<Rightarrow> i32" where
  "voronoi_tile random px pz input pw row column =
     nearest_corner random (add_coord px column * 4) (add_coord pz row * 4)
       (input ! (column + row * pw) AND 0xff) (input ! (column + 1 + row * pw) AND 0xff)
       (input ! (column + (row + 1) * pw) AND 0xff) (input ! (column + 1 + (row + 1) * pw) AND 0xff)"

lemma voronoi_tiles:
  assumes "parent_span (x - 2) width 2 = (px, pw)" and "parent_span (z - 2) height 2 = (pz, ph)" and "input = parent px pz pw ph"
  shows "voronoi random parent x z width height =
    tile width height (x - 2) (z - 2) px pz (ph - 1) (pw - 1) 4 (voronoi_tile random px pz input pw)"
proof -
  have "fold (voronoi_column random input pw px pz (x - 2) (z - 2) width height row) [0..<n]
      (input ! (row * pw) AND 0xff, input ! ((row + 1) * pw) AND 0xff, out) =
     (input ! (n + row * pw) AND 0xff, input ! (n + (row + 1) * pw) AND 0xff,
      fold (\<lambda>column. project_cell width height (x - 2) (z - 2) (add_coord px column * 4) (add_coord pz row * 4) 4
              (voronoi_tile random px pz input pw row column)) [0..<n] out)" for row n out
    using fold_scan [of n "voronoi_column random input pw px pz (x - 2) (z - 2) width height row"
        "\<lambda>k. input ! (k + row * pw) AND 0xff" "\<lambda>k. input ! (k + (row + 1) * pw) AND 0xff"]
    by (simp add: voronoi_column_def Let_def voronoi_tile_def [abs_def])
  then show ?thesis by (simp add: voronoi_def assms tile_def Let_def)
qed

section \<open>The value of a layer at a position\<close>

definition at_pos :: "LayerRandom \<Rightarrow> int \<Rightarrow> int \<Rightarrow> ChunkRandom" where
  "at_pos random x z = LayerRandom_at random (word_of_int x) (word_of_int z)"

text \<open>A value computed from a position and its four neighbours, and one computed from its four diagonal neighbours.\<close>

definition cross :: "(i32 \<Rightarrow> i32 \<Rightarrow> i32 \<Rightarrow> i32 \<Rightarrow> i32 \<Rightarrow> 'a) \<Rightarrow> (int \<Rightarrow> int \<Rightarrow> i32) \<Rightarrow> int \<Rightarrow> int \<Rightarrow> 'a" where
  "cross f c x z = f (c x z) (c x (z - 1)) (c (x + 1) z) (c (x - 1) z) (c x (z + 1))"

definition corners :: "(i32 \<Rightarrow> i32 \<Rightarrow> i32 \<Rightarrow> i32 \<Rightarrow> i32 \<Rightarrow> 'a) \<Rightarrow> (int \<Rightarrow> int \<Rightarrow> i32) \<Rightarrow> int \<Rightarrow> int \<Rightarrow> 'a" where
  "corners f c x z = f (c (x - 1) (z - 1)) (c (x + 1) (z - 1)) (c (x - 1) (z + 1)) (c (x + 1) (z + 1)) (c x z)"

definition island_cell :: "LayerRandom \<Rightarrow> int \<Rightarrow> int \<Rightarrow> i32" where
  "island_cell random x z = (if x = 0 \<and> z = 0 then CLIMATE_WARM else if draw 10 (at_pos random x z) = 0 then CLIMATE_WARM else OCEAN)"

definition zoom_cell :: "LayerRandom \<Rightarrow> bool \<Rightarrow> (int \<Rightarrow> int \<Rightarrow> i32) \<Rightarrow> int \<Rightarrow> int \<Rightarrow> i32" where
  "zoom_cell random fuzzy c x z =
     (let px = x div 2; pz = z div 2
      in zoom_values random fuzzy (word_of_int (2 * px)) (word_of_int (2 * pz)) (c px pz) (c (px + 1) pz) (c px (pz + 1)) (c (px + 1) (pz + 1))
           ! (nat (x mod 2) + nat (z mod 2) * 2))"

definition voronoi_cell :: "LayerRandom \<Rightarrow> (int \<Rightarrow> int \<Rightarrow> i32) \<Rightarrow> int \<Rightarrow> int \<Rightarrow> i32" where
  "voronoi_cell random c x z =
     (let px = (x - 2) div 4; pz = (z - 2) div 4
      in nearest_corner random (word_of_int (4 * px)) (word_of_int (4 * pz)) (c px pz AND 0xff) (c (px + 1) pz AND 0xff)
           (c px (pz + 1) AND 0xff) (c (px + 1) (pz + 1) AND 0xff) (nat ((x - 2) mod 4)) (nat ((z - 2) mod 4)))"

fun cell :: "Layer \<Rightarrow> int \<Rightarrow> int \<Rightarrow> i32" where
  "cell (Layer random Island) x z = island_cell random x z"
| "cell (Layer random (Zoom parent fuzzy)) x z = zoom_cell random fuzzy (cell parent) x z"
| "cell (Layer random (AddIsland parent)) x z = corners grown_island (cell parent) x z (at_pos random x z)"
| "cell (Layer random (RemoveTooMuchOcean parent)) x z = cross (warmed_ocean random) (cell parent) x z (word_of_int x) (word_of_int z)"
| "cell (Layer random (AddSnow parent)) x z = snow_climate (cell parent x z) (at_pos random x z)"
| "cell (Layer random (AddEdge parent mode)) x z =
     (if mode = Special then special_climate random (word_of_int x) (word_of_int z) (cell parent x z)
      else cross (edge_climate mode) (cell parent) x z)"
| "cell (Layer random (AddMushroomIsland parent)) x z = corners mushroom_climate (cell parent) x z (at_pos random x z)"
| "cell (Layer random (DeepOcean parent)) x z = cross deep_climate (cell parent) x z"
| "cell (Layer random (RiverInit parent)) x z = river_noise_value (cell parent x z) (at_pos random x z)"
| "cell (Layer random (BiomeInit parent)) x z = climate_biome (cell parent x z) (at_pos random x z)"
| "cell (Layer random (BiomeEdge parent)) x z = cross edge_biome (cell parent) x z"
| "cell (Layer random (RegionHills parent river_noise)) x z =
     cross (\<lambda>biome n e w s. region_biome biome (cell river_noise x z) [n, e, w, s] (at_pos random x z)) (cell parent) x z"
| "cell (Layer random (RareBiomeSpot parent)) x z = rare_biome (cell parent x z) (at_pos random x z)"
| "cell (Layer random (River parent)) x z = cross river_value (cell parent) x z"
| "cell (Layer random (Smooth parent)) x z = cross (smooth_value random) (cell parent) x z (word_of_int x) (word_of_int z)"
| "cell (Layer random (Shore parent)) x z = cross shore_biome (cell parent) x z"
| "cell (Layer random (RiverMixer biomes rivers)) x z = mix_river (cell biomes x z) (cell rivers x z)"
| "cell (Layer random (VoronoiZoom parent)) x z = voronoi_cell random (cell parent) x z"

section \<open>Windows inside the coordinate range\<close>

definition inside :: "int \<Rightarrow> i32 \<Rightarrow> nat \<Rightarrow> bool" where
  "inside B x w \<longleftrightarrow> - B \<le> sint x \<and> sint x + int w \<le> B"

definition cellwise :: "int \<Rightarrow> sampler \<Rightarrow> (int \<Rightarrow> int \<Rightarrow> i32) \<Rightarrow> bool" where
  "cellwise B p c \<longleftrightarrow> (\<forall>x z w h. 0 < w \<longrightarrow> 0 < h \<longrightarrow> inside B x w \<longrightarrow> inside B z h
     \<longrightarrow> p x z w h = raster w h (\<lambda>dx dz. c (sint x + int dx) (sint z + int dz)))"

lemma cellwiseD: "cellwise B p c \<Longrightarrow> 0 < w \<Longrightarrow> 0 < h \<Longrightarrow> inside B x w \<Longrightarrow> inside B z h
    \<Longrightarrow> p x z w h = raster w h (\<lambda>dx dz. c (sint x + int dx) (sint z + int dz))"
  by (simp add: cellwise_def)

lemma add_coord_int: "add_coord x dx = word_of_int (sint x + int dx)"
  by (simp add: add_coord_def)

lemma sint_sub: "- (2 ^ 31) \<le> sint x - k \<Longrightarrow> 0 \<le> k \<Longrightarrow> sint (x - word_of_int k) = sint x - k" for x :: i32
  using sint_of_i32 [of "sint x - k"] sint_less [of x] by simp

lemma inside_sub_1:
  assumes "inside B x w" and "B < 2 ^ 31"
  shows "sint (x - 1) = sint x - 1" and "inside (B + 1) (x - 1) (w + 2)"
  using sint_sub [of x 1] assms by (auto simp: inside_def)

lemma at_add_coord: "LayerRandom_at random (add_coord x dx) (add_coord z dz) = at_pos random (sint x + int dx) (sint z + int dz)"
  by (simp add: at_pos_def add_coord_int)

lemma framed_nth:
  assumes p: "cellwise (B + 1) p c" and B: "B < 2 ^ 31" and win: "0 < w" "0 < h" "inside B x w" "inside B z h"
    and d: "a < w + 2" "b < h + 2"
  shows "p (x - 1) (z - 1) (w + 2) (h + 2) ! (a + b * (w + 2)) = c (sint x + int a - 1) (sint z + int b - 1)"
proof -
  note X = inside_sub_1 [OF win(3) B] and Z = inside_sub_1 [OF win(4) B]
  show ?thesis
    using cellwiseD [OF p _ _ X(2) Z(2)] nth_raster [OF d] by (simp add: X(1) Z(1) algebra_simps)
qed

lemma neighborhood_cellwise:
  assumes p: "cellwise (B + 1) p c" and B: "B < 2 ^ 31"
  shows "cellwise B (\<lambda>x z w h. neighborhood p x z w h f) (\<lambda>x z. cross f c x z (word_of_int x) (word_of_int z))"
  unfolding cellwise_def
proof (intro allI impI)
  fix x z w h
  assume win: "0 < w" "0 < h" "inside B x w" "inside B z h"
  note F = framed_nth [OF p B win]
  show "neighborhood p x z w h f = raster w h (\<lambda>dx dz. cross f c (sint x + int dx) (sint z + int dz) (word_of_int (sint x + int dx)) (word_of_int (sint z + int dz)))"
    unfolding neighborhood_def Let_def
  proof (rule raster_cong)
    fix dx dz
    assume "dx < w" "dz < h"
    then show "f (p (x - 1) (z - 1) (w + 2) (h + 2) ! (dx + 1 + (dz + 1) * (w + 2))) (p (x - 1) (z - 1) (w + 2) (h + 2) ! (dx + 1 + dz * (w + 2)))
        (p (x - 1) (z - 1) (w + 2) (h + 2) ! (dx + 2 + (dz + 1) * (w + 2))) (p (x - 1) (z - 1) (w + 2) (h + 2) ! (dx + (dz + 1) * (w + 2)))
        (p (x - 1) (z - 1) (w + 2) (h + 2) ! (dx + 1 + (dz + 2) * (w + 2))) (add_coord x dx) (add_coord z dz) =
      cross f c (sint x + int dx) (sint z + int dz) (word_of_int (sint x + int dx)) (word_of_int (sint z + int dz))"
      using F [of "dx + 1" "dz + 1"] F [of "dx + 1" dz] F [of "dx + 2" "dz + 1"] F [of dx "dz + 1"] F [of "dx + 1" "dz + 2"]
      by (simp add: cross_def add_coord_int algebra_simps)
  qed
qed

lemma raster_cellwiseI:
  assumes "\<And>x z w h dx dz. 0 < w \<Longrightarrow> 0 < h \<Longrightarrow> inside B x w \<Longrightarrow> inside B z h \<Longrightarrow> dx < w \<Longrightarrow> dz < h
     \<Longrightarrow> g x z w h dx dz = c (sint x + int dx) (sint z + int dz)"
  shows "cellwise B (\<lambda>x z w h. raster w h (g x z w h)) c"
  unfolding cellwise_def using assms by (auto intro: raster_cong)

lemma add_island_cellwise:
  assumes p: "cellwise (B + 1) p c" and B: "B < 2 ^ 31"
  shows "cellwise B (add_island random p) (\<lambda>x z. corners grown_island c x z (at_pos random x z))"
  unfolding add_island_def [abs_def] Let_def
proof (rule raster_cellwiseI)
  fix x z w h dx dz
  assume win: "0 < w" "0 < h" "inside B x w" "inside B z h" and d: "dx < w" "dz < h"
  note F = framed_nth [OF p B win]
  show "grown_island (p (x - 1) (z - 1) (w + 2) (h + 2) ! (dx + dz * (w + 2))) (p (x - 1) (z - 1) (w + 2) (h + 2) ! (dx + 2 + dz * (w + 2)))
      (p (x - 1) (z - 1) (w + 2) (h + 2) ! (dx + (dz + 2) * (w + 2))) (p (x - 1) (z - 1) (w + 2) (h + 2) ! (dx + 2 + (dz + 2) * (w + 2)))
      (p (x - 1) (z - 1) (w + 2) (h + 2) ! (dx + 1 + (dz + 1) * (w + 2))) (LayerRandom_at random (add_coord x dx) (add_coord z dz)) =
    corners grown_island c (sint x + int dx) (sint z + int dz) (at_pos random (sint x + int dx) (sint z + int dz))"
    using F [of dx dz] F [of "dx + 2" dz] F [of dx "dz + 2"] F [of "dx + 2" "dz + 2"] F [of "dx + 1" "dz + 1"] d
    by (simp add: corners_def at_add_coord algebra_simps)
qed

lemma add_mushroom_island_cellwise:
  assumes p: "cellwise (B + 1) p c" and B: "B < 2 ^ 31"
  shows "cellwise B (add_mushroom_island random p) (\<lambda>x z. corners mushroom_climate c x z (at_pos random x z))"
  unfolding add_mushroom_island_def [abs_def] Let_def
proof (rule raster_cellwiseI)
  fix x z w h dx dz
  assume win: "0 < w" "0 < h" "inside B x w" "inside B z h" and d: "dx < w" "dz < h"
  note F = framed_nth [OF p B win]
  show "mushroom_climate (p (x - 1) (z - 1) (w + 2) (h + 2) ! (dx + dz * (w + 2))) (p (x - 1) (z - 1) (w + 2) (h + 2) ! (dx + 2 + dz * (w + 2)))
      (p (x - 1) (z - 1) (w + 2) (h + 2) ! (dx + (dz + 2) * (w + 2))) (p (x - 1) (z - 1) (w + 2) (h + 2) ! (dx + 2 + (dz + 2) * (w + 2)))
      (p (x - 1) (z - 1) (w + 2) (h + 2) ! (dx + 1 + (dz + 1) * (w + 2))) (LayerRandom_at random (add_coord x dx) (add_coord z dz)) =
    corners mushroom_climate c (sint x + int dx) (sint z + int dz) (at_pos random (sint x + int dx) (sint z + int dz))"
    using F [of dx dz] F [of "dx + 2" dz] F [of dx "dz + 2"] F [of "dx + 2" "dz + 2"] F [of "dx + 1" "dz + 1"] d
    by (simp add: corners_def at_add_coord algebra_simps)
qed

lemma add_snow_cellwise:
  assumes p: "cellwise (B + 1) p c" and B: "B < 2 ^ 31"
  shows "cellwise B (add_snow random p) (\<lambda>x z. snow_climate (c x z) (at_pos random x z))"
  unfolding add_snow_def [abs_def] Let_def
proof (rule raster_cellwiseI)
  fix x z w h dx dz
  assume win: "0 < w" "0 < h" "inside B x w" "inside B z h" and d: "dx < w" "dz < h"
  show "snow_climate (p (x - 1) (z - 1) (w + 2) (h + 2) ! (dx + 1 + (dz + 1) * (w + 2))) (LayerRandom_at random (add_coord x dx) (add_coord z dz)) =
    snow_climate (c (sint x + int dx) (sint z + int dz)) (at_pos random (sint x + int dx) (sint z + int dz))"
    using framed_nth [OF p B win, of "dx + 1" "dz + 1"] d by (simp add: at_add_coord algebra_simps)
qed

lemma region_hills_cellwise:
  assumes p: "cellwise (B + 1) p c" and q: "cellwise (B + 1) q n" and B: "B < 2 ^ 31"
  shows "cellwise B (region_hills random p q)
    (\<lambda>x z. cross (\<lambda>biome no e w s. region_biome biome (n x z) [no, e, w, s] (at_pos random x z)) c x z)"
  unfolding region_hills_def [abs_def] Let_def
proof (rule raster_cellwiseI)
  fix x z w h dx dz
  assume win: "0 < w" "0 < h" "inside B x w" "inside B z h" and d: "dx < w" "dz < h"
  note F = framed_nth [OF p B win] and N = framed_nth [OF q B win]
  show "region_biome (p (x - 1) (z - 1) (w + 2) (h + 2) ! (dx + 1 + (dz + 1) * (w + 2))) (q (x - 1) (z - 1) (w + 2) (h + 2) ! (dx + 1 + (dz + 1) * (w + 2)))
      [p (x - 1) (z - 1) (w + 2) (h + 2) ! (dx + 1 + dz * (w + 2)), p (x - 1) (z - 1) (w + 2) (h + 2) ! (dx + 2 + (dz + 1) * (w + 2)),
       p (x - 1) (z - 1) (w + 2) (h + 2) ! (dx + (dz + 1) * (w + 2)), p (x - 1) (z - 1) (w + 2) (h + 2) ! (dx + 1 + (dz + 2) * (w + 2))]
      (LayerRandom_at random (add_coord x dx) (add_coord z dz)) =
    cross (\<lambda>biome no e w s. region_biome biome (n (sint x + int dx) (sint z + int dz)) [no, e, w, s] (at_pos random (sint x + int dx) (sint z + int dz)))
      c (sint x + int dx) (sint z + int dz)"
    using F [of "dx + 1" "dz + 1"] F [of "dx + 1" dz] F [of "dx + 2" "dz + 1"] F [of dx "dz + 1"] F [of "dx + 1" "dz + 2"] N [of "dx + 1" "dz + 1"] d
    by (simp add: cross_def at_add_coord algebra_simps)
qed

lemma pointwise_cellwise:
  assumes p: "cellwise B p c"
  shows "cellwise B (\<lambda>x z w h. map (\<lambda>(index, v). f (add_coord x (index mod w)) (add_coord z (index div w)) v) (enumerate 0 (p x z w h)))
    (\<lambda>x z. f (word_of_int x) (word_of_int z) (c x z))"
  unfolding cellwise_def
proof (intro allI impI)
  fix x z w h
  assume win: "0 < w" "0 < h" "inside B x w" "inside B z h"
  show "map (\<lambda>(index, v). f (add_coord x (index mod w)) (add_coord z (index div w)) v) (enumerate 0 (p x z w h)) =
    raster w h (\<lambda>dx dz. f (word_of_int (sint x + int dx)) (word_of_int (sint z + int dz)) (c (sint x + int dx) (sint z + int dz)))"
    unfolding cellwiseD [OF p win]
    by (subst map_enumerate_raster [of "\<lambda>dx dz. f (add_coord x dx) (add_coord z dz)"]) (simp add: add_coord_int)
qed

lemma river_mixer_cellwise:
  assumes "cellwise B p c" and "cellwise B q r"
  shows "cellwise B (river_mixer p q) (\<lambda>x z. mix_river (c x z) (r x z))"
  unfolding cellwise_def river_mixer_def
  using cellwiseD [OF assms(1)] cellwiseD [OF assms(2)] by (simp add: zip_raster map_raster)

lemma cellwise_mono: "cellwise B p c \<Longrightarrow> B' \<le> B \<Longrightarrow> cellwise B' p c"
  by (fastforce simp: cellwise_def inside_def)

lemma island_cellwise:
  assumes B: "B < 2 ^ 31"
  shows "cellwise B (island random) (island_cell random)"
  unfolding cellwise_def
proof (intro allI impI)
  fix x z w h
  assume win: "0 < w" "0 < h" "inside B x w" "inside B z h"
  let ?o = "raster w h (\<lambda>dx dz. if draw 10 (LayerRandom_at random (add_coord x dx) (add_coord z dz)) = 0 then CLIMATE_WARM else OCEAN)"
  show "island random x z w h = raster w h (\<lambda>dx dz. island_cell random (sint x + int dx) (sint z + int dz))"
  proof (rule raster_eqI)
    fix dx dz
    assume d: "dx < w" "dz < h"
    let ?origin = "sint x \<le> 0 \<and> sint z \<le> 0 \<and> sint x + int w > 0 \<and> sint z + int h > 0"
    have base: "?o ! (dx + dz * w) = (if draw 10 (at_pos random (sint x + int dx) (sint z + int dz)) = 0 then CLIMATE_WARM else OCEAN)"
      unfolding nth_raster [OF d] at_add_coord by (rule refl)
    show "island random x z w h ! (dx + dz * w) = island_cell random (sint x + int dx) (sint z + int dz)"
    proof (cases ?origin)
      case True
      then have "nat (- sint x) < w" "nat (- sint z) < h" by auto
      then have "?o[nat (- sint x) + nat (- sint z) * w := CLIMATE_WARM] ! (dx + dz * w) =
          (if nat (- sint x) = dx \<and> nat (- sint z) = dz then CLIMATE_WARM else ?o ! (dx + dz * w))"
        using index_inj [of "nat (- sint x)" w dx "nat (- sint z)" dz] d index_bound [of "nat (- sint x)" w "nat (- sint z)" h]
        by (auto simp: nth_list_update)
      moreover have "nat (- sint x) = dx \<and> nat (- sint z) = dz \<longleftrightarrow> sint x + int dx = 0 \<and> sint z + int dz = 0" using True by auto
      ultimately show ?thesis using True base by (simp add: island_def Let_def island_cell_def)
    next
      case False
      then have "\<not> (sint x + int dx = 0 \<and> sint z + int dz = 0)" using d by auto
      then show ?thesis using False base by (auto simp: island_def Let_def island_cell_def)
    qed
  qed (auto simp: island_def Let_def)
qed

text \<open>The parent window of a zoom, one row and one column longer than the cells that touch the window.\<close>

lemma parent_span_ok:
  assumes span: "parent_span x w s = (px, pw)" and e: "e = 2 ^ s" "e \<in> {2, 4 :: int}" and w: "0 < w"
    and win: "- (B + 2) \<le> sint x" "sint x + int w \<le> B" "4 \<le> B" "B + 5 \<le> 2 ^ 31"
  shows "sint px = sint x div e" and "int pw = (sint x + int w - 1) div e - sint x div e + 2" and "inside B px pw"
    and "column < pw - 1 \<Longrightarrow> sint (add_coord px column * word_of_int e) = e * (sint x div e + int column)"
    and "ox < w \<Longrightarrow> \<exists>c < pw - 1. (sint x + int ox) div e = sint x div e + int c"
proof -
  let ?X = "sint x" and ?s = "sint x div e" and ?t = "(sint x + int w - 1) div e"
  have len: "int (w - 1) = int w - 1" using w by (simp add: of_nat_diff)
  then have span': "px = word_of_int ?s" "pw = nat (?t - ?s + 2)" using span by (auto simp: parent_span_def Let_def e(1) algebra_simps)
  have pos: "0 < e" using e(2) by auto
  have mono: "?s \<le> ?t" using w pos by (intro zdiv_mono1) auto
  have low: "- B \<le> ?s" "?t + 2 \<le> B" using e(2) win by auto
  show px: "sint px = ?s" unfolding span' by (rule sint_of_i32) (use low mono win in auto)
  show pw: "int pw = ?t - ?s + 2" using mono by (simp add: span')
  show "inside B px pw" using low pw px by (simp add: inside_def)
  show "sint (add_coord px column * word_of_int e) = e * (?s + int column)" if "column < pw - 1"
  proof -
    have c: "?s + int column \<le> ?t" using that pw by auto
    have "e * ?t \<le> ?X + int w - 1" using pos by (metis div_mod_decomp_int add_increasing2 dual_order.refl mult.commute pos_mod_sign)
    then have up: "e * (?s + int column) \<le> ?X + int w - 1" using mult_left_mono [OF c, of e] pos by linarith
    have "?X - e < e * ?s" using pos by (metis add_less_cancel_left add_strict_left_mono diff_less_eq mult_div_mod_eq pos_mod_bound)
    moreover have "e * ?s \<le> e * (?s + int column)" using pos by (intro mult_left_mono) auto
    ultimately have down: "?X - 4 < e * (?s + int column)" using e(2) by auto
    have "add_coord px column * word_of_int e = word_of_int (e * (?s + int column))" by (simp add: add_coord_int px algebra_simps)
    then show ?thesis using sint_of_i32 [of "e * (?s + int column)"] up down win by simp
  qed
  show "\<exists>c < pw - 1. (?X + int ox) div e = ?s + int c" if "ox < w"
  proof -
    have "?s \<le> (?X + int ox) div e" "(?X + int ox) div e \<le> ?t" using that pos by (intro zdiv_mono1; simp)+
    then show ?thesis using pw by (intro exI [of _ "nat ((?X + int ox) div e - ?s)"]) auto
  qed
qed

lemma zoom_cellwise:
  assumes p: "cellwise B p c" and B: "4 \<le> B" "B + 5 \<le> 2 ^ 31"
  shows "cellwise B (zoom random p fuzzy) (zoom_cell random fuzzy c)"
  unfolding cellwise_def
proof (intro allI impI)
  fix x z w h
  assume win: "0 < w" "0 < h" "inside B x w" "inside B z h"
  obtain px pw where sx: "parent_span x w 1 = (px, pw)" by fastforce
  obtain pz ph where sz: "parent_span z h 1 = (pz, ph)" by fastforce
  have bx: "- (B + 2) \<le> sint x" "sint x + int w \<le> B" and bz: "- (B + 2) \<le> sint z" "sint z + int h \<le> B" using win by (auto simp: inside_def)
  have two: "(2 :: int) = 2 ^ 1" "(2 :: int) \<in> {2, 4}" by simp_all
  note X = parent_span_ok [OF sx two win(1) bx B] and Z = parent_span_ok [OF sz two win(2) bz B]
  let ?input = "p px pz pw ph"
  have "0 < pw" "0 < ph" using X(2) Z(2) X(5) [OF win(1)] Z(5) [OF win(2)] by auto
  note I = cellwiseD [OF p this X(3) Z(3)]
  have input: "?input ! (a + b * pw) = c (sint x div 2 + int a) (sint z div 2 + int b)" if "a < pw" "b < ph" for a b
    unfolding I nth_raster [OF that] X(1) Z(1) by (rule refl)
  show "zoom random p fuzzy x z w h = raster w h (\<lambda>dx dz. zoom_cell random fuzzy c (sint x + int dx) (sint z + int dz))"
    unfolding zoom_tiles [OF sx sz refl]
  proof (rule raster_eqI)
    fix dx dz
    assume d: "dx < w" "dz < h"
    obtain a where a: "a < pw - 1" "(sint x + int dx) div 2 = sint x div 2 + int a" using X(5) [OF d(1)] by blast
    obtain b where b: "b < ph - 1" "(sint z + int dz) div 2 = sint z div 2 + int b" using Z(5) [OF d(2)] by blast
    have "tile w h x z px pz (ph - 1) (pw - 1) 2 (zoom_tile random fuzzy px pz ?input pw) ! (dx + dz * w) =
        zoom_tile random fuzzy px pz ?input pw b a (nat ((sint x + int dx) mod 2)) (nat ((sint z + int dz) mod 2))"
      using tile_nth [OF d, of 2 "pw - 1" px "sint x div 2" "ph - 1" pz "sint z div 2" a x b z] X(4) Z(4) a b by simp
    also have "\<dots> = zoom_cell random fuzzy c (sint x + int dx) (sint z + int dz)"
      using a b input [of a b] input [of "a + 1" b] input [of a "b + 1"] input [of "a + 1" "b + 1"]
      by (simp add: zoom_tile_def zoom_cell_def Let_def add_coord_int X(1) Z(1) algebra_simps)
    finally show "tile w h x z px pz (ph - 1) (pw - 1) 2 (zoom_tile random fuzzy px pz ?input pw) ! (dx + dz * w) =
      zoom_cell random fuzzy c (sint x + int dx) (sint z + int dz)" .
  qed simp
qed

lemma voronoi_cellwise:
  assumes p: "cellwise B p c" and B: "4 \<le> B" "B + 5 \<le> 2 ^ 31"
  shows "cellwise B (voronoi random p) (voronoi_cell random c)"
  unfolding cellwise_def
proof (intro allI impI)
  fix x z w h
  assume win: "0 < w" "0 < h" "inside B x w" "inside B z h"
  obtain px pw where sx: "parent_span (x - 2) w 2 = (px, pw)" by fastforce
  obtain pz ph where sz: "parent_span (z - 2) h 2 = (pz, ph)" by fastforce
  have shift: "sint (x - 2) = sint x - 2" "sint (z - 2) = sint z - 2"
    using sint_sub [of x 2] sint_sub [of z 2] win(3,4) B by (auto simp: inside_def)
  then have bx: "- (B + 2) \<le> sint (x - 2)" "sint (x - 2) + int w \<le> B" and bz: "- (B + 2) \<le> sint (z - 2)" "sint (z - 2) + int h \<le> B"
    using win by (auto simp: inside_def)
  have four: "(4 :: int) = 2 ^ 2" "(4 :: int) \<in> {2, 4}" by simp_all
  note X = parent_span_ok [OF sx four win(1) bx B] and Z = parent_span_ok [OF sz four win(2) bz B]
  let ?input = "p px pz pw ph"
  have "0 < pw" "0 < ph" using X(2) Z(2) X(5) [OF win(1)] Z(5) [OF win(2)] by auto
  note I = cellwiseD [OF p this X(3) Z(3)]
  have input: "?input ! (a + b * pw) = c (sint (x - 2) div 4 + int a) (sint (z - 2) div 4 + int b)" if "a < pw" "b < ph" for a b
    unfolding I nth_raster [OF that] X(1) Z(1) by (rule refl)
  show "voronoi random p x z w h = raster w h (\<lambda>dx dz. voronoi_cell random c (sint x + int dx) (sint z + int dz))"
    unfolding voronoi_tiles [OF sx sz refl]
  proof (rule raster_eqI)
    fix dx dz
    assume d: "dx < w" "dz < h"
    obtain a where a: "a < pw - 1" "(sint (x - 2) + int dx) div 4 = sint (x - 2) div 4 + int a" using X(5) [OF d(1)] by blast
    obtain b where b: "b < ph - 1" "(sint (z - 2) + int dz) div 4 = sint (z - 2) div 4 + int b" using Z(5) [OF d(2)] by blast
    have "tile w h (x - 2) (z - 2) px pz (ph - 1) (pw - 1) 4 (voronoi_tile random px pz ?input pw) ! (dx + dz * w) =
        voronoi_tile random px pz ?input pw b a (nat ((sint (x - 2) + int dx) mod 4)) (nat ((sint (z - 2) + int dz) mod 4))"
      using tile_nth [OF d, of 4 "pw - 1" px "sint (x - 2) div 4" "ph - 1" pz "sint (z - 2) div 4" a "x - 2" b "z - 2"] X(4) Z(4) a b by simp
    also have "\<dots> = voronoi_cell random c (sint x + int dx) (sint z + int dz)"
    proof -
      have idx: "sint x + int dx - 2 = sint (x - 2) + int dx" "sint z + int dz - 2 = sint (z - 2) + int dz" using shift by simp_all
      show ?thesis
        unfolding voronoi_cell_def idx Let_def a(2) b(2)
        using a b input [of a b] input [of "a + 1" b] input [of a "b + 1"] input [of "a + 1" "b + 1"]
        by (simp add: voronoi_tile_def add_coord_int X(1) Z(1) algebra_simps)
    qed
    finally show "tile w h (x - 2) (z - 2) px pz (ph - 1) (pw - 1) 4 (voronoi_tile random px pz ?input pw) ! (dx + dz * w) =
      voronoi_cell random c (sint x + int dx) (sint z + int dz)" .
  qed simp
qed

section \<open>Sampling is pointwise\<close>

text \<open>How many extra rows and columns around a window the layers under a layer read.\<close>

fun margin :: "Layer \<Rightarrow> int" where
  "margin (Layer _ Island) = 0"
| "margin (Layer _ (Zoom parent fuzzy)) = margin parent"
| "margin (Layer _ (AddIsland parent)) = margin parent + 1"
| "margin (Layer _ (RemoveTooMuchOcean parent)) = margin parent + 1"
| "margin (Layer _ (AddSnow parent)) = margin parent + 1"
| "margin (Layer _ (AddEdge parent mode)) = margin parent + 1"
| "margin (Layer _ (AddMushroomIsland parent)) = margin parent + 1"
| "margin (Layer _ (DeepOcean parent)) = margin parent + 1"
| "margin (Layer _ (RiverInit parent)) = margin parent"
| "margin (Layer _ (BiomeInit parent)) = margin parent"
| "margin (Layer _ (BiomeEdge parent)) = margin parent + 1"
| "margin (Layer _ (RegionHills parent river_noise)) = max (margin parent) (margin river_noise) + 1"
| "margin (Layer _ (RareBiomeSpot parent)) = margin parent"
| "margin (Layer _ (River parent)) = margin parent + 1"
| "margin (Layer _ (Smooth parent)) = margin parent + 1"
| "margin (Layer _ (Shore parent)) = margin parent + 1"
| "margin (Layer _ (RiverMixer biomes rivers)) = max (margin biomes) (margin rivers)"
| "margin (Layer _ (VoronoiZoom parent)) = margin parent"

lemma margin_nonneg: "0 \<le> margin l"
  by (induction l rule: margin.induct) auto

lemma cellwise_cong: "(\<And>x z w h. p x z w h = q x z w h) \<Longrightarrow> (\<And>x z. c x z = d x z) \<Longrightarrow> cellwise B p c = cellwise B q d"
  by (simp add: cellwise_def)

lemma area_cellwise: "4 \<le> B \<Longrightarrow> B + margin l + 5 \<le> 2 ^ 31 \<Longrightarrow> cellwise B (area l) (cell l)"
proof (induction l arbitrary: B rule: margin.induct)
  case (1 random)
  then show ?case using island_cellwise [of B random] by (simp add: cellwise_def)
next
  case (2 random parent fuzzy)
  then show ?case
    using zoom_cellwise [of B "area parent" "cell parent" random fuzzy] margin_nonneg [of parent] by (simp add: cellwise_def)
next
  case (3 random parent)
  then have c: "cellwise (B + 1) (area parent) (cell parent)" and b: "B < 2 ^ 31" using margin_nonneg [of parent] by simp_all
  show ?case
    using add_island_cellwise [OF c b, of random] by (simp add: cellwise_def)
next
  case (4 random parent)
  then have c: "cellwise (B + 1) (area parent) (cell parent)" and b: "B < 2 ^ 31" using margin_nonneg [of parent] by simp_all
  show ?case
    using neighborhood_cellwise [OF c b, of "warmed_ocean random"] by (simp add: cellwise_def remove_too_much_ocean_def)
next
  case (5 random parent)
  then have c: "cellwise (B + 1) (area parent) (cell parent)" and b: "B < 2 ^ 31" using margin_nonneg [of parent] by simp_all
  show ?case
    using add_snow_cellwise [OF c b, of random] by (simp add: cellwise_def)
next
  case (6 random parent mode)
  then have c: "cellwise (B + 1) (area parent) (cell parent)" and b: "B < 2 ^ 31" using margin_nonneg [of parent] by simp_all
  show ?case
    using neighborhood_cellwise [OF c b, of "\<lambda>center n e w s _ _. edge_climate mode center n e w s"]
      pointwise_cellwise [OF cellwise_mono [OF c, of B], of "special_climate random"]
    by (cases "mode = Special") (simp_all add: cellwise_def add_edge_def cross_def)
next
  case (7 random parent)
  then have c: "cellwise (B + 1) (area parent) (cell parent)" and b: "B < 2 ^ 31" using margin_nonneg [of parent] by simp_all
  show ?case
    using add_mushroom_island_cellwise [OF c b, of random] by (simp add: cellwise_def)
next
  case (8 random parent)
  then have c: "cellwise (B + 1) (area parent) (cell parent)" and b: "B < 2 ^ 31" using margin_nonneg [of parent] by simp_all
  show ?case
    using neighborhood_cellwise [OF c b, of "\<lambda>center n e w s _ _. deep_climate center n e w s"] by (simp add: cellwise_def deep_ocean_def cross_def)
next
  case (9 random parent)
  then show ?case
    using pointwise_cellwise [of B "area parent" "cell parent" "\<lambda>x z v. river_noise_value v (LayerRandom_at random x z)"]
    by (simp add: cellwise_def river_init_def at_pos_def)
next
  case (10 random parent)
  then show ?case
    using pointwise_cellwise [of B "area parent" "cell parent" "\<lambda>x z v. climate_biome v (LayerRandom_at random x z)"]
    by (simp add: cellwise_def biome_init_def at_pos_def)
next
  case (11 random parent)
  then have c: "cellwise (B + 1) (area parent) (cell parent)" and b: "B < 2 ^ 31" using margin_nonneg [of parent] by simp_all
  show ?case
    using neighborhood_cellwise [OF c b, of "\<lambda>center n e w s _ _. edge_biome center n e w s"] by (simp add: cellwise_def biome_edge_def cross_def)
next
  case (12 random parent noise)
  then have c: "cellwise (B + 1) (area parent) (cell parent)" "cellwise (B + 1) (area noise) (cell noise)" and b: "B < 2 ^ 31"
    using margin_nonneg [of parent] by simp_all
  show ?case
    using region_hills_cellwise [OF c b, of random] by (simp add: cellwise_def)
next
  case (13 random parent)
  then show ?case
    using pointwise_cellwise [of B "area parent" "cell parent" "\<lambda>x z v. rare_biome v (LayerRandom_at random x z)"]
    by (simp add: cellwise_def rare_biome_spot_def at_pos_def)
next
  case (14 random parent)
  then have c: "cellwise (B + 1) (area parent) (cell parent)" and b: "B < 2 ^ 31" using margin_nonneg [of parent] by simp_all
  show ?case
    using neighborhood_cellwise [OF c b, of "\<lambda>center n e w s _ _. river_value center n e w s"] by (simp add: cellwise_def river_def cross_def)
next
  case (15 random parent)
  then have c: "cellwise (B + 1) (area parent) (cell parent)" and b: "B < 2 ^ 31" using margin_nonneg [of parent] by simp_all
  show ?case
    using neighborhood_cellwise [OF c b, of "smooth_value random"] by (simp add: cellwise_def smooth_def)
next
  case (16 random parent)
  then have c: "cellwise (B + 1) (area parent) (cell parent)" and b: "B < 2 ^ 31" using margin_nonneg [of parent] by simp_all
  show ?case
    using neighborhood_cellwise [OF c b, of "\<lambda>center n e w s _ _. shore_biome center n e w s"] by (simp add: cellwise_def shore_def cross_def)
next
  case (17 random biomes rivers)
  then show ?case using river_mixer_cellwise [of B "area biomes" "cell biomes" "area rivers" "cell rivers"] by (simp add: cellwise_def)
next
  case (18 random parent)
  then show ?case
    using voronoi_cellwise [of B "area parent" "cell parent" random] margin_nonneg [of parent] by (simp add: cellwise_def)
qed

end
