(* ===== verification/BiomeSource.thy ===== *)
theory BiomeSource
  imports BiomeArea Chunk
begin

unbundle bit_operations_syntax

text \<open>
  The overworld biome source (\<open>native/world/src/biome_source/mod.rs\<close>): the fixed layer graph, the sampling entry points
  and the spawn search. A panic of the source is the value \<open>None\<close>. The spawn search is a loop without a bound; not
  returning is \<open>None\<close> too.
\<close>

section \<open>mod.rs\<close>

definition PLAYER_VALID_SPAWNS :: "u8 list" where
  "PLAYER_VALID_SPAWNS = [4, 1, 5, 19, 18, 21, 22]"

record OverworldBiomeSource =
  raw_layer :: Layer
  final_layer :: Layer

definition zoom_unseeded :: "Layer \<Rightarrow> Layer" where
  "zoom_unseeded parent = Layer_new_unseeded (Zoom parent False)"

definition zoom_layer :: "i64 \<Rightarrow> Layer \<Rightarrow> i64 \<Rightarrow> Layer" where
  "zoom_layer world_seed parent seed_mixup = Layer_new world_seed seed_mixup (Zoom parent False)"

definition zoom_times :: "i64 \<Rightarrow> Layer \<Rightarrow> i64 \<Rightarrow> nat \<Rightarrow> Layer" where
  "zoom_times world_seed parent seed_mixup count =
     (let zoom_seed = seed_mixup + 1 in ((\<lambda>parent. zoom_layer world_seed parent zoom_seed) ^^ count) parent)"

text \<open>The layers up to the deep oceans, shared by the river and the biome branch.\<close>

definition base_layers :: "i64 \<Rightarrow> Layer" where
  "base_layers world_seed =
     (let base = Layer_new world_seed 1 Island;
          base = Layer_new world_seed 2000 (Zoom base True);
          base = Layer_new world_seed 1 (AddIsland base);
          base = zoom_layer world_seed base 2001;
          base = Layer_new world_seed 2 (AddIsland base);
          base = Layer_new world_seed 50 (AddIsland base);
          base = Layer_new world_seed 70 (AddIsland base);
          base = Layer_new world_seed 2 (RemoveTooMuchOcean base);
          base = Layer_new world_seed 2 (AddSnow base);
          base = Layer_new world_seed 3 (AddIsland base);
          base = Layer_new world_seed 2 (AddEdge base CoolWarm);
          base = Layer_new world_seed 2 (AddEdge base HeatIce);
          base = Layer_new world_seed 3 (AddEdge base Special);
          base = zoom_layer world_seed base 2002;
          base = zoom_layer world_seed base 2003;
          base = Layer_new world_seed 4 (AddIsland base);
          base = Layer_new world_seed 5 (AddMushroomIsland base)
      in Layer_new world_seed 4 (DeepOcean base))"

definition biome_loop :: "i64 \<Rightarrow> nat \<Rightarrow> Layer \<Rightarrow> Layer" where
  "biome_loop world_seed index layers =
     (let layers = zoom_layer world_seed layers (1000 + of_nat index);
          layers = (if index = 0 then Layer_new world_seed 3 (AddIsland layers) else layers)
      in if index = 1 then Layer_new world_seed 1000 (Shore layers) else layers)"

definition OverworldBiomeSource_new :: "i32 \<Rightarrow> OverworldBiomeSource" where
  "OverworldBiomeSource_new seed =
     (let world_seed = ucast seed :: i64;
          base = base_layers world_seed;
          river_init = Layer_new world_seed 100 (RiverInit base);
          hills_noise = zoom_unseeded (zoom_unseeded river_init);
          river = zoom_times world_seed river_init 1000 2;
          river = zoom_times world_seed river 1000 4;
          river = Layer_new world_seed 1 (River river);
          river = Layer_new world_seed 1000 (Smooth river);
          layers = Layer_new world_seed 200 (BiomeInit base);
          layers = zoom_times world_seed layers 1000 2;
          layers = Layer_new world_seed 1000 (BiomeEdge layers);
          layers = Layer_new world_seed 1000 (RegionHills layers hills_noise);
          layers = Layer_new world_seed 1001 (RareBiomeSpot layers);
          layers = fold (biome_loop world_seed) [0..<4] layers;
          layers = Layer_new world_seed 1000 (Smooth layers);
          mixed = Layer_new world_seed 100 (RiverMixer layers river)
      in \<lparr>raw_layer = mixed, final_layer = Layer_new world_seed 10 (VoronoiZoom mixed)\<rparr>)"

text \<open>\<open>u8::try_from(id)\<close> and the filter on supported ids.\<close>

definition checked_biome :: "i32 \<Rightarrow> u8 option" where
  "checked_biome i =
     (if 0 \<le> sint i \<and> sint i < 256 \<and> biome_id_is_supported (ucast i) then Some (ucast i) else None)"

definition biome_ids :: "OverworldBiomeSource \<Rightarrow> i32 \<Rightarrow> i32 \<Rightarrow> nat \<Rightarrow> nat \<Rightarrow> u8 list option" where
  "biome_ids source x z width height = those (map checked_biome (area (final_layer source) x z width height))"

definition raw_biome_ids :: "OverworldBiomeSource \<Rightarrow> i32 \<Rightarrow> i32 \<Rightarrow> nat \<Rightarrow> nat \<Rightarrow> u8 list option" where
  "raw_biome_ids source x z width height = those (map checked_biome (area (raw_layer source) x z width height))"

definition chunk_words :: "OverworldBiomeSource \<Rightarrow> ChunkCoord \<Rightarrow> u32 list option" where
  "chunk_words source position =
     Option.bind (biome_ids source (coord_x position * 16) (coord_z position * 16) 16 16) (\<lambda>ids. those (map default_biome_word ids))"

definition valid_spawn :: "i32 list \<Rightarrow> nat \<Rightarrow> bool" where
  "valid_spawn raw index \<longleftrightarrow>
     list_all (\<lambda>i. 0 \<le> sint i \<and> sint i < 256 \<and> ucast i \<in> set PLAYER_VALID_SPAWNS)
       [raw ! index, raw ! (index - 1), raw ! (index + 1), raw ! (index - 10), raw ! (index + 10)]"

definition spawn_candidates :: "(nat \<times> nat) list" where
  "spawn_candidates = concat (map (\<lambda>zo. map (\<lambda>xo. (xo, zo)) [1..<9]) [1..<9])"

partial_function (option) spawn_from :: "Layer \<Rightarrow> i32 \<Rightarrow> (i32 \<times> i32) option" where
  "spawn_from raw x =
     (case List.find (\<lambda>(xo, zo). valid_spawn (area raw (word_of_int (sint x sdiv 4)) 0 10 10) (xo + zo * 10)) spawn_candidates of
        Some (xo, zo) \<Rightarrow> Some (x + of_nat xo * 4, of_nat zo * 4)
      | None \<Rightarrow> spawn_from raw (x + 40))"

definition spawn_position :: "OverworldBiomeSource \<Rightarrow> (i32 \<times> i32) option" where
  "spawn_position source = spawn_from (raw_layer source) 0"

section \<open>The values a layer emits\<close>

definition emits :: "(i32 \<Rightarrow> bool) \<Rightarrow> sampler \<Rightarrow> bool" where
  "emits P p \<longleftrightarrow> (\<forall>x z w h. 0 < w \<longrightarrow> 0 < h \<longrightarrow> length (p x z w h) = w * h \<and> (\<forall>v \<in> set (p x z w h). P v))"

lemma emitsD: "emits P p \<Longrightarrow> 0 < w \<Longrightarrow> 0 < h \<Longrightarrow> length (p x z w h) = w * h"
  "emits P p \<Longrightarrow> 0 < w \<Longrightarrow> 0 < h \<Longrightarrow> v \<in> set (p x z w h) \<Longrightarrow> P v"
  by (auto simp: emits_def)

lemma emits_mono: "emits P p \<Longrightarrow> (\<And>v. P v \<Longrightarrow> Q v) \<Longrightarrow> emits Q p"
  by (auto simp: emits_def)

lemma emits_nth: "emits P p \<Longrightarrow> a < w \<Longrightarrow> b < h \<Longrightarrow> P (p x z w h ! (a + b * w))"
proof -
  assume p: "emits P p" and d: "a < w" "b < h"
  then have "0 < w" "0 < h" by auto
  then show ?thesis using emitsD [OF p] index_bound [OF d] by (metis nth_mem)
qed

lemma emits_raster:
  assumes "\<And>x z w h dx dz. 0 < w \<Longrightarrow> 0 < h \<Longrightarrow> dx < w \<Longrightarrow> dz < h \<Longrightarrow> P (g x z w h dx dz)"
  shows "emits P (\<lambda>x z w h. raster w h (g x z w h))"
  using assms by (auto simp: emits_def dest!: set_raster)

lemma emits_neighborhood:
  assumes p: "emits P p" and f: "\<And>center n e w s wx wz. P center \<Longrightarrow> P n \<Longrightarrow> P e \<Longrightarrow> P w \<Longrightarrow> P s \<Longrightarrow> Q (f center n e w s wx wz)"
  shows "emits Q (\<lambda>x z w h. neighborhood p x z w h f)"
  unfolding neighborhood_def Let_def
  by (rule emits_raster, rule f; rule emits_nth [OF p]; simp)

lemma emits_map_enumerate:
  assumes p: "emits P p" and f: "\<And>x z w index v. P v \<Longrightarrow> Q (f x z w index v)"
  shows "emits Q (\<lambda>x z w h. map (\<lambda>(index, v). f x z w index v) (enumerate 0 (p x z w h)))"
  unfolding emits_def
proof (intro allI impI conjI ballI)
  fix x z :: i32 and w h :: nat and v
  assume win: "0 < w" "0 < h"
  show "length (map (\<lambda>(index, v). f x z w index v) (enumerate 0 (p x z w h))) = w * h" using emitsD(1) [OF p win] by simp
  assume "v \<in> set (map (\<lambda>(index, v). f x z w index v) (enumerate 0 (p x z w h)))"
  then obtain k u where "(k, u) \<in> set (enumerate 0 (p x z w h))" and v: "v = f x z w k u" by auto
  then have "u \<in> set (p x z w h)" by (auto simp: enumerate_eq_zip dest: set_zip_rightD)
  then show "Q v" unfolding v by (intro f emitsD(2) [OF p win])
qed

lemma parent_span_positive: "0 < w \<Longrightarrow> parent_span x w s = (px, pw) \<Longrightarrow> 1 < pw"
proof -
  assume w: "0 < w" and span: "parent_span x w s = (px, pw)"
  have "sint x div 2 ^ s \<le> (sint x + int (w - 1)) div 2 ^ s" by (intro zdiv_mono1) auto
  then show ?thesis using span by (auto simp: parent_span_def Let_def)
qed

lemma choose2_in: "choose2 a b r = (v, r') \<Longrightarrow> v \<in> {a, b}"
  by (auto simp: choose2_def split: prod.splits if_splits)

lemma choose4_in: "choose4 a b c d r \<in> {a, b, c, d}"
  by (simp add: choose4_def Let_def)

lemma if_in: "x \<in> A \<Longrightarrow> y \<in> A \<Longrightarrow> (if b then x else y) \<in> A"
  by simp

lemma choose_mode_in: "choose_mode_or_random a b c d r \<in> {a, b, c, d}"
  unfolding choose_mode_or_random_def by (intro if_in choose4_in) simp_all

lemma zoom_values_in: "k < 4 \<Longrightarrow> zoom_values r fuzzy wx wz a b c d ! k \<in> {a, b, c, d}"
proof -
  assume k: "k < 4"
  obtain low r1 where 1: "choose2 a c (LayerRandom_at r wx wz) = (low, r1)" by fastforce
  obtain right r2 where 2: "choose2 a b r1 = (right, r2)" by fastforce
  let ?d = "if fuzzy then choose4 a b c d r2 else choose_mode_or_random a b c d r2"
  have "?d \<in> {a, b, c, d}" using choose4_in [of a b c d r2] choose_mode_in [of a b c d r2] by simp
  then have "set [a, right, low, ?d] \<subseteq> {a, b, c, d}" using choose2_in [OF 1] choose2_in [OF 2] by auto
  moreover have "zoom_values r fuzzy wx wz a b c d = [a, right, low, ?d]" by (simp add: zoom_values_def 1 2)
  moreover have "[a, right, low, ?d] ! k \<in> set [a, right, low, ?d]" using k by (intro nth_mem) simp
  ultimately show ?thesis by auto
qed

lemma emits_zoom:
  assumes p: "emits P p" and "P 0"
  shows "emits P (zoom random p fuzzy)"
  unfolding emits_def
proof (intro allI impI)
  fix x z :: i32 and w h :: nat
  assume w: "0 < w" "0 < h"
  obtain px pw where sx: "parent_span x w 1 = (px, pw)" by fastforce
  obtain pz ph where sz: "parent_span z h 1 = (pz, ph)" by fastforce
  have "P (zoom_tile random fuzzy px pz (p px pz pw ph) pw r c lx lz)" if "r < ph - 1" "c < pw - 1" "lx < 2" "lz < 2" for r c lx lz
  proof -
    let ?I = "\<lambda>a b. p px pz pw ph ! (a + b * pw)"
    have P: "P (?I c r)" "P (?I (c + 1) r)" "P (?I c (r + 1))" "P (?I (c + 1) (r + 1))" by (rule emits_nth [OF p]; use that in simp)+
    have k: "lx + lz * 2 < 4" using that by auto
    have "\<forall>v \<in> {?I c r, ?I (c + 1) r, ?I c (r + 1), ?I (c + 1) (r + 1)}. P v" using P by simp
    from bspec [OF this zoom_values_in [OF k]] show ?thesis unfolding zoom_tile_def .
  qed
  note V = tile_values [where P = P, OF assms(2) this]
  show "length (zoom random p fuzzy x z w h) = w * h \<and> (\<forall>v \<in> set (zoom random p fuzzy x z w h). P v)"
    unfolding zoom_tiles [OF sx sz refl] by (intro conjI ballI length_tile) (rule V)
qed

lemma nearest_corner_in: "nearest_corner r cx cz a b c d lx lz \<in> {a, b, c, d}"
  by (simp add: nearest_corner_def Let_def)

lemma emits_voronoi:
  assumes p: "emits P p" and Q: "\<And>v. P v \<Longrightarrow> Q (v AND 0xff)" "Q 0"
  shows "emits Q (voronoi random p)"
  unfolding emits_def
proof (intro allI impI)
  fix x z :: i32 and w h :: nat
  assume w: "0 < w" "0 < h"
  obtain px pw where sx: "parent_span (x - 2) w 2 = (px, pw)" by fastforce
  obtain pz ph where sz: "parent_span (z - 2) h 2 = (pz, ph)" by fastforce
  have "Q (voronoi_tile random px pz (p px pz pw ph) pw r c lx lz)" if "r < ph - 1" "c < pw - 1" "lx < 4" "lz < 4" for r c lx lz
  proof -
    let ?I = "\<lambda>a b. p px pz pw ph ! (a + b * pw)"
    have P: "P (?I c r)" "P (?I (c + 1) r)" "P (?I c (r + 1))" "P (?I (c + 1) (r + 1))" by (rule emits_nth [OF p]; use that in simp)+
    have "\<forall>v \<in> {?I c r AND 0xff, ?I (c + 1) r AND 0xff, ?I c (r + 1) AND 0xff, ?I (c + 1) (r + 1) AND 0xff}. Q v" using P Q(1) by simp
    from bspec [OF this nearest_corner_in] show ?thesis unfolding voronoi_tile_def .
  qed
  note V = tile_values [where P = Q, OF Q(2) this]
  show "length (voronoi random p x z w h) = w * h \<and> (\<forall>v \<in> set (voronoi random p x z w h). Q v)"
    unfolding voronoi_tiles [OF sx sz refl] by (intro conjI ballI length_tile) (rule V)
qed

section \<open>Every emitted biome is registered\<close>

definition registered :: "i32 list" where
  "registered = [
     0, 1, 2, 3, 4, 5, 6, 7, 10, 11, 12, 13, 14, 15, 16, 17, 18, 19, 20, 21, 22, 23, 24, 25, 26, 27, 28, 29, 30,
     31, 32, 33, 34, 35, 36, 37, 38, 39, 129, 130, 131, 132, 133, 134, 140, 149, 151, 155, 156, 157, 158, 160, 161,
     162, 163, 164, 165, 166, 167]"

lemma registered_ok: "list_all (\<lambda>v. checked_biome v = Some (ucast v) \<and> v AND 0xff = v \<and> default_biome_word (ucast v) \<noteq> None) registered"
  by code_simp

lemma draw_eq:
  assumes b: "0 < sint b"
  obtains w where "draw b r = word_of_int w" "0 \<le> w" "w < sint b"
proof -
  let ?a = "sint (random_seed r) div 2 ^ 24" and ?v = "(sint (random_seed r) div 2 ^ 24) smod sint b"
  have m: "0 \<le> \<bar>?a\<bar> mod \<bar>sint b\<bar>" "\<bar>?a\<bar> mod \<bar>sint b\<bar> < sint b" using b by simp_all
  have "\<bar>?v\<bar> \<le> \<bar>?a\<bar> mod \<bar>sint b\<bar>" using m by (simp add: signed_modulo_int_def abs_mult abs_sgn_eq)
  then have v: "- sint b < ?v" "?v < sint b" using m by linarith+
  have "draw b r = word_of_int (if ?v < 0 then ?v + sint b else ?v)" unfolding ChunkRandom_next_def Let_def fst_conv by (rule refl)
  moreover have "0 \<le> (if ?v < 0 then ?v + sint b else ?v)" "(if ?v < 0 then ?v + sint b else ?v) < sint b" using v b by auto
  ultimately show ?thesis by (rule that)
qed

lemma draw_nat: "0 < sint b \<Longrightarrow> unat (draw b r) < nat (sint b)"
proof -
  assume b: "0 < sint b"
  obtain w where w: "draw b r = word_of_int w" "0 \<le> w" "w < sint b" by (rule draw_eq [OF b])
  have "sint b < 2 ^ 31" using sint_less [of b] by simp
  then have "unat (draw b r) = nat w" using w by (simp add: unsigned_of_int take_bit_int_eq_self)
  then show ?thesis using w by simp
qed

lemma registered_constants [simp]:
  "OCEAN \<in> set registered" "PLAINS \<in> set registered" "DESERT \<in> set registered"
  "EXTREME_HILLS \<in> set registered" "FOREST \<in> set registered" "TAIGA \<in> set registered"
  "SWAMPLAND \<in> set registered" "RIVER \<in> set registered" "FROZEN_OCEAN \<in> set registered"
  "FROZEN_RIVER \<in> set registered" "ICE_PLAINS \<in> set registered" "ICE_MOUNTAINS \<in> set registered"
  "MUSHROOM_ISLAND \<in> set registered" "MUSHROOM_SHORE \<in> set registered" "BEACH \<in> set registered"
  "DESERT_HILLS \<in> set registered" "FOREST_HILLS \<in> set registered" "TAIGA_HILLS \<in> set registered"
  "EXTREME_HILLS_EDGE \<in> set registered" "JUNGLE \<in> set registered" "JUNGLE_HILLS \<in> set registered"
  "JUNGLE_EDGE \<in> set registered" "DEEP_OCEAN \<in> set registered" "STONE_BEACH \<in> set registered"
  "COLD_BEACH \<in> set registered" "BIRCH_FOREST \<in> set registered"
  "BIRCH_FOREST_HILLS \<in> set registered" "ROOFED_FOREST \<in> set registered"
  "COLD_TAIGA \<in> set registered" "COLD_TAIGA_HILLS \<in> set registered" "MEGA_TAIGA \<in> set registered"
  "MEGA_TAIGA_HILLS \<in> set registered" "EXTREME_HILLS_PLUS \<in> set registered"
  "SAVANNA \<in> set registered" "SAVANNA_PLATEAU \<in> set registered" "MESA \<in> set registered"
  "MESA_PLATEAU_F \<in> set registered" "MESA_PLATEAU \<in> set registered" "CLIMATE_WARM \<in> set registered" "129 \<in> set registered" "0 \<in> set registered"
  "14 \<in> set registered" "24 \<in> set registered"
  by (simp_all add: registered_def biome_numbers)

lemma mutated_registered: "mutated_biome v = Some m \<Longrightarrow> m \<in> set registered"
proof -
  assume "mutated_biome v = Some m"
  then have "m \<in> snd ` set mutations" by (metis mutated_biome_def map_of_SomeD image_eqI snd_conv)
  moreover have "list_all (\<lambda>m. m \<in> set registered) (map snd mutations)" by code_simp
  ultimately show ?thesis by (auto simp: list_all_iff)
qed

lemma edge_biome_registered: "center \<in> set registered \<Longrightarrow> edge_biome center n e w s \<in> set registered"
  by (simp add: edge_biome_def replace_edge_def Let_def)

lemma hill_biome_registered: "v \<in> set registered \<Longrightarrow> hill_biome v r \<in> set registered"
  by (simp add: hill_biome_def split: prod.split)

lemma unwrap_registered: "v \<in> set registered \<Longrightarrow> unwrap_or (mutated_biome k) v \<in> set registered"
  by (auto simp: unwrap_or_def mutated_registered split: option.split)

lemma region_biome_registered: "v \<in> set registered \<Longrightarrow> region_biome v noise ns r \<in> set registered"
  by (simp add: region_biome_def Let_def hill_biome_registered unwrap_registered split: prod.split)

lemma shore_biome_registered: "center \<in> set registered \<Longrightarrow> shore_biome center n e w s \<in> set registered"
  unfolding shore_biome_def Let_def by (intro if_in) simp_all

lemma mix_river_registered: "v \<in> set registered \<Longrightarrow> mix_river v r \<in> set registered"
  by (simp add: mix_river_def)

lemma rare_biome_registered: "v \<in> set registered \<Longrightarrow> rare_biome v r \<in> set registered"
  by (simp add: rare_biome_def)

lemma smooth_value_in: "P center \<Longrightarrow> P n \<Longrightarrow> P e \<Longrightarrow> P w \<Longrightarrow> P s \<Longrightarrow> P (smooth_value random center n e w s wx wz)"
  by (simp add: smooth_value_def Let_def)

lemma island_corners_in: "fst (fold island_corner cs (cand, count, r)) \<in> insert cand (set cs)"
proof (induction cs arbitrary: cand count r)
  case (Cons c cs)
  obtain v r' where n: "ChunkRandom_next count r = (v, r')" by fastforce
  show ?case
  proof (cases "c = OCEAN")
    case True
    then show ?thesis using Cons [of cand count r] by (auto simp: island_corner_def)
  next
    case False
    then show ?thesis using Cons [of "if v = 0 then c else cand" "count + 1" r'] by (auto simp: island_corner_def n split: if_splits)
  qed
qed simp

lemma grown_island_in:
  assumes "P nw" "P ne" "P sw" "P se" "P center" "P OCEAN" "P CLIMATE_WARM"
  shows "P (grown_island nw ne sw se center r)"
proof -
  obtain cand count r' where f: "fold island_corner [nw, ne, sw, se] (CLIMATE_WARM, 1, r) = (cand, count, r')" by (metis prod_cases3)
  have "\<forall>v \<in> insert CLIMATE_WARM (set [nw, ne, sw, se]). P v" using assms by simp
  then have "P cand" using island_corners_in [of "[nw, ne, sw, se]" CLIMATE_WARM 1 r] unfolding f by auto
  then show ?thesis unfolding grown_island_def f using assms by simp
qed

text \<open>A climate with its special bits.\<close>

definition climate :: "i32 \<Rightarrow> bool" where
  "climate v \<longleftrightarrow> v AND NOT 0x0f00 \<in> set [0, 1, 2, 3, 4, 14, 24]"

lemma climate_constants [simp]:
  "climate OCEAN" "climate CLIMATE_WARM" "climate CLIMATE_LUSH" "climate CLIMATE_COLD" "climate CLIMATE_FREEZING"
  "climate MUSHROOM_ISLAND" "climate DEEP_OCEAN" "climate 0"
  by (simp_all add: climate_def biome_numbers)

lemma special_climate_in: "climate v \<Longrightarrow> climate (special_climate random wx wz v)"
proof -
  have mask: "(v OR (t AND m)) AND NOT m = v AND NOT m" for t m :: i32
    by (rule bit_eqI) (auto simp: bit_and_iff bit_or_iff bit_not_iff)
  show "climate v \<Longrightarrow> climate (special_climate random wx wz v)"
    unfolding special_climate_def climate_def by (cases "ChunkRandom_next 13 (LayerRandom_at random wx wz)") (simp only: prod.case mask split: if_split, simp)
qed

lemma climate_biome_registered: "climate v \<Longrightarrow> climate_biome v r \<in> set registered"
proof -
  assume "climate v"
  then have c: "v AND NOT 0x0f00 \<in> set [0, 1, 2, 3, 4, 14, 24]" by (simp add: climate_def)
  have pick: "xs ! unat (draw b r) \<in> set registered" if "list_all (\<lambda>m. m \<in> set registered) xs" "sint b = int (length xs)" "xs \<noteq> []" for xs b
    using that draw_nat [of b r] by (simp add: list_all_iff)
  have tables: "HOT ! unat (draw 6 r) \<in> set registered" "LUSH ! unat (draw 8 r) \<in> set registered"
    "COLD ! unat (draw 4 r) \<in> set registered" "FREEZING ! unat (draw 4 r) \<in> set registered"
    by (rule pick; simp add: HOT_def LUSH_def COLD_def FREEZING_def)+
  have len: "length HOT = 6" "length LUSH = 8" "length COLD = 4" "length FREEZING = 4" by (simp_all add: HOT_def LUSH_def COLD_def FREEZING_def)
  show ?thesis
    unfolding climate_biome_def Let_def len using c tables
    by (auto simp: is_oceanic_def CLIMATE_WARM_def CLIMATE_LUSH_def CLIMATE_COLD_def CLIMATE_FREEZING_def OCEAN_def DEEP_OCEAN_def MUSHROOM_ISLAND_def)
qed

section \<open>The layer graph\<close>

lemma emits_island: "P OCEAN \<Longrightarrow> P CLIMATE_WARM \<Longrightarrow> emits P (island random)"
  by (auto simp: emits_def island_def Let_def dest!: set_update_subset_insert [THEN subsetD] set_raster)

lemma emits_add_island:
  assumes p: "emits P p" and "P OCEAN" "P CLIMATE_WARM"
  shows "emits P (add_island random p)"
  unfolding add_island_def [abs_def] Let_def
  by (rule emits_raster, rule grown_island_in; (rule emits_nth [OF p], simp, simp | rule assms(2,3)))

lemma emits_add_mushroom:
  assumes p: "emits P p" and "P MUSHROOM_ISLAND"
  shows "emits P (add_mushroom_island random p)"
  unfolding add_mushroom_island_def [abs_def] Let_def
proof (rule emits_raster)
  fix x z :: i32 and w h dx dz :: nat
  assume "dx < w" "dz < h"
  then have "P (p (x - 1) (z - 1) (w + 2) (h + 2) ! (dx + 1 + (dz + 1) * (w + 2)))" by (intro emits_nth [OF p]) simp_all
  then show "P (mushroom_climate (p (x - 1) (z - 1) (w + 2) (h + 2) ! (dx + dz * (w + 2))) (p (x - 1) (z - 1) (w + 2) (h + 2) ! (dx + 2 + dz * (w + 2)))
      (p (x - 1) (z - 1) (w + 2) (h + 2) ! (dx + (dz + 2) * (w + 2))) (p (x - 1) (z - 1) (w + 2) (h + 2) ! (dx + 2 + (dz + 2) * (w + 2)))
      (p (x - 1) (z - 1) (w + 2) (h + 2) ! (dx + 1 + (dz + 1) * (w + 2))) (LayerRandom_at random (add_coord x dx) (add_coord z dz)))"
    using assms(2) by (simp add: mushroom_climate_def)
qed

lemma emits_add_snow: "P OCEAN \<Longrightarrow> P CLIMATE_WARM \<Longrightarrow> P CLIMATE_COLD \<Longrightarrow> P CLIMATE_FREEZING \<Longrightarrow> emits P (add_snow random p)"
  unfolding add_snow_def [abs_def] Let_def by (rule emits_raster) (simp add: snow_climate_def Let_def)

lemma emits_add_edge:
  assumes p: "emits climate p"
  shows "emits climate (add_edge random p mode)"
proof (cases "mode = Special")
  case True
  then show ?thesis
    unfolding add_edge_def [abs_def] if_P [OF True] by (intro emits_map_enumerate [OF p] special_climate_in)
next
  case False
  show ?thesis
    unfolding add_edge_def [abs_def] if_not_P [OF False] by (rule emits_neighborhood [OF p]) (simp add: edge_climate_def)
qed

lemma emits_region_hills:
  assumes p: "emits (\<lambda>v. v \<in> set registered) p"
  shows "emits (\<lambda>v. v \<in> set registered) (region_hills random p q)"
  unfolding region_hills_def [abs_def] Let_def
  by (rule emits_raster, rule region_biome_registered, rule emits_nth [OF p]; simp)

lemma emits_river_mixer:
  assumes p: "emits (\<lambda>v. v \<in> set registered) p" and q: "emits Q q"
  shows "emits (\<lambda>v. v \<in> set registered) (river_mixer p q)"
  unfolding emits_def river_mixer_def
  using emitsD [OF p] emitsD(1) [OF q] by (auto intro!: mix_river_registered dest: set_zip_leftD)

lemma emits_area_cong: "(\<And>x z w h. area l x z w h = p x z w h) \<Longrightarrow> emits P (area l) = emits P p"
  by (simp add: emits_def)

lemma layer_random_cases: "Layer_new s k kind = Layer (LayerRandom_new s k) kind" "Layer_new_unseeded kind = Layer LayerRandom_unseeded kind"
  by (simp_all add: Layer_new_def Layer_new_unseeded_def)

text \<open>What each kind of layer emits, as rules over the layer graph.\<close>

lemma emits_layers:
  "P OCEAN \<Longrightarrow> P CLIMATE_WARM \<Longrightarrow> emits P (area (Layer r Island))"
  "emits P (area l) \<Longrightarrow> P 0 \<Longrightarrow> emits P (area (Layer r (Zoom l fuzzy)))"
  "emits P (area l) \<Longrightarrow> P OCEAN \<Longrightarrow> P CLIMATE_WARM \<Longrightarrow> emits P (area (Layer r (AddIsland l)))"
  "emits P (area l) \<Longrightarrow> P CLIMATE_WARM \<Longrightarrow> emits P (area (Layer r (RemoveTooMuchOcean l)))"
  "P OCEAN \<Longrightarrow> P CLIMATE_WARM \<Longrightarrow> P CLIMATE_COLD \<Longrightarrow> P CLIMATE_FREEZING \<Longrightarrow> emits P (area (Layer r (AddSnow l)))"
  "emits climate (area l) \<Longrightarrow> emits climate (area (Layer r (AddEdge l mode)))"
  "emits P (area l) \<Longrightarrow> P MUSHROOM_ISLAND \<Longrightarrow> emits P (area (Layer r (AddMushroomIsland l)))"
  "emits P (area l) \<Longrightarrow> P DEEP_OCEAN \<Longrightarrow> emits P (area (Layer r (DeepOcean l)))"
proof -
  show "P OCEAN \<Longrightarrow> P CLIMATE_WARM \<Longrightarrow> emits P (area (Layer r Island))"
    using emits_island [of P r] by (simp add: emits_def)
  show "emits P (area l) \<Longrightarrow> P 0 \<Longrightarrow> emits P (area (Layer r (Zoom l fuzzy)))"
    using emits_zoom [of P "area l" r fuzzy] by (simp add: emits_def)
  show "emits P (area l) \<Longrightarrow> P OCEAN \<Longrightarrow> P CLIMATE_WARM \<Longrightarrow> emits P (area (Layer r (AddIsland l)))"
    using emits_add_island [of P "area l" r] by (simp add: emits_def)
  show "emits P (area l) \<Longrightarrow> P CLIMATE_WARM \<Longrightarrow> emits P (area (Layer r (RemoveTooMuchOcean l)))"
  proof -
    assume p: "emits P (area l)" and "P CLIMATE_WARM"
    then have "P (warmed_ocean r center n e w s wx wz)" if "P center" for center n e w s wx wz using that by (simp add: warmed_ocean_def)
    from emits_neighborhood [OF p, of P "warmed_ocean r", OF this] show ?thesis by (simp add: emits_def remove_too_much_ocean_def)
  qed
  show "P OCEAN \<Longrightarrow> P CLIMATE_WARM \<Longrightarrow> P CLIMATE_COLD \<Longrightarrow> P CLIMATE_FREEZING \<Longrightarrow> emits P (area (Layer r (AddSnow l)))"
    using emits_add_snow [of P r "area l"] by (simp add: emits_def)
  show "emits climate (area l) \<Longrightarrow> emits climate (area (Layer r (AddEdge l mode)))"
    using emits_add_edge [of "area l" r mode] by (simp add: emits_def)
  show "emits P (area l) \<Longrightarrow> P MUSHROOM_ISLAND \<Longrightarrow> emits P (area (Layer r (AddMushroomIsland l)))"
    using emits_add_mushroom [of P "area l" r] by (simp add: emits_def)
  show "emits P (area l) \<Longrightarrow> P DEEP_OCEAN \<Longrightarrow> emits P (area (Layer r (DeepOcean l)))"
  proof -
    assume p: "emits P (area l)" and "P DEEP_OCEAN"
    then have "P (deep_climate center n e w s)" if "P center" for center n e w s using that by (simp add: deep_climate_def)
    from emits_neighborhood [OF p, of P "\<lambda>center n e w s _ _. deep_climate center n e w s", OF this] show ?thesis
      by (simp add: emits_def deep_ocean_def)
  qed
qed

abbreviation "biome v \<equiv> v \<in> set registered"

lemma emits_biome_layers:
  "emits climate (area l) \<Longrightarrow> emits (\<lambda>v. biome v) (area (Layer r (BiomeInit l)))"
  "emits (\<lambda>v. biome v) (area l) \<Longrightarrow> emits (\<lambda>v. biome v) (area (Layer r (BiomeEdge l)))"
  "emits (\<lambda>v. biome v) (area l) \<Longrightarrow> emits (\<lambda>v. biome v) (area (Layer r (RegionHills l q)))"
  "emits (\<lambda>v. biome v) (area l) \<Longrightarrow> emits (\<lambda>v. biome v) (area (Layer r (RareBiomeSpot l)))"
  "emits P (area l) \<Longrightarrow> emits P (area (Layer r (Smooth l)))"
  "emits (\<lambda>v. biome v) (area l) \<Longrightarrow> emits (\<lambda>v. biome v) (area (Layer r (Shore l)))"
  "emits (\<lambda>v. biome v) (area l) \<Longrightarrow> emits Q (area k) \<Longrightarrow> emits (\<lambda>v. biome v) (area (Layer r (RiverMixer l k)))"
  "emits (\<lambda>v. biome v) (area l) \<Longrightarrow> emits (\<lambda>v. biome v) (area (Layer r (VoronoiZoom l)))"
  "emits P (area l) \<Longrightarrow> emits (\<lambda>_. True) (area (Layer r (RiverInit l)))"
  "emits P (area l) \<Longrightarrow> emits (\<lambda>_. True) (area (Layer r (River l)))"
proof -
  show "emits climate (area l) \<Longrightarrow> emits (\<lambda>v. biome v) (area (Layer r (BiomeInit l)))"
    using emits_map_enumerate [of climate "area l" "\<lambda>v. biome v"
        "\<lambda>x z w index v. climate_biome v (LayerRandom_at r (add_coord x (index mod w)) (add_coord z (index div w)))"]
    by (simp add: emits_def biome_init_def climate_biome_registered)
  show "emits (\<lambda>v. biome v) (area l) \<Longrightarrow> emits (\<lambda>v. biome v) (area (Layer r (BiomeEdge l)))"
    using emits_neighborhood [of "\<lambda>v. biome v" "area l" "\<lambda>v. biome v" "\<lambda>center n e w s _ _. edge_biome center n e w s"]
    by (simp add: emits_def biome_edge_def edge_biome_registered)
  show "emits (\<lambda>v. biome v) (area l) \<Longrightarrow> emits (\<lambda>v. biome v) (area (Layer r (RegionHills l q)))"
    using emits_region_hills [of "area l" r "area q"] by (simp add: emits_def)
  show "emits (\<lambda>v. biome v) (area l) \<Longrightarrow> emits (\<lambda>v. biome v) (area (Layer r (RareBiomeSpot l)))"
    using emits_map_enumerate [of "\<lambda>v. biome v" "area l" "\<lambda>v. biome v"
        "\<lambda>x z w index v. rare_biome v (LayerRandom_at r (add_coord x (index mod w)) (add_coord z (index div w)))"]
    by (simp add: emits_def rare_biome_spot_def rare_biome_registered)
  show "emits P (area l) \<Longrightarrow> emits P (area (Layer r (Smooth l)))"
    using emits_neighborhood [of P "area l" P "smooth_value r"] by (simp add: emits_def smooth_def smooth_value_in)
  show "emits (\<lambda>v. biome v) (area l) \<Longrightarrow> emits (\<lambda>v. biome v) (area (Layer r (Shore l)))"
    using emits_neighborhood [of "\<lambda>v. biome v" "area l" "\<lambda>v. biome v" "\<lambda>center n e w s _ _. shore_biome center n e w s"]
    by (simp add: emits_def shore_def shore_biome_registered)
  show "emits (\<lambda>v. biome v) (area l) \<Longrightarrow> emits Q (area k) \<Longrightarrow> emits (\<lambda>v. biome v) (area (Layer r (RiverMixer l k)))"
    using emits_river_mixer [of "area l" Q "area k"] by (simp add: emits_def)
  show "emits (\<lambda>v. biome v) (area l) \<Longrightarrow> emits (\<lambda>v. biome v) (area (Layer r (VoronoiZoom l)))"
    using emits_voronoi [of "\<lambda>v. biome v" "area l" "\<lambda>v. biome v" r] registered_ok by (simp add: emits_def list_all_iff)
  show "emits P (area l) \<Longrightarrow> emits (\<lambda>_. True) (area (Layer r (RiverInit l)))"
    using emits_map_enumerate [of P "area l" "\<lambda>_. True"] by (simp add: emits_def river_init_def)
  show "emits P (area l) \<Longrightarrow> emits (\<lambda>_. True) (area (Layer r (River l)))"
    using emits_neighborhood [of P "area l" "\<lambda>_. True"] by (simp add: emits_def river_def)
qed

lemmas graph_defs = layer_random_cases zoom_layer_def zoom_unseeded_def zoom_times_def Let_def numeral_eq_Suc

lemma base_layers_climate: "emits climate (area (base_layers s))"
  unfolding base_layers_def graph_defs(1-3) Let_def by (intro emits_layers climate_constants)

lemma source_registered:
  "emits (\<lambda>v. biome v) (area (raw_layer (OverworldBiomeSource_new seed)))"
  "emits (\<lambda>v. biome v) (area (final_layer (OverworldBiomeSource_new seed)))"
proof -
  let ?s = "ucast seed :: i64"
  define ri where "ri = Layer (LayerRandom_new ?s 100) (RiverInit (base_layers ?s))"
  have ri: "emits (\<lambda>_. True) (area ri)" unfolding ri_def by (rule emits_biome_layers(9) [OF base_layers_climate])
  have times: "emits P (area (zoom_times s l k n))" if "emits P (area l)" "P 0" for P s l k n
    using that unfolding zoom_times_def Let_def by (induction n) (auto simp: zoom_layer_def layer_random_cases intro: emits_layers(2))
  have loop: "emits (\<lambda>v. biome v) (area (biome_loop s i l))" if "emits (\<lambda>v. biome v) (area l)" for s i l
    using that by (auto simp: biome_loop_def Let_def zoom_layer_def layer_random_cases intro!: emits_layers(2,3) emits_biome_layers(6))
  have loops: "emits (\<lambda>v. biome v) (area (fold (biome_loop s) ks l))" if "emits (\<lambda>v. biome v) (area l)" for s ks l
    using that by (induction ks arbitrary: l) (auto intro: loop)
  show raw: "emits (\<lambda>v. biome v) (area (raw_layer (OverworldBiomeSource_new seed)))"
    unfolding OverworldBiomeSource_new_def Let_def layer_random_cases ri_def [symmetric] OverworldBiomeSource.select_convs
    by (rule emits_biome_layers(7), rule emits_biome_layers(5), rule loops, rule emits_biome_layers(4), rule emits_biome_layers(3),
        rule emits_biome_layers(2), rule times, rule emits_biome_layers(1) [OF base_layers_climate], simp,
        rule emits_biome_layers(5), rule emits_biome_layers(10), rule times, rule times, rule ri, simp_all)
  then show "emits (\<lambda>v. biome v) (area (final_layer (OverworldBiomeSource_new seed)))"
    unfolding OverworldBiomeSource_new_def Let_def layer_random_cases OverworldBiomeSource.select_convs by (rule emits_biome_layers(8))
qed

section \<open>The source never panics, and its windows agree\<close>

lemma those_map_all: "(\<And>v. v \<in> set xs \<Longrightarrow> f v = Some (g v)) \<Longrightarrow> those (map f xs) = Some (map g xs)"
  by (induction xs) auto

lemma registered_checked: "biome v \<Longrightarrow> checked_biome v = Some (ucast v)" "biome v \<Longrightarrow> biome_id_is_supported (ucast v)"
    "biome v \<Longrightarrow> default_biome_word (ucast v) \<noteq> None"
proof -
  assume v: "biome v"
  then show c: "checked_biome v = Some (ucast v)" and "default_biome_word (ucast v) \<noteq> None"
    using registered_ok by (auto simp: list_all_iff)
  then show "biome_id_is_supported (ucast v)" by (auto simp: checked_biome_def split: if_splits)
qed

lemma emits_checked:
  assumes "emits (\<lambda>v. biome v) p" and "0 < w" "0 < h"
  shows "those (map checked_biome (p x z w h)) = Some (map ucast (p x z w h)) \<and> length (p x z w h) = w * h
    \<and> (\<forall>v \<in> set (p x z w h). biome v)"
proof (intro conjI)
  show "those (map checked_biome (p x z w h)) = Some (map ucast (p x z w h))"
    by (rule those_map_all, rule registered_checked(1)) (use emitsD(2) [OF assms] in blast)
qed (use emitsD [OF assms] in blast)+

lemma default_word_id: "default_biome_word i = Some word \<Longrightarrow> biome_id word = i"
proof -
  assume "default_biome_word i = Some word"
  then obtain color where "map_of biome_colors i = Some color" and word: "word = push_bit 24 (ucast i) OR color"
    by (auto simp: default_biome_word_def BiomeId_default_color_def)
  moreover have "list_all (\<lambda>(i, color). biome_id (push_bit 24 (ucast i) OR color) = i) biome_colors" by code_simp
  ultimately show ?thesis by (auto simp: list_all_iff dest!: map_of_SomeD)
qed

text \<open>
  C21: The biome source is total and well typed. For every seed and every window, also at the ends of the coordinate range, both
  sampling functions return one biome id per position and every id is registered in the target's catalogue, so the panic
  on unsupported ids is never reached; and the words of every chunk are the catalogue's default words of such ids.
\<close>

theorem biome_source_total:
  assumes "0 < width" and "0 < height"
  shows "(\<exists>ids. biome_ids (OverworldBiomeSource_new seed) x z width height = Some ids
       \<and> length ids = width * height \<and> list_all biome_id_is_supported ids)
    \<and> (\<exists>ids. raw_biome_ids (OverworldBiomeSource_new seed) x z width height = Some ids
       \<and> length ids = width * height \<and> list_all biome_id_is_supported ids)
    \<and> (\<exists>words. chunk_words (OverworldBiomeSource_new seed) position = Some words
       \<and> length words = COLUMN_COUNT \<and> list_all (\<lambda>word. default_biome_word (biome_id word) = Some word) words)"
proof (intro conjI)
  let ?s = "OverworldBiomeSource_new seed"
  have final: "emits (\<lambda>v. biome v) (area (final_layer ?s))" and raw: "emits (\<lambda>v. biome v) (area (raw_layer ?s))"
    by (rule source_registered)+
  show "\<exists>ids. biome_ids ?s x z width height = Some ids \<and> length ids = width * height \<and> list_all biome_id_is_supported ids"
    using emits_checked [OF final assms, of x z] registered_checked(2) by (simp add: biome_ids_def list_all_iff)
  show "\<exists>ids. raw_biome_ids ?s x z width height = Some ids \<and> length ids = width * height \<and> list_all biome_id_is_supported ids"
    using emits_checked [OF raw assms, of x z] registered_checked(2) by (simp add: raw_biome_ids_def list_all_iff)
  define vs where "vs = area (final_layer ?s) (coord_x position * 16) (coord_z position * 16) 16 16"
  have vs: "biome_ids ?s (coord_x position * 16) (coord_z position * 16) 16 16 = Some (map ucast vs)" "length vs = 256" "\<forall>v \<in> set vs. biome v"
    using emits_checked [OF final, of 16 16 "coord_x position * 16" "coord_z position * 16"] by (simp_all add: biome_ids_def vs_def)
  have "those (map default_biome_word (map ucast vs)) = Some (map (\<lambda>v. the (default_biome_word v)) (map ucast vs))"
    by (rule those_map_all) (use vs(3) registered_checked(3) in auto)
  moreover have "default_biome_word (biome_id (the (default_biome_word (ucast v)))) = Some (the (default_biome_word (ucast v)))" if "v \<in> set vs" for v
    using vs(3) that registered_checked(3) [of v] default_word_id by fastforce
  ultimately show "\<exists>words. chunk_words ?s position = Some words \<and> length words = COLUMN_COUNT
      \<and> list_all (\<lambda>word. default_biome_word (biome_id word) = Some word) words"
    using vs(1,2) by (simp add: chunk_words_def list_all_iff shape_numerals)
qed

theorem biome_source_total_witness:
  "\<exists>ids. biome_ids (OverworldBiomeSource_new 42) 0x7ffffff8 (- 5) 16 16 = Some ids \<and> length ids = 256 \<and> list_all biome_id_is_supported ids"
  using biome_source_total [of 16 16 42 "0x7ffffff8" "- 5" "ChunkCoord 0 0"] by simp

lemma margin_zoom_times: "margin (zoom_times s l k n) = margin l"
  unfolding zoom_times_def Let_def by (induction n) (simp_all add: zoom_layer_def layer_random_cases)

lemma margin_source: "margin (final_layer (OverworldBiomeSource_new seed)) \<le> 20"
  by (simp add: OverworldBiomeSource_new_def Let_def layer_random_cases margin_zoom_times base_layers_def zoom_layer_def zoom_unseeded_def
      biome_loop_def upt_rec)

definition biome_at :: "i32 \<Rightarrow> int \<Rightarrow> int \<Rightarrow> u8" where
  "biome_at seed x z = ucast (cell (final_layer (OverworldBiomeSource_new seed)) x z)"



end
