(* ===== verification/MtRandom.thy ===== *)
theory MtRandom
  imports Float64
begin

unbundle bit_operations_syntax

text \<open>
  The random generator of world generation (\<open>native/world/src/terrain_shape/noise.rs\<close>, \<open>MtRandom\<close>). The code keeps the 624 words
  of a Mersenne Twister and advances one word per draw, in place. The reference is the recurrence of MT19937 over an unbounded
  sequence of words; the main lemma says that the n-th draw is the n-th output of that recurrence, so the lazy in-place
  update never reads a word of the wrong generation, and no index leaves the array.
\<close>

section \<open>Definitions\<close>

definition MT_N :: nat where "MT_N = 624"
definition MT_M :: nat where "MT_M = 397"
definition MATRIX_A :: u32 where "MATRIX_A = 0x9908b0df"
definition UPPER_MASK :: u32 where "UPPER_MASK = 0x80000000"
definition LOWER_MASK :: u32 where "LOWER_MASK = 0x7fffffff"

record MtRandom =
  mt_state :: "u32 list"
  mt_index :: nat

definition seed_word :: "u32 \<Rightarrow> nat \<Rightarrow> u32" where
  "seed_word previous index = 1812433253 * (previous XOR drop_bit 30 previous) + of_nat index"

definition MtRandom_new :: "u32 \<Rightarrow> MtRandom" where
  "MtRandom_new seed =
     \<lparr>mt_state = fold (\<lambda>index state. state[index := seed_word (state ! (index - 1)) index]) [1..<MT_N] ((replicate MT_N 0)[0 := seed]),
      mt_index = MT_N\<rparr>"

text \<open>The common part of the three branches: the next generation of a word from the word, its successor and the word \<open>MT_M\<close> ahead.\<close>

definition twist :: "u32 \<Rightarrow> u32 \<Rightarrow> u32 \<Rightarrow> u32" where
  "twist current following ahead =
     (let y = (current AND UPPER_MASK) OR (following AND LOWER_MASK)
      in ahead XOR drop_bit 1 y XOR (if y AND 1 = 0 then 0 else MATRIX_A))"

definition temper :: "u32 \<Rightarrow> u32" where
  "temper word =
     (let v = word XOR drop_bit 11 word;
          v = v XOR (push_bit 7 v AND 0x9d2c5680);
          v = v XOR (push_bit 15 v AND 0xefc60000)
      in v XOR drop_bit 18 v)"

definition next_u32 :: "MtRandom \<Rightarrow> u32 \<times> MtRandom" where
  "next_u32 random =
     (let random = (if mt_index random > MT_N then (MtRandom_new 5489)\<lparr>mt_index := 0\<rparr>
                    else if mt_index random = MT_N then random\<lparr>mt_index := 0\<rparr> else random);
          index = mt_index random; state = mt_state random;
          state = (if index < MT_N - MT_M then state[index := twist (state ! index) (state ! (index + 1)) (state ! (index + MT_M))]
                   else if index < MT_N - 1 then state[index := twist (state ! index) (state ! (index + 1)) (state ! (index + MT_M - MT_N))]
                   else state[MT_N - 1 := twist (state ! (MT_N - 1)) (state ! 0) (state ! (MT_M - 1))])
      in (temper (state ! index), random\<lparr>mt_state := state, mt_index := index + 1\<rparr>))"

text \<open>The constant is \<open>1.0 / 4294967296.0\<close>.\<close>

definition next_float :: "MtRandom \<Rightarrow> f32 \<times> MtRandom" where
  "next_float random = (let (v, random) = next_u32 random in (f64_to_f32 (f64_mul (f64_of_int (uint v)) 0x3df0000000000000), random))"

definition next_int :: "u32 \<Rightarrow> MtRandom \<Rightarrow> u32 \<times> MtRandom" where
  "next_int bound random = (let (v, random) = next_u32 random in (v mod bound, random))"

definition reseed :: "u32 \<Rightarrow> MtRandom \<Rightarrow> MtRandom" where
  "reseed seed random = MtRandom_new seed"

definition next_positive_int :: "MtRandom \<Rightarrow> u32 \<times> MtRandom" where
  "next_positive_int random = (let (v, random) = next_u32 random in (drop_bit 1 v, random))"

definition next_gaussian_float :: "MtRandom \<Rightarrow> f32 \<times> MtRandom" where
  "next_gaussian_float random = (let (a, random) = next_float random; (b, random) = next_float random in (f32_sub a b, random))"

definition next_gaussian_int :: "u32 \<Rightarrow> MtRandom \<Rightarrow> i32 \<times> MtRandom" where
  "next_gaussian_int bound random = (let (a, random) = next_int bound random; (b, random) = next_int bound random in (a - b, random))"

definition next_boolean :: "MtRandom \<Rightarrow> bool \<times> MtRandom" where
  "next_boolean random = (let (v, random) = next_u32 random in (v AND 0x08000000 \<noteq> 0, random))"

text \<open>The first \<open>n\<close> draws.\<close>

primrec draws :: "nat \<Rightarrow> MtRandom \<Rightarrow> u32 list" where
  "draws 0 random = []"
| "draws (Suc n) random = (let (v, random) = next_u32 random in v # draws n random)"

section \<open>The recurrence\<close>

fun mt_word :: "u32 \<Rightarrow> nat \<Rightarrow> u32" where
  "mt_word seed k =
     (if k = 0 then seed
      else if k < 624 then seed_word (mt_word seed (k - 1)) k
      else twist (mt_word seed (k - 624)) (mt_word seed (k - 623)) (mt_word seed (k - 227)))"

declare mt_word.simps [simp del]

lemma mt_word_seed: "mt_word seed 0 = seed" "k + 1 < 624 \<Longrightarrow> mt_word seed (k + 1) = seed_word (mt_word seed k) (k + 1)"
  by (subst mt_word.simps, simp)+

lemma mt_word_twist: "mt_word seed (k + 624) = twist (mt_word seed k) (mt_word seed (k + 1)) (mt_word seed (k + 397))"
  by (subst mt_word.simps) (simp add: add.commute)

lemmas mt_constants = MT_N_def MT_M_def

lemma seed_state:
  assumes "n \<le> 623"
  shows "length (fold (\<lambda>index state. state[index := seed_word (state ! (index - 1)) index]) [1..<Suc n] ((replicate MT_N 0)[0 := seed])) = 624
    \<and> (\<forall>i \<le> n. fold (\<lambda>index state. state[index := seed_word (state ! (index - 1)) index]) [1..<Suc n] ((replicate MT_N 0)[0 := seed]) ! i
         = mt_word seed i)"
  using assms
proof (induction n)
  case 0
  then show ?case by (simp add: mt_constants mt_word_seed)
next
  case (Suc n)
  then show ?case using mt_word_seed(2) [of n seed] by (auto simp: nth_list_update le_Suc_eq)
qed

lemma MtRandom_new_state:
  "length (mt_state (MtRandom_new seed)) = 624" "i < 624 \<Longrightarrow> mt_state (MtRandom_new seed) ! i = mt_word seed i"
  "mt_index (MtRandom_new seed) = 624"
  using seed_state [of 623 seed] by (simp_all add: MtRandom_new_def mt_constants del: fold_simps upt_Suc)

text \<open>After \<open>j\<close> draws the words below the index are one generation ahead of the others.\<close>

definition drawn :: "u32 \<Rightarrow> nat \<Rightarrow> MtRandom \<Rightarrow> bool" where
  "drawn seed j random \<longleftrightarrow> length (mt_state random) = 624
     \<and> mt_index random = (if j mod 624 = 0 then 624 else j mod 624)
     \<and> (\<forall>i < 624. mt_state random ! i = mt_word seed (624 * (j div 624) + i + (if i < j mod 624 then 624 else 0)))"

lemma drawn_new: "drawn seed 0 (MtRandom_new seed)"
  by (simp add: drawn_def MtRandom_new_state)

lemma drawn_next:
  assumes "drawn seed j random"
  shows "fst (next_u32 random) = temper (mt_word seed (j + 624)) \<and> drawn seed (Suc j) (snd (next_u32 random))"
proof -
  define q p where "q = j div 624" and "p = j mod 624"
  have j: "j = 624 * q + p" and p: "p < 624" by (simp_all add: q_def p_def)
  let ?s = "mt_state random"
  have len: "length ?s = 624" and idx: "mt_index random = (if p = 0 then 624 else p)"
    and word: "\<And>i. i < 624 \<Longrightarrow> ?s ! i = mt_word seed (624 * q + i + (if i < p then 624 else 0))"
    using assms by (simp_all add: drawn_def q_def p_def)
  define w where "w = mt_word seed (j + 624)"
  have w: "w = twist (mt_word seed j) (mt_word seed (j + 1)) (mt_word seed (j + 397))" unfolding w_def by (rule mt_word_twist)
  have new: "(if p < MT_N - MT_M then ?s[p := twist (?s ! p) (?s ! (p + 1)) (?s ! (p + MT_M))]
      else if p < MT_N - 1 then ?s[p := twist (?s ! p) (?s ! (p + 1)) (?s ! (p + MT_M - MT_N))]
      else ?s[MT_N - 1 := twist (?s ! (MT_N - 1)) (?s ! 0) (?s ! (MT_M - 1))]) = ?s[p := w]"
  proof -
    consider "p < 227" | "227 \<le> p" "p < 623" | "p = 623" using p by linarith
    then show ?thesis
    proof cases
      case 1
      then show ?thesis unfolding w by (simp add: mt_constants word j add.assoc)
    next
      case 2
      then have "624 * q + (p - 227) + 624 = j + 397" using j by linarith
      with 2 have "?s ! (p - 227) = mt_word seed (j + 397)" using word [of "p - 227"] by (simp add: ac_simps)
      with 2 show ?thesis unfolding w by (simp add: mt_constants word j add.assoc)
    next
      case 3
      then show ?thesis unfolding w by (simp add: mt_constants word j ac_simps)
    qed
  qed
  have prepared: "(if mt_index random > MT_N then (MtRandom_new 5489)\<lparr>mt_index := 0\<rparr>
      else if mt_index random = MT_N then random\<lparr>mt_index := 0\<rparr> else random) = \<lparr>mt_state = ?s, mt_index = p\<rparr>"
    using idx p by (cases random) (auto simp: mt_constants)
  have step: "next_u32 random = (temper w, \<lparr>mt_state = ?s[p := w], mt_index = p + 1\<rparr>)"
    unfolding next_u32_def prepared unfolding Let_def MtRandom.select_convs MtRandom.update_convs new
    using p len by simp
  have "drawn seed (Suc j) \<lparr>mt_state = ?s[p := w], mt_index = p + 1\<rparr>"
  proof (cases "p = 623")
    case True
    then have "Suc j = 624 * Suc q" using j by simp
    then have "Suc j div 624 = Suc q" "Suc j mod 624 = 0" by simp_all
    then show ?thesis using True len by (simp add: drawn_def nth_list_update word w_def j add.commute add.left_commute)
  next
    case False
    with p have "Suc j = 624 * q + Suc p" "Suc p < 624" using j by simp_all
    then have "Suc j div 624 = q" "Suc j mod 624 = Suc p" by simp_all
    then show ?thesis using False len p by (auto simp: drawn_def nth_list_update word w_def j less_Suc_eq add.commute add.left_commute)
  qed
  with step show ?thesis by (simp add: w_def)
qed

lemma draws_drawn: "drawn seed j random \<Longrightarrow> draws n random = map (\<lambda>k. temper (mt_word seed (j + k + 624))) [0..<n]"
proof (induction n arbitrary: j random)
  case (Suc n)
  from drawn_next [OF Suc.prems] Suc.IH [of "Suc j"] show ?case
    by (simp add: case_prod_beta Let_def upt_conv_Cons map_Suc_upt [symmetric] comp_def del: upt_Suc)
qed simp

text \<open>
  C19: The random generator is MT19937. For every seed the draws are, one by one, the tempered words of the Mersenne Twister
  recurrence after its 624 seed words, although the code keeps only 624 words and renews one of them per draw.
\<close>

theorem mt_random_is_mt19937: "draws n (MtRandom_new seed) = map (\<lambda>k. temper (mt_word seed (k + 624))) [0..<n]"
  using draws_drawn [OF drawn_new, of n seed] by simp

end
