(* ===== verification/Population.thy ===== *)
theory Population
  imports WorldStore MtRandom
begin

unbundle bit_operations_syntax

text \<open>
  The 3x3 chunk neighbourhood that world generation populates (\<open>native/world/src/population.rs\<close>). Features read and write
  blocks by world coordinates; \<open>resolve\<close> finds the chunk and the position inside it with wrapping arithmetic. The queue of
  generation ticks is only carried along here, so the record is polymorphic in its type. Building a neighbourhood from carved
  terrain is not part of this theory; \<open>from_planes\<close> takes the nine chunks.

  \<open>neighborhood_ok\<close> is the invariant that excludes the panics of indexing: nine chunks with planes of the fixed lengths.
\<close>

section \<open>Definitions\<close>

record PopulationChunkPlanes =
  plane_states :: "u16 list"
  plane_biome_ids :: "u8 list"
  plane_generation_height_map :: "u8 list"
  plane_extra_data :: "(u16 \<times> u16) list"
  plane_chests :: "ChestBlockEntity list"

record 'q PopulationNeighborhood =
  neighborhood_center :: ChunkCoord
  neighborhood_chunks :: "PopulationChunkPlanes list"
  neighborhood_ticks :: "'q option"

definition top_solid_for_population :: "u16 \<Rightarrow> bool \<Rightarrow> bool" where
  "top_solid_for_population i include_water =
     (if i \<in> {0, 10, 11} then False else if i \<in> {8, 9} then include_water else True)"

definition generation_height_blocking :: "u16 \<Rightarrow> bool" where
  "generation_height_blocking i \<longleftrightarrow> i \<notin> {0, 111}"

definition state_of :: "u16 \<Rightarrow> u8 \<Rightarrow> u16" where
  "state_of block d = push_bit 4 block OR ucast d"

definition plane_index :: "nat \<Rightarrow> nat \<Rightarrow> nat \<Rightarrow> nat" where
  "plane_index x y z = push_bit 8 y OR push_bit 4 z OR x"

definition neighborhood_index :: "i32 \<Rightarrow> i32 \<Rightarrow> nat option" where
  "neighborhood_index offset_x offset_z =
     (if \<not> (- 1 \<le> sint offset_x \<and> sint offset_x \<le> 1) \<or> \<not> (- 1 \<le> sint offset_z \<and> sint offset_z \<le> 1) then None
      else Some (nat (sint offset_z + 1) * 3 + nat (sint offset_x + 1)))"

text \<open>The downward scans that stop at the first block of a kind: the height just above it.\<close>

primrec scan_down :: "(nat \<Rightarrow> bool) \<Rightarrow> nat \<Rightarrow> nat" where
  "scan_down stop 0 = 0"
| "scan_down stop (Suc y) = (if stop y then Suc y else scan_down stop y)"

definition generation_height_map :: "u16 list \<Rightarrow> u8 list" where
  "generation_height_map sts = raster 16 16 (\<lambda>x z.
     of_nat (scan_down (\<lambda>y. generation_height_blocking (drop_bit 4 (sts ! plane_index x y z))) HEIGHT))"

definition from_planes :: "'q \<Rightarrow> ChunkCoord \<Rightarrow> PopulationChunkPlanes list \<Rightarrow> 'q PopulationNeighborhood" where
  "from_planes queue center planes = \<lparr>neighborhood_center = center, neighborhood_chunks = planes, neighborhood_ticks = Some queue\<rparr>"

definition into_planes :: "'q PopulationNeighborhood \<Rightarrow> PopulationChunkPlanes list" where
  "into_planes region = neighborhood_chunks region"

definition center_states :: "'q PopulationNeighborhood \<Rightarrow> u16 list" where
  "center_states region = plane_states (neighborhood_chunks region ! 4)"

definition center_biome_ids :: "'q PopulationNeighborhood \<Rightarrow> u8 list" where
  "center_biome_ids region = plane_biome_ids (neighborhood_chunks region ! 4)"

definition chunk_states :: "'q PopulationNeighborhood \<Rightarrow> i32 \<Rightarrow> i32 \<Rightarrow> u16 list option" where
  "chunk_states region offset_x offset_z =
     map_option (\<lambda>index. plane_states (neighborhood_chunks region ! index)) (neighborhood_index offset_x offset_z)"

definition chunk_biome_ids :: "'q PopulationNeighborhood \<Rightarrow> i32 \<Rightarrow> i32 \<Rightarrow> u8 list option" where
  "chunk_biome_ids region offset_x offset_z =
     map_option (\<lambda>index. plane_biome_ids (neighborhood_chunks region ! index)) (neighborhood_index offset_x offset_z)"

definition resolve :: "'q PopulationNeighborhood \<Rightarrow> i32 \<Rightarrow> i32 \<Rightarrow> (nat \<times> nat \<times> nat) option" where
  "resolve region world_x world_z =
     (let relative_x = world_x - coord_x (neighborhood_center region) * 16;
          relative_z = world_z - coord_z (neighborhood_center region) * 16
      in if \<not> (- 16 \<le> sint relative_x \<and> sint relative_x < 48) \<or> \<not> (- 16 \<le> sint relative_z \<and> sint relative_z < 48) then None
         else map_option (\<lambda>index. (index, i32_rem_euclid relative_x 16, i32_rem_euclid relative_z 16))
                (neighborhood_index (i32_div_euclid relative_x 16) (i32_div_euclid relative_z 16)))"

definition in_world_height :: "i32 \<Rightarrow> bool" where
  "in_world_height y \<longleftrightarrow> 0 \<le> sint y \<and> sint y < int HEIGHT"

definition region_biome_id :: "'q PopulationNeighborhood \<Rightarrow> i32 \<Rightarrow> i32 \<Rightarrow> u8 option" where
  "region_biome_id region world_x world_z =
     map_option (\<lambda>(index, x, z). plane_biome_ids (neighborhood_chunks region ! index) ! (x + z * 16)) (resolve region world_x world_z)"

definition region_state :: "'q PopulationNeighborhood \<Rightarrow> i32 \<Rightarrow> i32 \<Rightarrow> i32 \<Rightarrow> u16 option" where
  "region_state region world_x y world_z =
     (if \<not> in_world_height y then None
      else map_option (\<lambda>(index, x, z). plane_states (neighborhood_chunks region ! index) ! plane_index x (unat y) z)
             (resolve region world_x world_z))"

definition region_block_id :: "'q PopulationNeighborhood \<Rightarrow> i32 \<Rightarrow> i32 \<Rightarrow> i32 \<Rightarrow> u16" where
  "region_block_id region world_x y world_z =
     (case region_state region world_x y world_z of Some v \<Rightarrow> drop_bit 4 v | None \<Rightarrow> 0)"

definition generation_height :: "'q PopulationNeighborhood \<Rightarrow> i32 \<Rightarrow> i32 \<Rightarrow> i32" where
  "generation_height region world_x world_z =
     (case resolve region world_x world_z of
        None \<Rightarrow> 0
      | Some (index, x, z) \<Rightarrow> ucast (plane_generation_height_map (neighborhood_chunks region ! index) ! (x + z * 16)))"

definition map_chunk :: "nat \<Rightarrow> (PopulationChunkPlanes \<Rightarrow> PopulationChunkPlanes) \<Rightarrow> 'q PopulationNeighborhood \<Rightarrow> 'q PopulationNeighborhood" where
  "map_chunk index f region =
     region\<lparr>neighborhood_chunks := (neighborhood_chunks region)[index := f (neighborhood_chunks region ! index)]\<rparr>"

definition chest_at :: "i32 \<Rightarrow> i32 \<Rightarrow> i32 \<Rightarrow> ChestBlockEntity \<Rightarrow> bool" where
  "chest_at x y z chest \<longleftrightarrow> chest_x chest = x \<and> chest_y chest = y \<and> chest_z chest = z"

definition region_set_state :: "i32 \<Rightarrow> i32 \<Rightarrow> i32 \<Rightarrow> u16 \<Rightarrow> 'q PopulationNeighborhood \<Rightarrow> bool \<times> 'q PopulationNeighborhood" where
  "region_set_state world_x y world_z v region =
     (if \<not> in_world_height y then (False, region)
      else case resolve region world_x world_z of
        None \<Rightarrow> (False, region)
      | Some (chunk_index, x, z) \<Rightarrow>
          let index = plane_index x (unat y) z;
              previous_id = drop_bit 4 (plane_states (neighborhood_chunks region ! chunk_index) ! index);
              region = map_chunk chunk_index (\<lambda>c. c\<lparr>plane_states := (plane_states c)[index := v]\<rparr>) region
          in (True, if previous_id = 54 \<and> drop_bit 4 v \<noteq> 54
                    then map_chunk chunk_index (\<lambda>c. c\<lparr>plane_chests := filter (\<lambda>e. \<not> chest_at world_x y world_z e) (plane_chests c)\<rparr>) region
                    else region))"

fun put_chest :: "ChestBlockEntity \<Rightarrow> ChestBlockEntity list \<Rightarrow> ChestBlockEntity list" where
  "put_chest e [] = [e]"
| "put_chest e (c # cs) = (if chest_at (chest_x e) (chest_y e) (chest_z e) c then e # cs else c # put_chest e cs)"

definition put_chest_block_entity ::
  "i32 \<Rightarrow> i32 \<Rightarrow> i32 \<Rightarrow> ChestItemStack list \<Rightarrow> 'q PopulationNeighborhood \<Rightarrow> bool \<times> 'q PopulationNeighborhood" where
  "put_chest_block_entity world_x y world_z items region =
     (if \<not> in_world_height y then (False, region)
      else case resolve region world_x world_z of
        None \<Rightarrow> (False, region)
      | Some (chunk_index, _, _) \<Rightarrow>
          let entity = \<lparr>chest_x = world_x, chest_y = y, chest_z = world_z, chest_items = items\<rparr>
          in (True, map_chunk chunk_index (\<lambda>c. c\<lparr>plane_chests := put_chest entity (plane_chests c)\<rparr>) region))"

definition set_extra_data :: "i32 \<Rightarrow> i32 \<Rightarrow> i32 \<Rightarrow> u16 \<Rightarrow> 'q PopulationNeighborhood \<Rightarrow> bool \<times> 'q PopulationNeighborhood" where
  "set_extra_data world_x y world_z v region =
     (if \<not> in_world_height y then (False, region)
      else case resolve region world_x world_z of
        None \<Rightarrow> (False, region)
      | Some (chunk_index, x, z) \<Rightarrow>
          (True, map_chunk chunk_index (\<lambda>c. c\<lparr>plane_extra_data := set_extra (of_nat (plane_index x (unat y) z)) v (plane_extra_data c)\<rparr>) region))"

text \<open>The panic on reentrance is \<open>None\<close>.\<close>

definition with_generation_ticks ::
  "('q PopulationNeighborhood \<Rightarrow> 'q \<Rightarrow> 'r \<times> 'q PopulationNeighborhood \<times> 'q) \<Rightarrow> 'q PopulationNeighborhood
   \<Rightarrow> ('r \<times> 'q PopulationNeighborhood) option" where
  "with_generation_ticks f region =
     map_option (\<lambda>queue. let (result, region, queue) = f (region\<lparr>neighborhood_ticks := None\<rparr>) queue
                         in (result, region\<lparr>neighborhood_ticks := Some queue\<rparr>)) (neighborhood_ticks region)"

definition above_top_solid_block :: "'q PopulationNeighborhood \<Rightarrow> i32 \<Rightarrow> i32 \<Rightarrow> bool \<Rightarrow> i32" where
  "above_top_solid_block region world_x world_z include_water =
     of_nat (scan_down (\<lambda>y. top_solid_for_population (region_block_id region world_x (of_nat y) world_z) include_water) HEIGHT)"

text \<open>\<open>odd_scale\<close> reads the word as signed and divides towards zero; its argument is below \<open>2 ^ 31\<close>.\<close>

definition odd_scale :: "u32 \<Rightarrow> i32" where
  "odd_scale v = word_of_int (sgn (sint v) * (\<bar>sint v\<bar> div 2)) * 2 + 1"

definition population_seed :: "u32 \<Rightarrow> ChunkCoord \<Rightarrow> u32" where
  "population_seed seed center =
     (let random = MtRandom_new seed;
          (a, random) = next_positive_int random;
          (b, random) = next_positive_int random
      in (coord_x center * odd_scale a + coord_z center * odd_scale b) XOR seed)"

definition population_random :: "u32 \<Rightarrow> ChunkCoord \<Rightarrow> MtRandom" where
  "population_random seed center = MtRandom_new (population_seed seed center)"

section \<open>Positions\<close>

lemma plane_index_eq: "x < 16 \<Longrightarrow> z < 16 \<Longrightarrow> plane_index x y z = y * 256 + z * 16 + x"
  using or_push_bit_add [of x 4 z] or_push_bit_add [of "z * 16 + x" 8 y] by (simp add: plane_index_def or.assoc)

lemma plane_index_bound: "x < 16 \<Longrightarrow> z < 16 \<Longrightarrow> y < 128 \<Longrightarrow> plane_index x y z < 32768"
  by (simp add: plane_index_eq)

lemma plane_index_inj:
  "x < 16 \<Longrightarrow> z < 16 \<Longrightarrow> x' < 16 \<Longrightarrow> z' < 16 \<Longrightarrow> plane_index x y z = plane_index x' y' z' \<longleftrightarrow> x = x' \<and> y = y' \<and> z = z'"
  using mixed_radix [of x z x' z' y y'] by (auto simp: plane_index_eq)

definition planes_ok :: "PopulationChunkPlanes \<Rightarrow> bool" where
  "planes_ok c \<longleftrightarrow> length (plane_states c) = BLOCK_COUNT \<and> length (plane_biome_ids c) = COLUMN_COUNT
     \<and> length (plane_generation_height_map c) = COLUMN_COUNT"

definition neighborhood_ok :: "'q PopulationNeighborhood \<Rightarrow> bool" where
  "neighborhood_ok region \<longleftrightarrow> length (neighborhood_chunks region) = 9 \<and> list_all planes_ok (neighborhood_chunks region)"

lemma resolve_bounds:
  assumes "resolve region x z = Some (index, lx, lz)"
  shows "index < 9 \<and> lx < 16 \<and> lz < 16"
proof -
  have "nat (sint a + 1) * 3 + nat (sint b + 1) < 9" if "sint a \<le> 1" "sint b \<le> 1" for a b :: i32
    using that by linarith
  then show ?thesis using assms by (auto simp: resolve_def Let_def neighborhood_index_def i32_rem_euclid_def split: if_splits)
qed

lemma sint_small: "\<bar>k\<bar> < 2 ^ 31 \<Longrightarrow> sint (word_of_int k :: i32) = k"
  by (rule sint_of_i32) auto

lemma nat_sint_unat: "0 \<le> sint y \<Longrightarrow> unat y = nat (sint y)" for y :: i32
proof -
  assume "0 \<le> sint y"
  moreover have "sint y < 2 ^ 31" using sint_lt [of y] by simp
  ultimately have "uint (word_of_int (sint y) :: i32) = sint y" by (simp only: unsigned_of_int) (simp add: take_bit_int_eq_self)
  moreover have "(word_of_int (sint y) :: i32) = y" by simp
  ultimately have "uint y = sint y" by (simp only:)
  then show ?thesis by (metis nat_uint_eq)
qed

lemma resolve_local:
  assumes "lx < 48" "lz < 48"
  shows "resolve region (coord_x (neighborhood_center region) * 16 + (of_nat lx - 16)) (coord_z (neighborhood_center region) * 16 + (of_nat lz - 16))
    = Some (lz div 16 * 3 + lx div 16, lx mod 16, lz mod 16)"
proof -
  have rel: "sint (of_nat k - 16 :: i32) = int k - 16" if "k < 48" for k
  proof -
    have "(of_nat k - 16 :: i32) = word_of_int (int k - 16)" by simp
    moreover have "sint (word_of_int (int k - 16) :: i32) = int k - 16" using that by (intro sint_small) simp
    ultimately show ?thesis by (simp only:)
  qed
  have divs: "sint (i32_div_euclid (of_nat k - 16) 16) = int (k div 16) - 1" "i32_rem_euclid (of_nat k - 16) 16 = k mod 16" if "k < 48" for k
  proof -
    have "(int k - 16) div 16 = int (k div 16) - 1" "(int k - 16) mod 16 = int (k mod 16)"
      by (simp_all add: zdiv_int zmod_int)
    note d = this
    have "sint (word_of_int (int (k div 16) - 1) :: i32) = int (k div 16) - 1" using that by (intro sint_small) simp
    then show "sint (i32_div_euclid (of_nat k - 16) 16) = int (k div 16) - 1"
      unfolding i32_div_euclid_def rel [OF that] d(1) .
    show "i32_rem_euclid (of_nat k - 16) 16 = k mod 16"
      unfolding i32_rem_euclid_def rel [OF that] d(2) by simp
  qed
  have "lx div 16 < 3" "lz div 16 < 3" using assms by simp_all
  then show ?thesis
    using assms by (simp add: resolve_def Let_def rel divs neighborhood_index_def)
qed

lemma resolve_inj:
  assumes "resolve region x z = Some (index, lx, lz)" and "resolve region x' z' = Some (index, lx, lz)"
  shows "x = x' \<and> z = z'"
proof -
  have word: "a = word_of_int ((d - 1) * 16 + int l)"
    if "sint (i32_div_euclid a 16) + 1 = d" "i32_rem_euclid a 16 = l" "- 16 \<le> sint a" "sint a < 48" for a :: i32 and d l
  proof -
    have "sint (i32_div_euclid a 16) = sint a div 16" 
    proof -
      have "- 1 \<le> sint a div 16" "sint a div 16 < 3" using that(3,4) by linarith+
      then show ?thesis unfolding i32_div_euclid_def by (intro sint_small) simp
    qed
    then have "sint a = (d - 1) * 16 + int l" using that(1,2) mult_div_mod_eq [of 16 "sint a"] unfolding i32_rem_euclid_def by (smt (verit) int_nat_eq pos_mod_sign)
    moreover have "a = word_of_int (sint a)" by simp
    ultimately show ?thesis by (simp only:)
  qed
  have digits: "a = a' \<and> b = b'" if "a * 3 + b = a' * 3 + b'" "b < 3" "b' < 3" for a b a' b' :: nat
    using that by presburger
  define rx rz rx' rz' where "rx = x - coord_x (neighborhood_center region) * 16" and "rz = z - coord_z (neighborhood_center region) * 16"
    and "rx' = x' - coord_x (neighborhood_center region) * 16" and "rz' = z' - coord_z (neighborhood_center region) * 16"
  note defs = resolve_def Let_def neighborhood_index_def rx_def [symmetric] rz_def [symmetric] rx'_def [symmetric] rz'_def [symmetric]
  have one: "- 16 \<le> sint rx \<and> sint rx < 48 \<and> - 16 \<le> sint rz \<and> sint rz < 48 \<and> i32_rem_euclid rx 16 = lx \<and> i32_rem_euclid rz 16 = lz
      \<and> - 1 \<le> sint (i32_div_euclid rx 16) \<and> sint (i32_div_euclid rx 16) \<le> 1 \<and> - 1 \<le> sint (i32_div_euclid rz 16)
      \<and> index = nat (sint (i32_div_euclid rz 16) + 1) * 3 + nat (sint (i32_div_euclid rx 16) + 1)"
    using assms(1) unfolding defs by (auto split: if_splits)
  have two: "- 16 \<le> sint rx' \<and> sint rx' < 48 \<and> - 16 \<le> sint rz' \<and> sint rz' < 48 \<and> i32_rem_euclid rx' 16 = lx \<and> i32_rem_euclid rz' 16 = lz
      \<and> - 1 \<le> sint (i32_div_euclid rx' 16) \<and> sint (i32_div_euclid rx' 16) \<le> 1 \<and> - 1 \<le> sint (i32_div_euclid rz' 16)
      \<and> index = nat (sint (i32_div_euclid rz' 16) + 1) * 3 + nat (sint (i32_div_euclid rx' 16) + 1)"
    using assms(2) unfolding defs by (auto split: if_splits)
  have "sint (i32_div_euclid rx 16) = sint (i32_div_euclid rx' 16) \<and> sint (i32_div_euclid rz 16) = sint (i32_div_euclid rz' 16)"
    using digits [of "nat (sint (i32_div_euclid rz 16) + 1)" "nat (sint (i32_div_euclid rx 16) + 1)"
        "nat (sint (i32_div_euclid rz' 16) + 1)" "nat (sint (i32_div_euclid rx' 16) + 1)"] one two by linarith
  then have "rx = rx'" "rz = rz'"
    using word [of rx _ lx] word [of rx' _ lx] word [of rz _ lz] word [of rz' _ lz] one two by metis+
  then show ?thesis by (simp add: rx_def rx'_def rz_def rz'_def)
qed

section \<open>Writing a block\<close>

lemma map_chunk_ok:
  assumes "neighborhood_ok region" and "\<And>c. planes_ok c \<Longrightarrow> planes_ok (f c)"
  shows "neighborhood_ok (map_chunk index f region)"
proof (cases "index < length (neighborhood_chunks region)")
  case True
  then show ?thesis using assms by (auto simp: neighborhood_ok_def map_chunk_def list_all_length nth_list_update)
next
  case False
  then show ?thesis using assms(1) by (simp add: neighborhood_ok_def map_chunk_def list_update_beyond)
qed

lemma map_chunk_simps [simp]:
  "neighborhood_center (map_chunk index f region) = neighborhood_center region"
  "resolve (map_chunk index f region) = resolve region"
  by (simp_all add: map_chunk_def resolve_def fun_eq_iff)

lemma map_chunk_nth:
  "index < length (neighborhood_chunks region) \<Longrightarrow>
   neighborhood_chunks (map_chunk index f region) ! i = (if i = index then f (neighborhood_chunks region ! index) else neighborhood_chunks region ! i)"
  by (simp add: map_chunk_def)

lemma region_state_other_planes:
  assumes "\<And>c. plane_states (g c) = plane_states c"
  shows "region_state (map_chunk index g region) = region_state region"
proof -
  have "plane_states (neighborhood_chunks (map_chunk index g region) ! i) = plane_states (neighborhood_chunks region ! i)" for i
    by (cases "index < length (neighborhood_chunks region)") (simp_all add: map_chunk_nth assms, simp add: map_chunk_def list_update_beyond)
  then show ?thesis by (simp add: region_state_def fun_eq_iff)
qed

lemma region_set_state_exact:
  assumes ok: "neighborhood_ok region"
  shows "neighborhood_ok (snd (region_set_state x y z v region))"
    and "fst (region_set_state x y z v region) \<longleftrightarrow> region_state region x y z \<noteq> None"
    and "region_state (snd (region_set_state x y z v region)) x' y' z' =
      (if (x', y', z') = (x, y, z) \<and> region_state region x y z \<noteq> None then Some v else region_state region x' y' z')"
proof -
  have planes: "planes_ok c \<Longrightarrow> planes_ok (c\<lparr>plane_states := (plane_states c)[i := v]\<rparr>)"
    "planes_ok c \<Longrightarrow> planes_ok (c\<lparr>plane_chests := es\<rparr>)" for c i es by (simp_all add: planes_ok_def)
  show "neighborhood_ok (snd (region_set_state x y z v region))"
    using ok by (auto simp: region_set_state_def Let_def planes intro!: map_chunk_ok split: option.splits)
  show "fst (region_set_state x y z v region) \<longleftrightarrow> region_state region x y z \<noteq> None"
    by (auto simp: region_set_state_def region_state_def Let_def split: option.splits)
  show "region_state (snd (region_set_state x y z v region)) x' y' z' =
      (if (x', y', z') = (x, y, z) \<and> region_state region x y z \<noteq> None then Some v else region_state region x' y' z')"
  proof (cases "in_world_height y \<and> resolve region x z \<noteq> None")
    case False
    then show ?thesis by (auto simp: region_set_state_def region_state_def split: option.splits)
  next
    case True
    then obtain ci lx lz where r: "resolve region x z = Some (ci, lx, lz)" and y: "in_world_height y" by auto
    have b: "ci < 9" "lx < 16" "lz < 16" using resolve_bounds [OF r] by simp_all
    define f :: "PopulationChunkPlanes \<Rightarrow> PopulationChunkPlanes" where "f = (\<lambda>c. c\<lparr>plane_states := (plane_states c)[plane_index lx (unat y) lz := v]\<rparr>)"
    have len: "ci < length (neighborhood_chunks region)" "length (plane_states (neighborhood_chunks region ! ci)) = 32768"
      using ok b by (auto simp: neighborhood_ok_def list_all_length planes_ok_def shape_numerals)
    have yb: "unat y < 128" using y nat_sint_unat [of y] by (simp add: in_world_height_def shape_numerals nat_less_iff)
    have st: "region_state (snd (region_set_state x y z v region)) x' y' z' = region_state (map_chunk ci f region) x' y' z'"
      using r y by (simp add: region_set_state_def Let_def f_def [symmetric] region_state_other_planes)
    show ?thesis
    proof (cases "in_world_height y' \<and> resolve region x' z' \<noteq> None")
      case False
      then have "region_state q x' y' z' = None" if "resolve q = resolve region" for q :: "'a PopulationNeighborhood"
        using that by (cases "resolve region x' z'") (auto simp: region_state_def)
      moreover have "(x', y', z') \<noteq> (x, y, z)" using False r y by auto
      ultimately show ?thesis unfolding st by auto
    next
      case True
      then obtain ci' lx' lz' where r': "resolve region x' z' = Some (ci', lx', lz')" and y': "in_world_height y'" by auto
      have b': "lx' < 16" "lz' < 16" using resolve_bounds [OF r'] by simp_all
      have same: "(x', y', z') = (x, y, z) \<longleftrightarrow> ci' = ci \<and> plane_index lx' (unat y') lz' = plane_index lx (unat y) lz"
      proof
        assume "(x', y', z') = (x, y, z)"
        then show "ci' = ci \<and> plane_index lx' (unat y') lz' = plane_index lx (unat y) lz" using r r' by simp
      next
        assume eq: "ci' = ci \<and> plane_index lx' (unat y') lz' = plane_index lx (unat y) lz"
        then have "lx' = lx" "unat y' = unat y" "lz' = lz" using plane_index_inj [OF b' b(2,3)] by simp_all
        then show "(x', y', z') = (x, y, z)" using resolve_inj [OF r] r' eq by (simp add: word_unat_eq_iff)
      qed
      show ?thesis unfolding st using r r' y y' len same plane_index_bound [OF b(2,3) yb]
        by (simp add: region_state_def map_chunk_nth f_def nth_list_update)
    qed
  qed
qed

end
