(* ===== verification/Light.thy ===== *)
theory Light
  imports Population
begin

unbundle bit_operations_syntax

text \<open>
  The final lighting of a generated chunk (\<open>native/world/src/population_light.rs\<close>): heights, sky light and block light of the
  centre of a 3x3 neighbourhood, by flooding from the sources through a work queue.

  The flood loop has no bound in the code; here it is a partial function, and the lemma \<open>propagate_exact\<close> shows that it ends
  and what it leaves. The reference is \<open>lit\<close>: light reaches a block along a path of neighbours and loses the opacity of every block
  it enters; the level of a block is the strongest light that reaches it.
\<close>

section \<open>Definitions\<close>

definition NEIGHBORHOOD_EDGE :: nat where "NEIGHBORHOOD_EDGE = 48"
definition NEIGHBORHOOD_AREA :: nat where "NEIGHBORHOOD_AREA = NEIGHBORHOOD_EDGE * NEIGHBORHOOD_EDGE"
definition NEIGHBORHOOD_VOLUME :: nat where "NEIGHBORHOOD_VOLUME = NEIGHBORHOOD_AREA * HEIGHT"
definition CENTER_OFFSET :: i32 where "CENTER_OFFSET = 16"

type_synonym light_pos = "nat \<times> nat \<times> nat"

record OverworldFinalizedLighting =
  final_height_map :: "u8 list"
  final_sky_light :: "u8 list"
  final_block_light :: "u8 list"

definition target_light_block :: "u16 \<Rightarrow> u8" where
  "target_light_block i =
     (if i \<in> {8, 9, 79} then 3
      else if i \<in> {18, 30, 161} then 1
      else if i \<in> {0, 6, 20, 31, 32, 37, 38, 39, 40, 44, 50, 51, 52, 53, 54, 55, 59, 60, 64, 65, 66, 67, 69, 70, 71, 78, 81, 83, 85, 93,
                   101, 102, 106, 109, 111, 119, 120, 127, 128, 131, 132, 134, 140, 141, 142, 143, 163, 175, 193, 196, 198, 244} then 0
      else 15)"

definition target_light_emission :: "u16 \<Rightarrow> u8" where
  "target_light_emission i =
     (if i \<in> {10, 11, 51, 119} then 15 else if i = 50 then 14 else if i = 52 then 3 else if i = 39 then 1 else 0)"

fun neighborhood_block_index :: "light_pos \<Rightarrow> nat" where
  "neighborhood_block_index (x, y, z) = y * NEIGHBORHOOD_AREA + z * NEIGHBORHOOD_EDGE + x"

text \<open>The block at a position of the neighbourhood, by the world coordinates the loops compute.\<close>

fun block_at :: "'q PopulationNeighborhood \<Rightarrow> light_pos \<Rightarrow> u16" where
  "block_at region (x, y, z) =
     region_block_id region (coord_x (neighborhood_center region) * 16 + (of_nat x - CENTER_OFFSET)) (of_nat y)
       (coord_z (neighborhood_center region) * 16 + (of_nat z - CENTER_OFFSET))"

definition neighborhood_height_map :: "'q PopulationNeighborhood \<Rightarrow> u8 list" where
  "neighborhood_height_map region = raster NEIGHBORHOOD_EDGE NEIGHBORHOOD_EDGE (\<lambda>local_x local_z.
     of_nat (scan_down (\<lambda>y. target_light_block (block_at region (local_x, y, local_z)) \<noteq> 0) HEIGHT))"

fun light_neighbors :: "light_pos \<Rightarrow> light_pos list" where
  "light_neighbors (x, y, z) =
     (if x > 0 then [(x - 1, y, z)] else []) @ (if x + 1 < NEIGHBORHOOD_EDGE then [(x + 1, y, z)] else [])
     @ (if y > 0 then [(x, y - 1, z)] else []) @ (if y + 1 < HEIGHT then [(x, y + 1, z)] else [])
     @ (if z > 0 then [(x, y, z - 1)] else []) @ (if z + 1 < NEIGHBORHOOD_EDGE then [(x, y, z + 1)] else [])"

definition spread_light ::
  "'q PopulationNeighborhood \<Rightarrow> u8 \<Rightarrow> light_pos \<Rightarrow> u8 list \<times> light_pos list \<Rightarrow> u8 list \<times> light_pos list" where
  "spread_light region source p = (\<lambda>(light, queue).
     let attenuation = max (target_light_block (block_at region p)) 1;
         candidate = saturating_sub source attenuation
     in if candidate = 0 then (light, queue)
        else let index = neighborhood_block_index p
             in if candidate > light ! index then (light[index := candidate], queue @ [p]) else (light, queue))"

partial_function (option) propagate :: "'q PopulationNeighborhood \<Rightarrow> u8 list \<Rightarrow> light_pos list \<Rightarrow> u8 list option" where
  "propagate region light queue =
     (case queue of
        [] \<Rightarrow> Some light
      | p # queue \<Rightarrow>
          let source = light ! neighborhood_block_index p
          in if source \<le> 1 then propagate region light queue
             else let (light, queue) = fold (spread_light region source) (light_neighbors p) (light, queue)
                  in propagate region light queue)"

text \<open>The two seeding loops write a level and queue the position; they differ in the positions and levels they visit.\<close>

definition seed_light :: "(light_pos \<times> u8) list \<Rightarrow> u8 list \<times> light_pos list" where
  "seed_light seeds = fold (\<lambda>(p, level) (light, queue). (light[neighborhood_block_index p := level], queue @ [p])) seeds
     (replicate NEIGHBORHOOD_VOLUME 0, [])"

definition sky_seeds :: "u8 list \<Rightarrow> (light_pos \<times> u8) list" where
  "sky_seeds heights = concat (map (\<lambda>z. concat (map (\<lambda>x.
     map (\<lambda>y. ((x, y, z), 15)) [unat (heights ! (x + z * NEIGHBORHOOD_EDGE))..<HEIGHT]) [0..<NEIGHBORHOOD_EDGE])) [0..<NEIGHBORHOOD_EDGE])"

definition block_seeds :: "'q PopulationNeighborhood \<Rightarrow> (light_pos \<times> u8) list" where
  "block_seeds region = filter (\<lambda>(_, emission). emission \<noteq> 0) (concat (map (\<lambda>y. concat (map (\<lambda>z.
     map (\<lambda>x. ((x, y, z), target_light_emission (block_at region (x, y, z)))) [0..<NEIGHBORHOOD_EDGE]) [0..<NEIGHBORHOOD_EDGE])) [0..<HEIGHT]))"

definition propagate_sky_light :: "'q PopulationNeighborhood \<Rightarrow> u8 list \<Rightarrow> u8 list option" where
  "propagate_sky_light region heights = (let (light, queue) = seed_light (sky_seeds heights) in propagate region light queue)"

definition propagate_block_light :: "'q PopulationNeighborhood \<Rightarrow> u8 list option" where
  "propagate_block_light region = (let (light, queue) = seed_light (block_seeds region) in propagate region light queue)"

definition center_height_map :: "u8 list \<Rightarrow> u8 list" where
  "center_height_map heights = raster 16 16 (\<lambda>x z. heights ! ((x + 16) + (z + 16) * NEIGHBORHOOD_EDGE))"

definition center_positions :: "light_pos list" where
  "center_positions = concat (map (\<lambda>y. concat (map (\<lambda>z. map (\<lambda>x. (x, y, z)) [0..<16]) [0..<16])) [0..<HEIGHT])"

definition pack_center_light :: "u8 list \<Rightarrow> u8 list" where
  "pack_center_light light = fold (\<lambda>(x, y, z).
     write_nibble (plane_index x y z) (light ! neighborhood_block_index (x + 16, y, z + 16))) center_positions (replicate NIBBLE_BYTES 0)"

definition finalize_center_lighting :: "'q PopulationNeighborhood \<Rightarrow> OverworldFinalizedLighting option" where
  "finalize_center_lighting region =
     (let heights = neighborhood_height_map region
      in Option.bind (propagate_sky_light region heights) (\<lambda>sky.
         Option.bind (propagate_block_light region) (\<lambda>block.
         Some \<lparr>final_height_map = center_height_map heights, final_sky_light = pack_center_light sky,
               final_block_light = pack_center_light block\<rparr>)))"

section \<open>The reference\<close>

definition light_cells :: "light_pos set" where
  "light_cells = {(x, y, z). x < 48 \<and> y < 128 \<and> z < 48}"

definition opacity :: "'q PopulationNeighborhood \<Rightarrow> light_pos \<Rightarrow> nat" where
  "opacity region p = max (unat (target_light_block (block_at region p))) 1"

inductive lit :: "'q PopulationNeighborhood \<Rightarrow> (light_pos \<Rightarrow> nat) \<Rightarrow> light_pos \<Rightarrow> nat \<Rightarrow> bool" for region source where
  emitted: "p \<in> light_cells \<Longrightarrow> 0 < source p \<Longrightarrow> lit region source p (source p)"
| entered: "lit region source p s \<Longrightarrow> q \<in> set (light_neighbors p) \<Longrightarrow> opacity region q < s \<Longrightarrow> lit region source q (s - opacity region q)"

definition light_level :: "'q PopulationNeighborhood \<Rightarrow> (light_pos \<Rightarrow> nat) \<Rightarrow> light_pos \<Rightarrow> nat" where
  "light_level region source p = Max (insert 0 {s. lit region source p s})"

fun open_sky :: "'q PopulationNeighborhood \<Rightarrow> light_pos \<Rightarrow> nat" where
  "open_sky region (x, y, z) = (if \<forall>y' \<in> {y..<128}. target_light_block (block_at region (x, y', z)) = 0 then 15 else 0)"

definition emission :: "'q PopulationNeighborhood \<Rightarrow> light_pos \<Rightarrow> nat" where
  "emission region p = unat (target_light_emission (block_at region p))"

section \<open>Cells and indices\<close>

lemma edge_numerals: "NEIGHBORHOOD_EDGE = 48" "NEIGHBORHOOD_AREA = 2304" "NEIGHBORHOOD_VOLUME = 294912" "HEIGHT = 128"
  by (simp_all add: NEIGHBORHOOD_EDGE_def NEIGHBORHOOD_AREA_def NEIGHBORHOOD_VOLUME_def shape_numerals)

abbreviation (input) "idx \<equiv> neighborhood_block_index"

lemma idx_bound: "p \<in> light_cells \<Longrightarrow> idx p < 294912"
  by (cases p) (auto simp: light_cells_def edge_numerals)

lemma idx_inj: "p \<in> light_cells \<Longrightarrow> q \<in> light_cells \<Longrightarrow> idx p = idx q \<longleftrightarrow> p = q"
proof -
  assume "p \<in> light_cells" "q \<in> light_cells"
  moreover obtain x y z x' y' z' where "p = (x, y, z)" "q = (x', y', z')" by (metis prod_cases3)
  moreover have "x = x' \<and> y = y' \<and> z = z'" if "x < 48" "z < 48" "x' < 48" "z' < 48" "x + (z + y * 48) * 48 = x' + (z' + y' * 48) * 48"
    using index_inj [OF that(1,3), of "z + y * 48" "z' + y' * 48"] index_inj [OF that(2,4), of y y'] that(5) by blast
  ultimately show ?thesis by (auto simp: light_cells_def edge_numerals algebra_simps)
qed

lemma light_neighbors_cells: "p \<in> light_cells \<Longrightarrow> q \<in> set (light_neighbors p) \<Longrightarrow> q \<in> light_cells"
  by (cases p) (auto simp: light_cells_def edge_numerals split: if_splits)

lemma light_neighbors_irrefl: "p \<notin> set (light_neighbors p)"
  by (cases p) auto

lemma lit_cells: "lit region source p s \<Longrightarrow> p \<in> light_cells \<and> 0 < s"
  by (induction rule: lit.induct) (auto dest: light_neighbors_cells)

lemma lit_bound: "lit region source p s \<Longrightarrow> (\<And>q. source q \<le> b) \<Longrightarrow> s \<le> b"
  by (induction rule: lit.induct) (auto intro: le_trans diff_le_self)

declare light_neighbors.simps [simp del] neighborhood_block_index.simps [simp del]

section \<open>The flood\<close>

abbreviation (input) level :: "u8 list \<Rightarrow> light_pos \<Rightarrow> nat" where
  "level light p \<equiv> unat (light ! idx p)"

text \<open>A field is sound, keeps the sources, and is closed at every cell that is not waiting in \<open>waiting\<close>.\<close>

definition flooding :: "'q PopulationNeighborhood \<Rightarrow> (light_pos \<Rightarrow> nat) \<Rightarrow> u8 list \<Rightarrow> light_pos set \<Rightarrow> bool" where
  "flooding region source light waiting \<longleftrightarrow> length light = NEIGHBORHOOD_VOLUME \<and> waiting \<subseteq> light_cells
     \<and> (\<forall>p \<in> light_cells. source p \<le> level light p \<and> (level light p \<noteq> 0 \<longrightarrow> lit region source p (level light p)))
     \<and> (\<forall>p \<in> light_cells - waiting. \<forall>q \<in> set (light_neighbors p). level light p - opacity region q \<le> level light q)"

lemma floodingD:
  assumes "flooding region source light waiting"
  shows "length light = NEIGHBORHOOD_VOLUME" "waiting \<subseteq> light_cells"
    "p \<in> light_cells \<Longrightarrow> source p \<le> level light p"
    "p \<in> light_cells \<Longrightarrow> level light p \<noteq> 0 \<Longrightarrow> lit region source p (level light p)"
    "p \<in> light_cells \<Longrightarrow> p \<notin> waiting \<Longrightarrow> q \<in> set (light_neighbors p) \<Longrightarrow> level light p - opacity region q \<le> level light q"
  using assms unfolding flooding_def by blast+

lemma floodingI:
  assumes "length light = NEIGHBORHOOD_VOLUME" "waiting \<subseteq> light_cells"
    "\<And>p. p \<in> light_cells \<Longrightarrow> source p \<le> level light p"
    "\<And>p. p \<in> light_cells \<Longrightarrow> level light p \<noteq> 0 \<Longrightarrow> lit region source p (level light p)"
    "\<And>p q. p \<in> light_cells \<Longrightarrow> p \<notin> waiting \<Longrightarrow> q \<in> set (light_neighbors p) \<Longrightarrow> level light p - opacity region q \<le> level light q"
  shows "flooding region source light waiting"
  using assms unfolding flooding_def by blast

lemma flooding_final:
  assumes "flooding region source light {}" and "p \<in> light_cells"
  shows "level light p = light_level region source p"
proof -
  have closed: "lit region source q s \<Longrightarrow> s \<le> level light q" for q s
  proof (induction rule: lit.induct)
    case (entered p s q)
    then have "p \<in> light_cells" using lit_cells by blast
    then have "level light p - opacity region q \<le> level light q"
      using entered.hyps(2) floodingD(5) [OF assms(1)] by simp
    then show ?case using entered.IH by linarith
  qed (use floodingD(3) [OF assms(1)] in blast)
  have "{s. lit region source p s} \<subseteq> {.. level light p}" using closed by blast
  then have "finite {s. lit region source p s}" by (rule finite_subset) simp
  moreover have "level light p = 0 \<or> lit region source p (level light p)" using floodingD(4) [OF assms] by blast
  ultimately show ?thesis unfolding light_level_def
    by (intro Max_eqI [symmetric]) (blast intro: closed | simp)+
qed

definition darkness :: "u8 list \<Rightarrow> nat" where
  "darkness light = (\<Sum>i < length light. 255 - unat (light ! i))"

lemma darkness_less:
  assumes "i < length light" and "light ! i < v"
  shows "darkness (light[i := v]) < darkness light"
  unfolding darkness_def length_list_update
proof (rule sum_strict_mono_ex1)
  have "unat v < 2 ^ LENGTH(8)" by (rule unsigned_less)
  then show "\<exists>j \<in> {..<length light}. 255 - unat (light[i := v] ! j) < 255 - unat (light ! j)"
    using assms by (intro bexI [of _ i]) (auto simp: word_less_nat_alt)
  show "\<forall>j \<in> {..<length light}. 255 - unat (light[i := v] ! j) \<le> 255 - unat (light ! j)"
    using assms by (auto simp: nth_list_update word_less_nat_alt intro: diff_le_mono2)
qed simp

text \<open>One neighbour: the field only grows, and what grows is queued.\<close>

lemma spread_light_step:
  assumes inv: "flooding region source light (insert p W)" and p: "p \<in> light_cells" and q: "q \<in> set (light_neighbors p)"
    and src: "src = light ! idx p" and W: "W = set queue"
    and step: "spread_light region src q (light, queue) = (light', queue')"
  shows "flooding region source light' (insert p (set queue')) \<and> light' ! idx p = src
    \<and> (\<forall>r \<in> light_cells. level light r \<le> level light' r) \<and> unat src - opacity region q \<le> level light' q
    \<and> ((light', queue') = (light, queue) \<or> darkness light' < darkness light)"
proof -
  have qc: "q \<in> light_cells" and pq: "p \<noteq> q" using light_neighbors_cells [OF p q] light_neighbors_irrefl [of p] q by auto
  have len: "length light = 294912" using floodingD(1) [OF inv] by (simp add: edge_numerals)
  define c where "c = saturating_sub src (max (target_light_block (block_at region q)) 1)"
  have c: "unat c = unat src - opacity region q"
  proof -
    have "unat (max (target_light_block (block_at region q)) 1) = opacity region q"
      by (simp add: opacity_def max_def word_le_nat_alt)
    then show ?thesis by (simp add: c_def saturating_sub_def unat_sub word_le_nat_alt split: if_splits)
  qed
  show ?thesis
  proof (cases "light ! idx q < c")
    case False
    then have "(light', queue') = (light, queue)" using step by (auto simp: spread_light_def Let_def c_def split: if_splits)
    moreover have "unat c \<le> level light q" using False by (simp add: word_less_nat_alt)
    ultimately show ?thesis using inv src W c by simp
  next
    case True
    then have "c \<noteq> 0" by (auto simp: word_less_nat_alt)
    with True have new: "light' = light[idx q := c]" "queue' = queue @ [q]"
      using step by (auto simp: spread_light_def Let_def c_def split: if_splits)
    have at: "level light' r = (if r = q then unat c else level light r)" if "r \<in> light_cells" for r
      using new(1) idx_inj [OF that qc] idx_bound [OF qc] len by (auto simp: nth_list_update)
    have up: "level light r \<le> level light' r" if "r \<in> light_cells" for r
      using at [OF that] True by (auto simp: word_less_nat_alt)
    have "lit region source q (unat c)"
    proof -
      have "level light p \<noteq> 0" using c \<open>c \<noteq> 0\<close> src by (auto simp: unat_eq_zero)
      then have "lit region source p (unat src)" using floodingD(4) [OF inv p] src by simp
      moreover have "opacity region q < unat src" using c \<open>c \<noteq> 0\<close> by (simp add: unat_eq_zero [symmetric])
      ultimately show ?thesis unfolding c using q by (intro lit.entered)
    qed
    note lit_q = this
    have "flooding region source light' (insert p (set queue'))"
    proof (rule floodingI)
      show "length light' = NEIGHBORHOOD_VOLUME" using new(1) len by (simp add: edge_numerals)
      show "insert p (set queue') \<subseteq> light_cells" using floodingD(2) [OF inv] W new(2) qc by simp
      show "source r \<le> level light' r" if "r \<in> light_cells" for r using floodingD(3) [OF inv that] up [OF that] by (rule le_trans)
      show "lit region source r (level light' r)" if "r \<in> light_cells" "level light' r \<noteq> 0" for r
        using floodingD(4) [OF inv that(1)] at [OF that(1)] that(2) lit_q by (cases "r = q") simp_all
      show "level light' r - opacity region t \<le> level light' t"
        if "r \<in> light_cells" "r \<notin> insert p (set queue')" "t \<in> set (light_neighbors r)" for r t
      proof -
        have "r \<noteq> q" "r \<notin> insert p W" using that(2) new(2) W by auto
        then have "level light' r - opacity region t \<le> level light t"
          using floodingD(5) [OF inv that(1) _ that(3)] at [OF that(1)] by simp
        then show ?thesis using up [OF light_neighbors_cells [OF that(1,3)]] by (rule le_trans)
      qed
    qed
    moreover have "darkness light' < darkness light" unfolding new(1) using True len idx_bound [OF qc] by (intro darkness_less) simp_all
    moreover have "light' ! idx p = src" using new(1) idx_inj [OF p qc] pq src by simp
    ultimately show ?thesis using up at [OF qc] c by simp
  qed
qed

lemma spread_light_all:
  assumes "flooding region source light (insert p (set queue))" and "p \<in> light_cells" and "set qs \<subseteq> set (light_neighbors p)"
    and "src = light ! idx p" and "fold (spread_light region src) qs (light, queue) = (light', queue')"
  shows "flooding region source light' (insert p (set queue')) \<and> light' ! idx p = src
    \<and> (\<forall>r \<in> light_cells. level light r \<le> level light' r) \<and> (\<forall>q \<in> set qs. unat src - opacity region q \<le> level light' q)
    \<and> ((light', queue') = (light, queue) \<or> darkness light' < darkness light)"
  using assms
proof (induction qs arbitrary: light queue)
  case (Cons q qs)
  obtain l1 q1 where step: "spread_light region src q (light, queue) = (l1, q1)" by (metis surj_pair)
  have q: "q \<in> set (light_neighbors p)" "q \<in> light_cells" using Cons.prems(2,3) light_neighbors_cells by auto
  note one = spread_light_step [OF Cons.prems(1,2) q(1) Cons.prems(4) refl step]
  have rest: "fold (spread_light region src) qs (l1, q1) = (light', queue')" using Cons.prems(5) step by simp
  have "set qs \<subseteq> set (light_neighbors p)" "src = l1 ! idx p" using Cons.prems(3) one by simp_all
  note all = Cons.IH [OF conjunct1 [OF one] Cons.prems(2) this rest]
  have up1: "\<forall>r \<in> light_cells. level light r \<le> level l1 r" and near: "unat src - opacity region q \<le> level l1 q"
    and less1: "(l1, q1) = (light, queue) \<or> darkness l1 < darkness light" using one by simp_all
  have up2: "\<forall>r \<in> light_cells. level l1 r \<le> level light' r" and far: "\<forall>r \<in> set qs. unat src - opacity region r \<le> level light' r"
    and less2: "(light', queue') = (l1, q1) \<or> darkness light' < darkness l1" using all by simp_all
  have "\<forall>r \<in> light_cells. level light r \<le> level light' r" using up1 up2 le_trans by blast
  moreover have "\<forall>r \<in> set (q # qs). unat src - opacity region r \<le> level light' r"
    using near far le_trans [OF near] bspec [OF up2 q(2)] by simp
  moreover have "(light', queue') = (light, queue) \<or> darkness light' < darkness light" using less1 less2 by (elim disjE) simp_all
  ultimately show ?case using all by (intro conjI) simp_all
qed simp

lemma flooding_drop:
  assumes "flooding region source light (insert p W)" and "\<And>q. q \<in> set (light_neighbors p) \<Longrightarrow> level light p - opacity region q \<le> level light q"
  shows "flooding region source light W"
proof (rule floodingI)
  show "level light r - opacity region q \<le> level light q" if "r \<in> light_cells" "r \<notin> W" "q \<in> set (light_neighbors r)" for r q
    using floodingD(5) [OF assms(1) that(1) _ that(3)] assms(2) that by (cases "r = p") auto
qed (use floodingD [OF assms(1)] in blast)+

lemma propagate_exact:
  assumes "flooding region source light (set queue)"
  shows "\<exists>result. propagate region light queue = Some result \<and> flooding region source result {}"
  using assms
proof (induction "(darkness light, length queue)" arbitrary: light queue rule: wf_induct_rule [OF wf_lex_prod [OF wf_less_than wf_less_than]])
  case less: (1 light queue)
  show ?case
  proof (cases queue)
    case Nil
    then show ?thesis using less.prems by (subst propagate.simps) simp
  next
    case (Cons p rest)
    have inv: "flooding region source light (insert p (set rest))" using less.prems Cons by simp
    have p: "p \<in> light_cells" using floodingD(2) [OF inv] by simp
    define src where "src = light ! idx p"
    show ?thesis
    proof (cases "src \<le> 1")
      case True
      then have "unat src \<le> 1" by (simp add: word_le_nat_alt)
      then have "level light p - opacity region q = 0" for q unfolding src_def by (simp add: opacity_def)
      then have "flooding region source light (set rest)" by (intro flooding_drop [OF inv]) simp
      moreover have "((darkness light, length rest), darkness light, length queue) \<in> less_than <*lex*> less_than" using Cons by simp
      ultimately have "\<exists>result. propagate region light rest = Some result \<and> flooding region source result {}" using less.hyps by blast
      then show ?thesis using True Cons by (subst propagate.simps) (simp add: src_def)
    next
      case False
      obtain light' queue' where fl: "fold (spread_light region src) (light_neighbors p) (light, rest) = (light', queue')" by (metis surj_pair)
      note all = spread_light_all [OF inv p subset_refl src_def fl]
      have "level light' p - opacity region q \<le> level light' q" if "q \<in> set (light_neighbors p)" for q
        using all that by auto
      then have "flooding region source light' (set queue')" using all flooding_drop by blast
      moreover have "((darkness light', length queue'), darkness light, length queue) \<in> less_than <*lex*> less_than" using all Cons by auto
      ultimately have "\<exists>result. propagate region light' queue' = Some result \<and> flooding region source result {}" using less.hyps by blast
      then show ?thesis using False Cons fl by (subst propagate.simps) (simp add: src_def)
    qed
  qed
qed

section \<open>Seeding\<close>

lemma seed_light_snoc:
  "seed_light (seeds @ [(p, v)]) = (case seed_light seeds of (light, queue) \<Rightarrow> (light[idx p := v], queue @ [p]))"
  by (simp add: seed_light_def)

lemma seed_light_spec:
  assumes "distinct (map fst seeds)" and "fst ` set seeds \<subseteq> light_cells"
  shows "length (fst (seed_light seeds)) = NEIGHBORHOOD_VOLUME \<and> snd (seed_light seeds) = map fst seeds
    \<and> (\<forall>p \<in> light_cells. fst (seed_light seeds) ! idx p = (case map_of seeds p of Some v \<Rightarrow> v | None \<Rightarrow> 0))"
  using assms
proof (induction seeds rule: rev_induct)
  case Nil
  then show ?case using idx_bound by (simp add: seed_light_def edge_numerals)
next
  case (snoc pv seeds)
  obtain p v where pv: "pv = (p, v)" by (cases pv)
  obtain light queue where old: "seed_light seeds = (light, queue)" by (metis surj_pair)
  have p: "p \<in> light_cells" "p \<notin> fst ` set seeds" using snoc.prems by (auto simp: pv)
  have IH: "length light = NEIGHBORHOOD_VOLUME" "queue = map fst seeds"
    "\<And>q. q \<in> light_cells \<Longrightarrow> light ! idx q = (case map_of seeds q of Some v \<Rightarrow> v | None \<Rightarrow> 0)"
    using snoc by (simp_all add: old)
  have "map_of seeds p = None" using p(2) by (simp add: map_of_eq_None_iff)
  then have "light[idx p := v] ! idx q = (case map_of (seeds @ [(p, v)]) q of Some v \<Rightarrow> v | None \<Rightarrow> 0)" if "q \<in> light_cells" for q
    using IH(1) IH(3) [OF that] idx_inj [OF that p(1)] idx_bound [OF p(1)]
    by (auto simp: nth_list_update edge_numerals map_add_def split: option.splits)
  then show ?case using IH(1,2) by (simp add: pv seed_light_snoc old)
qed

lemma seeded_flood:
  assumes "distinct (map fst seeds)" and "fst ` set seeds \<subseteq> light_cells" and "\<And>p v. (p, v) \<in> set seeds \<Longrightarrow> source p = unat v"
    and "\<And>p. p \<in> light_cells \<Longrightarrow> p \<notin> fst ` set seeds \<Longrightarrow> source p = 0"
  shows "\<exists>result. (let (light, queue) = seed_light seeds in propagate region light queue) = Some result
    \<and> length result = NEIGHBORHOOD_VOLUME \<and> (\<forall>p \<in> light_cells. level result p = light_level region source p)"
proof -
  obtain light queue where seeded: "seed_light seeds = (light, queue)" by (metis surj_pair)
  have len: "length light = NEIGHBORHOOD_VOLUME" and queue: "queue = map fst seeds"
    and at: "\<And>p. p \<in> light_cells \<Longrightarrow> light ! idx p = (case map_of seeds p of Some v \<Rightarrow> v | None \<Rightarrow> 0)"
    using seed_light_spec [OF assms(1,2)] by (simp_all add: seeded)
  have lev: "level light p = source p" if "p \<in> light_cells" for p
  proof (cases "map_of seeds p")
    case None
    then have "p \<notin> fst ` set seeds" by (simp add: map_of_eq_None_iff)
    then show ?thesis using None at [OF that] assms(4) [OF that] by simp
  next
    case (Some v)
    then show ?thesis using at [OF that] assms(3) map_of_SomeD [OF Some] by simp
  qed
  have "flooding region source light (set queue)"
  proof (rule floodingI [OF len])
    show "set queue \<subseteq> light_cells" using assms(2) queue by simp
    show "source p \<le> level light p" if "p \<in> light_cells" for p using lev [OF that] by simp
    show "lit region source p (level light p)" if "p \<in> light_cells" "level light p \<noteq> 0" for p
      using lev [OF that(1)] that by (simp add: lit.emitted)
    show "level light p - opacity region q \<le> level light q" if "p \<in> light_cells" "p \<notin> set queue" for p q
      using lev [OF that(1)] assms(4) [OF that(1)] that(2) queue by simp
  qed
  from propagate_exact [OF this] obtain result where "propagate region light queue = Some result" "flooding region source result {}" by blast
  then show ?thesis using flooding_final floodingD(1) by (simp add: seeded) blast
qed

lemma distinct_concat_map:
  assumes "distinct xs" and "\<And>x. x \<in> set xs \<Longrightarrow> distinct (f x)"
    and "\<And>x y. x \<in> set xs \<Longrightarrow> y \<in> set xs \<Longrightarrow> x \<noteq> y \<Longrightarrow> set (f x) \<inter> set (f y) = {}"
  shows "distinct (concat (map f xs))"
  using assms
proof (induction xs)
  case (Cons x xs)
  then have "distinct (concat (map f xs))" by simp
  moreover have "set (f x) \<inter> set (f y) = {}" if "y \<in> set xs" for y using Cons.prems(1) Cons.prems(3) [of x y] that by auto
  ultimately show ?case using Cons.prems(2) [of x] by auto
qed simp

lemma in_concat_map: "v \<in> set (concat (map f xs)) \<longleftrightarrow> (\<exists>x \<in> set xs. v \<in> set (f x))"
  by auto

lemma scan_down_le: "scan_down stop n \<le> y \<longleftrightarrow> (\<forall>y' \<in> {y..<n}. \<not> stop y')"
  by (induction n) (auto simp: less_Suc_eq)

lemma scan_down_bound: "scan_down stop n \<le> n"
  by (simp add: scan_down_le)

lemma neighborhood_height:
  assumes "x < 48" "z < 48"
  shows "unat (neighborhood_height_map region ! (x + z * 48)) = scan_down (\<lambda>y. target_light_block (block_at region (x, y, z)) \<noteq> 0) 128"
proof -
  have "scan_down stop 128 < 256" for stop using scan_down_bound [of stop 128] by simp
  then show ?thesis using assms by (simp add: neighborhood_height_map_def edge_numerals nth_raster unat_of_nat)
qed

lemma sky_seeds_set:
  "((x, y, z), v) \<in> set (sky_seeds heights) \<longleftrightarrow> x < 48 \<and> z < 48 \<and> unat (heights ! (x + z * 48)) \<le> y \<and> y < 128 \<and> v = 15"
  unfolding sky_seeds_def edge_numerals in_concat_map by (auto simp: image_iff)

lemma block_seeds_set:
  "((x, y, z), v) \<in> set (block_seeds region) \<longleftrightarrow>
     x < 48 \<and> y < 128 \<and> z < 48 \<and> v \<noteq> 0 \<and> v = target_light_emission (block_at region (x, y, z))"
  unfolding block_seeds_def edge_numerals set_filter mem_Collect_eq in_concat_map by (auto simp: image_iff simp del: block_at.simps)

lemma sky_seeds_distinct: "distinct (map fst (sky_seeds heights))"
  unfolding sky_seeds_def map_concat map_map comp_def fst_conv
  by (intro distinct_concat_map) (auto simp: distinct_map inj_on_def)

lemma block_seeds_distinct: "distinct (map fst (block_seeds region))"
proof -
  have "distinct (map fst (concat (map (\<lambda>y. concat (map (\<lambda>z. map (\<lambda>x. ((x, y, z), target_light_emission (block_at region (x, y, z))))
      [0..<NEIGHBORHOOD_EDGE]) [0..<NEIGHBORHOOD_EDGE])) [0..<HEIGHT])))"
    unfolding map_concat map_map comp_def fst_conv
    by (intro distinct_concat_map) (auto simp: distinct_map inj_on_def)
  then show ?thesis unfolding block_seeds_def by (rule distinct_map_filter)
qed

lemma sky_light_exact:
  "\<exists>sky. propagate_sky_light region (neighborhood_height_map region) = Some sky \<and> length sky = NEIGHBORHOOD_VOLUME
     \<and> (\<forall>p \<in> light_cells. level sky p = light_level region (open_sky region) p)"
  unfolding propagate_sky_light_def
proof (rule seeded_flood [OF sky_seeds_distinct])
  let ?seeds = "sky_seeds (neighborhood_height_map region)"
  have seed: "((x, y, z), v) \<in> set ?seeds \<longleftrightarrow> (x, y, z) \<in> light_cells \<and> open_sky region (x, y, z) = 15 \<and> v = 15" for x y z v
    by (auto simp: sky_seeds_set neighborhood_height light_cells_def scan_down_le)
  then show "fst ` set ?seeds \<subseteq> light_cells" by auto
  show "open_sky region p = unat v" if "(p, v) \<in> set ?seeds" for p v
    using that seed by (cases p) (auto simp del: open_sky.simps)
  show "open_sky region p = 0" if "p \<in> light_cells" "p \<notin> fst ` set ?seeds" for p
  proof -
    obtain x y z where p: "p = (x, y, z)" by (metis prod_cases3)
    have "(p, 15) \<notin> set ?seeds" using that(2) by force
    then have "open_sky region p \<noteq> 15" using seed that(1) p by blast
    then show ?thesis by (auto simp: p split: if_splits)
  qed
qed

lemma block_light_exact:
  "\<exists>block. propagate_block_light region = Some block \<and> length block = NEIGHBORHOOD_VOLUME
     \<and> (\<forall>p \<in> light_cells. level block p = light_level region (emission region) p)"
  unfolding propagate_block_light_def
proof (rule seeded_flood [OF block_seeds_distinct])
  show "fst ` set (block_seeds region) \<subseteq> light_cells" by (auto simp: block_seeds_set light_cells_def)
  show "emission region p = unat v" if "(p, v) \<in> set (block_seeds region)" for p v
    using that by (cases p) (simp add: block_seeds_set emission_def)
  show "emission region p = 0" if "p \<in> light_cells" "p \<notin> fst ` set (block_seeds region)" for p
  proof -
    obtain x y z where p: "p = (x, y, z)" by (metis prod_cases3)
    have "(p, target_light_emission (block_at region p)) \<notin> set (block_seeds region)" using that(2) by force
    then have "target_light_emission (block_at region p) = 0"
      using that(1) by (simp only: p block_seeds_set light_cells_def) auto
    then show ?thesis by (simp add: emission_def)
  qed
qed

section \<open>The centre\<close>

lemma light_level_bound: "(\<And>q. source q \<le> b) \<Longrightarrow> light_level region source p \<le> b"
proof -
  assume b: "\<And>q. source q \<le> b"
  then have "{s. lit region source p s} \<subseteq> {..b}" using lit_bound by blast
  then have "finite {s. lit region source p s}" by (rule finite_subset) simp
  then show ?thesis unfolding light_level_def using \<open>_ \<subseteq> {..b}\<close> by (intro Max.boundedI) auto
qed

lemma emission_bound: "emission region p \<le> 15"
  by (simp add: emission_def target_light_emission_def)

lemma open_sky_bound: "open_sky region p \<le> 15"
  by (cases p) simp

lemma center_positions_set: "(x, y, z) \<in> set center_positions \<longleftrightarrow> x < 16 \<and> y < 128 \<and> z < 16"
  unfolding center_positions_def edge_numerals in_concat_map by (auto simp: image_iff)

lemma pack_center_fold:
  assumes "\<And>x y z. (x, y, z) \<in> set ps \<Longrightarrow> x < 16 \<and> y < 128 \<and> z < 16 \<and> f (x, y, z) \<le> 0x0f" and "length packed = NIBBLE_BYTES"
    and "x < 16" "z < 16"
  shows "length (fold (\<lambda>(x, y, z). write_nibble (plane_index x y z) (f (x, y, z))) ps packed) = NIBBLE_BYTES
    \<and> read_nibble (fold (\<lambda>(x, y, z). write_nibble (plane_index x y z) (f (x, y, z))) ps packed) (plane_index x y z)
      = (if (x, y, z) \<in> set ps then f (x, y, z) else read_nibble packed (plane_index x y z))"
  using assms(1,2)
proof (induction ps arbitrary: packed)
  case (Cons p ps)
  obtain a b c where p: "p = (a, b, c)" by (metis prod_cases3)
  have bounds: "a < 16" "b < 128" "c < 16" "f p \<le> 0x0f" using Cons.prems(1) [of a b c] by (simp_all add: p)
  let ?next = "write_nibble (plane_index a b c) (f p) packed"
  have len: "length ?next = NIBBLE_BYTES" using Cons.prems(2) by simp
  have "read_nibble ?next (plane_index x y z) = (if p = (x, y, z) then f (x, y, z) else read_nibble packed (plane_index x y z))"
    using read_write_nibble [of "plane_index a b c" packed "f p" "plane_index x y z"] bounds plane_index_bound [of a c b]
      plane_index_inj [of a c x z b y] assms(3,4) Cons.prems(2) by (auto simp: p shape_numerals)
  then show ?case using Cons.IH [OF Cons.prems(1) len] p by auto
qed simp

lemma pack_center_exact:
  assumes "\<And>p. p \<in> light_cells \<Longrightarrow> level light p \<le> 15" and "x < 16" "y < 128" "z < 16"
  shows "length (pack_center_light light) = NIBBLE_BYTES
    \<and> read_nibble (pack_center_light light) (plane_index x y z) = light ! idx (x + 16, y, z + 16)"
proof -
  have small: "light ! idx (a + 16, b, c + 16) \<le> 0x0f" if "a < 16" "b < 128" "c < 16" for a b c
    using assms(1) [of "(a + 16, b, c + 16)"] that by (simp add: light_cells_def word_le_nat_alt)
  then show ?thesis unfolding pack_center_light_def
    using pack_center_fold [of center_positions "\<lambda>(x, y, z). light ! idx (x + 16, y, z + 16)" "replicate NIBBLE_BYTES 0" x z y] assms(2-)
    by (simp add: center_positions_set)
qed

text \<open>
  C18: The final lighting of a generated chunk ends and is exact. For every well-formed neighbourhood both light floods return; the
  height of each centre column is the least height above which no block stops light; and the sky and block light stored for each
  block of the centre chunk is the strongest light that reaches it, from open sky or from an emitting block of the
  neighbourhood, losing the opacity of every block it enters.
\<close>

theorem finalized_lighting_exact:
  assumes "neighborhood_ok region"
  shows "\<exists>out. finalize_center_lighting region = Some out
    \<and> length (final_height_map out) = COLUMN_COUNT \<and> length (final_sky_light out) = NIBBLE_BYTES \<and> length (final_block_light out) = NIBBLE_BYTES
    \<and> (\<forall>x z h. x < 16 \<longrightarrow> z < 16 \<longrightarrow>
         (unat (final_height_map out ! (x + z * 16)) \<le> h \<longleftrightarrow> (\<forall>y \<in> {h..<128}. target_light_block (block_at region (x + 16, y, z + 16)) = 0)))
    \<and> (\<forall>x y z. x < 16 \<longrightarrow> y < 128 \<longrightarrow> z < 16 \<longrightarrow>
         unat (read_nibble (final_sky_light out) (plane_index x y z)) = light_level region (open_sky region) (x + 16, y, z + 16)
       \<and> unat (read_nibble (final_block_light out) (plane_index x y z)) = light_level region (emission region) (x + 16, y, z + 16))"
proof -
  obtain sky where sky: "propagate_sky_light region (neighborhood_height_map region) = Some sky"
      "\<And>p. p \<in> light_cells \<Longrightarrow> level sky p = light_level region (open_sky region) p" using sky_light_exact by blast
  obtain block where block: "propagate_block_light region = Some block"
      "\<And>p. p \<in> light_cells \<Longrightarrow> level block p = light_level region (emission region) p" using block_light_exact by blast
  have low: "level sky p \<le> 15" "level block p \<le> 15" if "p \<in> light_cells" for p
    using sky(2) [OF that] block(2) [OF that] light_level_bound open_sky_bound emission_bound by metis+
  have cell: "(x + 16, y, z + 16) \<in> light_cells" if "x < 16" "y < 128" "z < 16" for x y z :: nat using that by (simp add: light_cells_def)
  have height: "unat (center_height_map (neighborhood_height_map region) ! (x + z * 16)) \<le> h
      \<longleftrightarrow> (\<forall>y \<in> {h..<128}. target_light_block (block_at region (x + 16, y, z + 16)) = 0)" if "x < 16" "z < 16" for x z h
    using that neighborhood_height [of "x + 16" "z + 16" region]
    by (simp add: center_height_map_def nth_raster edge_numerals scan_down_le)
  have "length (pack_center_light sky) = NIBBLE_BYTES" "length (pack_center_light block) = NIBBLE_BYTES"
    using pack_center_exact [OF low(1), of 0 0 0] pack_center_exact [OF low(2), of 0 0 0] by simp_all
  moreover have "finalize_center_lighting region = Some \<lparr>final_height_map = center_height_map (neighborhood_height_map region),
      final_sky_light = pack_center_light sky, final_block_light = pack_center_light block\<rparr>"
    by (simp add: finalize_center_lighting_def sky(1) block(1))
  moreover have "unat (read_nibble (pack_center_light sky) (plane_index x y z)) = light_level region (open_sky region) (x + 16, y, z + 16)"
      "unat (read_nibble (pack_center_light block) (plane_index x y z)) = light_level region (emission region) (x + 16, y, z + 16)"
    if "x < 16" "y < 128" "z < 16" for x y z
    using pack_center_exact [OF low(1) that] pack_center_exact [OF low(2) that] sky(2) [OF cell [OF that]] block(2) [OF cell [OF that]] by simp_all
  ultimately show ?thesis using height by (simp add: center_height_map_def shape_numerals)
qed

definition air_region :: "unit PopulationNeighborhood" where
  "air_region = from_planes () (ChunkCoord 3 (- 2)) (replicate 9 \<lparr>plane_states = replicate BLOCK_COUNT 0, plane_biome_ids = replicate COLUMN_COUNT 1,
     plane_generation_height_map = replicate COLUMN_COUNT 0, plane_extra_data = [], plane_chests = []\<rparr>)"

theorem finalized_lighting_exact_witness:
  "neighborhood_ok air_region \<and> (\<exists>out. finalize_center_lighting air_region = Some out \<and> length (final_sky_light out) = 16384)"
proof -
  have ok: "neighborhood_ok air_region" by (simp add: neighborhood_ok_def air_region_def from_planes_def list_all_iff planes_ok_def)
  from finalized_lighting_exact [OF this] ok show ?thesis by (auto simp: shape_numerals)
qed

end
