(* ===== verification/Spec2Isabelle.thy ===== *)
theory Spec2Isabelle
  imports ChunkWire Host RegionExample Metadata BiomeSource Light
begin

text \<open>
  Verification of the native core of Cobblestone, a server for the fixed target MCPE 0.15.10 (game protocol 84). The Rust crates
  under \<open>native/\<close> own identity, the resident world, the wire format, sessions, persistence and world generation; PHP drives
  them from outside.

  \<^bold>\<open>How the parts interact.\<close> The runtime crate hands out generational handles and decides which runtime owns a value or a region. The
  world crate keeps resident chunks with revisions, pins and a change log. A session joins through a state machine, plans which
  chunks its view needs, pins them, and has them sent; the host runs many sessions and is the only one to touch them. Chunks become
  packets through the wire crate, with a cache keyed by revisions. The storage crate writes chunk records into region files. World
  generation fills new chunks from a seed.

  \<^bold>\<open>Theories and sources.\<close>
  \<^item> \<open>Prelude\<close>: widths, \<open>Result\<close> as a sum, hash maps and ordered maps behind the locale \<open>dictionary\<close>, row-major windows.
  \<^item> \<open>Arena\<close> (\<open>runtime/src/runtime.rs\<close>, \<open>handle.rs\<close>, \<open>arena.rs\<close>): the arena refines a map from handles to values; a removed handle
    is never live again.
  \<^item> \<open>Ownership\<close> (\<open>runtime/src/ownership\<close>, \<open>region.rs\<close>): the locale \<open>epoch_gate\<close> is the contract of the owner-gated arena and of the
    region directory; an ended lifetime or routing epoch is rejected for ever.
  \<^item> \<open>Binary\<close>, \<open>Framing\<close>, \<open>Nbt\<close>, \<open>Packet\<close> (\<open>wire/src\<close>): readers and writers, batches, NBT, bootstrap packets and movement; every codec
    is shown to be a partial inverse with its limits enforced.
  \<^item> \<open>Target\<close>, \<open>Chunk\<close>, \<open>WorldStore\<close> (\<open>target/src\<close>, \<open>world/src/lib.rs\<close>, \<open>chunk.rs\<close>, \<open>scalar.rs\<close>, \<open>patch.rs\<close>, \<open>revision.rs\<close>,
    \<open>residency.rs\<close>, \<open>change_log.rs\<close>): every operation of the store with its errors; the store invariant over all reachable
    states, exactness of patches, eviction and save selection, completeness of the change log.
  \<^item> \<open>ChunkWire\<close> (\<open>wire/src/chunk.rs\<close>, \<open>update.rs\<close>, \<open>extension/src/world/wire.rs\<close>): chunk packets and their cache, which is shown to be
    transparent under revision-tracked operations.
  \<^item> \<open>Float32\<close>, \<open>Float64\<close>: the IEEE operations the sources use, as exact results rounded once.
  \<^item> \<open>View\<close>, \<open>Session\<close>, \<open>Host\<close> (\<open>session/src\<close>): view geometry and pin owners behind the locale \<open>pin_ledger\<close>, the join state
    machine, and the host. Pin counts are exact in every reachable state, sessions release what they held, accepting and completing
    are all or nothing.
  \<^item> \<open>Payload\<close>, \<open>RecordCodec\<close> (\<open>storage/src/record\<close>): the stored form of a chunk and its round trip.
  \<^item> \<open>Files\<close>: files with a failure at any operation and with the images a crash may leave. \<open>Region\<close>, \<open>RegionStore\<close>, \<open>RegionCommit\<close>,
    \<open>RegionCompact\<close>, \<open>RegionExample\<close> (\<open>storage/src/region.rs\<close>, \<open>region/\<close>): region files refine a map from positions to chunks;
    saves are atomic under failures and crashes, compaction keeps the map.
  \<^item> \<open>Metadata\<close> (\<open>storage/src/metadata.rs\<close>, \<open>metadata/\<close>, \<open>generator_state.rs\<close>): the two single-file codecs and their publication;
    replacing the metadata is atomic under any failing step.
  \<^item> \<open>BiomeLayers\<close>, \<open>BiomeArea\<close>, \<open>BiomeSource\<close> (\<open>world/src/biome_source\<close>): the layer graph. Sampling a window equals a pointwise
    reference, and only registered biomes are emitted, so the panics are unreachable.
  \<^item> \<open>MtRandom\<close> (\<open>world/src/terrain_shape/noise.rs\<close>): the generator is MT19937.
  \<^item> \<open>Population\<close>, \<open>Light\<close> (\<open>world/src/population.rs\<close>, \<open>population_light.rs\<close>): the populated neighbourhood and the final lighting, whose
    flood ends and leaves the strongest light at every block.

  \<^bold>\<open>Conventions.\<close> A Rust integer is a word of its width; \<open>usize\<close> is a natural number with the 64-bit bound written where the code
  checks it. An error is a value of an error datatype. A panic is an error or \<open>None\<close>, and an invariant shows it unreachable. A
  method on \<open>&mut self\<close> returns the new state, also on failure. A lock held for the whole of a method makes it one step. \<open>Arc\<close> around
  immutable data is the data.

  \<^bold>\<open>Parameters.\<close> Code outside the repository is an argument with a named law. \<open>zlib_law\<close> (crate flate2) and \<open>zstd_law\<close>: decompression
  restores what was compressed. \<open>channel_law\<close>: a bounded queue accepts, or refuses without effect. CRC-32C has no law for reading back;
  crash atomicity assumes \<open>tear_detected\<close>, that the checksum tells a torn index page from a whole one, and compaction
  \<open>creates_empty\<close>, that a newly created file is empty.

  \<^bold>\<open>Bounds.\<close> The biome reference needs a margin below 20 cells per layer path, so windows that stay 64 blocks inside the coordinate
  range are covered. The spawn search and the light flood are loops without a bound, modelled as partial functions; the
  flood is shown to end on every neighbourhood, by the sum of missing light and then the queue length. Whether a spawn exists for
  every seed is not claimed. Region offsets stay below the size limit of a file.

  \<^bold>\<open>Not modelled.\<close> The RakNet transport and the PHP bindings are wrappers around third-party crates. The asynchronous storage services
  are threads around the modelled region operations. The terrain generator rests on trigonometric functions whose results the sources do not fix; features and
  structures place tables of blocks through the modelled neighbourhood. Starting and joining threads, and the asynchronous select
  loop of the host, have no model; the steps they run have.
\<close>

end
